(* ===== verification/PyBase.thy ===== *)
theory PyBase
  imports Main "HOL-Library.Multiset" "HOL-Library.AList" "HOL-Library.Sublist"
begin

text \<open>
  Shared vocabulary of the development: the exceptions of the Python sources as a datatype,
  results as sums (\<open>Inl\<close> the exception, \<open>Inr\<close> the value), indexing and slicing of
  sequences with Python's negative indices, dictionaries as association lists, the string
  operations the sources use, and the generic lemmas the component theories rest on.

  Dictionaries. A dictionary is an association list with distinct keys; assignment to an
  existing key keeps its place and a new key is appended (\<^const>\<open>AList.update\<close>). The
  sources are Python 2, where the order of \<open>d.keys()\<close> is arbitrary: an operation that
  iterates over a dictionary takes a function \<open>ko\<close> which maps the list of keys to the order
  in which they are visited, and theorems about it assume only \<open>key_order ko\<close>, that the
  visited keys are a permutation of the dictionary's keys.
\<close>

section \<open>Exceptions and fallible results\<close>

datatype py_error =
    KeyError | IndexError | ZeroDivisionError | ValueError | TypeError | AttributeError
  | UnboundLocalError | AssertionError | OSError | IOError | PyException string | SystemExit int

type_synonym 'a res = "py_error + 'a"

named_theorems res_simps \<open>rewriting of fallible computations\<close>
named_theorems py_simps \<open>characteristic equations of the Python operations\<close>

definition bind_res :: "'exn + 'v \<Rightarrow> ('v \<Rightarrow> 'exn + 'r) \<Rightarrow> 'exn + 'r" where
  "bind_res m k = (case m of Inr v \<Rightarrow> k v | Inl exn \<Rightarrow> Inl exn)"

lemma bind_res_simps [simp, res_simps]:
  "bind_res (Inl e) f = Inl e"
  "bind_res (Inr x) f = f x"
  by (simp_all add: bind_res_def)

lemma bind_res_assoc [res_simps]: "bind_res (bind_res m f) g = bind_res m (\<lambda>x. bind_res (f x) g)"
  by (cases m) simp_all

lemma bind_res_Inr_iff [res_simps]: "bind_res m k = Inr r \<longleftrightarrow> (\<exists>v. m = Inr v \<and> k v = Inr r)"
  by (cases m) auto

lemma bind_res_Inl_iff [res_simps]:
  "bind_res m f = Inl e \<longleftrightarrow> m = Inl e \<or> (\<exists>x. m = Inr x \<and> f x = Inl e)"
  by (cases m) auto

lemma bind_res_cong [fundef_cong]:
  "m = m' \<Longrightarrow> (\<And>x. m' = Inr x \<Longrightarrow> f x = f' x) \<Longrightarrow> bind_res m f = bind_res m' f'"
  by (cases m') auto

text \<open>A \<open>for\<close> loop with a fallible body: it stops at the first exception.\<close>

fun fold_res :: "('a \<Rightarrow> 's \<Rightarrow> 'e + 's) \<Rightarrow> 'a list \<Rightarrow> 's \<Rightarrow> 'e + 's" where
  "fold_res f [] s = Inr s"
| "fold_res f (x # xs) s = bind_res (f x s) (fold_res f xs)"

lemma fold_res_append [res_simps]:
  "fold_res f (xs @ ys) s = bind_res (fold_res f xs s) (fold_res f ys)"
  by (induction xs arbitrary: s) (auto simp: bind_res_assoc intro: bind_res_cong)

lemma fold_res_invariant:
  assumes "fold_res f xs s = Inr t" and "P s"
    and "\<And>x s s'. x \<in> set xs \<Longrightarrow> P s \<Longrightarrow> f x s = Inr s' \<Longrightarrow> P s'"
  shows "P t"
  using assms
proof (induction xs arbitrary: s)
  case (Cons x xs)
  then obtain s' where "f x s = Inr s'" "fold_res f xs s' = Inr t"
    by (auto simp: bind_res_Inr_iff)
  with Cons show ?case by (metis list.set_intros)
qed simp

lemma fold_res_total:
  assumes "P s" and "\<And>x s. x \<in> set xs \<Longrightarrow> P s \<Longrightarrow> \<exists>s'. f x s = Inr s' \<and> P s'"
  shows "\<exists>t. fold_res f xs s = Inr t \<and> P t"
  using assms
proof (induction xs arbitrary: s)
  case (Cons x xs)
  then obtain s' where s': "f x s = Inr s'" "P s'" by (meson list.set_intros(1))
  with Cons obtain t where "fold_res f xs s' = Inr t" "P t" by (meson list.set_intros(2))
  with s' show ?case by simp
qed simp

text \<open>A list comprehension with a fallible element.\<close>

fun map_res :: "('v \<Rightarrow> 'exn + 'r) \<Rightarrow> 'v list \<Rightarrow> 'exn + 'r list" where
  "map_res f [] = Inr []"
| "map_res f (x # xs) = bind_res (f x) (\<lambda>y. bind_res (map_res f xs) (\<lambda>ys. Inr (y # ys)))"

lemma map_res_cong [fundef_cong]:
  "us = vs \<Longrightarrow> (\<And>v. v \<in> set vs \<Longrightarrow> h v = h' v) \<Longrightarrow> map_res h us = map_res h' vs"
  by (induction vs arbitrary: us) auto

lemma map_res_all: "(\<And>x. x \<in> set xs \<Longrightarrow> f x = Inr (g x)) \<Longrightarrow> map_res f xs = Inr (map g xs)"
  by (induction xs) simp_all

lemma map_res_append:
  "map_res f (xs @ ys) = bind_res (map_res f xs) (\<lambda>a. bind_res (map_res f ys) (\<lambda>b. Inr (a @ b)))"
  by (induction xs) (auto simp: bind_res_assoc intro!: bind_res_cong split: sum.splits
       simp: bind_res_def)

lemma map_res_Inl: "x \<in> set xs \<Longrightarrow> f x = Inl e \<Longrightarrow> \<exists>e'. map_res f xs = Inl e'"
  by (induction xs) (auto simp: bind_res_def split: sum.splits)

section \<open>Sequences: indexing and slicing\<close>

definition py_index :: "'a list \<Rightarrow> int \<Rightarrow> 'a res" where
  "py_index seq pos =
     (let len = int (length seq); at = (if 0 \<le> pos then pos else pos + len)
      in if at < 0 \<or> len \<le> at then Inl IndexError else Inr (seq ! nat at))"

definition slice_bound :: "nat \<Rightarrow> int \<Rightarrow> nat" where
  "slice_bound n i = (if i < 0 then nat (max 0 (int n + i)) else min n (nat i))"

definition py_slice :: "'a list \<Rightarrow> int \<Rightarrow> int \<Rightarrow> 'a list" where
  "py_slice xs i j =
     take (slice_bound (length xs) j - slice_bound (length xs) i)
       (drop (slice_bound (length xs) i) xs)"

definition py_slice_from :: "'a list \<Rightarrow> int \<Rightarrow> 'a list" where
  "py_slice_from xs i = drop (slice_bound (length xs) i) xs"

definition py_slice_to :: "'a list \<Rightarrow> int \<Rightarrow> 'a list" where
  "py_slice_to xs j = take (slice_bound (length xs) j) xs"

lemma py_index_nonneg [py_simps]:
  "i < length xs \<Longrightarrow> py_index xs (int i) = Inr (xs ! i)"
  by (simp add: py_index_def)

lemma py_index_out [py_simps]: "length xs \<le> i \<Longrightarrow> py_index xs (int i) = Inl IndexError"
  by (simp add: py_index_def)

lemma py_index_last [py_simps]: "xs \<noteq> [] \<Longrightarrow> py_index xs (- 1) = Inr (last xs)"
  by (cases xs rule: rev_cases) (auto simp: py_index_def nat_add_distrib nth_append)

lemma py_index_Inr_mem: "py_index xs i = Inr x \<Longrightarrow> x \<in> set xs"
  by (auto simp: py_index_def Let_def split: if_splits)

lemma slice_bound_nat [py_simps]: "slice_bound n (int i) = min n i"
  by (simp add: slice_bound_def)

lemma slice_bound_le [simp]: "slice_bound n i \<le> n"
  by (auto simp: slice_bound_def)

lemma slice_bound_neg [py_simps]: "0 < k \<Longrightarrow> slice_bound n (- int k) = n - k"
  by (auto simp: slice_bound_def)

lemma py_slice_nat [py_simps]:
  "py_slice xs (int i) (int j) = take (min (length xs) j - min (length xs) i) (drop i xs)"
  by (cases "i \<le> length xs") (simp_all add: py_slice_def slice_bound_nat)

lemma py_slice_set: "set (py_slice xs i j) \<subseteq> set xs"
  by (auto simp: py_slice_def dest: in_set_takeD in_set_dropD)

section \<open>Dictionaries\<close>

type_synonym ('k, 'v) dict = "('k \<times> 'v) list"

abbreviation keys :: "('k, 'v) dict \<Rightarrow> 'k list" where
  "keys d \<equiv> map fst d"

definition wf_dict :: "('k, 'v) dict \<Rightarrow> bool" where
  "wf_dict d \<longleftrightarrow> distinct (keys d)"

definition key_order :: "('k list \<Rightarrow> 'k list) \<Rightarrow> bool" where
  "key_order ko \<longleftrightarrow> (\<forall>ks. mset (ko ks) = mset ks)"

lemma key_orderD [dest]: "key_order ko \<Longrightarrow> mset (ko ks) = mset ks"
  by (simp add: key_order_def)

lemma key_order_set: "key_order ko \<Longrightarrow> set (ko ks) = set ks"
  by (metis key_orderD mset_eq_setD)

lemma key_order_distinct: "key_order ko \<Longrightarrow> distinct (ko ks) = distinct ks"
  by (metis key_orderD mset_eq_imp_distinct_iff)

lemma key_order_Nil: "key_order ko \<Longrightarrow> ko ks = [] \<longleftrightarrow> ks = []"
  by (metis key_orderD mset_zero_iff_right mset.simps(1))

lemma key_order_id [simp]: "key_order id" "key_order (\<lambda>ks. ks)" "key_order rev"
  by (simp_all add: key_order_def)

lemma wf_dict_Nil [simp]: "wf_dict []"
  by (simp add: wf_dict_def)

lemma wf_dict_update [simp]: "wf_dict d \<Longrightarrow> wf_dict (AList.update k v d)"
  by (simp add: wf_dict_def distinct_update)

lemma wf_dict_delete [simp]: "wf_dict d \<Longrightarrow> wf_dict (AList.delete k d)"
  by (simp add: wf_dict_def distinct_delete)

lemma set_keys_update [simp]: "fst ` set (AList.update k v d) = insert k (fst ` set d)"
  using dom_update [of k v d] unfolding dom_map_of_conv_image_fst by simp

lemma set_keys_delete [simp]: "fst ` set (AList.delete k d) = fst ` set d - {k}"
  by (auto simp: AList.delete_eq image_iff)

lemma map_of_update [simp]: "map_of (AList.update k v d) = (map_of d)(k \<mapsto> v)"
  by (rule update_conv')

lemma map_of_delete [simp]: "map_of (AList.delete k d) = (map_of d)(k := None)"
  by (rule delete_conv')

lemma length_delete_less: "k \<in> fst ` set d \<Longrightarrow> length (AList.delete k d) < length d"
  by (induction d) (auto simp: AList.delete_eq le_imp_less_Suc length_filter_le)

lemma length_delete_less_pair: "(k, v) \<in> set d \<Longrightarrow> length (AList.delete k d) < length d"
  by (rule length_delete_less) force

lemma map_of_key_None: "map_of d k = None \<longleftrightarrow> k \<notin> fst ` set d"
  by (rule map_of_eq_None_iff)

section \<open>Strings\<close>

definition str_join :: "string \<Rightarrow> string list \<Rightarrow> string" where
  "str_join sep xs = (case xs of [] \<Rightarrow> [] | y # ys \<Rightarrow> y @ concat (map (\<lambda>s. sep @ s) ys))"

fun split_char :: "'a \<Rightarrow> 'a list \<Rightarrow> 'a list list" where
  "split_char c [] = [[]]"
| "split_char c (x # xs) =
     (if x = c then [] # split_char c xs
      else (case split_char c xs of [] \<Rightarrow> [[x]] | w # ws \<Rightarrow> (x # w) # ws))"

definition is_space :: "char \<Rightarrow> bool" where
  "is_space c \<longleftrightarrow> c \<in> {CHR '' '', CHR 0x09, CHR 0x0A, CHR 0x0B, CHR 0x0C, CHR 0x0D}"

definition str_strip :: "string \<Rightarrow> string" where
  "str_strip s = rev (dropWhile is_space (rev (dropWhile is_space s)))"

abbreviation startswith :: "string \<Rightarrow> string \<Rightarrow> bool" where
  "startswith s p \<equiv> prefix p s"

text \<open>The substring test \<open>p in s\<close> of Python strings.\<close>

abbreviation str_in :: "string \<Rightarrow> string \<Rightarrow> bool" where
  "str_in p s \<equiv> sublist p s"

lemma split_char_nonempty [simp]: "split_char c xs \<noteq> []"
  by (induction xs) (auto split: list.splits)

lemma split_char_no_sep: "w \<in> set (split_char c xs) \<Longrightarrow> c \<notin> set w"
  by (induction xs arbitrary: w) (auto split: list.splits if_splits)

lemma split_char_append:
  "c \<notin> set w \<Longrightarrow> split_char c (w @ c # xs) = w # split_char c xs"
  by (induction w) auto

lemma split_char_plain: "c \<notin> set w \<Longrightarrow> split_char c w = [w]"
  by (induction w) auto

text \<open>Decimal numerals, as \<open>str\<close> and \<open>%d\<close> print them and \<open>int\<close> reads them.\<close>

definition digit_char :: "nat \<Rightarrow> char" where
  "digit_char d = char_of (48 + d)"

fun nat_str :: "nat \<Rightarrow> string" where
  "nat_str n = (if n < 10 then [digit_char n] else nat_str (n div 10) @ [digit_char (n mod 10)])"

declare nat_str.simps [simp del]

definition int_str :: "int \<Rightarrow> string" where
  "int_str i = (if i < 0 then ''-'' @ nat_str (nat (- i)) else nat_str (nat i))"

definition is_digit :: "char \<Rightarrow> bool" where
  "is_digit c \<longleftrightarrow> 48 \<le> (of_char c :: nat) \<and> (of_char c :: nat) \<le> 57"

definition digit_val :: "char \<Rightarrow> nat" where
  "digit_val c = of_char c - 48"

definition nat_of_digits :: "string \<Rightarrow> nat" where
  "nat_of_digits s = foldl (\<lambda>a c. 10 * a + digit_val c) 0 s"

lemma digit_char_is_digit [simp]: "d < 10 \<Longrightarrow> is_digit (digit_char d)"
  by (simp add: is_digit_def digit_char_def)

lemma digit_val_char [simp]: "d < 10 \<Longrightarrow> digit_val (digit_char d) = d"
  by (simp add: digit_val_def digit_char_def)

lemma nat_str_digits: "c \<in> set (nat_str n) \<Longrightarrow> is_digit c"
proof (induction n rule: nat_str.induct)
  case (1 n)
  then show ?case by (subst (asm) (2) nat_str.simps) (auto split: if_splits)
qed

lemma nat_str_nonempty [simp]: "nat_str n \<noteq> []"
  by (subst nat_str.simps) simp

lemma nat_of_digits_nat_str [simp]: "nat_of_digits (nat_str n) = n"
proof (induction n rule: nat_str.induct)
  case (1 n)
  show ?case
  proof (cases "n < 10")
    case True
    then show ?thesis by (subst nat_str.simps) (simp add: nat_of_digits_def)
  next
    case False
    with 1 have "nat_of_digits (nat_str (n div 10)) = n div 10" by simp
    with False show ?thesis by (subst nat_str.simps) (simp add: nat_of_digits_def)
  qed
qed

text \<open>Pieces of the regular expressions the sources use: a literal, and \<open>[0-9]+\<close>.\<close>

definition re_lit :: "string \<Rightarrow> string \<Rightarrow> string option" where
  "re_lit p s = (if prefix p s then Some (drop (length p) s) else None)"

definition re_digits :: "string \<Rightarrow> (string \<times> string) option" where
  "re_digits s = (if takeWhile is_digit s = [] then None
                  else Some (takeWhile is_digit s, dropWhile is_digit s))"

lemma re_lit_append [simp]: "re_lit p (p @ s) = Some s"
  by (simp add: re_lit_def)

lemma re_digits_append:
  assumes "d \<noteq> []" "\<forall>c \<in> set d. is_digit c" "s = [] \<or> \<not> is_digit (hd s)"
  shows "re_digits (d @ s) = Some (d, s)"
proof -
  have "takeWhile is_digit (d @ s) = d" "dropWhile is_digit (d @ s) = s"
    using assms by (auto simp: takeWhile_append dropWhile_append takeWhile_eq_Nil_iff
        intro: dropWhile_eq_self_iff [THEN iffD2])
  then show ?thesis using assms(1) by (simp add: re_digits_def)
qed

lemma re_digits_nat_str:
  "s = [] \<or> \<not> is_digit (hd s) \<Longrightarrow> re_digits (nat_str n @ s) = Some (nat_str n, s)"
  by (rule re_digits_append) (auto dest: nat_str_digits)

section \<open>List lemmas\<close>

lemma in_set_take_drop: "x \<in> set xs \<Longrightarrow> x \<in> set (take n xs) \<or> x \<in> set (drop n xs)"
  by (metis Un_iff append_take_drop_id set_append)

lemma sum_list_const: "\<forall>x \<in> set xs. f x = (k::nat) \<Longrightarrow> sum_list (map f xs) = length xs * k"
  by (induction xs) auto

lemma filter_eq_take_drop:
  assumes "\<And>k. k < length xs \<Longrightarrow> P (xs ! k) \<longleftrightarrow> a \<le> k \<and> k < b" and "a \<le> b" and "b \<le> length xs"
  shows "filter P xs = take (b - a) (drop a xs)"
proof -
  have split: "xs = take a xs @ take (b - a) (drop a xs) @ drop b xs"
    by (metis append_take_drop_id assms(2) drop_drop le_add_diff_inverse2)
  have "filter P (take a xs) = []"
    using assms by (auto simp: filter_empty_conv in_set_conv_nth)
  moreover have "filter P (take (b - a) (drop a xs)) = take (b - a) (drop a xs)"
    using assms by (intro filter_True) (auto simp: in_set_conv_nth)
  moreover have "filter P (drop b xs) = []"
    using assms by (auto simp: filter_empty_conv in_set_conv_nth)
  ultimately show ?thesis by (subst split) (simp only: filter_append, simp)
qed

section \<open>Invariants of step relations\<close>

text \<open>What every step keeps holds in all states that steps reach.\<close>

locale step_invariant =
  fixes step :: "'s \<Rightarrow> 's \<Rightarrow> bool" and inv :: "'s \<Rightarrow> bool"
  assumes step_keeps: "step s t \<Longrightarrow> inv s \<Longrightarrow> inv t"
begin

lemma steps_keep: "step\<^sup>*\<^sup>* s t \<Longrightarrow> inv s \<Longrightarrow> inv t"
  by (induction rule: rtranclp_induct) (auto intro: step_keeps)

lemma always: "inv s \<Longrightarrow> \<forall>t. step\<^sup>*\<^sup>* s t \<longrightarrow> inv t"
  using steps_keep by blast

end

end
