(* ===== verification/PyNum.thy ===== *)
theory PyNum
  imports PyBase Complex_Main
begin

text \<open>
  Python 2 numbers. The sources mix \<open>int\<close> and \<open>float\<close> values and rely on the rules that
  combine them: \<open>/\<close> on two ints rounds towards minus infinity, on anything else it is the
  exact quotient; \<open>%\<close> takes the sign of its divisor; an operation with one float operand
  returns a float; comparisons compare values across both types. A float is modelled by the
  rational number it denotes and float arithmetic as exact rational arithmetic, so rounding
  errors, overflow to infinity and NaN are outside the model.
\<close>

datatype pynum = I int | F rat

fun val :: "pynum \<Rightarrow> rat" where
  "val (I a) = of_int a"
| "val (F r) = r"

fun is_int :: "pynum \<Rightarrow> bool" where
  "is_int (I a) = True"
| "is_int (F r) = False"

fun py_add :: "pynum \<Rightarrow> pynum \<Rightarrow> pynum" where
  "py_add (I a) (I b) = I (a + b)"
| "py_add x y = F (val x + val y)"

fun py_sub :: "pynum \<Rightarrow> pynum \<Rightarrow> pynum" where
  "py_sub (I a) (I b) = I (a - b)"
| "py_sub x y = F (val x - val y)"

fun py_mul :: "pynum \<Rightarrow> pynum \<Rightarrow> pynum" where
  "py_mul (I a) (I b) = I (a * b)"
| "py_mul x y = F (val x * val y)"

fun py_neg :: "pynum \<Rightarrow> pynum" where
  "py_neg (I a) = I (- a)"
| "py_neg (F r) = F (- r)"

fun py_abs :: "pynum \<Rightarrow> pynum" where
  "py_abs (I a) = I \<bar>a\<bar>"
| "py_abs (F r) = F \<bar>r\<bar>"

fun py_div :: "pynum \<Rightarrow> pynum \<Rightarrow> pynum res" where
  "py_div (I a) (I b) = (if b = 0 then Inl ZeroDivisionError else Inr (I (a div b)))"
| "py_div x y = (if val y = 0 then Inl ZeroDivisionError else Inr (F (val x / val y)))"

fun py_mod :: "pynum \<Rightarrow> pynum \<Rightarrow> pynum res" where
  "py_mod (I a) (I b) = (if b = 0 then Inl ZeroDivisionError else Inr (I (a mod b)))"
| "py_mod x y =
     (if val y = 0 then Inl ZeroDivisionError
      else Inr (F (val x - val y * of_int \<lfloor>val x / val y\<rfloor>)))"

definition trunc_rat :: "rat \<Rightarrow> int" where
  "trunc_rat r = (if r < 0 then \<lceil>r\<rceil> else \<lfloor>r\<rfloor>)"

fun py_int :: "pynum \<Rightarrow> pynum" where
  "py_int (I a) = I a"
| "py_int (F r) = I (trunc_rat r)"

definition int_of :: "pynum \<Rightarrow> int" where
  "int_of x = (case x of I a \<Rightarrow> a | F r \<Rightarrow> trunc_rat r)"

definition py_float :: "pynum \<Rightarrow> pynum" where
  "py_float x = F (val x)"

abbreviation py_eq :: "pynum \<Rightarrow> pynum \<Rightarrow> bool" where
  "py_eq x y \<equiv> val x = val y"

abbreviation py_lt :: "pynum \<Rightarrow> pynum \<Rightarrow> bool" where
  "py_lt x y \<equiv> val x < val y"

abbreviation py_le :: "pynum \<Rightarrow> pynum \<Rightarrow> bool" where
  "py_le x y \<equiv> val x \<le> val y"

text \<open>\<open>max(x, y)\<close> and \<open>min(x, y)\<close> return the first argument on a tie.\<close>

definition py_max :: "pynum \<Rightarrow> pynum \<Rightarrow> pynum" where
  "py_max x y = (if py_lt x y then y else x)"

definition py_min :: "pynum \<Rightarrow> pynum \<Rightarrow> pynum" where
  "py_min x y = (if py_lt y x then y else x)"

lemma val_py_add [simp]: "val (py_add x y) = val x + val y"
  by (cases x; cases y) simp_all

lemma val_py_sub [simp]: "val (py_sub x y) = val x - val y"
  by (cases x; cases y) simp_all

lemma val_py_mul [simp]: "val (py_mul x y) = val x * val y"
  by (cases x; cases y) simp_all

lemma val_py_neg [simp]: "val (py_neg x) = - val x"
  by (cases x) simp_all

lemma val_py_abs [simp]: "val (py_abs x) = \<bar>val x\<bar>"
  by (cases x) simp_all

lemma val_py_float [simp]: "val (py_float x) = val x"
  by (simp add: py_float_def)

lemma val_py_max [simp]: "val (py_max x y) = max (val x) (val y)"
  by (simp add: py_max_def)

lemma val_py_min [simp]: "val (py_min x y) = min (val x) (val y)"
  by (simp add: py_min_def)

lemma py_div_float [simp]:
  "\<not> is_int x \<or> \<not> is_int y \<Longrightarrow>
   py_div x y = (if val y = 0 then Inl ZeroDivisionError else Inr (F (val x / val y)))"
  by (cases x; cases y) simp_all

lemma py_div_Inl_iff: "py_div x y = Inl e \<longleftrightarrow> val y = 0 \<and> e = ZeroDivisionError"
  by (cases x; cases y) auto

lemma py_mod_Inl_iff: "py_mod x y = Inl e \<longleftrightarrow> val y = 0 \<and> e = ZeroDivisionError"
  by (cases x; cases y) auto

lemma py_div_total: "val y \<noteq> 0 \<Longrightarrow> \<exists>q. py_div x y = Inr q"
  by (cases x; cases y) auto

lemma py_mod_total: "val y \<noteq> 0 \<Longrightarrow> \<exists>q. py_mod x y = Inr q"
  by (cases x; cases y) auto

lemma rat_mod_bounds:
  fixes x y :: rat
  assumes "0 < y"
  shows "0 \<le> x - y * of_int \<lfloor>x / y\<rfloor>" and "x - y * of_int \<lfloor>x / y\<rfloor> < y"
proof -
  have "of_int \<lfloor>x / y\<rfloor> * y \<le> (x / y) * y"
    using assms by (intro mult_right_mono) auto
  with assms show "0 \<le> x - y * of_int \<lfloor>x / y\<rfloor>" by (simp add: mult.commute)
  have "(x / y) * y < (of_int \<lfloor>x / y\<rfloor> + 1) * y"
    using assms by (intro mult_strict_right_mono) linarith+
  with assms show "x - y * of_int \<lfloor>x / y\<rfloor> < y" by (simp add: algebra_simps)
qed

lemma py_mod_pos:
  assumes "0 < val y" and "py_mod x y = Inr r"
  shows "0 \<le> val r \<and> val r < val y \<and> (\<exists>k. val x - val r = val y * of_int k)"
proof (cases "is_int x \<and> is_int y")
  case True
  then obtain a b where "x = I a" "y = I b" by (cases x; cases y) auto
  moreover have "\<exists>k. a - a mod b = b * k" by (metis minus_mod_eq_mult_div)
  ultimately show ?thesis using assms
    by (auto split: if_splits simp: pos_mod_bound pos_mod_sign
        simp flip: of_int_diff of_int_mult)
next
  case False
  then have "r = F (val x - val y * of_int \<lfloor>val x / val y\<rfloor>)"
    using assms by (cases x; cases y) (auto split: if_splits)
  then show ?thesis using rat_mod_bounds [OF assms(1), of "val x"] by auto
qed

lemma trunc_rat_of_int [simp]: "trunc_rat (of_int a) = a"
  by (simp add: trunc_rat_def)

lemma val_py_int: "val (py_int x) = of_int (int_of x)"
  by (cases x) (simp_all add: int_of_def)

lemma int_of_trunc: "int_of x = trunc_rat (val x)"
  by (cases x) (simp_all add: int_of_def)

lemma trunc_rat_mono: "x \<le> y \<Longrightarrow> trunc_rat x \<le> trunc_rat y"
  unfolding trunc_rat_def
  by (auto simp: ceiling_mono floor_mono)
    (meson ceiling_le_zero less_imp_le not_less order_trans zero_le_floor)

text \<open>A sorted list of numbers, as \<open>l.sort()\<close> leaves it (the sort is stable).\<close>

definition py_sort :: "pynum list \<Rightarrow> pynum list" where
  "py_sort = sort_key val"

lemma py_sort_props [simp]:
  "mset (py_sort xs) = mset xs" "length (py_sort xs) = length xs"
  "sorted (map val (py_sort xs))" "set (py_sort xs) = set xs"
  by (simp_all add: py_sort_def)

end
