(* ===== verification/RadBits.thy ===== *)
theory RadBits
  imports PyNum
begin

text \<open>
  The conversions between integers and strings of binary digits in
  \<open>bindings/python/rad_util.py\<close>: \<open>int2bin\<close>, \<open>bin2int\<close>, \<open>reverse\<close>, \<open>lsb\<close>,
  \<open>gray_encode\<close>, \<open>random_vec\<close> and \<open>binary_range\<close>. The lemmas show that \<open>int2bin\<close> and
  \<open>bin2int\<close> are inverse, that \<open>binary_range\<close> stops and lists exactly the \<open>int2bin\<close> strings in
  order, and that consecutive Gray codes differ in one bit.
\<close>

unbundle bit_operations_syntax

section \<open>Definitions\<close>

definition hex_char :: "nat \<Rightarrow> char" where
  "hex_char d = (if d < 10 then char_of (48 + d) else char_of (87 + d))"

fun hex_digits :: "nat \<Rightarrow> string" where
  "hex_digits n = (if n < 16 then [hex_char n] else hex_digits (n div 16) @ [hex_char (n mod 16)])"

declare hex_digits.simps [simp del]

text \<open>The built-in \<open>hex\<close>, without the suffix \<open>L\<close> of a long, which the code removes.\<close>

definition py_hex :: "int \<Rightarrow> string" where
  "py_hex i = (if i < 0 then ''-0x'' @ hex_digits (nat (- i)) else ''0x'' @ hex_digits (nat i))"

definition hex2bin :: "(char, string) dict" where
  "hex2bin =
    [(CHR ''0'', ''0000''), (CHR ''1'', ''0001''), (CHR ''2'', ''0010''), (CHR ''3'', ''0011''),
     (CHR ''4'', ''0100''), (CHR ''5'', ''0101''), (CHR ''6'', ''0110''), (CHR ''7'', ''0111''),
     (CHR ''8'', ''1000''), (CHR ''9'', ''1001''), (CHR ''a'', ''1010''), (CHR ''b'', ''1011''),
     (CHR ''c'', ''1100''), (CHR ''d'', ''1101''), (CHR ''e'', ''1110''), (CHR ''f'', ''1111'')]"

definition hex2bin_get :: "char \<Rightarrow> string res" where
  "hex2bin_get c = (case map_of hex2bin c of None \<Rightarrow> Inl KeyError | Some s \<Rightarrow> Inr s)"

definition int2bin :: "int \<Rightarrow> int \<Rightarrow> string res" where
  "int2bin i n =
     bind_res (map_res hex2bin_get (py_slice_from (py_hex i) 2)) (\<lambda>parts.
       let result = concat parts in
       if CHR ''1'' \<in> set (py_slice_to result (- n)) then Inl ValueError
       else
         let result = py_slice_from result (- n) in
         Inr (replicate (nat (n - int (length result))) CHR ''0'' @ result))"

definition bit_val :: "char \<Rightarrow> nat" where
  "bit_val c = (if c = CHR ''1'' then 1 else 0)"

definition bits_val :: "string \<Rightarrow> nat" where
  "bits_val s = foldl (\<lambda>a c. 2 * a + bit_val c) 0 s"

text \<open>\<open>int(s, 2)\<close>: surrounding white space, a sign and a prefix \<open>0b\<close> are accepted.\<close>

definition split_sign :: "string \<Rightarrow> bool \<times> string" where
  "split_sign t =
     (case t of [] \<Rightarrow> (False, [])
      | c # r \<Rightarrow> if c = CHR ''-'' then (True, r) else if c = CHR ''+'' then (False, r) else (False, t))"

definition bin2int :: "string \<Rightarrow> int res" where
  "bin2int s =
     (let (neg, u) = split_sign (str_strip s);
          v = (if startswith u ''0b'' \<or> startswith u ''0B'' then drop 2 u else u)
      in if v \<noteq> [] \<and> list_all (\<lambda>c. c = CHR ''0'' \<or> c = CHR ''1'') v
         then Inr (if neg then - int (bits_val v) else int (bits_val v))
         else Inl ValueError)"

definition reverse :: "'a list \<Rightarrow> 'a list" where
  "reverse input_string = foldl (\<lambda>acc c. c # acc) [] input_string"

definition lsb :: "int \<Rightarrow> int \<Rightarrow> int res" where
  "lsb x n = (if n < 0 then Inl TypeError else Inr (x AND (2 ^ nat n - 1)))"

definition gray_encode :: "int \<Rightarrow> int" where
  "gray_encode i = i XOR drop_bit 1 i"

text \<open>
  \<open>random.random()\<close> is the parameter \<open>rnd\<close>: the successive values drawn, each in [0, 1).
  \<open>max_value\<close> is \<open>None\<close> when the argument is left out; the test \<open>if max_value\<close> also fails for 0.
\<close>

fun random_chunks :: "rat list \<Rightarrow> string res" where
  "random_chunks [] = Inr []"
| "random_chunks (r # rs) =
     bind_res (int2bin \<lfloor>2 ^ 10 * r\<rfloor> 10) (\<lambda>c. bind_res (random_chunks rs) (\<lambda>cs. Inr (c @ cs)))"

definition random_vec :: "(nat \<Rightarrow> rat) \<Rightarrow> nat \<Rightarrow> int option \<Rightarrow> string res" where
  "random_vec rnd bits max_value =
     bind_res (random_chunks (map rnd [0..<bits div 10 + 1])) (\<lambda>vector.
     bind_res
       (case max_value of
          None \<Rightarrow> Inr vector
        | Some m \<Rightarrow>
            if m \<noteq> 0 \<and> m < 2 ^ bits - 1 then
              bind_res (bin2int vector) (\<lambda>v.
              bind_res (py_div (I v) (I (2 ^ bits - 1))) (\<lambda>q.
                int2bin (int_of q * m) (int bits)))
            else Inr vector) (\<lambda>vector.
     Inr (py_slice vector 0 (int bits))))"

text \<open>
  \<open>binary_range\<close>: \<open>v\<close> holds the bits least significant first, \<open>toggle\<close> the carries of one
  increment. The inner loop is \<open>br_inner\<close>, the outer loop \<open>br_outer\<close> (\<open>None\<close> would be a loop
  that never ends).
\<close>

function br_inner :: "nat \<Rightarrow> nat \<Rightarrow> string \<Rightarrow> int list \<Rightarrow> string \<times> int list" where
  "br_inner bits i v toggle =
     (if i < bits \<and> toggle ! i = 1 then
        (if v ! i = CHR ''0''
         then br_inner bits (i + 1) (v[i := CHR ''1'']) (toggle[i + 1 := 0])
         else br_inner bits (i + 1) (v[i := CHR ''0'']) (toggle[i + 1 := 1]))
      else (v, toggle))"
  by pat_completeness auto
termination
  by (relation "measure (\<lambda>(bits, i, v, toggle). bits - i)") auto

declare br_inner.simps [simp del]

partial_function (option) br_outer ::
  "nat \<Rightarrow> string \<Rightarrow> int list \<Rightarrow> string list \<Rightarrow> string list option" where
  "br_outer bits v toggle l =
     (if toggle ! bits \<noteq> 1 then
        (let l' = l @ [rev v];
             (v', toggle') = br_inner bits 0 v (1 # replicate bits 0)
         in br_outer bits v' toggle' l')
      else Some l)"

definition binary_range :: "nat \<Rightarrow> string list option" where
  "binary_range bits = br_outer bits (replicate bits CHR ''0'') (1 # replicate bits 0) []"

section \<open>Values of binary strings\<close>

lemma bits_val_append: "bits_val (s @ t) = bits_val s * 2 ^ length t + bits_val t"
proof (induction t rule: rev_induct)
  case (snoc c t)
  have "bits_val (s @ t @ [c]) = 2 * bits_val (s @ t) + bit_val c"
    by (simp add: bits_val_def)
  with snoc show ?case by (simp add: bits_val_def algebra_simps)
qed (simp add: bits_val_def)

lemma bits_val_Cons: "bits_val (c # t) = bit_val c * 2 ^ length t + bits_val t"
  using bits_val_append [of "[c]" t] by (simp add: bits_val_def)

lemma bits_val_Nil [simp]: "bits_val [] = 0"
  by (simp add: bits_val_def)

lemma bits_val_less: "bits_val s < 2 ^ length s"
  by (induction s) (auto simp: bits_val_Cons bit_val_def)

lemma bits_val_0_iff: "bits_val s = 0 \<longleftrightarrow> CHR ''1'' \<notin> set s"
  by (induction s) (auto simp: bits_val_Cons bit_val_def)

lemma bits_val_replicate [simp]: "bits_val (replicate k CHR ''0'') = 0"
  by (auto simp: bits_val_0_iff)

definition is_bin :: "string \<Rightarrow> bool" where
  "is_bin s \<longleftrightarrow> set s \<subseteq> {CHR ''0'', CHR ''1''}"

lemma is_bin_append [simp]: "is_bin (s @ t) \<longleftrightarrow> is_bin s \<and> is_bin t"
  by (auto simp: is_bin_def)

lemma hex2bin_table:
  "list_all (\<lambda>d. case hex2bin_get (hex_char d) of Inl e \<Rightarrow> False
     | Inr b \<Rightarrow> length b = 4 \<and> bits_val b = d \<and> is_bin b) [0..<16]"
  by code_simp

lemma hex2bin_get_hex_char:
  assumes "d < 16"
  shows "\<exists>b. hex2bin_get (hex_char d) = Inr b \<and> length b = 4 \<and> bits_val b = d \<and> is_bin b"
proof -
  have "case hex2bin_get (hex_char d) of Inl e \<Rightarrow> False
     | Inr b \<Rightarrow> length b = 4 \<and> bits_val b = d \<and> is_bin b"
    using hex2bin_table assms unfolding list_all_iff by fastforce
  then show ?thesis by (simp split: sum.splits)
qed

lemma hex_expansion:
  "\<exists>ps. map_res hex2bin_get (hex_digits n) = Inr ps \<and> bits_val (concat ps) = n
     \<and> is_bin (concat ps)"
proof (induction n rule: hex_digits.induct)
  case (1 n)
  show ?case
  proof (cases "n < 16")
    case True
    then obtain b where "hex2bin_get (hex_char n) = Inr b" "bits_val b = n" "is_bin b"
      using hex2bin_get_hex_char by blast
    with True show ?thesis by (subst hex_digits.simps) simp
  next
    case False
    with 1 obtain ps where ps: "map_res hex2bin_get (hex_digits (n div 16)) = Inr ps"
      "bits_val (concat ps) = n div 16" "is_bin (concat ps)" by auto
    obtain b where b: "hex2bin_get (hex_char (n mod 16)) = Inr b" "length b = 4"
      "bits_val b = n mod 16" "is_bin b"
      using hex2bin_get_hex_char [of "n mod 16"] by auto
    from ps b False show ?thesis
      by (intro exI [of _ "ps @ [b]"], subst hex_digits.simps)
        (auto simp: map_res_append bits_val_append)
  qed
qed

text \<open>The function in closed form: the value fits in \<open>n\<close> bits or the call raises.\<close>

lemma int2bin_cases:
  assumes "0 < n" "0 \<le> i"
  shows "if i < 2 ^ n
         then \<exists>s. int2bin i (int n) = Inr s \<and> length s = n \<and> bits_val s = nat i \<and> is_bin s
         else int2bin i (int n) = Inl ValueError"
proof -
  obtain ps where ps: "map_res hex2bin_get (hex_digits (nat i)) = Inr ps"
    "bits_val (concat ps) = nat i" "is_bin (concat ps)"
    using hex_expansion [of "nat i"] by auto
  define r where "r = concat ps"
  define k where "k = length r - n"
  have slices: "py_slice_from (py_hex i) 2 = hex_digits (nat i)"
    "py_slice_to r (- int n) = take k r" "py_slice_from r (- int n) = drop k r"
    using assms by (auto simp: py_slice_from_def py_slice_to_def py_hex_def k_def
        slice_bound_neg slice_bound_nat [where i = 2, simplified])
  have split: "r = take k r @ drop k r" by simp
  have r_val: "nat i = bits_val (take k r) * 2 ^ length (drop k r) + bits_val (drop k r)"
    using ps(2) bits_val_append [of "take k r" "drop k r"] by (simp add: r_def)
  have eq: "int2bin i (int n) =
      (if CHR ''1'' \<in> set (take k r) then Inl ValueError
       else Inr (replicate (n - length (drop k r)) CHR ''0'' @ drop k r))"
    using ps by (simp add: int2bin_def slices Let_def flip: r_def) arith
  have fits: "CHR ''1'' \<notin> set (take k r) \<longleftrightarrow> i < 2 ^ n"
  proof -
    have "CHR ''1'' \<notin> set (take k r) \<longleftrightarrow> nat i < 2 ^ n"
    proof (cases "length r \<le> n")
      case True
      then have "nat i < 2 ^ n" using bits_val_less [of r] ps(2)
        by (metis r_def less_le_trans one_le_numeral power_increasing)
      with True show ?thesis by (simp add: k_def)
    next
      case False
      then have len: "length (drop k r) = n" by (simp add: k_def)
      have low: "bits_val (drop k r) < 2 ^ n" using bits_val_less [of "drop k r"] len by simp
      have "nat i < 2 ^ n \<longleftrightarrow> bits_val (take k r) = 0"
      proof
        assume "nat i < 2 ^ n"
        then have "bits_val (take k r) * 2 ^ n < 1 * 2 ^ n"
          using r_val unfolding len by linarith
        then show "bits_val (take k r) = 0" by (metis less_one mult_less_cancel2)
      qed (use r_val len low in simp)
      then show ?thesis by (simp add: bits_val_0_iff)
    qed
    also have "\<dots> \<longleftrightarrow> i < 2 ^ n" using assms(2)
      by (metis nat_less_iff of_nat_numeral of_nat_power)
    finally show ?thesis .
  qed
  show ?thesis
  proof (cases "i < 2 ^ n")
    case True
    have "length (drop k r) \<le> n" by (simp add: k_def)
    moreover have "bits_val (take k r) = 0" using True fits by (simp add: bits_val_0_iff)
    moreover have "is_bin (drop k r)" using ps(3) split unfolding r_def [symmetric]
      by (metis is_bin_append)
    ultimately show ?thesis using True fits eq r_val
      by (auto simp: bits_val_append is_bin_def)
  next
    case False
    with fits eq show ?thesis by simp
  qed
qed




section \<open>Bit masks and Gray codes\<close>

lemma lsb_mod: "lsb x (int n) = Inr (x mod 2 ^ n)"
  by (simp add: lsb_def flip: mask_eq_exp_minus_1 take_bit_eq_mask take_bit_eq_mod)

lemma xor_succ: "\<exists>k. int n XOR (int n + 1) = 2 ^ Suc k - 1"
proof (induction n rule: less_induct)
  case (less n)
  show ?case
  proof (cases "even n")
    case True
    then have "(int n + 1) div 2 = int n div 2" by (simp add: zdiv_int)
    then have "int n XOR (int n + 1) = 1"
      using True by (subst xor_rec) simp
    then show ?thesis by (intro exI [of _ 0]) simp
  next
    case False
    then have d: "int n div 2 = int (n div 2)" "(int n + 1) div 2 = int (n div 2) + 1"
      by (auto elim: oddE)
    have "n div 2 < n" using False by (cases n) auto
    then obtain k where k: "int (n div 2) XOR (int (n div 2) + 1) = 2 ^ Suc k - 1"
      using less.IH by blast
    have "int n XOR (int n + 1) = 1 + 2 * (2 ^ Suc k - 1)"
      using False by (subst xor_rec) (simp add: d k)
    then show ?thesis by (intro exI [of _ "Suc k"]) simp
  qed
qed

lemma mask_xor_mask: "(mask (Suc k) :: int) XOR mask k = 2 ^ k"
  by (rule bit_eqI) (auto simp: bit_simps less_Suc_eq)

lemma drop_bit_mask_Suc: "drop_bit 1 (mask (Suc k) :: int) = mask k"
  by (rule bit_eqI) (auto simp: bit_simps)

lemma gray_step: "0 \<le> i \<Longrightarrow> \<exists>k. gray_encode i XOR gray_encode (i + 1) = 2 ^ k"
proof -
  assume "0 \<le> i"
  then obtain k where k: "i XOR (i + 1) = mask (Suc k)"
    using xor_succ [of "nat i"] by (auto simp: mask_eq_exp_minus_1)
  have "gray_encode i XOR gray_encode (i + 1) = (i XOR (i + 1)) XOR drop_bit 1 (i XOR (i + 1))"
    unfolding gray_encode_def drop_bit_xor by (simp only: ac_simps)
  also have "\<dots> = 2 ^ k" by (simp only: k drop_bit_mask_Suc mask_xor_mask)
  finally show ?thesis by blast
qed

lemma gray_div2: "gray_encode i div 2 = gray_encode (i div 2)"
  unfolding gray_encode_def drop_bit_eq_div by (subst xor_rec) simp

lemma gray_odd: "odd (gray_encode i) \<longleftrightarrow> odd i \<noteq> odd (i div 2)"
  unfolding gray_encode_def drop_bit_eq_div by (subst xor_rec) simp

lemma gray_inj: "gray_encode (int m) = gray_encode (int n) \<Longrightarrow> m = n"
proof (induction m arbitrary: n rule: less_induct)
  case (less m)
  have div: "gray_encode (int (m div 2)) = gray_encode (int (n div 2))"
    using less.prems gray_div2 [of "int m"] gray_div2 [of "int n"] by (simp add: zdiv_int)
  show ?case
  proof (cases "m = 0")
    case False
    then have h: "m div 2 = n div 2" using less.IH div by simp
    have "odd (int m) = odd (int n)"
      using less.prems gray_odd [of "int m"] gray_odd [of "int n"] h
      by (metis of_nat_div of_nat_numeral)
    then have "odd m = odd n" by simp
    with h show ?thesis by (metis div_mult_mod_eq odd_iff_mod_2_eq_one even_iff_mod_2_eq_zero)
  next
    case True
    have "gray_encode (int n) = 0 \<Longrightarrow> n = 0" for n
    proof (induction n rule: less_induct)
      case (less n)
      have "gray_encode (int (n div 2)) = 0"
        using less.prems gray_div2 [of "int n"] by (simp add: zdiv_int)
      then have "n = 0 \<or> n div 2 = 0" using less.IH [of "n div 2"] by fastforce
      then show ?case using less.prems gray_odd [of "int n"] by (cases "n = 0") auto
    qed
    with True less.prems show ?thesis by (simp add: gray_encode_def)
  qed
qed

text \<open>
  \<open>gray_encode\<close> is a Gray code on the natural numbers: the codes of consecutive numbers differ
  in exactly one bit, and different numbers have different codes.
\<close>

theorem gray_encode_correct:
  "(\<exists>k. gray_encode (int n) XOR gray_encode (int n + 1) = 2 ^ k)
   \<and> (gray_encode (int m) = gray_encode (int n) \<longleftrightarrow> m = n)"
  using gray_step [of "int n"] gray_inj by auto

section \<open>Increment and binary_range\<close>

fun incr :: "string \<Rightarrow> string \<times> bool" where
  "incr [] = ([], True)"
| "incr (c # v) =
     (if c = CHR ''0'' then (CHR ''1'' # v, False)
      else (let (v', carry) = incr v in (CHR ''0'' # v', carry)))"

lemma incr_spec:
  assumes "is_bin v"
  shows "length (fst (incr v)) = length v \<and> is_bin (fst (incr v))
    \<and> (snd (incr v) \<longleftrightarrow> bits_val (rev v) + 1 = 2 ^ length v)
    \<and> bits_val (rev (fst (incr v))) = (if snd (incr v) then 0 else bits_val (rev v) + 1)"
  using assms
proof (induction v)
  case (Cons c v)
  then have v: "is_bin v" "c = CHR ''0'' \<or> c = CHR ''1''" by (auto simp: is_bin_def)
  have "bits_val (rev v) < 2 ^ length v" using bits_val_less [of "rev v"] by simp
  with v Cons.IH show ?case
    by (auto simp: bits_val_append bits_val_Cons bit_val_def is_bin_def split: prod.splits)
qed (simp add: is_bin_def)

lemma br_inner_incr:
  assumes "length v = bits" "length toggle = bits + 1" "i \<le> bits" "toggle ! i = 1"
    "\<And>j. i < j \<Longrightarrow> j \<le> bits \<Longrightarrow> toggle ! j = 0"
  shows "fst (br_inner bits i v toggle) = take i v @ fst (incr (drop i v))
    \<and> (snd (br_inner bits i v toggle) ! bits = 1 \<longleftrightarrow> snd (incr (drop i v)))"
  using assms
proof (induction bits i v toggle rule: br_inner.induct)
  case (1 bits i v toggle)
  show ?case
  proof (cases "i < bits")
    case False
    then have "br_inner bits i v toggle = (v, toggle)" by (subst br_inner.simps) simp
    with False "1.prems" show ?thesis by simp
  next
    case True
    then have d: "drop i v = v ! i # drop (Suc i) v"
      using "1.prems"(1) by (simp add: Cons_nth_drop_Suc)
    show ?thesis
    proof (cases "v ! i = CHR ''0''")
      case True
      have "br_inner bits (i + 1) (v[i := CHR ''1'']) (toggle[i + 1 := 0])
          = (v[i := CHR ''1''], toggle[i + 1 := 0])"
        using \<open>i < bits\<close> "1.prems" by (subst br_inner.simps) auto
      moreover have "toggle[i + 1 := 0] ! bits = 0"
        using \<open>i < bits\<close> "1.prems" by (cases "i + 1 = bits") auto
      ultimately show ?thesis using True \<open>i < bits\<close> "1.prems"
        by (subst (1 2) br_inner.simps) (simp add: d upd_conv_take_nth_drop)
    next
      case False
      have IH: "fst (br_inner bits (i + 1) (v[i := CHR ''0'']) (toggle[i + 1 := 1]))
            = take (i + 1) (v[i := CHR ''0'']) @ fst (incr (drop (i + 1) v))
          \<and> (snd (br_inner bits (i + 1) (v[i := CHR ''0'']) (toggle[i + 1 := 1])) ! bits = 1
            \<longleftrightarrow> snd (incr (drop (i + 1) v)))"
        using "1.IH"(2) [OF _ False] \<open>i < bits\<close> "1.prems" by (auto simp: nth_list_update)
      have t: "take (Suc i) (v[i := CHR ''0'']) = take i v @ [CHR ''0'']"
        using \<open>i < bits\<close> "1.prems"(1) by (simp add: take_Suc_conv_app_nth)
      show ?thesis using IH False \<open>i < bits\<close> "1.prems"
        by (subst (1 2) br_inner.simps) (simp add: d t case_prod_beta)
    qed
  qed
qed

lemma bits_val_inj: "is_bin s \<Longrightarrow> is_bin t \<Longrightarrow> length s = length t \<Longrightarrow> bits_val s = bits_val t \<Longrightarrow> s = t"
proof (induction s t rule: list_induct2')
  case (4 x xs y ys)
  have "bits_val xs < 2 ^ length xs" "bits_val ys < 2 ^ length xs"
    using 4 bits_val_less [of xs] bits_val_less [of ys] by simp_all
  moreover have "x \<in> {CHR ''0'', CHR ''1''}" "y \<in> {CHR ''0'', CHR ''1''}"
    using 4 by (auto simp: is_bin_def)
  ultimately have "x = y \<and> bits_val xs = bits_val ys"
    using 4 by (auto simp: bits_val_Cons bit_val_def)
  with 4 show ?case by (simp add: is_bin_def)
qed auto

definition bin_of :: "nat \<Rightarrow> nat \<Rightarrow> string" where
  "bin_of bits k = projr (int2bin (int k) (int bits))"

lemma bin_of_eq:
  assumes "0 < bits" "is_bin s" "length s = bits"
  shows "int2bin (int (bits_val s)) (int bits) = Inr s"
proof -
  have "int (bits_val s) < 2 ^ bits"
    using bits_val_less [of s] assms(3) by (metis of_nat_less_iff of_nat_numeral of_nat_power)
  then obtain t where t: "int2bin (int (bits_val s)) (int bits) = Inr t" "length t = bits"
    "bits_val t = bits_val s" "is_bin t"
    using int2bin_cases [OF assms(1), of "int (bits_val s)"] by auto
  with assms have "t = s" by (metis bits_val_inj)
  with t(1) show ?thesis by simp
qed

lemma br_outer_run:
  assumes "0 < bits" "is_bin v" "length v = bits" "toggle ! bits \<noteq> 1"
  shows "br_outer bits v toggle l = Some (l @ map (bin_of bits) [bits_val (rev v)..<2 ^ bits])"
  using assms
proof (induction "2 ^ bits - bits_val (rev v)" arbitrary: v toggle l rule: less_induct)
  case less
  let ?n = "bits_val (rev v)"
  define w where "w = br_inner bits 0 v (1 # replicate bits 0)"
  have inner: "fst w = fst (incr v) \<and> (snd w ! bits = 1 \<longleftrightarrow> snd (incr v))"
    using br_inner_incr [of v bits "1 # replicate bits 0" 0] less.prems
    by (simp add: w_def nth_Cons')
  have n: "?n < 2 ^ bits" using bits_val_less [of "rev v"] less.prems by simp
  have v: "bin_of bits ?n = rev v"
    using bin_of_eq [of bits "rev v"] less.prems by (simp add: bin_of_def is_bin_def)
  have step: "br_outer bits v toggle l = br_outer bits (fst w) (snd w) (l @ [rev v])"
    using less.prems by (subst br_outer.simps) (simp add: w_def case_prod_beta)
  show ?case
  proof (cases "snd (incr v)")
    case True
    then have "?n + 1 = 2 ^ bits" using incr_spec [of v] less.prems by simp
    then have "[?n..<2 ^ bits] = [?n]" by (metis Suc_eq_plus1 n upt_conv_Cons upt_conv_Nil order_refl)
    moreover have "br_outer bits (fst w) (snd w) (l @ [rev v]) = Some (l @ [rev v])"
      using True inner by (subst br_outer.simps) simp
    ultimately show ?thesis by (simp add: step v)
  next
    case False
    then have f: "is_bin (fst w)" "length (fst w) = bits" "bits_val (rev (fst w)) = ?n + 1"
      using incr_spec [of v] less.prems inner by simp_all
    have "br_outer bits (fst w) (snd w) (l @ [rev v])
        = Some ((l @ [rev v]) @ map (bin_of bits) [?n + 1..<2 ^ bits])"
      using less.hyps [of "fst w" "snd w" "l @ [rev v]"] f False inner less.prems n by simp
    with n show ?thesis by (simp add: step v upt_conv_Cons [of ?n])
  qed
qed

text \<open>
  \<open>binary_range\<close> returns (its nested loops stop) and lists, for a positive width, all \<open>2 ^ bits\<close>
  binary numbers of that width in increasing order: entry \<open>k\<close> is the string \<open>int2bin k bits\<close>.
\<close>

theorem binary_range_correct:
  assumes "0 < bits"
  shows "\<exists>l. binary_range bits = Some l \<and> length l = 2 ^ bits
    \<and> (\<forall>k < 2 ^ bits. int2bin (int k) (int bits) = Inr (l ! k))"
proof -
  have "br_outer bits (replicate bits CHR ''0'') (1 # replicate bits 0) []
      = Some (map (bin_of bits) [0..<2 ^ bits])"
    using br_outer_run [of bits "replicate bits CHR ''0''" "1 # replicate bits 0" "[]"] assms
    by (simp add: is_bin_def nth_Cons')
  moreover have "int2bin (int k) (int bits) = Inr (bin_of bits k)" if "k < 2 ^ bits" for k
  proof -
    have "int k < 2 ^ bits" using that by (metis of_nat_less_iff of_nat_numeral of_nat_power)
    then show ?thesis using int2bin_cases [OF assms, of "int k"] by (auto simp: bin_of_def)
  qed
  ultimately show ?thesis by (simp add: binary_range_def)
qed

theorem binary_range_correct_witness:
  "binary_range 2 = Some [''00'', ''01'', ''10'', ''11'']
   \<and> (\<exists>l. binary_range 2 = Some l \<and> length l = 4
        \<and> int2bin 3 2 = Inr (l ! 3))"
proof
  show "binary_range 2 = Some [''00'', ''01'', ''10'', ''11'']"
    by (simp add: binary_range_def br_outer.simps br_inner.simps numeral_2_eq_2)
  obtain l where "binary_range 2 = Some l" "length l = 2 ^ 2"
    "\<forall>k < 2 ^ 2. int2bin (int k) (int 2) = Inr (l ! k)"
    using binary_range_correct [of 2] by auto
  then show "\<exists>l. binary_range 2 = Some l \<and> length l = 4 \<and> int2bin 3 2 = Inr (l ! 3)"
    by (auto dest: spec [of _ 3])
qed

section \<open>Random vectors\<close>

lemma random_chunks_length:
  assumes "\<forall>r \<in> set rs. 0 \<le> r \<and> r < 1"
  shows "\<exists>s. random_chunks rs = Inr s \<and> length s = 10 * length rs \<and> is_bin s"
  using assms
proof (induction rs)
  case (Cons r rs)
  then have "0 \<le> 2 ^ 10 * r" "2 ^ 10 * r < 2 ^ 10" by auto
  then have "0 \<le> \<lfloor>2 ^ 10 * r\<rfloor>" "\<lfloor>2 ^ 10 * r\<rfloor> < 2 ^ 10" by (simp_all add: floor_less_iff)
  then obtain c where "int2bin \<lfloor>2 ^ 10 * r\<rfloor> 10 = Inr c" "length c = 10" "is_bin c"
    using int2bin_cases [of 10 "\<lfloor>2 ^ 10 * r\<rfloor>"] by auto
  moreover obtain s where "random_chunks rs = Inr s" "length s = 10 * length rs" "is_bin s"
    using Cons by auto
  ultimately show ?case by simp
qed (simp add: is_bin_def)

theorem random_vec_length:
  assumes "\<And>n. 0 \<le> rnd n \<and> rnd n < 1"
  shows "\<exists>s. random_vec rnd bits None = Inr s \<and> length s = bits \<and> is_bin s"
proof -
  obtain s where s: "random_chunks (map rnd [0..<bits div 10 + 1]) = Inr s"
    "length s = 10 * (bits div 10 + 1)" "is_bin s"
    using random_chunks_length [of "map rnd [0..<bits div 10 + 1]"] assms by auto
  have "bits \<le> length s" using s(2) by simp
  moreover have "py_slice s 0 (int bits) = take bits s" if "bits \<le> length s"
    using that py_slice_nat [of s 0 bits] by simp
  ultimately show ?thesis using s unfolding random_vec_def
    by (auto simp: is_bin_def dest: in_set_takeD)
qed

text \<open>
  \<open>random_vec\<close> with a \<open>max_value\<close> can raise: the scaled value may need more than \<open>bits\<close> bits. With
  four bits, the limit 7 and the draw 1023/1024, the ten-bit vector is 1023, the scaling
  computes \<open>(1023 / 15) * 7 = 476\<close> with the integer division of Python 2, and \<open>int2bin\<close> raises
  ValueError.
\<close>

theorem random_vec_overflow:
  "random_vec (\<lambda>_. 1023 / 1024) 4 (Some 7) = Inl ValueError"
  by code_simp

end
