(* ===== verification/RadUtil.thy ===== *)
theory RadUtil
  imports RadBits
begin

text \<open>
  The arithmetic, sequence and dictionary functions of \<open>bindings/python/rad_util.py\<close>, with
  the functions' own names where HOL allows it (\<open>transpose_rad\<close> and \<open>lcm_rad\<close> avoid the
  library's constants). The lemmas identify each with its mathematical counterpart: greatest
  common divisors, the set of permutations, rotations, longest common prefixes and suffixes,
  first occurrences, inverse dictionaries. Not modelled: \<open>timestamp\<close> (reads the clock),
  \<open>pt2str\<close> (float formatting), \<open>getmodule\<close> (reflection); \<open>nice_units\<close> is in a theory of its own.
\<close>

section \<open>Definitions\<close>

subsection \<open>Arithmetic\<close>

partial_function (option) gcf_loop :: "rat \<Rightarrow> pynum \<Rightarrow> pynum \<Rightarrow> pynum res option" where
  "gcf_loop epsilon result remainder =
     (if val remainder \<noteq> 0 \<and> \<bar>val remainder\<bar> > epsilon then
        (case py_mod result remainder of
           Inl e \<Rightarrow> Some (Inl e)
         | Inr new_remainder \<Rightarrow> gcf_loop epsilon remainder new_remainder)
      else Some (Inr (py_abs result)))"

definition gcf :: "rat \<Rightarrow> pynum \<Rightarrow> pynum \<Rightarrow> pynum res option" where
  "gcf epsilon a b = gcf_loop epsilon (py_max a b) (py_min a b)"

definition default_epsilon :: rat where
  "default_epsilon = 1 / 10 ^ 16"

definition lcm_rad :: "pynum \<Rightarrow> pynum \<Rightarrow> pynum res option" where
  "lcm_rad a b =
     map_option (\<lambda>g. bind_res g (\<lambda>denom.
       if val denom = 0 then Inr (I 0)
       else bind_res (py_div b denom) (\<lambda>q. Inr (py_mul a q)))) (gcf default_epsilon a b)"

definition reduce_fraction :: "pynum \<times> pynum \<Rightarrow> (pynum \<times> pynum) res option" where
  "reduce_fraction fraction =
     (let (numerator, denominator) = fraction in
      map_option (\<lambda>g. bind_res g (\<lambda>c.
        let common_factor = py_abs c in
        bind_res (py_div numerator common_factor) (\<lambda>n.
        bind_res (py_div denominator common_factor) (\<lambda>d. Inr (n, d)))))
        (gcf default_epsilon numerator denominator))"

text \<open>
  \<open>polygon_area\<close> rescales and closes the list it is given, which its caller sees: the result
  is the list as the function leaves it and the area.
\<close>

definition scale_point :: "pynum \<Rightarrow> pynum \<times> pynum \<Rightarrow> int \<times> int" where
  "scale_point precision p = (int_of (py_mul (fst p) precision), int_of (py_mul (snd p) precision))"

fun shoelace :: "(int \<times> int) list \<Rightarrow> int" where
  "shoelace ((x, y) # (x', y') # ps) = (x' * y) - (y' * x) + shoelace ((x', y') # ps)"
| "shoelace ps = 0"

definition close_polygon :: "'p list \<Rightarrow> 'p list res" where
  "close_polygon ps =
     bind_res (py_index ps (- 1)) (\<lambda>l. bind_res (py_index ps 0) (\<lambda>f.
       Inr (if l \<noteq> f then ps @ [f] else ps)))"

definition polygon_area ::
    "(pynum \<times> pynum) list \<Rightarrow> pynum \<Rightarrow> ((int \<times> int) list \<times> pynum) res" where
  "polygon_area points_list precision =
     bind_res (close_polygon (map (scale_point precision) points_list)) (\<lambda>ps.
     bind_res (py_div (I \<bar>shoelace ps div 2\<bar>) (F (val precision ^ 2))) (\<lambda>area. Inr (ps, area)))"

definition quantile :: "pynum list \<Rightarrow> pynum \<Rightarrow> pynum res" where
  "quantile l p =
     (let l_sort = py_sort l;
          n = int (length l);
          r = py_add (I 1) (py_mul (I (n - 1)) p);
          i = int_of r;
          f = py_sub r (I i)
      in if i < n then
           bind_res (py_index l_sort (i - 1)) (\<lambda>a. bind_res (py_index l_sort i) (\<lambda>b.
             Inr (py_add (py_mul (py_sub (I 1) f) a) (py_mul f b))))
         else py_index l_sort (i - 1))"

definition median :: "pynum list \<Rightarrow> pynum res" where
  "median l_sort =
     (let n = int (length l_sort); index = n div 2 in
      if n mod 2 = 0 then
        bind_res (py_index l_sort index) (\<lambda>a. bind_res (py_index l_sort (index - 1)) (\<lambda>b.
          py_div (py_float (py_add a b)) (I 2)))
      else py_index l_sort index)"

definition trim :: "pynum list \<Rightarrow> pynum list res" where
  "trim l =
     (let l_sort = py_sort l in
      bind_res (median l_sort) (\<lambda>_.
      bind_res (quantile l_sort (F (1 / 4))) (\<lambda>q1.
      bind_res (quantile l_sort (F (3 / 4))) (\<lambda>q3.
        let iqr = py_sub q3 q1;
            iqr_extra = py_mul iqr (F (3 / 2))
        in Inr (filter (\<lambda>x. py_le (py_sub q1 iqr_extra) x \<and> py_le x (py_add q3 iqr_extra))
             l_sort)))))"

text \<open>
  \<open>round_grid\<close>: the local \<open>add_one\<close> is \<open>None\<close> while no branch has assigned it; using it
  then raises UnboundLocalError.
\<close>

definition round_grid :: "pynum \<Rightarrow> pynum \<Rightarrow> int \<Rightarrow> pynum res" where
  "round_grid value grid mode =
     bind_res (py_mod value grid) (\<lambda>off_grid.
       let add_one =
         (if mode = 0 then Some (if py_le (F (val grid / 2)) off_grid then 1 else 0)
          else if mode = 1 \<and> val off_grid \<noteq> 0 then Some 1
          else if mode = - 1 \<and> val off_grid \<noteq> 0 then Some 0
          else None)
       in bind_res (py_div value grid) (\<lambda>q.
            case add_one of
              None \<Rightarrow> Inl UnboundLocalError
            | Some a \<Rightarrow> Inr (py_mul (I (int_of q + a)) grid)))"

partial_function (option) float_range_loop :: "rat \<Rightarrow> rat \<Rightarrow> rat \<Rightarrow> rat list \<Rightarrow> rat list option" where
  "float_range_loop cur stop step l =
     (if cur < stop then float_range_loop (cur + step) stop step (l @ [cur]) else Some l)"

definition float_range :: "pynum \<Rightarrow> pynum option \<Rightarrow> pynum option \<Rightarrow> rat list option" where
  "float_range start stop step =
     (let (start', stop') = (case stop of None \<Rightarrow> (F 0, py_float start) | Some s \<Rightarrow> (start, s));
          step' = (case step of None \<Rightarrow> F 1 | Some s \<Rightarrow> s)
      in float_range_loop (val start') (val stop') (val step') [])"

subsection \<open>Sequences and dictionaries\<close>

text \<open>\<open>zip(*matrix)\<close> stops at the shortest row.\<close>

fun zip_rows :: "nat \<Rightarrow> 'a list list \<Rightarrow> 'a list list" where
  "zip_rows 0 rows = []"
| "zip_rows (Suc n) rows = map hd rows # zip_rows n (map tl rows)"

definition transpose_rad :: "'a list list \<Rightarrow> 'a list list" where
  "transpose_rad matrix =
     (if matrix = [] then [] else zip_rows (Min (set (map length matrix))) matrix)"

definition insert_at :: "nat \<Rightarrow> 'a \<Rightarrow> 'a list \<Rightarrow> 'a list" where
  "insert_at i x xs = take i xs @ x # drop i xs"

fun permutations :: "'a list \<Rightarrow> 'a list list" where
  "permutations (item # y # ys) =
     concat (map (\<lambda>sub_list. map (\<lambda>i. insert_at i item sub_list) [0..<length (item # y # ys)])
       (permutations (y # ys)))"
| "permutations input_list = [input_list]"

fun uniq_loop :: "'a list \<Rightarrow> 'a list \<Rightarrow> 'a list" where
  "uniq_loop [] seen = []"
| "uniq_loop (x # xs) seen = (if x \<notin> set seen then x # uniq_loop xs (seen @ [x]) else uniq_loop xs seen)"

fun uniq_slow :: "'a list \<Rightarrow> 'a list \<Rightarrow> 'a list" where
  "uniq_slow [] result = result"
| "uniq_slow (x # xs) result = uniq_slow xs (if x \<notin> set result then result @ [x] else result)"

text \<open>
  \<open>uniquify\<close>: \<open>hashable\<close> says whether the items can be dictionary keys; if not, the first use
  as a key raises TypeError and the slow loop runs (unless the sequence is empty, where both
  return the empty list).
\<close>

definition uniquify :: "('a list \<Rightarrow> 'a list) \<Rightarrow> bool \<Rightarrow> 'a list \<Rightarrow> bool \<Rightarrow> 'a list" where
  "uniquify ko hashable seq preserve_order =
     (if hashable then
        (if preserve_order then uniq_loop seq []
         else ko (keys (foldl (\<lambda>d x. AList.update x (0::int) d) [] seq)))
      else uniq_slow seq [])"

definition reverse_dict :: "('k list \<Rightarrow> 'k list) \<Rightarrow> ('k, 'v) dict \<Rightarrow> ('v, 'k) dict" where
  "reverse_dict ko d =
     foldl (\<lambda>result key. AList.update (the (map_of d key)) key result) [] (ko (keys d))"

function common_prefix_loop :: "'a list \<Rightarrow> 'a list \<Rightarrow> nat \<Rightarrow> nat \<Rightarrow> 'a list \<Rightarrow> 'a list" where
  "common_prefix_loop s1 s2 common_len i prefx =
     (if i < common_len \<and> s1 ! i = s2 ! i
      then common_prefix_loop s1 s2 common_len (i + 1) (prefx @ [s1 ! i]) else prefx)"
  by pat_completeness auto
termination
  by (relation "measure (\<lambda>(s1, s2, common_len, i, p). common_len - i)") auto

function common_suffix_loop :: "'a list \<Rightarrow> 'a list \<Rightarrow> nat \<Rightarrow> nat \<Rightarrow> 'a list \<Rightarrow> 'a list" where
  "common_suffix_loop s1 s2 common_len i suffx =
     (if i < common_len + 1 \<and> s1 ! (length s1 - i) = s2 ! (length s2 - i)
      then common_suffix_loop s1 s2 common_len (i + 1) (suffx @ [s1 ! (length s1 - i)]) else suffx)"
  by pat_completeness auto
termination
  by (relation "measure (\<lambda>(s1, s2, common_len, i, p). common_len + 1 - i)") auto

declare common_prefix_loop.simps [simp del] common_suffix_loop.simps [simp del]

definition find_common_fixes :: "'a list \<Rightarrow> 'a list \<Rightarrow> 'a list \<times> 'a list" where
  "find_common_fixes s1 s2 =
     (let common_len = min (length s1) (length s2) in
      (common_prefix_loop s1 s2 common_len 0 [], rev (common_suffix_loop s1 s2 common_len 1 [])))"

definition is_rotated :: "'a list \<Rightarrow> 'a list \<Rightarrow> bool res" where
  "is_rotated seq1 seq2 =
     (if length seq1 \<noteq> length seq2 then Inr False
      else bind_res (py_index seq2 0) (\<lambda>head_item.
        let start_indexes = filter (\<lambda>i. seq1 ! i = head_item) [0..<length seq1];
            double_seq1 = seq1 @ seq1
        in Inr (list_ex (\<lambda>i. py_slice double_seq1 (int i) (int (i + length seq1)) = seq2)
             start_indexes)))"

datatype argval = ArgNone | ArgStr string | ArgList "string list"

definition get_arg_step :: "string \<Rightarrow> (string, argval) dict \<times> string list \<Rightarrow> (string, argval) dict \<times> string list" where
  "get_arg_step arg st =
     (let (d, args) = st in
      if startswith arg ''-'' then
        (let parts = split_char CHR ''='' (dropWhile (\<lambda>c. c = CHR ''-'') arg) in
         if length parts = 2 then (AList.update (parts ! 0) (ArgStr (parts ! 1)) d, args)
         else (AList.update (parts ! 0) ArgNone d, args))
      else (d, args @ [arg]))"

definition get_args :: "string list \<Rightarrow> (string, argval) dict" where
  "get_args argv =
     (let (d, args) = fold get_arg_step argv ([], []) in AList.update ''args'' (ArgList args) d)"

section \<open>gcf\<close>

text \<open>A number is \<open>a / d\<close>: the scale \<open>d\<close> is 1 for ints and a common denominator for floats.\<close>

definition scaled :: "int \<Rightarrow> pynum \<Rightarrow> int \<Rightarrow> bool" where
  "scaled d x a \<longleftrightarrow> 0 < d \<and> val x = of_int a / of_int d"

lemma scaled_int [simp]: "scaled 1 (I a) b \<longleftrightarrow> a = b"
  by (simp add: scaled_def)

lemma scaled_mod:
  assumes "scaled d x a" "scaled d y b" "b \<noteq> 0"
  shows "\<exists>r. py_mod x y = Inr r \<and> scaled d r (a mod b) \<and> (is_int x \<and> is_int y \<longrightarrow> is_int r)"
proof (cases "is_int x \<and> is_int y")
  case True
  then obtain m k where mk: "x = I m" "y = I k" by (cases x; cases y) auto
  have "of_int m * of_int d = (of_int a :: rat)" "of_int k * of_int d = (of_int b :: rat)"
    using assms mk by (simp_all add: scaled_def field_simps)
  then have "a = m * d" "b = k * d" by (simp_all flip: of_int_mult)
  then show ?thesis using assms mk
    by (auto simp: scaled_def mult_mod_left field_simps simp flip: of_int_mult)
next
  case False
  have "val y \<noteq> 0" using assms by (simp add: scaled_def)
  with False have "py_mod x y = Inr (F (val x - val y * of_int \<lfloor>val x / val y\<rfloor>))"
    by (cases x; cases y) simp_all
  moreover have "\<lfloor>val x / val y\<rfloor> = a div b"
    using assms by (simp add: scaled_def floor_divide_of_int_eq)
  moreover have "(of_int a - of_int b * of_int (a div b)) = (of_int (a mod b) :: rat)"
    by (metis minus_mult_div_eq_mod of_int_diff of_int_mult)
  ultimately show ?thesis using assms False
    by (auto simp: scaled_def diff_divide_distrib [symmetric])
qed

lemma gcf_loop_gcd:
  assumes "scaled d x a" "scaled d y b" "0 \<le> eps" "eps < 1 / of_int d"
  shows "\<exists>r. gcf_loop eps x y = Some (Inr r) \<and> scaled d r (gcd a b)
    \<and> (is_int x \<and> is_int y \<longrightarrow> is_int r)"
  using assms
proof (induction "nat \<bar>b\<bar>" arbitrary: x y a b rule: less_induct)
  case less
  show ?case
  proof (cases "b = 0")
    case True
    then have "gcf_loop eps x y = Some (Inr (py_abs x))"
      using less.prems by (subst gcf_loop.simps) (simp add: scaled_def)
    moreover have "is_int (py_abs x) = is_int x" by (cases x) auto
    ultimately show ?thesis using True less.prems by (auto simp: scaled_def abs_div)
  next
    case False
    have d: "0 < d" using less.prems by (simp add: scaled_def)
    have "1 / of_int d \<le> \<bar>of_int b / (of_int d :: rat)\<bar>"
      using False d by (auto simp: abs_div divide_right_mono simp flip: of_int_abs)
    then have big: "val y \<noteq> 0" "eps < \<bar>val y\<bar>" using False d less.prems by (auto simp: scaled_def)
    obtain r where r: "py_mod x y = Inr r" "scaled d r (a mod b)" "is_int x \<and> is_int y \<longrightarrow> is_int r"
      using scaled_mod less.prems False by blast
    have "nat \<bar>a mod b\<bar> < nat \<bar>b\<bar>" using False by (simp add: abs_mod_less)
    then obtain s where "gcf_loop eps y r = Some (Inr s)" "scaled d s (gcd b (a mod b))"
      "is_int y \<and> is_int r \<longrightarrow> is_int s"
      using less.hyps [of "a mod b" y b r] less.prems r by blast
    with r big show ?thesis
      by (subst gcf_loop.simps) (auto simp: gcd_red_int [symmetric] gcd.commute)
  qed
qed

lemma scaled_max_min:
  assumes "scaled d x a" "scaled d y b"
  shows "scaled d (py_max x y) (max a b)" "scaled d (py_min x y) (min a b)"
  using assms by (auto simp: scaled_def py_max_def py_min_def max_def min_def field_simps)

lemma gcd_max_min_int: "gcd (max a b) (min a b) = gcd a (b::int)"
  by (simp add: max_def min_def gcd.commute)

lemma gcf_scaled:
  assumes "scaled d x a" "scaled d y b" "0 \<le> eps" "eps < 1 / of_int d"
  shows "\<exists>r. gcf eps x y = Some (Inr r) \<and> scaled d r (gcd a b) \<and> (is_int x \<and> is_int y \<longrightarrow> is_int r)"
  using gcf_loop_gcd [OF scaled_max_min [OF assms(1,2)] assms(3,4)]
  by (auto simp: gcf_def gcd_max_min_int py_max_def py_min_def split: if_splits)

lemma default_epsilon_small [simp]: "0 \<le> default_epsilon" "default_epsilon < 1"
  by (simp_all add: default_epsilon_def)

lemma gcf_int: "gcf default_epsilon (I a) (I b) = Some (Inr (I (gcd a b)))"
proof -
  obtain r where "gcf default_epsilon (I a) (I b) = Some (Inr r)" "scaled 1 r (gcd a b)" "is_int r"
    using gcf_scaled [of 1 "I a" a "I b" b default_epsilon] by auto
  then show ?thesis by (cases r) auto
qed

text \<open>
  \<open>gcf\<close> returns (its loop stops) the greatest common factor. Two numbers with a common
  denominator \<open>d\<close>, \<open>a / d\<close> and \<open>b / d\<close>, have the factor \<open>gcd a b / d\<close>; for ints \<open>d = 1\<close>, and the
  result of two ints is an int. The denominator is bounded by the default epsilon 1e-16.
\<close>

theorem gcf_correct:
  assumes "0 < d" "val x = of_int a / of_int d" "val y = of_int b / of_int d" "d < 10 ^ 16"
  shows "\<exists>r. gcf default_epsilon x y = Some (Inr r) \<and> val r = of_int (gcd a b) / of_int d
    \<and> (is_int x \<and> is_int y \<longrightarrow> is_int r)"
proof -
  have "default_epsilon < 1 / of_int d"
    using assms(1,4) unfolding default_epsilon_def
    by (simp add: field_simps)
  then show ?thesis
    using gcf_scaled [of d x a y b default_epsilon] assms by (auto simp: scaled_def)
qed

theorem gcf_correct_witness:
  "\<exists>r. gcf default_epsilon (F (27 / 2)) (I 4) = Some (Inr r) \<and> val r = 1 / 2"
proof -
  have "gcd 27 (8::int) = 1" by code_simp
  then show ?thesis using gcf_correct [of 2 "F (27 / 2)" 27 "I 4" 8] by auto
qed

theorem lcm_rad_int:
  "lcm_rad (I a) (I b) = Some (Inr (I (a * (b div gcd a b)))) \<and> \<bar>a * (b div gcd a b)\<bar> = lcm a b"
proof -
  have "a * (b div gcd a b) = a * b div gcd a b" by (rule div_mult_swap) simp
  then have "\<bar>a * (b div gcd a b)\<bar> = lcm a b" by (simp only: lcm_gcd normalize_int_def)
  then show ?thesis by (simp add: lcm_rad_def gcf_int)
qed

text \<open>
  \<open>reduce_fraction\<close> on two ints divides both by their greatest common divisor, so the result
  is the same fraction in lowest terms; the fraction 0/0 raises ZeroDivisionError.
\<close>

theorem reduce_fraction_int:
  "reduce_fraction (I n, I d) =
     (if n = 0 \<and> d = 0 then Some (Inl ZeroDivisionError)
      else Some (Inr (I (n div gcd n d), I (d div gcd n d))))
   \<and> (\<not> (n = 0 \<and> d = 0) \<longrightarrow> coprime (n div gcd n d) (d div gcd n d)
        \<and> n * (d div gcd n d) = d * (n div gcd n d))"
  by (auto simp: reduce_fraction_def gcf_int div_gcd_coprime div_mult_swap mult.commute)

theorem reduce_fraction_int_witness:
  "reduce_fraction (I (- 2), I 4) = Some (Inr (I (- 1), I 2)) \<and> coprime (- 1 :: int) 2
   \<and> reduce_fraction (I 0, I 0) = Some (Inl ZeroDivisionError)"
proof -
  have "gcd (- 2) (4::int) = 2" by code_simp
  then show ?thesis using reduce_fraction_int [of "- 2" 4] reduce_fraction_int [of 0 0] by simp
qed

section \<open>permutations\<close>

lemma mset_insert_at: "mset (insert_at i x xs) = add_mset x (mset xs)"
  unfolding insert_at_def by (metis append_take_drop_id mset.simps(2) mset_append union_mset_add_mset_right)

lemma insert_at_split: "insert_at (length us) x (us @ vs) = us @ x # vs"
  by (simp add: insert_at_def)

text \<open>
  \<open>permutations\<close> returns exactly the rearrangements of its argument, \<open>n!\<close> lists for a list of
  length \<open>n\<close>.
\<close>

lemma permutations_correct: "set (permutations xs) = {ys. mset ys = mset xs} \<and> length (permutations xs) = fact (length xs)"
proof (induction xs rule: permutations.induct)
  case (1 x y ys)
  let ?zs = "y # ys"
  have "zs \<in> set (permutations (x # ?zs)) \<longleftrightarrow> mset zs = mset (x # ?zs)" for zs
  proof
    assume "zs \<in> set (permutations (x # ?zs))"
    then show "mset zs = mset (x # ?zs)" using 1 by (auto simp: mset_insert_at)
  next
    assume zs: "mset zs = mset (x # ?zs)"
    then obtain us vs where uv: "zs = us @ x # vs"
      by (metis in_multiset_in_set list.set_intros(1) mset_eq_setD split_list)
    then have m: "mset (us @ vs) = mset ?zs" using zs by simp
    then have "us @ vs \<in> set (permutations ?zs)" using 1 by simp
    moreover have "length us < length (x # ?zs)" using mset_eq_length [OF m] by simp
    moreover have "zs = insert_at (length us) x (us @ vs)" by (simp add: insert_at_split uv)
    ultimately show "zs \<in> set (permutations (x # ?zs))"
      by (auto simp: image_iff simp del: upt_Suc intro!: bexI [of _ "us @ vs"])
  qed
  moreover have "length (permutations (x # ?zs)) = fact (length (x # ?zs))"
    using 1 by (simp add: length_concat o_def sum_list_triv del: upt_Suc fact_Suc) (simp add: algebra_simps)
  ultimately show ?case by blast
qed auto

section \<open>is_rotated\<close>

lemma slice_double:
  assumes "i < length xs"
  shows "py_slice (xs @ xs) (int i) (int (i + length xs)) = rotate i xs"
  using assms by (simp add: py_slice_nat rotate_drop_take min_def del: of_nat_add)

text \<open>
  \<open>is_rotated\<close> decides whether the second sequence is a rotation of the first; on two empty
  sequences it raises IndexError.
\<close>

theorem is_rotated_iff:
  "is_rotated seq1 seq2 =
     (if seq1 = [] \<and> seq2 = [] then Inl IndexError else Inr (\<exists>n. seq2 = rotate n seq1))"
proof (cases "length seq1 = length seq2 \<and> seq2 \<noteq> []")
  case False
  then show ?thesis
    by (auto simp: is_rotated_def py_index_def) (metis rotate_is_Nil_conv)
next
  case True
  then have hd: "py_index seq2 0 = Inr (hd seq2)"
    by (simp add: py_index_def hd_conv_nth)
  have ne: "seq1 \<noteq> []" using True by auto
  have "(\<exists>i < length seq1. seq1 ! i = hd seq2 \<and> rotate i seq1 = seq2) \<longleftrightarrow> (\<exists>n. seq2 = rotate n seq1)"
  proof
    assume "\<exists>n. seq2 = rotate n seq1"
    then obtain n where n: "seq2 = rotate n seq1" ..
    from n rotate_conv_mod have "seq2 = rotate (n mod length seq1) seq1" by (rule trans)
    moreover have "n mod length seq1 < length seq1" using ne by simp
    moreover have "hd seq2 = seq1 ! (n mod length seq1)"
      using n ne by (simp add: hd_rotate_conv_nth)
    ultimately show "\<exists>i < length seq1. seq1 ! i = hd seq2 \<and> rotate i seq1 = seq2" by metis
  qed auto
  moreover have "list_ex (\<lambda>i. py_slice (seq1 @ seq1) (int i) (int (i + length seq1)) = seq2)
      (filter (\<lambda>i. seq1 ! i = hd seq2) [0..<length seq1])
    \<longleftrightarrow> (\<exists>i < length seq1. seq1 ! i = hd seq2 \<and> rotate i seq1 = seq2)"
    unfolding list_ex_iff by (auto simp: slice_double simp del: of_nat_add)
  ultimately show ?thesis using True hd by (simp add: is_rotated_def Let_def)
qed

section \<open>find_common_fixes\<close>

lemma common_prefix_loop_lcp:
  "common_prefix_loop s1 s2 (min (length s1) (length s2)) i p
     = p @ longest_common_prefix (drop i s1) (drop i s2)"
proof (induction s1 s2 "min (length s1) (length s2)" i p rule: common_prefix_loop.induct)
  case (1 s1 s2 i p)
  show ?case
  proof (cases "i < min (length s1) (length s2)")
    case True
    then have "drop i s1 = s1 ! i # drop (Suc i) s1" "drop i s2 = s2 ! i # drop (Suc i) s2"
      by (simp_all add: Cons_nth_drop_Suc)
    with 1 True show ?thesis by (subst common_prefix_loop.simps) auto
  next
    case False
    then have "drop i s1 = [] \<or> drop i s2 = []" by auto
    with False show ?thesis by (subst common_prefix_loop.simps) auto
  qed
qed

lemma common_suffix_loop_lcp:
  "0 < i \<Longrightarrow> common_suffix_loop s1 s2 (min (length s1) (length s2)) i p
     = p @ longest_common_prefix (drop (i - 1) (rev s1)) (drop (i - 1) (rev s2))"
proof (induction s1 s2 "min (length s1) (length s2)" i p rule: common_suffix_loop.induct)
  case (1 s1 s2 i p)
  show ?case
  proof (cases "i < min (length s1) (length s2) + 1")
    case True
    then have "drop (i - 1) (rev s1) = s1 ! (length s1 - i) # drop i (rev s1)"
      "drop (i - 1) (rev s2) = s2 ! (length s2 - i) # drop i (rev s2)"
      using \<open>0 < i\<close> Cons_nth_drop_Suc [of "i - 1" "rev s1"] Cons_nth_drop_Suc [of "i - 1" "rev s2"]
      by (auto simp: rev_nth)
    with 1 True show ?thesis by (subst common_suffix_loop.simps) auto
  next
    case False
    then have "drop (i - 1) (rev s1) = [] \<or> drop (i - 1) (rev s2) = []" by auto
    with False show ?thesis by (subst common_suffix_loop.simps) auto
  qed
qed

text \<open>
  \<open>find_common_fixes\<close> returns the longest common prefix and the longest common suffix.
\<close>

theorem find_common_fixes_correct:
  assumes "find_common_fixes s1 s2 = (p, q)"
  shows "prefix p s1 \<and> prefix p s2 \<and> (\<forall>p'. prefix p' s1 \<and> prefix p' s2 \<longrightarrow> prefix p' p)
    \<and> suffix q s1 \<and> suffix q s2 \<and> (\<forall>q'. suffix q' s1 \<and> suffix q' s2 \<longrightarrow> suffix q' q)"
proof -
  have p: "p = longest_common_prefix s1 s2"
    and q: "q = rev (longest_common_prefix (rev s1) (rev s2))"
    using assms common_prefix_loop_lcp [of s1 s2 0 "[]"] common_suffix_loop_lcp [of 1 s1 s2 "[]"]
    by (simp_all add: find_common_fixes_def)
  show ?thesis unfolding p q
    by (auto simp: suffix_to_prefix longest_common_prefix_prefix1 longest_common_prefix_prefix2
        longest_common_prefix_max_prefix)
qed

theorem find_common_fixes_correct_witness:
  "find_common_fixes ''abcelephantdef'' ''abccowdef'' = (''abc'', ''def'')
   \<and> {p. prefix p ''abcelephantdef'' \<and> prefix p ''abccowdef''} \<subseteq> {p. prefix p ''abc''}"
proof -
  have "find_common_fixes ''abcelephantdef'' ''abccowdef'' = (''abc'', ''def'')" by code_simp
  from this find_common_fixes_correct [OF this] show ?thesis by blast
qed

section \<open>uniquify, reverse_dict, transpose\<close>

definition first_occurrences :: "'a list \<Rightarrow> 'a list" where
  "first_occurrences xs = map ((!) xs) (filter (\<lambda>i. xs ! i \<notin> set (take i xs)) [0..<length xs])"

lemma first_occurrences_snoc:
  "first_occurrences (xs @ [x]) = first_occurrences xs @ (if x \<in> set xs then [] else [x])"
proof -
  have "filter (\<lambda>i. (xs @ [x]) ! i \<notin> set (take i (xs @ [x]))) [0..<length xs]
      = filter (\<lambda>i. xs ! i \<notin> set (take i xs)) [0..<length xs]"
    by (intro filter_cong) (auto simp: nth_append)
  then show ?thesis by (auto simp: first_occurrences_def nth_append)
qed

lemma first_occurrences_Nil [simp]: "first_occurrences [] = []"
  by (simp add: first_occurrences_def)

lemma uniq_loop_snoc:
  "uniq_loop (xs @ [x]) seen = uniq_loop xs seen @ (if x \<in> set seen \<union> set xs then [] else [x])"
  by (induction xs arbitrary: seen) auto

lemma uniq_loop_first: "uniq_loop xs [] = first_occurrences xs"
  by (induction xs rule: rev_induct)
    (simp_all add: uniq_loop_snoc first_occurrences_snoc first_occurrences_Nil)

lemma uniq_slow_loop: "uniq_slow xs result = result @ uniq_loop xs result"
  by (induction xs arbitrary: result) auto

lemma set_first_occurrences: "set (first_occurrences xs) = set xs \<and> distinct (first_occurrences xs)"
  by (induction xs rule: rev_induct) (auto simp: first_occurrences_snoc)

lemma update_fold_keys:
  "wf_dict d \<Longrightarrow> wf_dict (foldl (\<lambda>d x. AList.update x v d) d xs)
     \<and> fst ` set (foldl (\<lambda>d x. AList.update x v d) d xs) = fst ` set d \<union> set xs"
  by (induction xs arbitrary: d) auto

text \<open>
  \<open>uniquify\<close> returns every item of the sequence once, whatever order the dictionary keys come
  in; with \<open>preserve_order\<close> it returns the first occurrences in their order, for hashable and
  unhashable items alike.
\<close>

theorem uniquify_correct:
  assumes "key_order ko"
  shows "distinct (uniquify ko hashable seq preserve_order)
    \<and> set (uniquify ko hashable seq preserve_order) = set seq
    \<and> (preserve_order \<longrightarrow> uniquify ko hashable seq preserve_order = first_occurrences seq)"
proof -
  let ?d = "foldl (\<lambda>d x. AList.update x (0::int) d) [] seq"
  have "distinct (keys ?d) \<and> set (keys ?d) = set seq"
    using update_fold_keys [of "[]" 0 seq] by (simp add: wf_dict_def)
  then have "distinct (ko (keys ?d)) \<and> set (ko (keys ?d)) = set seq"
    using assms key_order_set key_order_distinct by metis
  then show ?thesis
    using set_first_occurrences [of seq]
    by (simp add: uniquify_def uniq_loop_first uniq_slow_loop)
qed

theorem uniquify_correct_witness:
  "uniquify rev True [3, 3, 1, 2 :: int] True = [3, 1, 2]
   \<and> set (uniquify rev True [3, 3, 1, 2 :: int] False) = {1, 2, 3}"
  using uniquify_correct [of "rev :: int list \<Rightarrow> int list" True "[3, 3, 1, 2]" True]
    uniquify_correct [of "rev :: int list \<Rightarrow> int list" True "[3, 3, 1, 2]" False]
  by (auto simp: first_occurrences_def)

lemma reverse_fold_upd:
  "map_of (foldl (\<lambda>result key. AList.update (g key) key result) r ks)
     = foldl (\<lambda>m key. m(g key \<mapsto> key)) (map_of r) ks"
  by (induction ks arbitrary: r) auto

lemma foldl_upd_inj:
  "inj_on g (set ks) \<Longrightarrow> foldl (\<lambda>m key. m(g key \<mapsto> key)) m ks v = Some k \<longleftrightarrow>
     (k \<in> set ks \<and> g k = v \<or> v \<notin> g ` set ks \<and> m v = Some k)"
proof (induction ks rule: rev_induct)
  case (snoc x ks)
  then show ?case by (auto simp: inj_on_def)
qed simp

theorem reverse_dict_inverse:
  assumes "key_order ko" "wf_dict d" "distinct (map snd d)"
  shows "map_of (reverse_dict ko d) v = Some k \<longleftrightarrow> map_of d k = Some v"
proof -
  let ?g = "\<lambda>k. the (map_of d k)"
  have look: "map_of d k = Some v \<longleftrightarrow> (k, v) \<in> set d" for k v
    using assms(2) by (simp add: wf_dict_def)
  have ks: "set (ko (keys d)) = fst ` set d" using assms(1) by (simp add: key_order_set)
  have "inj_on ?g (fst ` set d)"
  proof (rule inj_onI)
    fix a b assume "a \<in> fst ` set d" "b \<in> fst ` set d" "?g a = ?g b"
    moreover have "(k, ?g k) \<in> set d" if "k \<in> fst ` set d" for k
      using that look by (metis map_of_eq_None_iff option.collapse)
    ultimately have "(a, ?g a) \<in> set d" "(b, ?g a) \<in> set d" by (blast, metis)
    with assms(3) show "a = b"
      unfolding distinct_map inj_on_def by (metis fst_conv snd_conv)
  qed
  then have "map_of (reverse_dict ko d) v = Some k \<longleftrightarrow> k \<in> fst ` set d \<and> ?g k = v"
    by (simp add: reverse_dict_def reverse_fold_upd foldl_upd_inj ks)
  also have "\<dots> \<longleftrightarrow> map_of d k = Some v"
    by (metis domI domIff dom_map_of_conv_image_fst option.exhaust_sel option.sel)
  finally show ?thesis .
qed

lemma zip_rows_nth:
  "j < n \<Longrightarrow> \<forall>r \<in> set rows. n \<le> length r \<Longrightarrow> length (zip_rows n rows) = n
     \<and> zip_rows n rows ! j = map (\<lambda>r. r ! j) rows"
proof (induction n rows arbitrary: j rule: zip_rows.induct)
  case (2 n rows)
  have len: "\<forall>r \<in> set (map tl rows). n \<le> length r" using "2.prems" by auto
  show ?case
  proof (cases j)
    case 0
    have "r ! 0 = hd r" if "r \<in> set rows" for r
    proof -
      have "r \<noteq> []" using that "2.prems"(2) by fastforce
      then show ?thesis by (simp add: hd_conv_nth)
    qed
    then show ?thesis using 0 2 len by (cases n) auto
  next
    case (Suc j')
    have "tl r ! j' = r ! j" if "r \<in> set rows" for r
    proof -
      have "Suc n \<le> length r" using that "2.prems"(2) by blast
      then show ?thesis using Suc by (cases r) auto
    qed
    then show ?thesis using Suc 2 len by auto
  qed
qed simp

theorem transpose_rad_nth:
  assumes "matrix \<noteq> []" "\<forall>r \<in> set matrix. length r = m" "j < m"
  shows "length (transpose_rad matrix) = m \<and> transpose_rad matrix ! j = map (\<lambda>r. r ! j) matrix"
proof -
  have "set (map length matrix) = {m}" using assms by (cases matrix) auto
  then have "transpose_rad matrix = zip_rows m matrix" using assms by (simp add: transpose_rad_def)
  then show ?thesis using zip_rows_nth [of j m matrix] assms by simp
qed

section \<open>quantile\<close>

text \<open>
  \<open>quantile\<close> of a nonempty list at a proportion between 0 and 1 returns a value between two
  elements of the list (no index is out of range).
\<close>

theorem quantile_within:
  assumes "l \<noteq> []" "0 \<le> val p" "val p \<le> 1"
  shows "\<exists>q a b. quantile l p = Inr q \<and> a \<in> set l \<and> b \<in> set l \<and> val a \<le> val q \<and> val q \<le> val b"
proof -
  define n where "n = length l"
  define r where "r = 1 + (of_nat n - 1) * val p"
  define i where "i = nat \<lfloor>r\<rfloor>"
  have n: "0 < n" using assms by (simp add: n_def)
  have r: "1 \<le> r" "r \<le> of_nat n"
    using assms n mult_left_mono [of "val p" 1 "of_nat n - 1"] by (auto simp: r_def)
  have i: "1 \<le> i" "i \<le> n" "of_nat i \<le> r" "r < of_nat i + 1"
    using r by (simp_all add: i_def le_nat_iff le_floor_iff floor_le_iff nat_le_iff) linarith+
  have int_r: "int_of (py_add (I 1) (py_mul (I (int n - 1)) p)) = int i"
    using r i by (simp add: int_of_trunc trunc_rat_def i_def r_def)
  let ?s = "py_sort l"
  have idx: "py_index ?s (int i - 1) = Inr (?s ! (i - 1))"
    using i py_index_nonneg [of "i - 1" ?s] by (simp add: n_def of_nat_diff)
  have mem: "?s ! k \<in> set l" if "k < n" for k
    using that by (metis n_def nth_mem py_sort_props(2,4))
  show ?thesis
  proof (cases "i < n")
    case True
    let ?a = "?s ! (i - 1)" and ?b = "?s ! i" and ?f = "r - of_nat i"
    have "py_index ?s (int i) = Inr ?b" using True by (simp add: py_index_nonneg n_def)
    then obtain q where q: "quantile l p = Inr q" "val q = (1 - ?f) * val ?a + ?f * val ?b"
      using idx int_r True
      by (auto simp: quantile_def Let_def r_def simp flip: n_def)
    have le: "val ?a \<le> val ?b"
      using sorted_nth_mono [OF py_sort_props(3), of "i - 1" i l] True by (simp add: n_def)
    have f: "0 \<le> ?f" "?f < 1" using i by auto
    have "val ?a \<le> val q" "val q \<le> val ?b"
      using mult_left_mono [OF le f(1)] mult_left_mono [OF le, of "1 - ?f"] f q(2)
      by (auto simp: algebra_simps)
    with q mem [of "i - 1"] mem [of i] True i show ?thesis by (metis less_imp_diff_less)
  next
    case False
    then have "quantile l p = Inr (?s ! (i - 1))"
      using idx int_r i by (auto simp: quantile_def Let_def simp flip: n_def)
    with mem [of "i - 1"] i n show ?thesis by force
  qed
qed

theorem quantile_within_witness:
  "\<exists>q a b. quantile [I 4, I 1, I 3, I 2] (F (1 / 4)) = Inr q
     \<and> a \<in> set [I 4, I 1, I 3, I 2] \<and> b \<in> set [I 4, I 1, I 3, I 2]
     \<and> val a \<le> val q \<and> val q \<le> val b"
  by (rule quantile_within) simp_all

section \<open>round_grid and float_range\<close>

lemma div_floor_nonneg:
  assumes "0 \<le> val x" "0 < val y"
  shows "\<exists>q. py_div x y = Inr q \<and> int_of q = \<lfloor>val x / val y\<rfloor>"
proof (cases "is_int x \<and> is_int y")
  case True
  then obtain a b where "x = I a" "y = I b" by (cases x; cases y) auto
  with assms show ?thesis by (auto simp: int_of_def floor_divide_of_int_eq)
next
  case False
  then have "py_div x y = Inr (F (val x / val y))" using assms by auto
  moreover have "0 \<le> val x / val y" using assms by simp
  ultimately show ?thesis by (auto simp: int_of_def trunc_rat_def)
qed

lemma mod_floor:
  assumes "val y \<noteq> 0"
  shows "\<exists>r. py_mod x y = Inr r \<and> val r = val x - val y * of_int \<lfloor>val x / val y\<rfloor>"
proof (cases "is_int x \<and> is_int y")
  case True
  then obtain a b where "x = I a" "y = I b" by (cases x; cases y) auto
  moreover have "(of_int (a mod b) :: rat) = of_int a - of_int b * of_int (a div b)" for a b
    by (metis minus_mult_div_eq_mod of_int_diff of_int_mult)
  ultimately show ?thesis using assms by (auto simp: floor_divide_of_int_eq)
next
  case False
  with assms show ?thesis by (cases x; cases y) auto
qed

text \<open>
  \<open>round_grid\<close> of a nonnegative value to a positive grid. In the modes up (1) and down (-1) a
  value that is already on the grid raises UnboundLocalError, because no branch assigns
  \<open>add_one\<close>. Otherwise the result is a multiple of the grid: the nearest one in mode 0, the next
  one above in mode 1, the next one below in mode -1.
\<close>

theorem round_grid_nonneg:
  assumes "0 \<le> val x" "0 < val grid" "mode \<in> {0, 1, - 1}"
  shows "if mode \<noteq> 0 \<and> val x = val grid * of_int \<lfloor>val x / val grid\<rfloor>
     then round_grid x grid mode = Inl UnboundLocalError
     else \<exists>r k. round_grid x grid mode = Inr r \<and> val r = of_int k * val grid
       \<and> (mode = 0 \<longrightarrow> \<bar>val r - val x\<bar> \<le> val grid / 2)
       \<and> (mode = 1 \<longrightarrow> val x < val r \<and> val r < val x + val grid)
       \<and> (mode = - 1 \<longrightarrow> val r < val x \<and> val x < val r + val grid)"
proof -
  define k where "k = \<lfloor>val x / val grid\<rfloor>"
  obtain q where q: "py_div x grid = Inr q" "int_of q = k"
    using div_floor_nonneg [OF assms(1,2)] by (auto simp: k_def)
  obtain off where off: "py_mod x grid = Inr off" "val off = val x - val grid * of_int k"
    using mod_floor [of grid x] assms(2) by (auto simp: k_def)
  have bounds: "0 \<le> val off" "val off < val grid"
    using rat_mod_bounds [OF assms(2), of "val x"] off(2) by (simp_all add: k_def)
  show ?thesis
  proof (cases "mode \<noteq> 0 \<and> val off = 0")
    case True
    then show ?thesis using q off by (auto simp: round_grid_def k_def Let_def)
  next
    case False
    define a :: int where
      "a = (if mode = 0 then (if val grid / 2 \<le> val off then 1 else 0) else if mode = 1 then 1 else 0)"
    define r where "r = py_mul (I (k + a)) grid"
    have r: "round_grid x grid mode = Inr r"
      using False q off assms(3) by (auto simp: round_grid_def Let_def a_def r_def)
    have mult: "val r = of_int (k + a) * val grid" by (simp add: r_def)
    have eq: "val r = val x - val off + of_int a * val grid"
      unfolding mult off(2) by (simp add: algebra_simps)
    have "mode = 0 \<Longrightarrow> \<bar>val r - val x\<bar> \<le> val grid / 2"
      and "mode = 1 \<Longrightarrow> val x < val r \<and> val r < val x + val grid"
      and "mode = - 1 \<Longrightarrow> val r < val x \<and> val x < val r + val grid"
      using eq bounds False by (auto simp: a_def)
    moreover have "\<not> (mode \<noteq> 0 \<and> val x = val grid * of_int \<lfloor>val x / val grid\<rfloor>)"
      using False off(2) by (simp add: k_def)
    ultimately show ?thesis using r mult by (subst if_not_P, blast, blast)
  qed
qed

theorem round_grid_nonneg_witness:
  "round_grid (I 10) (I 5) 1 = Inl UnboundLocalError
   \<and> (\<exists>r k. round_grid (F (15 / 2)) (I 5) 0 = Inr r \<and> val r = of_int k * 5 \<and> \<bar>val r - 15 / 2\<bar> \<le> 5 / 2)"
  using round_grid_nonneg [of "I 10" "I 5" 1] round_grid_nonneg [of "F (15 / 2)" "I 5" 0] by simp

lemma float_range_loop_steps:
  assumes "0 < step"
  shows "float_range_loop cur stop step l
     = Some (l @ map (\<lambda>k. cur + of_nat k * step) [0..<nat \<lceil>(stop - cur) / step\<rceil>])"
proof (induction "nat \<lceil>(stop - cur) / step\<rceil>" arbitrary: cur l)
  case 0
  then have "\<not> cur < stop" using assms by (auto simp: divide_pos_pos not_less field_simps ceiling_le_iff)
  with 0 show ?case by (subst float_range_loop.simps) simp
next
  case (Suc n)
  then have lt: "cur < stop" using assms by (auto simp: zero_less_divide_iff nat_eq_iff2)
      (metis Suc.hyps(2) Zero_not_Suc ceiling_le_zero diff_gt_0_iff_gt divide_le_0_iff le_0_eq less_eq_rat_def nat_le_0 not_less)
  have "(stop - (cur + step)) / step = (stop - cur) / step - 1" using assms by (simp add: field_simps)
  then have n: "n = nat \<lceil>(stop - (cur + step)) / step\<rceil>" using Suc.hyps(2) by (simp add: nat_diff_distrib)
  have "map (\<lambda>k. cur + step + of_nat k * step) [0..<n] = map (\<lambda>k. cur + of_nat k * step) [1..<Suc n]"
    by (simp add: map_Suc_upt [symmetric] algebra_simps del: map_Suc_upt upt_Suc)
  moreover have "[0..<Suc n] = 0 # [1..<Suc n]" by (simp add: upt_conv_Cons del: upt_Suc)
  ultimately show ?case
    using Suc.hyps(1) [OF n] lt by (subst float_range_loop.simps) (simp add: Suc.hyps(2) [symmetric] n [symmetric] del: upt_Suc)
qed

lemma float_range_loop_diverges:
  assumes "step \<le> 0" "cur < stop"
  shows "float_range_loop cur stop step l = None"
proof (rule ccontr)
  assume "float_range_loop cur stop step l \<noteq> None"
  then obtain r where ret: "float_range_loop cur stop step l = Some r" by auto
  have "\<not> (step \<le> 0 \<and> cur < stop)"
    by (rule float_range_loop.raw_induct [where P = "\<lambda>c s t l r. \<not> (t \<le> 0 \<and> c < s)", OF _ ret])
      (force split: if_splits)
  with assms show False by blast
qed

section \<open>polygon_area\<close>

lemma shoelace_snoc: "ps \<noteq> [] \<Longrightarrow> shoelace (ps @ [(x', y')]) =
    shoelace ps + (x' * snd (last ps) - y' * fst (last ps))"
  by (induction ps rule: shoelace.induct) (auto split: prod.splits)

lemma shoelace_rev: "shoelace (rev ps) = - shoelace ps"
proof (induction ps rule: shoelace.induct)
  case (1 x y x' y' ps)
  have "shoelace (rev ((x, y) # (x', y') # ps)) = shoelace (rev ((x', y') # ps) @ [(x, y)])" by simp
  also have "\<dots> = shoelace (rev ((x', y') # ps)) + (x * y' - y * x')"
    by (subst shoelace_snoc) simp_all
  finally show ?case using 1 by simp
qed auto

lemma half_abs_even: "\<bar>(- s) div 2\<bar> = \<bar>s div 2\<bar> \<longleftrightarrow> even (s::int)"
  by presburger

text \<open>
  \<open>polygon_area\<close> depends on the orientation of the polygon: the doubled area is halved with
  the integer division of Python 2 before the absolute value is taken, so a closed polygon and
  its reversal get the same area exactly when the doubled area is even.
\<close>

theorem polygon_area_orientation:
  assumes "ps \<noteq> []" "hd ps = last ps" "0 < val precision"
  shows "\<exists>a b. polygon_area ps precision = Inr (map (scale_point precision) ps, a)
    \<and> polygon_area (rev ps) precision = Inr (map (scale_point precision) (rev ps), b)
    \<and> (val a = val b \<longleftrightarrow> even (shoelace (map (scale_point precision) ps)))"
proof -
  define qs where "qs = map (scale_point precision) ps"
  have ne: "qs \<noteq> []" and hl: "hd qs = last qs"
    using assms by (simp_all add: qs_def hd_map last_map)
  have close: "close_polygon rs = Inr rs" if "rs \<noteq> []" "hd rs = last rs" for rs :: "(int \<times> int) list"
    using that py_index_nonneg [of 0 rs] by (simp add: close_polygon_def py_index_last hd_conv_nth)
  have area: "polygon_area us precision
      = Inr (rs, F (of_int \<bar>shoelace rs div 2\<bar> / (val precision)\<^sup>2))"
    if "map (scale_point precision) us = rs" "rs \<noteq> []" "hd rs = last rs" for us rs
    using that assms(3) by (simp add: polygon_area_def close)
  have "hd (rev qs) = last (rev qs)" using hl ne by (simp add: hd_rev last_rev)
  moreover have rq: "map (scale_point precision) (rev ps) = rev qs" by (simp add: qs_def rev_map)
  ultimately have b: "polygon_area (rev ps) precision
      = Inr (rev qs, F (of_int \<bar>(- shoelace qs) div 2\<bar> / (val precision)\<^sup>2))"
    using area [OF rq] ne by (simp add: shoelace_rev)
  have "of_int \<bar>s div 2\<bar> / (val precision)\<^sup>2 = of_int \<bar>(- s) div 2\<bar> / (val precision)\<^sup>2
      \<longleftrightarrow> even s" for s :: int
    using assms(3) half_abs_even [of s] by (simp del: of_int_abs) (metis)
  then show ?thesis using area [of ps qs] b ne hl by (simp add: rq qs_def [symmetric] del: of_int_abs)
qed

theorem polygon_area_orientation_witness:
  "\<exists>a b. polygon_area [(I 0, I 0), (I 0, I 1), (I 1, I 0), (I 0, I 0)] (I 1)
       = Inr ([(0, 0), (0, 1), (1, 0), (0, 0)], a)
     \<and> polygon_area (rev [(I 0, I 0), (I 0, I 1), (I 1, I 0), (I 0, I 0)]) (I 1)
       = Inr ([(0, 0), (1, 0), (0, 1), (0, 0)], b) \<and> val a \<noteq> val b"
  using polygon_area_orientation [of "[(I 0, I 0), (I 0, I 1), (I 1, I 0), (I 0, I 0)]" "I 1"]
  by (auto simp: scale_point_def int_of_def)

theorem float_range_steps:
  assumes "0 < val step"
  shows "float_range start (Some stop) (Some step)
    = Some (map (\<lambda>k. val start + of_nat k * val step) [0..<nat \<lceil>(val stop - val start) / val step\<rceil>])"
  using float_range_loop_steps [OF assms] by (simp add: float_range_def)

theorem float_range_diverges:
  assumes "val step \<le> 0" "val start < val stop"
  shows "float_range start (Some stop) (Some step) = None"
  using float_range_loop_diverges [OF assms] by (simp add: float_range_def)

lemma get_arg_step_args: "snd (fold get_arg_step argv st) = snd st @ filter (\<lambda>a. \<not> startswith a ''-'') argv"
  by (induction argv arbitrary: st) (auto simp: get_arg_step_def Let_def split: prod.splits)

lemma get_args_positional:
  "map_of (get_args argv) ''args'' = Some (ArgList (filter (\<lambda>a. \<not> startswith a ''-'') argv))"
  using get_arg_step_args [of argv "([], [])"] by (simp add: get_args_def case_prod_beta)

end
