(* ===== verification/TopSort.thy ===== *)
theory TopSort
  imports RadUtil
begin

text \<open>
  Dependency sorting, \<open>bindings/python/topsort.py\<close>: \<open>topsort\<close>, \<open>topsort_levels\<close> and
  \<open>topsort_levels_core\<close>. The dictionaries \<open>num_parents\<close> and \<open>children\<close> are association
  lists; a generator is the list of the items it yields together with how it ends. The main
  results: both sorts return every element once, parents before children, exactly when the
  dependencies are acyclic, and raise CycleError exactly when they are not; the KeyError that
  the dictionary accesses could raise never occurs on dictionaries built from pairs.
\<close>

section \<open>Definitions\<close>

type_synonym 'a num_parents = "('a, int) dict"
type_synonym 'a children = "('a, 'a list) dict"

datatype 'a topsort_error =
    CycleError "'a list" "'a num_parents" "'a children"
  | TopKeyError

definition add_pair :: "'a \<times> 'a \<Rightarrow> 'a num_parents \<times> 'a children \<Rightarrow> 'a num_parents \<times> 'a children" where
  "add_pair pair st =
     (let (parent, child) = pair; (num_parents, children) = st;
          np1 = (if parent \<in> set (keys num_parents) then num_parents
                 else AList.update parent 0 num_parents);
          np2 = (if child \<in> set (keys np1) then np1 else AList.update child 0 np1);
          np3 = AList.update child (the (map_of np2 child) + 1) np2;
          old = (case map_of children parent of None \<Rightarrow> [] | Some cs \<Rightarrow> cs)
      in (np3, AList.update parent (old @ [child]) children))"

definition build_dicts :: "('a \<times> 'a) list \<Rightarrow> 'a num_parents \<times> 'a children" where
  "build_dicts pairlist = fold add_pair pairlist ([], [])"

text \<open>The inner loop of \<open>topsort\<close>: decrement the children's counts, append those that reach 0.\<close>

fun knock_down :: "'a list \<Rightarrow> 'a num_parents \<Rightarrow> 'a list \<Rightarrow> 'a topsort_error + ('a num_parents \<times> 'a list)" where
  "knock_down [] np answer = Inr (np, answer)"
| "knock_down (child # cs) np answer =
     (case map_of np child of
        None \<Rightarrow> Inl TopKeyError
      | Some n \<Rightarrow>
          knock_down cs (AList.update child (n - 1) np)
            (if n - 1 = 0 then answer @ [child] else answer))"

lemma length_update_key: "k \<in> fst ` set d \<Longrightarrow> length (AList.update k v d) = length d"
  by (induction d) auto

lemma knock_down_length: "knock_down cs np answer = Inr (np', answer') \<Longrightarrow> length np' = length np"
proof (induction cs np answer rule: knock_down.induct)
  case (2 child cs np answer)
  then obtain n where n: "map_of np child = Some n" by (auto split: option.splits)
  then have "child \<in> fst ` set np" by (metis map_of_eq_None_iff option.distinct(1))
  with 2 n show ?case by (simp add: length_update_key)
qed simp

text \<open>
  \<open>for parent in answer\<close> iterates by position over the list that grows in the loop: \<open>i\<close> is the
  position. Every round deletes a key, so the loop stops after at most as many rounds as there
  are keys.
\<close>

function topsort_loop ::
    "'a list \<Rightarrow> nat \<Rightarrow> 'a num_parents \<Rightarrow> 'a children
      \<Rightarrow> 'a topsort_error + ('a list \<times> 'a num_parents \<times> 'a children)" where
  "topsort_loop answer i np ch =
     (if i < length answer then
        (let parent = answer ! i in
         if parent \<notin> set (keys np) then Inl TopKeyError
         else (case map_of ch parent of
                 None \<Rightarrow> topsort_loop answer (i + 1) (AList.delete parent np) ch
               | Some cs \<Rightarrow>
                   (case knock_down cs (AList.delete parent np) answer of
                      Inl e \<Rightarrow> Inl e
                    | Inr (np', answer') \<Rightarrow>
                        topsort_loop answer' (i + 1) np' (AList.delete parent ch))))
      else Inr (answer, np, ch))"
  by pat_completeness auto
termination
  by (relation "measure (\<lambda>(answer, i, np, ch). length np)")
    (auto simp: length_delete_less_pair dest!: knock_down_length)

declare topsort_loop.simps [simp del]

definition topsort :: "('a list \<Rightarrow> 'a list) \<Rightarrow> ('a \<times> 'a) list \<Rightarrow> 'a topsort_error + 'a list" where
  "topsort ko pairlist =
     (let (num_parents, children) = build_dicts pairlist;
          answer = filter (\<lambda>x. map_of num_parents x = Some 0) (ko (keys num_parents))
      in case topsort_loop answer 0 num_parents children of
           Inl e \<Rightarrow> Inl e
         | Inr (answer', np, ch) \<Rightarrow> if np \<noteq> [] then Inl (CycleError answer' np ch) else Inr answer')"

text \<open>One level of \<open>topsort_levels_core\<close>.\<close>

fun decrement :: "'a list \<Rightarrow> 'a num_parents \<Rightarrow> 'a num_parents option" where
  "decrement [] np = Some np"
| "decrement (c # cs) np =
     (case map_of np c of None \<Rightarrow> None | Some n \<Rightarrow> decrement cs (AList.update c (n - 1) np))"

fun remove_level ::
    "'a list \<Rightarrow> 'a num_parents \<Rightarrow> 'a children \<Rightarrow> ('a num_parents \<times> 'a children) option" where
  "remove_level [] np ch = Some (np, ch)"
| "remove_level (level_parent # ps) np ch =
     (if level_parent \<notin> set (keys np) then None
      else (case map_of ch level_parent of
              None \<Rightarrow> remove_level ps (AList.delete level_parent np) ch
            | Some cs \<Rightarrow>
                (case decrement cs (AList.delete level_parent np) of
                   None \<Rightarrow> None
                 | Some np' \<Rightarrow> remove_level ps np' (AList.delete level_parent ch))))"

datatype 'a gen_end = StopIteration | GenCycleError "'a num_parents" "'a children" | GenKeyError

lemma decrement_length: "decrement cs np = Some np' \<Longrightarrow> length np' = length np"
proof (induction cs np rule: decrement.induct)
  case (2 c cs np)
  then obtain n where n: "map_of np c = Some n" by (auto split: option.splits)
  then have "c \<in> fst ` set np" by (metis map_of_eq_None_iff option.distinct(1))
  with 2 n show ?case by (simp add: length_update_key)
qed simp

lemma remove_level_length:
  "remove_level ps np ch = Some (np', ch') \<Longrightarrow> length np' \<le> length np \<and> (ps \<noteq> [] \<longrightarrow> length np' < length np)"
proof (induction ps np ch rule: remove_level.induct)
  case (2 p ps np ch)
  then have mem: "p \<in> fst ` set np" by (auto split: if_splits)
  show ?case
  proof (cases "map_of ch p")
    case None
    with 2 mem have "length np' \<le> length (AList.delete p np)" by simp
    with length_delete_less [OF mem] show ?thesis by simp
  next
    case (Some cs)
    with 2 mem obtain np1 where np1: "decrement cs (AList.delete p np) = Some np1"
      by (auto split: option.splits)
    with 2 Some mem have "length np' \<le> length np1" by simp
    with length_delete_less [OF mem] decrement_length [OF np1] show ?thesis by simp
  qed
qed simp

function topsort_levels_core ::
    "('a list \<Rightarrow> 'a list) \<Rightarrow> 'a num_parents \<Rightarrow> 'a children \<Rightarrow> 'a list list \<times> 'a gen_end" where
  "topsort_levels_core ko np ch =
     (let level_parents = filter (\<lambda>x. map_of np x = Some 0) (ko (keys np)) in
      if level_parents = [] then ([], if np \<noteq> [] then GenCycleError np ch else StopIteration)
      else (case remove_level level_parents np ch of
              None \<Rightarrow> ([level_parents], GenKeyError)
            | Some (np', ch') \<Rightarrow>
                (let (levels, e) = topsort_levels_core ko np' ch' in (level_parents # levels, e))))"
  by pat_completeness auto
termination
  by (relation "measure (\<lambda>(ko, np, ch). length np)") (auto dest!: remove_level_length)

declare topsort_levels_core.simps [simp del]

definition topsort_levels :: "('a list \<Rightarrow> 'a list) \<Rightarrow> ('a \<times> 'a) list \<Rightarrow> 'a list list \<times> 'a gen_end" where
  "topsort_levels ko pairlist =
     (let (num_parents, children) = build_dicts pairlist
      in topsort_levels_core ko num_parents children)"

section \<open>The dictionaries built from the pairs\<close>

definition nodes :: "('a \<times> 'a) list \<Rightarrow> 'a set" where
  "nodes E = fst ` set E \<union> snd ` set E"

text \<open>The number of pairs whose child is \<open>v\<close> and whose parent has not been removed.\<close>

definition pending :: "('a \<times> 'a) list \<Rightarrow> 'a set \<Rightarrow> 'a \<Rightarrow> nat" where
  "pending E P v = length (filter (\<lambda>(p, c). c = v \<and> p \<notin> P) E)"

definition childs :: "('a \<times> 'a) list \<Rightarrow> 'a \<Rightarrow> 'a list" where
  "childs E p = map snd (filter (\<lambda>e. fst e = p) E)"

definition dicts_for :: "('a \<times> 'a) list \<Rightarrow> 'a set \<Rightarrow> 'a num_parents \<Rightarrow> 'a children \<Rightarrow> bool" where
  "dicts_for E P np ch \<longleftrightarrow>
     wf_dict np \<and> fst ` set np = nodes E - P
     \<and> (\<forall>v \<in> nodes E - P. map_of np v = Some (int (pending E P v)))
     \<and> (\<forall>p. p \<notin> P \<longrightarrow> map_of ch p = (if childs E p = [] then None else Some (childs E p)))"

lemma nodes_finite [simp]: "finite (nodes E)"
  by (simp add: nodes_def)

lemma nodes_snoc [simp]: "nodes (E @ [(p, c)]) = insert p (insert c (nodes E))"
  by (auto simp: nodes_def)

lemma pending_snoc [simp]:
  "pending (E @ [(p, c)]) P v = pending E P v + (if c = v \<and> p \<notin> P then 1 else 0)"
  by (simp add: pending_def)

lemma childs_snoc [simp]: "childs (E @ [(p, c)]) q = childs E q @ (if p = q then [c] else [])"
  by (simp add: childs_def)

lemma pending_outside: "v \<notin> nodes E \<Longrightarrow> pending E P v = 0"
  by (force simp: pending_def nodes_def filter_empty_conv)

lemma childs_outside: "p \<notin> nodes E \<Longrightarrow> childs E p = []"
  by (force simp: childs_def nodes_def filter_empty_conv)

lemma set_childs: "set (childs E p) = {c. (p, c) \<in> set E}"
  by (force simp: childs_def)

lemma pending_0_iff: "pending E P v = 0 \<longleftrightarrow> (\<forall>p. (p, v) \<in> set E \<longrightarrow> p \<in> P)"
  by (auto simp: pending_def filter_empty_conv)

lemma pending_insert: "p \<notin> P \<Longrightarrow> pending E P v = pending E (insert p P) v + count_list (childs E p) v"
  by (induction E) (auto simp: pending_def childs_def)

lemma build_dicts_snoc: "build_dicts (E @ [e]) = add_pair e (build_dicts E)"
  by (simp add: build_dicts_def)

lemma dicts_for_add_pair:
  assumes "dicts_for E {} np ch"
  shows "dicts_for (E @ [(p, c)]) {} (fst (add_pair (p, c) (np, ch))) (snd (add_pair (p, c) (np, ch)))"
  using assms
  by (auto simp: dicts_for_def add_pair_def Let_def pending_outside childs_outside
      split: option.splits)

lemma build_dicts_for: "dicts_for E {} (fst (build_dicts E)) (snd (build_dicts E))"
proof (induction E rule: rev_induct)
  case Nil
  show ?case by (simp add: build_dicts_def dicts_for_def nodes_def childs_def)
next
  case (snoc e E)
  obtain p c where e: "e = (p, c)" by force
  show ?case using dicts_for_add_pair [OF snoc] by (simp add: e build_dicts_snoc)
qed

section \<open>The loop of topsort\<close>

lemma knock_down_spec:
  assumes "\<forall>c \<in> set cs. \<exists>n. map_of np c = Some n \<and> int (count_list cs c) \<le> n"
  shows "\<exists>np' new. knock_down cs np answer = Inr (np', answer @ new)
    \<and> (wf_dict np \<longrightarrow> wf_dict np') \<and> fst ` set np' = fst ` set np
    \<and> (\<forall>v. map_of np' v = map_option (\<lambda>n. n - int (count_list cs v)) (map_of np v))
    \<and> distinct new \<and> set new = {c \<in> set cs. map_of np c = Some (int (count_list cs c))}"
  using assms
proof (induction cs np answer rule: knock_down.induct)
  case (1 np answer)
  show ?case by (auto simp: option.map_ident)
next
  case (2 c cs np answer)
  then obtain n where n: "map_of np c = Some n" "1 + int (count_list cs c) \<le> n" by auto
  let ?np = "AList.update c (n - 1) np"
  have c: "c \<in> fst ` set np" using n by (metis map_of_eq_None_iff option.distinct(1))
  have "\<forall>d \<in> set cs. \<exists>m. map_of ?np d = Some m \<and> int (count_list cs d) \<le> m"
    using 2 n by (auto split: if_splits)
  then obtain np' new where IH:
    "knock_down cs ?np (if n - 1 = 0 then answer @ [c] else answer)
       = Inr (np', (if n - 1 = 0 then answer @ [c] else answer) @ new)"
    "wf_dict ?np \<longrightarrow> wf_dict np'" "fst ` set np' = fst ` set ?np"
    "\<And>v. map_of np' v = map_option (\<lambda>m. m - int (count_list cs v)) (map_of ?np v)"
    "distinct new" "set new = {d \<in> set cs. map_of ?np d = Some (int (count_list cs d))}"
    using 2 n by blast
  let ?new = "if n - 1 = 0 then c # new else new"
  have c_cs: "n = 1 \<Longrightarrow> c \<notin> set cs" using n(2) count_list_0_iff [of cs c] by auto
  have "d \<in> set ?new \<longleftrightarrow> d \<in> set (c # cs) \<and> map_of np d = Some (int (count_list (c # cs) d))" for d
  proof (cases "d = c")
    case True
    show ?thesis using True IH(6) n c_cs count_notin [of c cs] by (cases "c \<in> set cs") auto
  next
    case False
    then show ?thesis using IH(6) by simp
  qed
  then have "set ?new = {d \<in> set (c # cs). map_of np d = Some (int (count_list (c # cs) d))}" by blast
  moreover have "distinct ?new" using IH(5,6) c_cs by auto
  moreover have "map_of np' v = map_option (\<lambda>m. m - int (count_list (c # cs) v)) (map_of np v)" for v
    using IH(4) n by auto
  moreover have "knock_down (c # cs) np answer = Inr (np', answer @ ?new)"
    using IH(1) n by auto
  moreover have "fst ` set np' = fst ` set np" "wf_dict np \<longrightarrow> wf_dict np'"
    using IH(2,3) c by (auto simp: insert_absorb)
  ultimately show ?case by blast
qed

definition topsort_inv :: "('a \<times> 'a) list \<Rightarrow> 'a list \<Rightarrow> nat \<Rightarrow> 'a num_parents \<Rightarrow> 'a children \<Rightarrow> bool" where
  "topsort_inv E answer i np ch \<longleftrightarrow>
     dicts_for E (set (take i answer)) np ch \<and> i \<le> length answer \<and> distinct answer
     \<and> set answer = {v \<in> nodes E. pending E (set (take i answer)) v = 0}
     \<and> (\<forall>j < length answer. \<forall>p. (p, answer ! j) \<in> set E \<longrightarrow> p \<in> set (take j answer))"

lemma nth_notin_take: "distinct xs \<Longrightarrow> i < length xs \<Longrightarrow> xs ! i \<notin> set (take i xs)"
  by (metis distinct_take id_take_nth_drop not_distinct_conv_prefix take_all_iff
      distinct.simps(2) distinct_append disjoint_iff list.set_intros(1))

lemma topsort_inv_step:
  assumes inv: "topsort_inv E answer i np ch" and i: "i < length answer"
    and ch': "\<And>p. p \<noteq> answer ! i \<Longrightarrow> map_of ch' p = map_of ch p"
  shows "answer ! i \<in> fst ` set np
    \<and> map_of ch (answer ! i) = (if childs E (answer ! i) = [] then None else Some (childs E (answer ! i)))
    \<and> (\<exists>np' answer'. knock_down (childs E (answer ! i)) (AList.delete (answer ! i) np) answer
         = Inr (np', answer') \<and> topsort_inv E answer' (i + 1) np' ch')"
proof -
  define P where "P = set (take i answer)"
  define x where "x = answer ! i"
  define cs where "cs = childs E x"
  have P': "set (take (i + 1) answer) = insert x P"
    using i by (auto simp: P_def x_def take_Suc_conv_app_nth)
  have d: "dicts_for E P np ch" and dist: "distinct answer"
    and ans: "set answer = {v \<in> nodes E. pending E P v = 0}"
    and ord: "\<And>j p. j < length answer \<Longrightarrow> (p, answer ! j) \<in> set E \<Longrightarrow> p \<in> set (take j answer)"
    using inv by (auto simp: topsort_inv_def P_def)
  have x: "x \<in> nodes E" "x \<notin> P" using i ans nth_notin_take [OF dist i] by (auto simp: x_def P_def)
  have c_out: "c \<in> nodes E - insert x P" if "c \<in> set cs" for c
  proof -
    have e: "(x, c) \<in> set E" using that by (simp add: cs_def set_childs)
    have "c \<in> set (take (i + 1) answer) \<Longrightarrow> x \<in> P"
    proof -
      assume "c \<in> set (take (i + 1) answer)"
      then obtain j where "j < i + 1" "answer ! j = c" by (auto simp: in_set_conv_nth)
      then show "x \<in> P" using ord [of j x] e i set_take_subset_set_take [of j i answer]
        by (auto simp: P_def)
    qed
    with x e show ?thesis unfolding P' by (force simp: nodes_def)
  qed
  have pend: "pending E P v = pending E (insert x P) v + count_list cs v" for v
    using x by (simp add: pending_insert cs_def)
  let ?np = "AList.delete x np"
  have np: "map_of ?np v = Some (int (pending E P v))" if "v \<in> nodes E - insert x P" for v
    using that d by (auto simp: dicts_for_def)
  have "\<forall>c \<in> set cs. \<exists>n. map_of ?np c = Some n \<and> int (count_list cs c) \<le> n"
    using np c_out pend by force
  then obtain np' new where k: "knock_down cs ?np answer = Inr (np', answer @ new)"
    "wf_dict ?np \<longrightarrow> wf_dict np'" "fst ` set np' = fst ` set ?np"
    "\<And>v. map_of np' v = map_option (\<lambda>n. n - int (count_list cs v)) (map_of ?np v)"
    "distinct new" "set new = {c \<in> set cs. map_of ?np c = Some (int (count_list cs c))}"
    using knock_down_spec by blast
  have new: "set new = {c \<in> set cs. pending E (insert x P) c = 0}"
    using k(6) np c_out pend by auto
  have dicts: "dicts_for E (insert x P) np' ch'"
    using d k(2,3,4) np pend x ch' by (auto simp: dicts_for_def x_def)
  have take': "set (take (i + 1) (answer @ new)) = insert x P" using P' i by simp
  have disj: "set answer \<inter> set new = {}"
    using ans new pend by (auto simp: count_list_0_iff)
  have set': "set (answer @ new) = {v \<in> nodes E. pending E (insert x P) v = 0}"
    using ans new pend c_out by (auto simp: count_list_0_iff)
  have ord': "p \<in> set (take j (answer @ new))"
    if "j < length (answer @ new)" "(p, (answer @ new) ! j) \<in> set E" for j p
  proof (cases "j < length answer")
    case True
    with that ord [of j p] show ?thesis by (simp add: nth_append)
  next
    case False
    then have "(answer @ new) ! j \<in> set new" using that(1) by (simp add: nth_append)
    then have "pending E (insert x P) ((answer @ new) ! j) = 0" using new by blast
    then have "p \<in> insert x P" using that(2) pending_0_iff by metis
    moreover have "insert x P \<subseteq> set (take j (answer @ new))"
      using take' set_take_subset_set_take [of "i + 1" j "answer @ new"] i False by auto
    ultimately show ?thesis by blast
  qed
  have "topsort_inv E (answer @ new) (i + 1) np' ch'"
    unfolding topsort_inv_def take' using dicts i dist k(5) disj set' ord' by auto
  moreover have "x \<in> fst ` set np" using d x by (simp add: dicts_for_def)
  moreover have "map_of ch x = (if cs = [] then None else Some cs)"
    using d x by (simp add: dicts_for_def cs_def)
  ultimately show ?thesis using k(1) unfolding cs_def x_def by blast
qed

lemma topsort_loop_inv:
  assumes "topsort_inv E answer i np ch"
  shows "\<exists>answer' np' ch'. topsort_loop answer i np ch = Inr (answer', np', ch')
    \<and> topsort_inv E answer' (length answer') np' ch'"
  using assms
proof (induction answer i np ch rule: topsort_loop.induct)
  case (1 answer i np ch)
  show ?case
  proof (cases "i < length answer")
    case False
    then have "i = length answer" using "1.prems" by (simp add: topsort_inv_def)
    with 1 show ?thesis by (subst topsort_loop.simps) simp
  next
    case True
    define x where "x = answer ! i"
    have step: "x \<in> fst ` set np" "map_of ch x = (if childs E x = [] then None else Some (childs E x))"
      "\<exists>np' answer'. knock_down (childs E x) (AList.delete x np) answer = Inr (np', answer')
         \<and> topsort_inv E answer' (i + 1) np' ch'" if "\<And>p. p \<noteq> x \<Longrightarrow> map_of ch' p = map_of ch p" for ch'
      using topsort_inv_step [OF "1.prems" True, of ch'] that by (simp_all add: x_def)
    show ?thesis
    proof (cases "childs E x = []")
      case childs: True
      then have "topsort_inv E answer (i + 1) (AList.delete x np) ch" using step(3) [of ch] by simp
      with "1.IH"(1) [OF True x_def] step(1,2) [of ch] childs True show ?thesis
        by (subst topsort_loop.simps) (simp add: x_def Let_def)
    next
      case childs: False
      then obtain np' answer' where k: "knock_down (childs E x) (AList.delete x np) answer = Inr (np', answer')"
        "topsort_inv E answer' (i + 1) np' (AList.delete x ch)"
        using step(3) [of "AList.delete x ch"] by auto
      with "1.IH"(2) [OF True x_def] step(1,2) [of ch] childs True show ?thesis
        by (subst topsort_loop.simps) (simp add: x_def Let_def)
    qed
  qed
qed

section \<open>Dependency orders\<close>

definition before :: "'a \<Rightarrow> 'a \<Rightarrow> 'a list \<Rightarrow> bool" where
  "before p c xs \<longleftrightarrow> (\<exists>i j. i < j \<and> j < length xs \<and> xs ! i = p \<and> xs ! j = c)"

definition dependency_order :: "('a \<times> 'a) list \<Rightarrow> 'a list \<Rightarrow> bool" where
  "dependency_order E xs \<longleftrightarrow> distinct xs \<and> set xs = nodes E \<and> (\<forall>(p, c) \<in> set E. before p c xs)"

lemma dependency_order_acyclic:
  assumes "dependency_order E xs"
  shows "acyclic (set E)"
proof -
  define pos where "pos v = (THE i. i < length xs \<and> xs ! i = v)" for v
  have dist: "distinct xs" using assms by (simp add: dependency_order_def)
  have pos: "pos (xs ! i) = i" if "i < length xs" for i
    using that dist unfolding pos_def by (intro the_equality) (auto simp: nth_eq_iff_index_eq)
  have "set E \<subseteq> inv_image {(m, n). m < n} pos"
    using assms pos by (fastforce simp: dependency_order_def before_def)
  then have "wf (set E)" by (meson wf_inv_image wf_less wf_subset)
  then show ?thesis by (rule wf_acyclic)
qed

text \<open>A set of nodes each of which has a parent in the set makes a cycle.\<close>

lemma stuck_set_cyclic:
  assumes "R \<noteq> {}" "\<And>v. v \<in> R \<Longrightarrow> \<exists>p. (p, v) \<in> set E \<and> p \<in> R"
  shows "\<not> acyclic (set E)"
proof
  assume "acyclic (set E)"
  then have "wf (set E)" by (simp add: finite_acyclic_wf)
  with assms(1) obtain m where "m \<in> R" "\<And>p. (p, m) \<in> set E \<Longrightarrow> p \<notin> R"
    by (metis all_not_in_conv wfE_min)
  with assms(2) show False by blast
qed

lemma unfinished_cyclic:
  assumes "dicts_for E P np ch" "np \<noteq> []" "\<forall>v \<in> nodes E - P. pending E P v \<noteq> 0"
  shows "\<not> acyclic (set E)"
proof (rule stuck_set_cyclic)
  show "nodes E - P \<noteq> {}" using assms(1,2) unfolding dicts_for_def by (metis image_is_empty set_empty)
  fix v assume "v \<in> nodes E - P"
  then obtain p where "(p, v) \<in> set E" "p \<notin> P" using assms(3) pending_0_iff by metis
  then show "\<exists>p. (p, v) \<in> set E \<and> p \<in> nodes E - P" by (force simp: nodes_def)
qed

lemma topsort_inv_init:
  assumes "key_order ko" "dicts_for E {} np ch"
  shows "topsort_inv E (filter (\<lambda>x. map_of np x = Some 0) (ko (keys np))) 0 np ch"
  unfolding topsort_inv_def
proof (intro conjI allI impI)
  let ?xs = "filter (\<lambda>x. map_of np x = Some 0) (ko (keys np))"
  show "distinct ?xs" using assms by (auto simp: dicts_for_def wf_dict_def key_order_distinct)
  show set: "set ?xs = {v \<in> nodes E. pending E (set (take 0 ?xs)) v = 0}"
    using assms by (auto simp: dicts_for_def key_order_set)
  fix j p assume "j < length ?xs" "(p, ?xs ! j) \<in> set E"
  moreover from this have "pending E {} (?xs ! j) = 0" using set nth_mem by fastforce
  ultimately show "p \<in> set (take j ?xs)" by (simp add: pending_0_iff)
qed (use assms in simp_all)

lemma topsort_inv_order:
  assumes "topsort_inv E answer (length answer) np ch" "np = []"
  shows "dependency_order E answer"
proof -
  have d: "distinct answer" "set answer = nodes E"
    using assms by (auto simp: topsort_inv_def dicts_for_def)
  have "before p c answer" if "(p, c) \<in> set E" for p c
  proof -
    have "c \<in> set answer" using that d by (force simp: nodes_def)
    then obtain j where j: "j < length answer" "answer ! j = c" by (auto simp: in_set_conv_nth)
    with that assms have "p \<in> set (take j answer)" by (auto simp: topsort_inv_def)
    then obtain i where "i < j" "answer ! i = p" using j by (auto simp: in_set_conv_nth)
    with j show ?thesis by (auto simp: before_def)
  qed
  with d show ?thesis by (auto simp: dependency_order_def)
qed

lemma topsort_outcome:
  assumes "key_order ko"
  shows "(\<exists>xs. topsort ko E = Inr xs \<and> dependency_order E xs)
    \<or> (\<exists>xs np ch. topsort ko E = Inl (CycleError xs np ch) \<and> \<not> acyclic (set E)
        \<and> fst ` set np = nodes E - set xs)"
proof -
  obtain np ch where b: "build_dicts E = (np, ch)" by force
  then have "dicts_for E {} np ch" using build_dicts_for [of E] by simp
  from topsort_loop_inv [OF topsort_inv_init [OF assms this]]
  obtain xs np' ch' where l: "topsort_loop (filter (\<lambda>x. map_of np x = Some 0) (ko (keys np))) 0 np ch
      = Inr (xs, np', ch')" and inv: "topsort_inv E xs (length xs) np' ch'" by blast
  have res: "topsort ko E = (if np' \<noteq> [] then Inl (CycleError xs np' ch') else Inr xs)"
    by (simp add: topsort_def b l)
  show ?thesis
  proof (cases "np' = []")
    case True
    with topsort_inv_order [OF inv] res show ?thesis by simp
  next
    case False
    have "dicts_for E (set xs) np' ch'" "\<forall>v \<in> nodes E - set xs. pending E (set xs) v \<noteq> 0"
      using inv by (auto simp: topsort_inv_def)
    with False res show ?thesis using unfinished_cyclic
      by (metis dicts_for_def)
  qed
qed

text \<open>
  C5. \<open>topsort\<close> is total and correct for every order of the dictionary keys: it returns a list
  exactly when the pairs are acyclic, and then every element occurs once and each parent
  stands before its children; on cyclic pairs it raises CycleError with the elements that
  could not be placed; it never raises KeyError.
\<close>

theorem topsort_correct:
  assumes "key_order ko"
  shows "case topsort ko E of
      Inr xs \<Rightarrow> acyclic (set E) \<and> distinct xs \<and> set xs = fst ` set E \<union> snd ` set E
        \<and> (\<forall>(p, c) \<in> set E. before p c xs)
    | Inl (CycleError xs np ch) \<Rightarrow> \<not> acyclic (set E) \<and> set (keys np) = nodes E - set xs
    | Inl TopKeyError \<Rightarrow> False"
  using topsort_outcome [OF assms, of E]
proof (elim disjE exE conjE)
  fix xs assume "topsort ko E = Inr xs" and d: "dependency_order E xs"
  with dependency_order_acyclic [OF d] show ?thesis by (simp add: dependency_order_def nodes_def)
qed simp

theorem topsort_correct_witness:
  "topsort id [(1, 2), (1, 3), (2, 4), (3, 4), (5, 6), (4, 5 :: int)] = Inr [1, 2, 3, 4, 5, 6]
   \<and> acyclic {(1, 2), (1, 3), (2, 4), (3, 4), (5, 6), (4, 5 :: int)}"
proof -
  let ?E = "[(1, 2), (1, 3), (2, 4), (3, 4), (5, 6), (4, 5 :: int)]"
  have "topsort id ?E = Inr [1, 2, 3, 4, 5, 6]" by code_simp
  then show ?thesis using topsort_correct [of id ?E] by simp
qed

section \<open>Levels\<close>

lemma decrement_knock_down:
  "decrement cs np = (case knock_down cs np answer of Inl e \<Rightarrow> None | Inr (np', a) \<Rightarrow> Some np')"
  by (induction cs np arbitrary: answer rule: decrement.induct) (auto split: option.splits)

lemma remove_level_spec:
  assumes "dicts_for E P np ch" "set ps \<subseteq> nodes E - P" "distinct ps" "P \<subseteq> nodes E"
    and "\<And>x c. x \<in> set ps \<Longrightarrow> (x, c) \<in> set E \<Longrightarrow> c \<notin> P \<union> set ps"
  shows "\<exists>np' ch'. remove_level ps np ch = Some (np', ch') \<and> dicts_for E (P \<union> set ps) np' ch'"
  using assms
proof (induction ps np ch arbitrary: P rule: remove_level.induct)
  case (1 np ch)
  then show ?case by simp
next
  case (2 x ps np ch)
  let ?np = "AList.delete x np" and ?cs = "childs E x" and ?P = "insert x P"
  have x: "x \<in> nodes E" "x \<notin> P" using "2.prems"(2) by auto
  have mem: "x \<in> set (keys np)" using x "2.prems"(1) by (simp add: dicts_for_def)
  have ch: "map_of ch x = (if ?cs = [] then None else Some ?cs)"
    using x "2.prems"(1) unfolding dicts_for_def by blast
  have pend: "pending E P v = pending E ?P v + count_list ?cs v" for v
    using x by (simp add: pending_insert)
  have c_out: "c \<in> nodes E - ?P" if "c \<in> set ?cs" for c
    using that "2.prems"(5) [of x c] by (force simp: set_childs nodes_def)
  have np: "map_of ?np v = Some (int (pending E P v))" if "v \<in> nodes E - ?P" for v
    using that "2.prems"(1) by (auto simp: dicts_for_def)
  have "\<forall>c \<in> set ?cs. \<exists>n. map_of ?np c = Some n \<and> int (count_list ?cs c) \<le> n"
    using np c_out pend by force
  then obtain np1 new where k: "knock_down ?cs ?np [] = Inr (np1, [] @ new)"
    "wf_dict ?np \<longrightarrow> wf_dict np1" "fst ` set np1 = fst ` set ?np"
    "\<And>v. map_of np1 v = map_option (\<lambda>n. n - int (count_list ?cs v)) (map_of ?np v)"
    using knock_down_spec by blast
  have dec: "decrement ?cs ?np = Some np1" using decrement_knock_down [of ?cs ?np "[]"] k(1) by simp
  have dicts: "dicts_for E ?P np1 ch'" if "\<And>p. p \<noteq> x \<Longrightarrow> map_of ch' p = map_of ch p" for ch'
    using "2.prems"(1) k(2,3,4) np pend x that by (auto simp: dicts_for_def)
  have rest: "set ps \<subseteq> nodes E - ?P" "distinct ps" "?P \<subseteq> nodes E"
    using "2.prems"(2,3,4) by auto
  have rest': "c \<notin> ?P \<union> set ps" if "y \<in> set ps" "(y, c) \<in> set E" for y c
    using that "2.prems"(5) [of y c] by simp
  have union: "P \<union> set (x # ps) = ?P \<union> set ps" by auto
  show ?case
  proof (cases "?cs = []")
    case True
    then have "np1 = ?np" using dec by simp
    with True ch mem dicts [of ch] "2.IH"(1) [of ?P] rest rest' show ?thesis unfolding union by simp
  next
    case False
    with ch mem dec dicts [of "AList.delete x ch"] "2.IH"(2) [of ?cs np1 ?P] rest rest'
    show ?thesis unfolding union by simp
  qed
qed

text \<open>
  A list of levels below the removed set \<open>P\<close>: the first level is exactly the set of remaining
  nodes all of whose parents are in \<open>P\<close>.
\<close>

fun levels_below :: "('a \<times> 'a) list \<Rightarrow> 'a set \<Rightarrow> 'a list list \<Rightarrow> bool" where
  "levels_below E P [] = True"
| "levels_below E P (l # ls) =
     (l \<noteq> [] \<and> distinct l \<and> set l = {v \<in> nodes E - P. pending E P v = 0}
      \<and> levels_below E (P \<union> set l) ls)"

lemma levels_core_spec:
  assumes "key_order ko" "dicts_for E P np ch" "P \<subseteq> nodes E"
    and "\<And>p c. c \<in> P \<Longrightarrow> (p, c) \<in> set E \<Longrightarrow> p \<in> P"
  shows "\<exists>ls e. topsort_levels_core ko np ch = (ls, e) \<and> levels_below E P ls
    \<and> (e = StopIteration \<and> P \<union> \<Union> (set ` set ls) = nodes E
       \<or> (\<exists>np' ch'. e = GenCycleError np' ch') \<and> \<not> acyclic (set E))"
  using assms
proof (induction ko np ch arbitrary: P rule: topsort_levels_core.induct)
  case (1 ko np ch)
  define l where "l = filter (\<lambda>x. map_of np x = Some 0) (ko (keys np))"
  have l: "distinct l" "set l = {v \<in> nodes E - P. pending E P v = 0}"
    using "1.prems"(1,2)
    by (simp add: l_def dicts_for_def wf_dict_def key_order_distinct)
      (use "1.prems"(1,2) in \<open>auto simp: l_def dicts_for_def key_order_set\<close>)
  show ?case
  proof (cases "l = []")
    case True
    then have none: "\<forall>v \<in> nodes E - P. pending E P v \<noteq> 0" using l by auto
    have core: "topsort_levels_core ko np ch
        = ([], if np \<noteq> [] then GenCycleError np ch else StopIteration)"
      using True by (subst topsort_levels_core.simps) (simp add: l_def [symmetric])
    show ?thesis
    proof (cases "np = []")
      case True
      then have "P = nodes E" using "1.prems"(2,3) by (auto simp: dicts_for_def)
      with True core show ?thesis by simp
    next
      case False
      with core unfinished_cyclic [OF "1.prems"(2) False none] show ?thesis by simp
    qed
  next
    case False
    have par: "p \<in> P" if "c \<in> set l" "(p, c) \<in> set E" for p c
      using that l(2) pending_0_iff by (metis (mono_tags, lifting) mem_Collect_eq)
    have out: "c \<notin> P \<union> set l" if "x \<in> set l" "(x, c) \<in> set E" for x c
      using that "1.prems"(4) par l(2) by blast
    obtain np' ch' where r: "remove_level l np ch = Some (np', ch')" "dicts_for E (P \<union> set l) np' ch'"
      using remove_level_spec [OF "1.prems"(2) _ l(1) "1.prems"(3)] l(2) out by blast
    have closed: "\<And>p c. c \<in> P \<union> set l \<Longrightarrow> (p, c) \<in> set E \<Longrightarrow> p \<in> P \<union> set l"
      using "1.prems"(4) par by blast
    have sub: "P \<union> set l \<subseteq> nodes E" using "1.prems"(3) l(2) by auto
    obtain ls e where IH: "topsort_levels_core ko np' ch' = (ls, e)" "levels_below E (P \<union> set l) ls"
      "e = StopIteration \<and> (P \<union> set l) \<union> \<Union> (set ` set ls) = nodes E
        \<or> (\<exists>np' ch'. e = GenCycleError np' ch') \<and> \<not> acyclic (set E)"
      using "1.IH" [OF l_def False r(1), of np' ch' "P \<union> set l"] r(2) sub closed "1.prems"(1) by blast
    have "topsort_levels_core ko np ch = (l # ls, e)"
      using False r(1) IH(1) by (subst topsort_levels_core.simps) (simp add: l_def [symmetric])
    moreover have "levels_below E P (l # ls)" using False l IH(2) by simp
    ultimately show ?thesis using IH(3) by (auto simp: Un_assoc)
  qed
qed

lemma levels_below_nth:
  assumes "levels_below E P ls" "k < length ls"
  shows "set (ls ! k) = {v \<in> nodes E - (P \<union> \<Union> (set ` set (take k ls))).
           pending E (P \<union> \<Union> (set ` set (take k ls))) v = 0}
    \<and> ls ! k \<noteq> [] \<and> distinct (ls ! k)"
  using assms
proof (induction ls arbitrary: P k)
  case (Cons l ls)
  show ?case
  proof (cases k)
    case 0
    with Cons.prems show ?thesis by simp
  next
    case (Suc k')
    have "levels_below E (P \<union> set l) ls" "k' < length ls"
      using Cons.prems(1) [unfolded levels_below.simps] Cons.prems(2) Suc by (blast, simp)
    from Cons.IH [OF this] Suc show ?thesis by (simp add: Un_assoc)
  qed
qed simp

lemma levels_below_distinct:
  "levels_below E P ls \<Longrightarrow> distinct (concat ls) \<and> set (concat ls) \<inter> P = {}"
proof (induction ls arbitrary: P)
  case (Cons l ls)
  then have "distinct (concat ls)" "set (concat ls) \<inter> (P \<union> set l) = {}" by auto
  with Cons.prems show ?case by auto
qed simp

lemma before_append: "p \<in> set xs \<Longrightarrow> c \<in> set ys \<Longrightarrow> before p c (xs @ ys)"
proof -
  assume "p \<in> set xs" "c \<in> set ys"
  then obtain i j where "i < length xs" "xs ! i = p" "j < length ys" "ys ! j = c"
    by (auto simp: in_set_conv_nth)
  then show ?thesis unfolding before_def
    by (intro exI [of _ i] exI [of _ "length xs + j"]) (simp add: nth_append)
qed

definition earlier :: "'a list list \<Rightarrow> nat \<Rightarrow> 'a set" where
  "earlier ls k = \<Union> (set ` set (take k ls))"

lemma earlier_iff: "k \<le> length ls \<Longrightarrow> v \<in> earlier ls k \<longleftrightarrow> (\<exists>j < k. v \<in> set (ls ! j))"
  by (fastforce simp: earlier_def in_set_conv_nth)

lemma earlier_Suc: "k < length ls \<Longrightarrow> earlier ls (Suc k) = earlier ls k \<union> set (ls ! k)"
  by (auto simp: earlier_def take_Suc_conv_app_nth)

lemma levels_parents:
  assumes "levels_below E {} ls" "k < length ls" "v \<in> set (ls ! k)"
  shows "(\<forall>p. (p, v) \<in> set E \<longrightarrow> (\<exists>j < k. p \<in> set (ls ! j)))
    \<and> (0 < k \<longrightarrow> (\<exists>p. (p, v) \<in> set E \<and> p \<in> set (ls ! (k - 1))))"
proof -
  have lev: "set (ls ! m) = {v \<in> nodes E - earlier ls m. pending E (earlier ls m) v = 0}"
    if "m < length ls" for m
    using levels_below_nth [OF assms(1) that] by (simp add: earlier_def)
  have v: "v \<in> nodes E" "v \<notin> earlier ls k" "pending E (earlier ls k) v = 0"
    using lev [OF assms(2)] assms(3) by auto
  have par: "p \<in> earlier ls k" if "(p, v) \<in> set E" for p
    using that v(3) pending_0_iff by metis
  have "\<exists>p. (p, v) \<in> set E \<and> p \<in> set (ls ! (k - 1))" if "0 < k"
  proof -
    have k: "k - 1 < length ls" "earlier ls k = earlier ls (k - 1) \<union> set (ls ! (k - 1))"
      using that assms(2) earlier_Suc [of "k - 1" ls] by auto
    then have "pending E (earlier ls (k - 1)) v \<noteq> 0" using lev [of "k - 1"] v by auto
    then obtain p where "(p, v) \<in> set E" "p \<notin> earlier ls (k - 1)" using pending_0_iff by metis
    with par k(2) show ?thesis by blast
  qed
  with par assms(2) earlier_iff [of k ls] show ?thesis by simp
qed

lemma levels_order:
  assumes "levels_below E {} ls" "\<Union> (set ` set ls) = nodes E"
  shows "dependency_order E (concat ls)"
  unfolding dependency_order_def
proof (intro conjI ballI)
  show "distinct (concat ls)" using levels_below_distinct [OF assms(1)] by simp
  show "set (concat ls) = nodes E" using assms(2) by simp
  fix e assume e: "e \<in> set E"
  obtain p c where pc: "e = (p, c)" by force
  then have "c \<in> nodes E" using e by (force simp: nodes_def)
  then obtain k where k: "k < length ls" "c \<in> set (ls ! k)"
    using assms(2) by (metis UN_E in_set_conv_nth)
  then have "p \<in> earlier ls k"
    using levels_parents [OF assms(1) k] e pc earlier_iff [of k ls] by auto
  then have "p \<in> set (concat (take k ls))" by (simp add: earlier_def)
  moreover have "c \<in> set (concat (drop k ls))"
    using k by (metis Cons_nth_drop_Suc UnCI concat.simps(2) set_append)
  ultimately have "before p c (concat (take k ls) @ concat (drop k ls))" by (rule before_append)
  moreover have "concat (take k ls) @ concat (drop k ls) = concat ls"
    by (metis append_take_drop_id concat_append)
  ultimately show "case e of (p, c) \<Rightarrow> before p c (concat ls)" by (simp add: pc)
qed

lemma topsort_levels_outcome:
  assumes "key_order ko"
  shows "\<exists>ls e. topsort_levels ko E = (ls, e) \<and> levels_below E {} ls
    \<and> (e = StopIteration \<and> dependency_order E (concat ls)
       \<or> (\<exists>np ch. e = GenCycleError np ch) \<and> \<not> acyclic (set E))"
proof -
  obtain np ch where b: "build_dicts E = (np, ch)" by force
  then have "dicts_for E {} np ch" using build_dicts_for [of E] by simp
  from levels_core_spec [OF assms this] levels_order show ?thesis
    by (fastforce simp: topsort_levels_def b)
qed

text \<open>
  C10. \<open>topsort_levels\<close> yields the levels of the dependency graph: every element at most once, all
  parents of an element in earlier levels, and from the second level on some parent in the
  level just before, so the level number is the length of the longest chain of parents. The
  generator ends with StopIteration exactly when the pairs are acyclic, after yielding every
  element, and with CycleError otherwise.
\<close>

theorem topsort_levels_correct:
  assumes "key_order ko" and "topsort_levels ko E = (ls, e)"
  shows "(e = StopIteration \<longleftrightarrow> acyclic (set E)) \<and> e \<noteq> GenKeyError
    \<and> distinct (concat ls) \<and> (acyclic (set E) \<longrightarrow> set (concat ls) = nodes E)
    \<and> (\<forall>k < length ls. \<forall>v \<in> set (ls ! k).
         (\<forall>p. (p, v) \<in> set E \<longrightarrow> (\<exists>j < k. p \<in> set (ls ! j)))
         \<and> (0 < k \<longrightarrow> (\<exists>p. (p, v) \<in> set E \<and> p \<in> set (ls ! (k - 1)))))"
proof -
  have lb: "levels_below E {} ls"
    and out: "e = StopIteration \<and> dependency_order E (concat ls)
       \<or> (\<exists>np ch. e = GenCycleError np ch) \<and> \<not> acyclic (set E)"
    using topsort_levels_outcome [OF assms(1), of E] assms(2) by auto
  have "(e = StopIteration \<longleftrightarrow> acyclic (set E)) \<and> e \<noteq> GenKeyError
      \<and> (acyclic (set E) \<longrightarrow> set (concat ls) = nodes E)"
    using out dependency_order_acyclic [of E "concat ls"]
    by (auto simp: dependency_order_def)
  moreover have "distinct (concat ls)" using levels_below_distinct [OF lb] by simp
  ultimately show ?thesis using levels_parents [OF lb] by blast
qed

theorem topsort_levels_correct_witness:
  "topsort_levels id [(1, 2), (3, 4), (5, 6), (1, 3), (1, 5), (1, 6), (2, 5 :: int)]
     = ([[1], [2, 3], [4, 5], [6]], StopIteration)
   \<and> acyclic (set [(1, 2), (3, 4), (5, 6), (1, 3), (1, 5), (1, 6), (2, 5 :: int)])"
proof -
  let ?E = "[(1, 2), (3, 4), (5, 6), (1, 3), (1, 5), (1, 6), (2, 5 :: int)]"
  have "topsort_levels id ?E = ([[1], [2, 3], [4, 5], [6]], StopIteration)" by code_simp
  from this topsort_levels_correct [OF key_order_id(1) this] show ?thesis by blast
qed

section \<open>The contract of a dependency sorter\<close>

text \<open>
  What the binding generator relies on: a sorter that returns a list returns a dependency
  order, and it returns a list whenever the dependencies are acyclic. Both functions of the
  module meet the contract, \<open>topsort\<close> directly and \<open>topsort_levels\<close> when its levels are
  concatenated.
\<close>

definition topsort_list :: "('a list \<Rightarrow> 'a list) \<Rightarrow> ('a \<times> 'a) list \<Rightarrow> 'a list option" where
  "topsort_list ko E = (case topsort ko E of Inl e \<Rightarrow> None | Inr xs \<Rightarrow> Some xs)"

definition levels_list :: "('a list \<Rightarrow> 'a list) \<Rightarrow> ('a \<times> 'a) list \<Rightarrow> 'a list option" where
  "levels_list ko E =
     (let (ls, e) = topsort_levels ko E in if e = StopIteration then Some (concat ls) else None)"

locale dependency_sorter =
  fixes srt :: "('a list \<Rightarrow> 'a list) \<Rightarrow> ('a \<times> 'a) list \<Rightarrow> 'a list option"
  assumes ordered: "key_order ko \<Longrightarrow> srt ko E = Some xs \<Longrightarrow> dependency_order E xs"
    and complete: "key_order ko \<Longrightarrow> acyclic (set E) \<Longrightarrow> \<exists>xs. srt ko E = Some xs"
begin

lemma defined_iff: "key_order ko \<Longrightarrow> srt ko E \<noteq> None \<longleftrightarrow> acyclic (set E)"
  using ordered complete dependency_order_acyclic by (metis option.distinct(1) option.exhaust)

lemma same_elements:
  "key_order ko \<Longrightarrow> srt ko E = Some xs \<Longrightarrow> dependency_order E ys \<Longrightarrow> mset xs = mset ys"
  using ordered [of ko E xs] by (metis dependency_order_def set_eq_iff_mset_eq_distinct)

lemma order_independent:
  "key_order ko \<Longrightarrow> key_order ko' \<Longrightarrow> (srt ko E = None) = (srt ko' E = None)"
  using defined_iff by blast

end

interpretation ts: dependency_sorter topsort_list
proof
  fix ko :: "'a list \<Rightarrow> 'a list" and E :: "('a \<times> 'a) list" and xs
  assume ko: "key_order ko"
  { assume "topsort_list ko E = Some xs"
    with topsort_outcome [OF ko, of E] show "dependency_order E xs"
      by (auto simp: topsort_list_def) }
  { assume "acyclic (set E)"
    with topsort_outcome [OF ko, of E] show "\<exists>xs. topsort_list ko E = Some xs"
      by (auto simp: topsort_list_def) }
qed

interpretation tl: dependency_sorter levels_list
proof
  fix ko :: "'a list \<Rightarrow> 'a list" and E :: "('a \<times> 'a) list" and xs
  assume ko: "key_order ko"
  { assume "levels_list ko E = Some xs"
    with topsort_levels_outcome [OF ko, of E] show "dependency_order E xs"
      by (auto simp: levels_list_def) }
  { assume "acyclic (set E)"
    with topsort_levels_outcome [OF ko, of E] show "\<exists>xs. levels_list ko E = Some xs"
      by (auto simp: levels_list_def) }
qed

text \<open>
  \<open>topsort\<close> and \<open>topsort_levels\<close> agree: on the same pairs they both return the same elements or
  both raise CycleError.
\<close>

theorem topsort_agrees_with_levels:
  assumes "key_order ko"
  shows "case (topsort ko E, topsort_levels ko E) of
      (Inr xs, (ls, StopIteration)) \<Rightarrow> mset xs = mset (concat ls)
    | (Inl (CycleError _ _ _), (ls, GenCycleError _ _)) \<Rightarrow> True
    | _ \<Rightarrow> False"
proof (cases "acyclic (set E)")
  case True
  then obtain xs where xs: "topsort ko E = Inr xs"
    using topsort_outcome [OF assms, of E] by auto
  obtain ls where ls: "topsort_levels ko E = (ls, StopIteration)" "dependency_order E (concat ls)"
    using True topsort_levels_outcome [OF assms, of E] by auto
  have "mset xs = mset (concat ls)"
    using ts.same_elements [OF assms _ ls(2), of xs] xs by (simp add: topsort_list_def)
  with xs ls show ?thesis by simp
next
  case False
  then have "\<not> dependency_order E xs" for xs using dependency_order_acyclic by blast
  with topsort_outcome [OF assms, of E] topsort_levels_outcome [OF assms, of E] show ?thesis
    by auto
qed

theorem topsort_agrees_with_levels_witness:
  "case (topsort rev [(1, 2), (2, 3 :: int)], topsort_levels rev [(1, 2), (2, 3 :: int)]) of
      (Inr xs, (ls, StopIteration)) \<Rightarrow> mset xs = mset (concat ls)
    | (Inl (CycleError _ _ _), (ls, GenCycleError _ _)) \<Rightarrow> True
    | _ \<Rightarrow> False"
  by (rule topsort_agrees_with_levels) simp

end
