(* ===== verification/FindCycles.thy ===== *)
theory FindCycles
  imports RadUtil
begin

text \<open>
  The generator \<open>find_cycles\<close> of \<open>bindings/python/topsort.py\<close>: a depth-first search over
  paths kept on a stack. The cycles it yields are the list \<open>cycles\<close> it accumulates, in the
  order of yielding. The lemmas show that the search stops, that every yielded list is a
  simple cycle of the graph, that no two of them are rotations of each other, and that every
  simple cycle of the graph is yielded up to rotation.
\<close>

section \<open>Definitions\<close>

type_synonym 'a graph = "('a, 'a list) dict"

record 'a fc_state =
  fc_cycles :: "'a list list"
  fc_visited :: "'a set"

text \<open>Is the cycle a rotation of one already found?\<close>

fun is_dup :: "'a list list \<Rightarrow> 'a list \<Rightarrow> bool res" where
  "is_dup [] cycle = Inr False"
| "is_dup (other_cycle # cs) cycle =
     bind_res (is_rotated other_cycle cycle) (\<lambda>b. if b then Inr True else is_dup cs cycle)"

text \<open>The loop over the children of the last node of \<open>path\<close>.\<close>

fun fc_children ::
    "'a list \<Rightarrow> 'a list \<Rightarrow> 'a list list \<times> 'a fc_state \<Rightarrow> ('a list list \<times> 'a fc_state) res" where
  "fc_children path [] st = Inr st"
| "fc_children path (child # cs) (paths, s) =
     (if child \<in> set path then
        (let cycle = dropWhile (\<lambda>x. x \<noteq> child) path in
         bind_res (is_dup (fc_cycles s) cycle) (\<lambda>dup.
           fc_children path cs
             (paths, if dup then s else s\<lparr>fc_cycles := fc_cycles s @ [cycle]\<rparr>)))
      else fc_children path cs
             (paths @ [path @ [child]], s\<lparr>fc_visited := insert child (fc_visited s)\<rparr>))"

text \<open>
  A bound for the search: with \<open>u\<close> nodes not yet on the path and at most \<open>b\<close> children per
  node, a path stands for at most \<open>(b + 1) ^ (u + 1)\<close> rounds.
\<close>

definition all_children :: "'a graph \<Rightarrow> 'a set" where
  "all_children g = \<Union> (set ` snd ` set g)"

definition max_degree :: "'a graph \<Rightarrow> nat" where
  "max_degree g = sum_list (map (\<lambda>e. length (snd e)) g)"

definition path_weight :: "'a graph \<Rightarrow> 'a list \<Rightarrow> nat" where
  "path_weight g path = (max_degree g + 1) ^ (card (all_children g - set path) + 1)"

lemma finite_all_children [simp]: "finite (all_children g)"
  by (simp add: all_children_def)

lemma map_of_all_children: "map_of g x = Some cs \<Longrightarrow> set cs \<subseteq> all_children g"
  by (force simp: all_children_def dest: map_of_SomeD)

lemma map_of_max_degree: "map_of g x = Some cs \<Longrightarrow> length cs \<le> max_degree g"
proof -
  assume "map_of g x = Some cs"
  then have "length cs \<in> set (map (\<lambda>e. length (snd e)) g)" by (force dest: map_of_SomeD)
  then show ?thesis unfolding max_degree_def by (simp add: member_le_sum_list)
qed

lemma fc_children_paths:
  "fc_children path cs (paths, s) = Inr (paths', s') \<Longrightarrow>
     paths' = paths @ map (\<lambda>c. path @ [c]) (filter (\<lambda>c. c \<notin> set path) cs)"
proof (induction path cs "(paths, s)" arbitrary: paths s rule: fc_children.induct)
  case (2 path child cs paths s)
  then show ?case by (auto simp: bind_res_Inr_iff Let_def split: if_splits)
qed simp

lemma weight_children:
  assumes "map_of g (last path) = Some cs"
  shows "sum_list (map (path_weight g) (map (\<lambda>c. path @ [c]) (filter (\<lambda>c. c \<notin> set path) cs)))
    < path_weight g path"
proof -
  let ?b = "max_degree g + 1" and ?u = "card (all_children g - set path)"
  let ?new = "filter (\<lambda>c. c \<notin> set path) cs"
  show ?thesis
  proof (cases "?new = []")
    case True
    then show ?thesis by (simp add: path_weight_def)
  next
    case False
    have w: "path_weight g (path @ [c]) = ?b ^ ?u" if "c \<in> set ?new" for c
    proof -
      have c: "c \<in> all_children g - set path" using that map_of_all_children [OF assms] by auto
      then have "all_children g - set (path @ [c]) = (all_children g - set path) - {c}" by auto
      moreover have "0 < ?u" using c by (metis card_gt_0_iff empty_iff finite_Diff finite_all_children)
      ultimately show ?thesis using c by (simp add: path_weight_def card_Diff_singleton)
    qed
    have "sum_list (map (path_weight g) (map (\<lambda>c. path @ [c]) ?new)) = length ?new * ?b ^ ?u"
      using w sum_list_const [of ?new "\<lambda>c. path_weight g (path @ [c])"] by (simp add: o_def)
    also have "\<dots> \<le> max_degree g * ?b ^ ?u"
      using map_of_max_degree [OF assms] by (intro mult_right_mono) (auto intro: le_trans [OF length_filter_le])
    also have "\<dots> < ?b * ?b ^ ?u" by simp
    finally show ?thesis by (simp add: path_weight_def)
  qed
qed

text \<open>The \<open>while paths\<close> loop; the stack's top is the last element of the list.\<close>

function fc_while :: "'a graph \<Rightarrow> 'a list list \<Rightarrow> 'a fc_state \<Rightarrow> 'a fc_state res" where
  "fc_while g paths s =
     (if paths = [] then Inr s
      else
        (let path = last paths; paths' = butlast paths in
         if path = [] then Inl IndexError
         else (case map_of g (last path) of
                 None \<Rightarrow> fc_while g paths' s
               | Some cs \<Rightarrow>
                   (case fc_children path cs (paths', s) of
                      Inl e \<Rightarrow> Inl e
                    | Inr (paths'', s') \<Rightarrow> fc_while g paths'' s'))))"
  by pat_completeness auto
termination
proof (relation "measure (\<lambda>(g, paths, s). sum_list (map (path_weight g) paths))", goal_cases)
  case 1
  show ?case by simp
next
  case (2 g paths s path paths')
  then have "paths = paths' @ [path]" by (metis append_butlast_last_id)
  then show ?case by (simp add: path_weight_def)
next
  case (3 g paths s path paths' cs r paths'' s')
  then have "paths = paths' @ [path]" by (metis append_butlast_last_id)
  moreover have "paths'' = paths' @ map (\<lambda>c. path @ [c]) (filter (\<lambda>c. c \<notin> set path) cs)"
    using 3(5-7) fc_children_paths by blast
  ultimately show ?case using weight_children [OF 3(5)] by (simp add: o_def)
qed

declare fc_while.simps [simp del]

definition fc_start :: "'a graph \<Rightarrow> 'a \<Rightarrow> 'a fc_state \<Rightarrow> 'a fc_state res" where
  "fc_start g parent s =
     (if parent \<in> fc_visited s then Inr s else fc_while g [[parent]] s)"

definition find_cycles :: "('a list \<Rightarrow> 'a list) \<Rightarrow> 'a graph \<Rightarrow> 'a list list res" where
  "find_cycles ko parent_children =
     bind_res (fold_res (fc_start parent_children) (ko (keys parent_children))
        \<lparr>fc_cycles = [], fc_visited = {}\<rparr>)
       (\<lambda>s. Inr (fc_cycles s))"

section \<open>Paths and cycles of the graph\<close>

definition edge :: "'a graph \<Rightarrow> 'a \<Rightarrow> 'a \<Rightarrow> bool" where
  "edge g x y \<longleftrightarrow> (\<exists>cs. map_of g x = Some cs \<and> y \<in> set cs)"

definition simple_path :: "'a graph \<Rightarrow> 'a list \<Rightarrow> bool" where
  "simple_path g p \<longleftrightarrow> p \<noteq> [] \<and> distinct p \<and> successively (edge g) p"

definition simple_cycle :: "'a graph \<Rightarrow> 'a list \<Rightarrow> bool" where
  "simple_cycle g c \<longleftrightarrow> simple_path g c \<and> edge g (last c) (hd c)"

definition rotation_of :: "'a list \<Rightarrow> 'a list \<Rightarrow> bool" where
  "rotation_of c d \<longleftrightarrow> (\<exists>n. c = rotate n d)"

definition represented :: "'a list list \<Rightarrow> 'a list \<Rightarrow> bool" where
  "represented cs c \<longleftrightarrow> (\<exists>d \<in> set cs. rotation_of c d)"

lemma rotation_refl [simp]: "rotation_of c c"
  unfolding rotation_of_def by (rule exI [of _ 0]) simp

lemma rotation_trans: "rotation_of a b \<Longrightarrow> rotation_of b c \<Longrightarrow> rotation_of a c"
  unfolding rotation_of_def by (metis rotate_rotate)

lemma rotation_split: "rotation_of (xs @ ys) (ys @ xs)"
  unfolding rotation_of_def by (metis rotate_append)

lemma represented_rotation: "represented cs c \<Longrightarrow> rotation_of d c \<Longrightarrow> represented cs d"
  unfolding represented_def by (meson rotation_trans)

lemma represented_mono: "represented cs c \<Longrightarrow> set cs \<subseteq> set ds \<Longrightarrow> represented ds c"
  unfolding represented_def by blast

lemma is_dup_represented: "cycle \<noteq> [] \<Longrightarrow> is_dup cs cycle = Inr (represented cs cycle)"
  by (induction cs) (auto simp: represented_def rotation_of_def is_rotated_iff)

lemma simple_path_append:
  "xs \<noteq> [] \<Longrightarrow> ys \<noteq> [] \<Longrightarrow> simple_path g (xs @ ys) \<longleftrightarrow>
     simple_path g xs \<and> simple_path g ys \<and> set xs \<inter> set ys = {} \<and> edge g (last xs) (hd ys)"
  by (auto simp: simple_path_def successively_append_iff)

lemma simple_path_single [simp]: "simple_path g [x]"
  by (simp add: simple_path_def)

lemma dropWhile_split: "c \<notin> set xs \<Longrightarrow> dropWhile (\<lambda>x. x \<noteq> c) (xs @ c # ys) = c # ys"
  by (induction xs) auto

lemma closing_suffix:
  assumes "simple_path g path" "c \<in> set path" "edge g (last path) c"
  shows "simple_cycle g (dropWhile (\<lambda>x. x \<noteq> c) path)"
proof -
  obtain xs ys where p: "path = xs @ c # ys" "c \<notin> set xs"
    using split_list_first [OF assms(2)] by blast
  then have "dropWhile (\<lambda>x. x \<noteq> c) path = c # ys" by (simp add: dropWhile_split)
  moreover have "simple_path g (c # ys)"
    using assms(1) p simple_path_append [of xs "c # ys" g] by (cases "xs = []") auto
  ultimately show ?thesis using assms(3) p by (simp add: simple_cycle_def)
qed

text \<open>No cycle is a rotation of one yielded before it.\<close>

definition no_dups :: "'a list list \<Rightarrow> bool" where
  "no_dups cs \<longleftrightarrow> (\<forall>i < length cs. \<not> represented (take i cs) (cs ! i))"

lemma no_dups_snoc: "no_dups (cs @ [c]) \<longleftrightarrow> no_dups cs \<and> \<not> represented cs c"
proof -
  have "take i (cs @ [c]) = take i cs \<and> (cs @ [c]) ! i = cs ! i" if "i < length cs" for i
    using that by (simp add: nth_append)
  then show ?thesis unfolding no_dups_def by (auto simp: less_Suc_eq)
qed

text \<open>What one state grows into: cycles are appended, each closes one of the given paths.\<close>

definition extends :: "'a graph \<Rightarrow> 'a list set \<Rightarrow> 'a fc_state \<Rightarrow> 'a fc_state \<Rightarrow> bool" where
  "extends g Q s s' \<longleftrightarrow>
     set (fc_cycles s) \<subseteq> set (fc_cycles s')
     \<and> (no_dups (fc_cycles s) \<longrightarrow> no_dups (fc_cycles s'))
     \<and> ((\<forall>c \<in> set (fc_cycles s). simple_cycle g c) \<longrightarrow> (\<forall>c \<in> set (fc_cycles s'). simple_cycle g c))
     \<and> (\<forall>w \<in> fc_visited s'. w \<in> fc_visited s \<or> (\<exists>q \<in> Q. simple_path g q \<and> last q = w))"

lemma extends_refl [simp]: "extends g Q s s"
  by (simp add: extends_def)

lemma extends_trans: "extends g Q s s' \<Longrightarrow> extends g Q s' s'' \<Longrightarrow> extends g Q s s''"
  unfolding extends_def by (meson subset_trans)

lemma extends_mono: "extends g Q s s' \<Longrightarrow> Q \<subseteq> R \<Longrightarrow> extends g R s s'"
  unfolding extends_def by blast

definition closed_by :: "'a fc_state \<Rightarrow> 'a list \<Rightarrow> 'a \<Rightarrow> bool" where
  "closed_by s path c \<longleftrightarrow> represented (fc_cycles s) (dropWhile (\<lambda>x. x \<noteq> c) path)"

lemma closed_by_mono: "closed_by s path c \<Longrightarrow> extends g Q s s' \<Longrightarrow> closed_by s' path c"
  unfolding closed_by_def extends_def by (meson represented_mono)

lemma fc_children_spec:
  assumes "simple_path g path" "\<And>c. c \<in> set cs \<Longrightarrow> edge g (last path) c"
  shows "\<exists>paths' s'. fc_children path cs (paths, s) = Inr (paths', s')
    \<and> extends g {path @ [c] | c. c \<in> set cs \<and> c \<notin> set path} s s'
    \<and> (\<forall>c \<in> set cs \<inter> set path. closed_by s' path c)"
  using assms(2)
proof (induction cs arbitrary: paths s)
  case (Cons c cs)
  let ?Q = "\<lambda>cs. {path @ [c] | c. c \<in> set cs \<and> c \<notin> set path}"
  have sub: "?Q cs \<subseteq> ?Q (c # cs)" by auto
  have e: "edge g (last path) c" using Cons.prems by simp
  have IH: "\<exists>paths' s'. fc_children path cs (paths, s) = Inr (paths', s')
    \<and> extends g (?Q (c # cs)) s s' \<and> (\<forall>c \<in> set cs \<inter> set path. closed_by s' path c)" for paths s
    using Cons.IH [of paths s] Cons.prems extends_mono [OF _ sub] by (meson list.set_intros(2))
  show ?case
  proof (cases "c \<in> set path")
    case True
    let ?cy = "dropWhile (\<lambda>x. x \<noteq> c) path"
    have cy: "simple_cycle g ?cy" using closing_suffix [OF assms(1) True e] .
    then have ne: "?cy \<noteq> []" by (simp add: simple_cycle_def simple_path_def)
    define s1 where "s1 = (if represented (fc_cycles s) ?cy then s
      else s\<lparr>fc_cycles := fc_cycles s @ [?cy]\<rparr>)"
    have ext: "extends g (?Q (c # cs)) s s1"
      using cy by (auto simp: s1_def extends_def no_dups_snoc)
    have "closed_by s1 path c"
      unfolding s1_def closed_by_def represented_def by (auto intro: bexI [of _ ?cy])
    moreover obtain paths' s' where r: "fc_children path cs (paths, s1) = Inr (paths', s')"
      "extends g (?Q (c # cs)) s1 s'" "\<forall>c \<in> set cs \<inter> set path. closed_by s' path c"
      using IH [of paths s1] by blast
    ultimately have "closed_by s' path c" using closed_by_mono [OF _ r(2)] by blast
    moreover have "fc_children path (c # cs) (paths, s) = Inr (paths', s')"
      using r(1) True by (simp add: is_dup_represented [OF ne] s1_def Let_def)
    ultimately show ?thesis using r(2,3) extends_trans [OF ext r(2)] by auto
  next
    case False
    let ?s = "s\<lparr>fc_visited := insert c (fc_visited s)\<rparr>"
    have "simple_path g (path @ [c])"
      using assms(1) e False simple_path_append [of path "[c]" g] by (auto simp: simple_path_def)
    then have ext: "extends g (?Q (c # cs)) s ?s"
      using False by (auto simp: extends_def intro!: exI [of _ "path @ [c]"])
    obtain paths' s' where r: "fc_children path cs (paths @ [path @ [c]], ?s) = Inr (paths', s')"
      "extends g (?Q (c # cs)) ?s s'" "\<forall>c \<in> set cs \<inter> set path. closed_by s' path c"
      using IH [of "paths @ [path @ [c]]" ?s] by blast
    then show ?thesis using False extends_trans [OF ext r(2)] by auto
  qed
qed simp

text \<open>All simple paths that extend one of \<open>paths\<close>.\<close>

definition extensions :: "'a graph \<Rightarrow> 'a list list \<Rightarrow> 'a list set" where
  "extensions g paths = {p @ r | p r. p \<in> set paths \<and> simple_path g (p @ r)}"

lemma extensionsI: "p \<in> set paths \<Longrightarrow> simple_path g (p @ r) \<Longrightarrow> p @ r \<in> extensions g paths"
  unfolding extensions_def by blast

lemma extensions_cases:
  "q \<in> extensions g paths \<longleftrightarrow> (\<exists>p r. q = p @ r \<and> p \<in> set paths \<and> simple_path g q)"
  by (auto simp: extensions_def)

text \<open>Popping a path and pushing its one-step extensions loses only the path itself.\<close>

lemma extensions_push:
  assumes sp: "simple_path g path" and edges: "\<And>c. edge g (last path) c \<longleftrightarrow> c \<in> set cs"
    and paths2: "set paths2 = set paths' \<union> {path @ [c] | c. c \<in> set cs \<and> c \<notin> set path}"
  shows "extensions g (paths' @ [path]) = insert path (extensions g paths2)" (is "?L = ?R")
proof (intro subset_antisym subsetI)
  have ne: "path \<noteq> []" using sp by (simp add: simple_path_def)
  fix q assume "q \<in> ?L"
  then obtain p r where q: "q = p @ r" "p = path \<or> p \<in> set paths'" "simple_path g q"
    by (auto simp: extensions_def)
  show "q \<in> ?R"
  proof (cases "p = path \<and> r \<noteq> []")
    case True
    then obtain c r' where r: "r = c # r'" by (cases r) auto
    with q True have "c \<in> set cs" "c \<notin> set path"
      using simple_path_append [of path r g] ne edges by auto
    then have "path @ [c] \<in> set paths2" using paths2 by blast
    then have "(path @ [c]) @ r' \<in> extensions g paths2"
      using q True r by (intro extensionsI) simp_all
    then show ?thesis using q True r by simp
  next
    case False
    with q paths2 show ?thesis by (auto simp: extensions_def)
  qed
next
  fix q assume "q \<in> ?R"
  then consider "q = path" | p r where "q = p @ r" "p \<in> set paths'" "simple_path g q"
    | c r where "q = path @ c # r" "simple_path g q"
    unfolding insert_iff extensions_cases paths2 by fastforce
  then show "q \<in> ?L"
    by cases (use extensionsI [of path "paths' @ [path]" g] extensionsI [of _ "paths' @ [path]" g] sp
      in \<open>simp_all, metis append_Nil2\<close>)
qed

lemma fc_while_spec:
  assumes "\<forall>p \<in> set paths. simple_path g p"
  shows "\<exists>s'. fc_while g paths s = Inr s' \<and> extends g (extensions g paths) s s'
    \<and> (\<forall>q \<in> extensions g paths. \<forall>c \<in> set q. edge g (last q) c \<longrightarrow> closed_by s' q c)"
  using assms
proof (induction g paths s rule: fc_while.induct)
  case (1 g paths s)
  show ?case
  proof (cases "paths = []")
    case True
    then show ?thesis by (subst fc_while.simps) (simp add: extensions_def)
  next
    case False
    define path paths' where "path = last paths" and "paths' = butlast paths"
    have paths: "paths = paths' @ [path]" using False by (simp add: path_def paths'_def)
    have sp: "simple_path g path" and sp': "\<forall>p \<in> set paths'. simple_path g p"
      using "1.prems" by (auto simp: paths)
    then have ne: "path \<noteq> []" by (simp add: simple_path_def)
    show ?thesis
    proof (cases "map_of g (last path)")
      case None
      then have no: "\<not> edge g (last path) c" for c by (simp add: edge_def)
      have exts: "extensions g paths = insert path (extensions g paths')"
        unfolding paths using no by (intro extensions_push [OF sp, of "[]"]) auto
      obtain s' where "fc_while g paths' s = Inr s'" "extends g (extensions g paths') s s'"
        "\<forall>q \<in> extensions g paths'. \<forall>c \<in> set q. edge g (last q) c \<longrightarrow> closed_by s' q c"
        using "1.IH"(1) [OF False path_def paths'_def ne None sp'] by blast
      moreover have "fc_while g paths s = fc_while g paths' s"
        using False ne None by (subst fc_while.simps) (simp add: path_def paths'_def)
      ultimately show ?thesis
        using extends_mono [OF _ subset_insertI, of g "extensions g paths'" s s' path] no
        by (auto simp: exts)
    next
      case (Some cs)
      have edges: "edge g (last path) c \<longleftrightarrow> c \<in> set cs" for c using Some by (simp add: edge_def)
      let ?new = "{path @ [c] | c. c \<in> set cs \<and> c \<notin> set path}"
      obtain paths2 s1 where k: "fc_children path cs (paths', s) = Inr (paths2, s1)"
        "extends g ?new s s1" "\<forall>c \<in> set cs \<inter> set path. closed_by s1 path c"
        using fc_children_spec [OF sp, of cs paths' s] edges by blast
      have paths2: "set paths2 = set paths' \<union> ?new"
        using fc_children_paths [OF k(1)] by auto
      have exts: "extensions g paths = insert path (extensions g paths2)"
        unfolding paths by (rule extensions_push [OF sp edges paths2])
      have new: "simple_path g p \<and> p \<in> extensions g paths" if "p \<in> ?new" for p
        using that sp edges ne simple_path_append [of path _ g] extensionsI [of path paths g]
        by (auto simp: paths)
      have "\<forall>p \<in> set paths2. simple_path g p" using paths2 sp' new by blast
      then obtain s' where w: "fc_while g paths2 s1 = Inr s'" "extends g (extensions g paths2) s1 s'"
        "\<forall>q \<in> extensions g paths2. \<forall>c \<in> set q. edge g (last q) c \<longrightarrow> closed_by s' q c"
        using "1.IH"(2) [OF False path_def paths'_def ne Some k(1)] by blast
      have "extends g (extensions g paths) s s'"
        using new by (intro extends_trans [OF extends_mono [OF k(2)] extends_mono [OF w(2)]]) (auto simp: exts)
      moreover have "fc_while g paths s = Inr s'"
        using False ne Some k(1) w(1) by (subst fc_while.simps) (simp add: path_def paths'_def)
      moreover have "closed_by s' path c" if "c \<in> set path" "edge g (last path) c" for c
        using that k(3) edges closed_by_mono [OF _ w(2)] by blast
      ultimately show ?thesis using w(3) unfolding exts by blast
    qed
  qed
qed

section \<open>Soundness and completeness of find_cycles\<close>

lemma simple_cycle_rotate:
  assumes "simple_cycle g (xs @ ys)"
  shows "simple_cycle g (ys @ xs)"
proof (cases "xs = [] \<or> ys = []")
  case False
  with assms show ?thesis
    using simple_path_append [of xs ys g] simple_path_append [of ys xs g]
    by (auto simp: simple_cycle_def)
qed (use assms in auto)

text \<open>
  A cycle that meets a simple path from \<open>s\<close> is closed by a simple path from \<open>s\<close>: follow the
  path to its first node on the cycle, then go round.
\<close>

lemma cycle_from_start:
  assumes q: "simple_path g q" "hd q = s" "w \<in> set q" and c: "simple_cycle g c" "w \<in> set c"
    and closed: "\<And>p e. simple_path g p \<Longrightarrow> hd p = s \<Longrightarrow> e \<in> set p \<Longrightarrow> edge g (last p) e \<Longrightarrow> closed_by t p e"
  shows "represented (fc_cycles t) c"
proof -
  obtain q1 x q2 where split: "q = q1 @ x # q2" "x \<in> set c" "\<forall>y \<in> set q1. y \<notin> set c"
    using split_list_first_prop [of q "\<lambda>y. y \<in> set c"] q(3) c(2) by blast
  obtain a b where ab: "c = a @ x # b" using split_list [OF split(2)] by blast
  define c' where "c' = x # b @ a"
  have cyc': "simple_cycle g c'" using simple_cycle_rotate [of g a "x # b"] c(1) ab by (simp add: c'_def)
  have rot: "rotation_of c c'" using rotation_split [of a "x # b"] by (simp add: ab c'_def)
  have set': "set c' = set c" "hd c' = x" "c' \<noteq> []" by (auto simp: ab c'_def)
  have p: "simple_path g (q1 @ c')"
  proof (cases "q1 = []")
    case False
    have q1: "simple_path g q1" "edge g (last q1) x"
      using q(1) split False simple_path_append [of q1 "x # q2" g] by auto
    have "set q1 \<inter> set c' = {}" using split(3) set' by blast
    with q1 False cyc' set' show ?thesis
      using simple_path_append [of q1 c' g] by (simp add: simple_cycle_def)
  qed (use cyc' in \<open>simp add: simple_cycle_def\<close>)
  have "hd (q1 @ c') = s" using q(2) split set' by (cases q1) auto
  moreover have "x \<in> set (q1 @ c')" by (simp add: c'_def)
  moreover have "edge g (last (q1 @ c')) x" using cyc' set' by (simp add: simple_cycle_def)
  ultimately have "closed_by t (q1 @ c') x" using closed [OF p] by blast
  moreover have "dropWhile (\<lambda>y. y \<noteq> x) (q1 @ c') = c'"
    using split(2,3) dropWhile_split [of x q1 "b @ a"] by (auto simp: c'_def)
  ultimately show ?thesis using represented_rotation [OF _ rot] by (simp add: closed_by_def)
qed

definition fc_inv :: "'a graph \<Rightarrow> 'a fc_state \<Rightarrow> bool" where
  "fc_inv g s \<longleftrightarrow> no_dups (fc_cycles s) \<and> (\<forall>c \<in> set (fc_cycles s). simple_cycle g c)
     \<and> (\<forall>w \<in> fc_visited s. \<forall>c. simple_cycle g c \<longrightarrow> w \<in> set c \<longrightarrow> represented (fc_cycles s) c)"

lemma extensions_single: "extensions g [[v]] = {q. simple_path g q \<and> hd q = v}"
proof (intro subset_antisym subsetI)
  fix q assume "q \<in> {q. simple_path g q \<and> hd q = v}"
  then have "simple_path g q" "q = [v] @ tl q" by (auto simp: simple_path_def)
  then show "q \<in> extensions g [[v]]" using extensionsI [of "[v]" "[[v]]" g "tl q"] by simp
qed (auto simp: extensions_def)

lemma fc_start_inv:
  assumes "fc_inv g s"
  shows "\<exists>s'. fc_start g v s = Inr s' \<and> fc_inv g s' \<and> set (fc_cycles s) \<subseteq> set (fc_cycles s')
    \<and> (\<forall>c. simple_cycle g c \<longrightarrow> v \<in> set c \<longrightarrow> represented (fc_cycles s') c)"
proof (cases "v \<in> fc_visited s")
  case True
  with assms show ?thesis by (auto simp: fc_start_def fc_inv_def)
next
  case False
  obtain s' where s': "fc_while g [[v]] s = Inr s'" and ext: "extends g {q. simple_path g q \<and> hd q = v} s s'"
    and closed: "\<And>q c. simple_path g q \<Longrightarrow> hd q = v \<Longrightarrow> c \<in> set q \<Longrightarrow> edge g (last q) c \<Longrightarrow> closed_by s' q c"
    using fc_while_spec [of "[[v]]" g s] by (auto simp: extensions_single)
  have cover: "represented (fc_cycles s') c"
    if "simple_cycle g c" "w \<in> set c" "simple_path g q" "hd q = v" "w \<in> set q" for c w q
    using cycle_from_start [OF that(3-5,1,2) closed] .
  have "represented (fc_cycles s') c" if "simple_cycle g c" "v \<in> set c" for c
    using cover [OF that, of "[v]"] by simp
  moreover have "represented (fc_cycles s') c"
    if w: "w \<in> fc_visited s'" and c: "simple_cycle g c" "w \<in> set c" for w c
  proof (cases "w \<in> fc_visited s")
    case True
    then have "represented (fc_cycles s) c" using assms c by (auto simp: fc_inv_def)
    then show ?thesis using ext represented_mono unfolding extends_def by blast
  next
    case False
    then obtain q where q: "simple_path g q" "hd q = v" "last q = w"
      using w ext unfolding extends_def by blast
    then have "w \<in> set q" by (auto simp: simple_path_def)
    then show ?thesis using cover [OF c q(1,2)] by blast
  qed
  ultimately have "fc_inv g s'" using assms ext by (auto simp: fc_inv_def extends_def)
  moreover have "fc_start g v s = Inr s'" using False s' by (simp add: fc_start_def)
  ultimately show ?thesis using cover [of _ v "[v]"] ext by (auto simp: extends_def)
qed

lemma fc_loop_spec:
  assumes "fc_inv g s"
  shows "\<exists>s'. fold_res (fc_start g) vs s = Inr s' \<and> fc_inv g s' \<and> set (fc_cycles s) \<subseteq> set (fc_cycles s')
    \<and> (\<forall>c. simple_cycle g c \<longrightarrow> set c \<inter> set vs \<noteq> {} \<longrightarrow> represented (fc_cycles s') c)"
  using assms
proof (induction vs arbitrary: s)
  case (Cons v vs)
  obtain s1 where s1: "fc_start g v s = Inr s1" "fc_inv g s1" "set (fc_cycles s) \<subseteq> set (fc_cycles s1)"
    "\<forall>c. simple_cycle g c \<longrightarrow> v \<in> set c \<longrightarrow> represented (fc_cycles s1) c"
    using fc_start_inv [OF Cons.prems] by blast
  obtain s2 where s2: "fold_res (fc_start g) vs s1 = Inr s2" "fc_inv g s2"
    "set (fc_cycles s1) \<subseteq> set (fc_cycles s2)"
    "\<forall>c. simple_cycle g c \<longrightarrow> set c \<inter> set vs \<noteq> {} \<longrightarrow> represented (fc_cycles s2) c"
    using Cons.IH [OF s1(2)] by blast
  have "represented (fc_cycles s2) c" if "simple_cycle g c" "set c \<inter> set (v # vs) \<noteq> {}" for c
    using that s1(4) s2(4) represented_mono [OF _ s2(3)] by (cases "v \<in> set c") auto
  with s1 s2 show ?case by auto
qed simp

lemma cycle_has_key: "simple_cycle g c \<Longrightarrow> set c \<inter> set (keys g) \<noteq> {}"
proof -
  assume c: "simple_cycle g c"
  then have "c \<noteq> []" "edge g (last c) (hd c)" by (auto simp: simple_cycle_def simple_path_def)
  then have "last c \<in> set c" "map_of g (last c) \<noteq> None" by (auto simp: edge_def)
  then have "last c \<in> set c \<inter> set (keys g)" by (simp add: map_of_eq_None_iff)
  then show ?thesis by blast
qed

text \<open>
  C9. \<open>find_cycles\<close> returns (the search stops) and yields exactly one representative of every
  simple cycle of the graph: every yielded list is a simple cycle, no two yielded lists are
  rotations of each other, and every simple cycle of the graph is a rotation of a yielded one.
\<close>

theorem find_cycles_correct:
  assumes "key_order ko"
  shows "\<exists>cs. find_cycles ko g = Inr cs
    \<and> (\<forall>c \<in> set cs. simple_cycle g c)
    \<and> (\<forall>i < length cs. \<forall>j < i. \<not> rotation_of (cs ! i) (cs ! j))
    \<and> (\<forall>c. simple_cycle g c \<longrightarrow> (\<exists>d \<in> set cs. rotation_of c d))"
proof -
  have "fc_inv g \<lparr>fc_cycles = [], fc_visited = {}\<rparr>" by (simp add: fc_inv_def no_dups_def)
  from fc_loop_spec [OF this, of "ko (keys g)"] obtain s where
    s: "fold_res (fc_start g) (ko (keys g)) \<lparr>fc_cycles = [], fc_visited = {}\<rparr> = Inr s" "fc_inv g s"
    "\<forall>c. simple_cycle g c \<longrightarrow> set c \<inter> set (ko (keys g)) \<noteq> {} \<longrightarrow> represented (fc_cycles s) c"
    by blast
  have "find_cycles ko g = Inr (fc_cycles s)" by (simp add: find_cycles_def s(1))
  moreover have "\<not> rotation_of (fc_cycles s ! i) (fc_cycles s ! j)"
    if "i < length (fc_cycles s)" "j < i" for i j
  proof -
    have "fc_cycles s ! j \<in> set (take i (fc_cycles s))" using that by (auto simp: in_set_conv_nth)
    then show ?thesis using s(2) that by (auto simp: fc_inv_def no_dups_def represented_def)
  qed
  moreover have "represented (fc_cycles s) c" if "simple_cycle g c" for c
    using s(3) that cycle_has_key [OF that] by (simp add: key_order_set [OF assms])
  ultimately show ?thesis using s(2) unfolding fc_inv_def represented_def by blast
qed

theorem find_cycles_correct_witness:
  "find_cycles id [(''A'', [''B1'', ''B2'']), (''B1'', [''C'']), (''B2'', [''C'']), (''C'', [''A'', ''B1''])]
     = Inr [[''A'', ''B2'', ''C''], [''C'', ''B1''], [''A'', ''B1'', ''C'']]
   \<and> (\<exists>cs. find_cycles id [(''A'', [''B'']), (''B'', [''A''])] = Inr cs
        \<and> (\<forall>c \<in> set cs. simple_cycle [(''A'', [''B'']), (''B'', [''A''])] c))"
proof
  show "\<exists>cs. find_cycles id [(''A'', [''B'']), (''B'', [''A''])] = Inr cs
      \<and> (\<forall>c \<in> set cs. simple_cycle [(''A'', [''B'']), (''B'', [''A''])] c)"
    using find_cycles_correct [of id "[(''A'', [''B'']), (''B'', [''A''])]"] by auto
qed code_simp

end
