(* ===== verification/CheckStyle.thy ===== *)
theory CheckStyle
  imports PyBase
begin

text \<open>
  The style checker \<open>utils/check-style.py\<close>. The patch data model (\<open>PatchChunkLine\<close>,
  \<open>PatchChunk\<close>, \<open>Patch\<close>), the parser and the printer of unified diffs, the filter that puts
  trailing blanks back, and the driver that runs the external \<open>uncrustify\<close> and \<open>patch\<close>
  programs on a file system.

  A patch is a value, and the two references the parser keeps into it are positions: the
  current patch is the last one of the patch set and the current chunk is a pair of indices,
  which can point into an earlier patch than the current one, as in the code. The lists
  \<open>src()\<close> and \<open>dst()\<close> of a chunk share their line objects with the chunk; the filter, which
  updates lines through them, works on the indices of the chunk's lines.

  The file system is a dictionary from paths to contents. \<open>uncrustify\<close>, \<open>patch\<close>, the line
  matching of \<open>difflib.unified_diff\<close> and the name choice of \<open>mkstemp\<close> are parameters.
\<close>

abbreviation newline :: char where "newline \<equiv> CHR 0x0A"

section \<open>Regular expressions of the parser\<close>

text \<open>The expression \<open>^prefix(.*)$\<close> on a string: the dot excludes a newline and \<open>$\<close> matches at the
  end or before a final newline.\<close>

definition re_line :: "string \<Rightarrow> string \<Rightarrow> string option" where
  "re_line p s =
     (if prefix p s then
        let t = drop (length p) s; body = takeWhile (\<lambda>c. c \<noteq> newline) t;
            rest = dropWhile (\<lambda>c. c \<noteq> newline) t
        in if rest = [] \<or> rest = [newline] then Some body else None
      else None)"

text \<open>\<open>^@@ -([0-9]+),([0-9]+) \+([0-9]+),([0-9]+) @@\<close>; the groups 1 and 3 are used.\<close>

definition re_chunk_start :: "string \<Rightarrow> (string \<times> string) option" where
  "re_chunk_start s =
     Option.bind (re_lit ''@@ -'' s) (\<lambda>s1.
     Option.bind (re_digits s1) (\<lambda>(g1, s2).
     Option.bind (re_lit '','' s2) (\<lambda>s3.
     Option.bind (re_digits s3) (\<lambda>(g2, s4).
     Option.bind (re_lit '' +'' s4) (\<lambda>s5.
     Option.bind (re_digits s5) (\<lambda>(g3, s6).
     Option.bind (re_lit '','' s6) (\<lambda>s7.
     Option.bind (re_digits s7) (\<lambda>(g4, s8).
     Option.bind (re_lit '' @@'' s8) (\<lambda>s9. Some (g1, g3))))))))))"

definition is_blank :: "char \<Rightarrow> bool" where
  "is_blank c \<longleftrightarrow> c = CHR '' '' \<or> c = CHR 0x09"

text \<open>\<open>^(.*)([ \t]+)$\<close>: the first group is greedy, so the second holds the last character only.\<close>

definition re_whitespace :: "string \<Rightarrow> (string \<times> string) option" where
  "re_whitespace s =
     Option.bind (re_line [] s) (\<lambda>b.
       if b \<noteq> [] \<and> is_blank (last b) then Some (butlast b, [last b]) else None)"

section \<open>Patches\<close>

datatype line_type = NoType | SRC | DST | BOTH

record patch_chunk_line =
  ltype :: line_type
  ltext :: string

record patch_chunk =
  clines :: "patch_chunk_line list"
  src_pos :: int
  dst_pos :: int

record patch =
  psrc :: string
  pdst :: string
  chunks :: "patch_chunk list"

definition PatchChunkLine_init :: patch_chunk_line where
  "PatchChunkLine_init = \<lparr> ltype = NoType, ltext = [] \<rparr>"

definition set_src :: "string \<Rightarrow> patch_chunk_line \<Rightarrow> patch_chunk_line" where
  "set_src s l = l\<lparr> ltype := SRC, ltext := s \<rparr>"

definition set_dst :: "string \<Rightarrow> patch_chunk_line \<Rightarrow> patch_chunk_line" where
  "set_dst s l = l\<lparr> ltype := DST, ltext := s \<rparr>"

definition set_both :: "string \<Rightarrow> patch_chunk_line \<Rightarrow> patch_chunk_line" where
  "set_both s l = l\<lparr> ltype := BOTH, ltext := s \<rparr>"

definition append_to_line :: "string \<Rightarrow> patch_chunk_line \<Rightarrow> patch_chunk_line" where
  "append_to_line s l = l\<lparr> ltext := ltext l @ s \<rparr>"

definition is_src :: "patch_chunk_line \<Rightarrow> bool" where
  "is_src l \<longleftrightarrow> ltype l = SRC \<or> ltype l = BOTH"

definition is_dst :: "patch_chunk_line \<Rightarrow> bool" where
  "is_dst l \<longleftrightarrow> ltype l = DST \<or> ltype l = BOTH"

definition line_write :: "patch_chunk_line \<Rightarrow> string res" where
  "line_write l =
     (case ltype l of
        SRC \<Rightarrow> Inr (''-'' @ ltext l @ [newline])
      | DST \<Rightarrow> Inr (''+'' @ ltext l @ [newline])
      | BOTH \<Rightarrow> Inr ('' '' @ ltext l @ [newline])
      | NoType \<Rightarrow> Inl (PyException ''invalid patch''))"

definition PatchChunk_init :: "string \<Rightarrow> string \<Rightarrow> patch_chunk" where
  "PatchChunk_init s d =
     \<lparr> clines = [], src_pos = int (nat_of_digits s), dst_pos = int (nat_of_digits d) \<rparr>"

definition add_line :: "patch_chunk_line \<Rightarrow> patch_chunk \<Rightarrow> patch_chunk" where
  "add_line l c = c\<lparr> clines := clines c @ [l] \<rparr>"

definition chunk_src :: "patch_chunk \<Rightarrow> patch_chunk_line list" where
  "chunk_src c = filter is_src (clines c)"

definition chunk_dst :: "patch_chunk \<Rightarrow> patch_chunk_line list" where
  "chunk_dst c = filter is_dst (clines c)"

definition src_len :: "patch_chunk \<Rightarrow> nat" where
  "src_len c = length (chunk_src c)"

definition dst_len :: "patch_chunk \<Rightarrow> nat" where
  "dst_len c = length (chunk_dst c)"

definition chunk_header :: "patch_chunk \<Rightarrow> string" where
  "chunk_header c = ''@@ -'' @ int_str (src_pos c) @ '','' @ nat_str (src_len c)
     @ '' +'' @ int_str (dst_pos c) @ '','' @ nat_str (dst_len c) @ '' @@'' @ [newline]"

text \<open>\<open>write\<close> returns the strings it writes to the file, in order.\<close>

definition chunk_write :: "patch_chunk \<Rightarrow> string list res" where
  "chunk_write c = bind_res (map_res line_write (clines c)) (\<lambda>ls. Inr (chunk_header c # ls))"

definition Patch_init :: patch where
  "Patch_init = \<lparr> psrc = [], pdst = [], chunks = [] \<rparr>"

definition add_chunk :: "patch_chunk \<Rightarrow> patch \<Rightarrow> patch" where
  "add_chunk c p = p\<lparr> chunks := chunks p @ [c] \<rparr>"

definition patch_write :: "patch \<Rightarrow> string list res" where
  "patch_write p =
     bind_res (map_res chunk_write (chunks p)) (\<lambda>cs.
       Inr ([''--- '' @ psrc p @ [newline], ''+++ '' @ pdst p @ [newline]] @ concat cs))"

section \<open>Parsing\<close>

record parse_state =
  patchset :: "patch list"
  current_chunk :: "(nat \<times> nat) option"

definition parse_init :: parse_state where
  "parse_init = \<lparr> patchset = [], current_chunk = None \<rparr>"

definition update_last :: "('a \<Rightarrow> 'a) \<Rightarrow> 'a list \<Rightarrow> 'a list" where
  "update_last f xs = xs[length xs - 1 := f (last xs)]"

definition new_line :: "patch_chunk_line \<Rightarrow> parse_state \<Rightarrow> parse_state res" where
  "new_line l st =
     (case current_chunk st of
        None \<Rightarrow> Inl UnboundLocalError
      | Some (i, j) \<Rightarrow>
          let p = patchset st ! i
          in Inr (st\<lparr> patchset := (patchset st)[i :=
                    p\<lparr> chunks := (chunks p)[j := add_line l (chunks p ! j)] \<rparr>] \<rparr>))"

definition parse_line :: "string \<Rightarrow> parse_state \<Rightarrow> parse_state res" where
  "parse_line line st =
     (case re_line ''--- '' line of Some g \<Rightarrow>
        Inr (st\<lparr> patchset := patchset st @ [Patch_init\<lparr> psrc := g \<rparr>] \<rparr>)
      | None \<Rightarrow>
     (case re_line ''+++ '' line of Some g \<Rightarrow>
        if patchset st = [] then Inl AttributeError
        else Inr (st\<lparr> patchset := update_last (\<lambda>p. p\<lparr> pdst := g \<rparr>) (patchset st) \<rparr>)
      | None \<Rightarrow>
     (case re_chunk_start line of Some (a, b) \<Rightarrow>
        if patchset st = [] then Inl AttributeError
        else Inr (st\<lparr> patchset := update_last (add_chunk (PatchChunk_init a b)) (patchset st),
                      current_chunk := Some (length (patchset st) - 1,
                                             length (chunks (last (patchset st)))) \<rparr>)
      | None \<Rightarrow>
     (case re_line ''-'' line of Some g \<Rightarrow> new_line (set_src g PatchChunkLine_init) st
      | None \<Rightarrow>
     (case re_line ''+'' line of Some g \<Rightarrow> new_line (set_dst g PatchChunkLine_init) st
      | None \<Rightarrow>
     (case re_line '' '' line of Some g \<Rightarrow> new_line (set_both g PatchChunkLine_init) st
      | None \<Rightarrow> Inl (PyException [])))))))"

definition parse_patchset :: "string list \<Rightarrow> patch list res" where
  "parse_patchset generator =
     bind_res (fold_res parse_line generator parse_init) (\<lambda>st. Inr (patchset st))"

section \<open>Restoring trailing blanks\<close>

definition src_indices :: "patch_chunk_line list \<Rightarrow> nat list" where
  "src_indices ls = filter (\<lambda>k. is_src (ls ! k)) [0..<length ls]"

definition dst_indices :: "patch_chunk_line list \<Rightarrow> nat list" where
  "dst_indices ls = filter (\<lambda>k. is_dst (ls ! k)) [0..<length ls]"

text \<open>The loop body for one \<open>i\<close>, on the indices \<open>s\<close> and \<open>d\<close> of the two line objects.\<close>

definition restore_one :: "nat \<Rightarrow> nat \<Rightarrow> patch_chunk_line list \<Rightarrow> patch_chunk_line list" where
  "restore_one s d ls =
     (case re_whitespace (ltext (ls ! s)) of
        None \<Rightarrow> ls
      | Some (g1, g2) \<Rightarrow>
          if g1 = ltext (ls ! d) then ls[d := append_to_line g2 (ls ! d)] else ls)"

text \<open>The loop over \<open>range(0, len(src))\<close>; the flag says that \<open>dst[i]\<close> raised.\<close>

fun restore_lines :: "nat list \<Rightarrow> nat list \<Rightarrow> patch_chunk_line list \<Rightarrow> bool \<times> patch_chunk_line list"
  where
  "restore_lines [] ds ls = (False, ls)"
| "restore_lines (s # ss) [] ls = (True, ls)"
| "restore_lines (s # ss) (d # ds) ls = restore_lines ss ds (restore_one s d ls)"

definition restore_chunk :: "patch_chunk \<Rightarrow> bool \<times> patch_chunk" where
  "restore_chunk c =
     (let (stop, ls) = restore_lines (src_indices (clines c)) (dst_indices (clines c)) (clines c)
      in (stop, c\<lparr> clines := ls \<rparr>))"

text \<open>The two outer loops: the bare \<open>except\<close> returns the patch set as it is at that point.\<close>

fun restore_chunks :: "patch_chunk list \<Rightarrow> bool \<times> patch_chunk list" where
  "restore_chunks [] = (False, [])"
| "restore_chunks (c # cs) =
     (let (stop, c') = restore_chunk c
      in if stop then (True, c' # cs)
         else let (stop', cs') = restore_chunks cs in (stop', c' # cs'))"

fun restore_patches :: "patch list \<Rightarrow> patch list" where
  "restore_patches [] = []"
| "restore_patches (p # ps) =
     (let (stop, cs) = restore_chunks (chunks p)
      in p\<lparr> chunks := cs \<rparr> # (if stop then ps else restore_patches ps))"

definition remove_trailing_whitespace_changes :: "string list \<Rightarrow> patch list res" where
  "remove_trailing_whitespace_changes gen =
     bind_res (parse_patchset gen) (\<lambda>ps. Inr (restore_patches ps))"

section \<open>The uncrustify configuration\<close>

definition cfg_level2 :: string where
  "cfg_level2 = str_join [CHR 0x0A]
    ['''',
     ''nl_collapse_empty_body=False'',
     ''nl_if_brace=Add'',
     ''nl_brace_else=Add'',
     ''nl_elseif_brace=Add'',
     ''nl_else_brace=Add'',
     ''nl_while_brace=Add'',
     ''nl_do_brace=Add'',
     ''nl_for_brace=Add'',
     ''nl_brace_while=Add'',
     ''nl_switch_brace=Add'',
     ''nl_after_case=True'',
     ''nl_namespace_brace=Remove'',
     ''nl_after_brace_open=True'',
     ''nl_class_leave_one_liners=False'',
     ''nl_enum_leave_one_liners=False'',
     ''nl_func_leave_one_liners=False'',
     ''nl_if_leave_one_liners=False'',
     ''nl_class_colon=Ignore'',
     ''nl_after_access_spec=1'',
     ''nl_after_semicolon=True'',
     ''pos_class_colon=Lead'',
     ''pos_class_comma=Trail'',
     ''pos_bool=Lead'',
     ''nl_class_init_args=Add'',
     ''nl_template_class=Add'',
     ''nl_class_brace=Add'',
     ''# does not work very well'',
     ''nl_func_type_name=Ignore'',
     ''nl_func_scope_name=Ignore'',
     ''nl_func_type_name_class=Ignore'',
     ''nl_func_proto_type_name=Ignore'',
     ''# function'' @ [CHR 0x5C] @ ''n('',
     ''nl_func_paren=Remove'',
     ''nl_fdef_brace=Add'',
     ''nl_struct_brace=Add'',
     ''nl_enum_brace=Add'',
     ''nl_union_brace=Add'',
     ''mod_full_brace_do=Add'',
     ''mod_full_brace_for=Add'',
     ''mod_full_brace_if=Add'',
     ''mod_full_brace_while=Add'',
     ''mod_full_brace_for=Add'',
     ''mod_remove_extra_semicolon=True'',
     ''# max code width'',
     ''#code_width=128'',
     ''#ls_for_split_full=True'',
     ''#ls_func_split_full=True'',
     '''']"

definition cfg_level1 :: string where
  "cfg_level1 = str_join [CHR 0x0A]
    ['''',
     ''# extra spaces here and there'',
     ''sp_brace_typedef=Add'',
     ''sp_enum_assign=Add'',
     ''sp_before_sparen=Add'',
     ''sp_after_semi_for=Add'',
     ''sp_arith=Add'',
     ''sp_assign=Add'',
     ''sp_compare=Add'',
     ''sp_func_class_paren=Add'',
     ''sp_after_type=Add'',
     ''sp_type_func=Add'',
     ''sp_angle_paren=Add'',
     '''']"

definition cfg_level0 :: string where
  "cfg_level0 = str_join [CHR 0x0A]
    ['''',
     ''sp_func_proto_paren=Add'',
     ''sp_func_def_paren=Add'',
     ''sp_func_call_paren=Add'',
     ''sp_after_semi_for=Ignore'',
     ''sp_before_sparen=Ignore'',
     ''sp_type_func=Ignore'',
     ''sp_after_type=Ignore'',
     ''nl_class_leave_one_liners=True'',
     ''nl_enum_leave_one_liners=True'',
     ''nl_func_leave_one_liners=True'',
     ''nl_assign_leave_one_liners=True'',
     ''#nl_collapse_empty_body=False'',
     ''nl_getset_leave_one_liners=True'',
     ''nl_if_leave_one_liners=True'',
     ''nl_fdef_brace=Ignore'',
     ''# finally, indentation configuration'',
     ''indent_with_tabs=0'',
     ''indent_namespace=false'',
     ''indent_columns=2'',
     ''indent_brace=2'',
     ''indent_case_brace=2'',
     ''indent_class=true'',
     ''indent_class_colon=True'',
     ''# alignment'',
     ''indent_align_assign=False'',
     ''align_left_shift=True'',
     ''# comment reformating disabled'',
     ''cmt_reflow_mode=1 # do not touch comments at all'',
     ''cmt_indent_multi=False # really, do not touch them'',
     '''']"

definition uncrustify_config_text :: "int \<Rightarrow> string" where
  "uncrustify_config_text level =
     cfg_level0 @ (if level \<ge> 1 then cfg_level1 else []) @ (if level \<ge> 2 then cfg_level2 else [])"

section \<open>Files and external programs\<close>

record world =
  files :: "(string, string) dict"
  err :: "string list"
  out :: "string list"

text \<open>
  The programs and library routines the driver calls. \<open>mk\<close> chooses the name of a temporary
  file given the paths in use; \<open>uncrustify\<close> maps the configuration and the source to the
  contents it writes (\<open>None\<close> when it writes nothing) and its two output streams, and
  \<open>patch_prog\<close> maps a diff and a file to the patched file and the streams; the absence of
  either program is the outer \<open>None\<close>. \<open>unified_diff\<close> takes the two lists of lines and the two
  file names; \<open>same_stat\<close> says that two paths have the same \<open>os.stat\<close> signature.
\<close>

record tools =
  mk :: "string list \<Rightarrow> string"
  uncrustify :: "(string \<Rightarrow> string option \<Rightarrow> string option \<times> string \<times> string) option"
  unified_diff :: "string list \<Rightarrow> string list \<Rightarrow> string \<Rightarrow> string \<Rightarrow> string list"
  patch_prog :: "(string \<Rightarrow> string \<Rightarrow> string \<times> string \<times> string) option"
  same_stat :: "world \<Rightarrow> string \<Rightarrow> string \<Rightarrow> bool"

definition write_file :: "string \<Rightarrow> string \<Rightarrow> world \<Rightarrow> world" where
  "write_file p c w = w\<lparr> files := AList.update p c (files w) \<rparr>"

definition mkstemp :: "tools \<Rightarrow> world \<Rightarrow> string \<times> world" where
  "mkstemp t w = (let p = mk t (keys (files w)) in (p, write_file p [] w))"

definition read_file :: "string \<Rightarrow> world \<Rightarrow> string res" where
  "read_file p w = (case map_of (files w) p of None \<Rightarrow> Inl IOError | Some c \<Rightarrow> Inr c)"

fun readlines :: "string \<Rightarrow> string list" where
  "readlines [] = []"
| "readlines (c # cs) =
     (if c = newline then [c] # readlines cs
      else (case readlines cs of [] \<Rightarrow> [[c]] | l # ls \<Rightarrow> (c # l) # ls))"

definition log_err :: "bool \<Rightarrow> string \<Rightarrow> world \<Rightarrow> world" where
  "log_err debug s w = (if debug then w\<lparr> err := err w @ [s] \<rparr> else w)"

definition print_out :: "string \<Rightarrow> world \<Rightarrow> world" where
  "print_out s w = w\<lparr> out := out w @ [s] \<rparr>"

definition hg_modified_files :: "string list \<Rightarrow> string list" where
  "hg_modified_files popen = map str_strip popen"

definition copy_file :: "tools \<Rightarrow> string \<Rightarrow> world \<Rightarrow> (string \<times> world) res" where
  "copy_file t filename w =
     (let (pathname, w1) = mkstemp t w
      in bind_res (read_file filename w1) (\<lambda>c.
           Inr (pathname, write_file pathname (concat (readlines c)) w1)))"

definition uncrustify_config_file :: "tools \<Rightarrow> int \<Rightarrow> world \<Rightarrow> string \<times> world" where
  "uncrustify_config_file t level w =
     (let (pathname, w1) = mkstemp t w
      in (pathname, write_file pathname (uncrustify_config_text level) w1))"

section \<open>The driver\<close>

text \<open>First part of \<open>indent\<close>: run \<open>uncrustify\<close>.\<close>

definition run_uncrustify ::
  "tools \<Rightarrow> string \<Rightarrow> bool \<Rightarrow> string \<Rightarrow> string \<Rightarrow> world \<Rightarrow> world res" where
  "run_uncrustify t source debug cfg output w =
     (case uncrustify t of
        None \<Rightarrow> Inl (PyException ''uncrustify not installed'')
      | Some u \<Rightarrow>
          bind_res (read_file cfg w) (\<lambda>c.
            let (res, o1, e1) = u c (map_of (files w) source);
                w1 = (case res of None \<Rightarrow> w | Some r \<Rightarrow> write_file output r w)
            in Inr (log_err debug e1 (log_err debug o1 w1))))"

text \<open>Second part: the diff is a generator, and writing the debug copy consumes it.\<close>

definition make_diff ::
  "tools \<Rightarrow> string \<Rightarrow> bool \<Rightarrow> string \<Rightarrow> world \<Rightarrow> (string list \<times> world) res" where
  "make_diff t source debug output w =
     bind_res (read_file source w) (\<lambda>s.
     bind_res (read_file output w) (\<lambda>d.
       let diff = unified_diff t (readlines s) (readlines d) source output
       in if debug then
            let (initial_diff, w1) = mkstemp t w;
                w2 = log_err debug (''initial diff file='' @ initial_diff @ [newline]) w1
            in Inr ([], write_file initial_diff (concat diff) w2)
          else Inr (diff, w)))"

text \<open>Third part: the final diff.\<close>

definition final_diff_text :: "int \<Rightarrow> string list \<Rightarrow> string res" where
  "final_diff_text level diff =
     (if level < 3 then
        bind_res (remove_trailing_whitespace_changes diff) (\<lambda>ps.
          case ps of [] \<Rightarrow> Inr []
          | p # _ \<Rightarrow> bind_res (patch_write p) (\<lambda>ls. Inr (concat ls)))
      else Inr (concat diff))"

text \<open>Last part: copy the source over the output and patch it.\<close>

definition apply_diff ::
  "tools \<Rightarrow> string \<Rightarrow> bool \<Rightarrow> string \<Rightarrow> string \<Rightarrow> world \<Rightarrow> (string \<times> world) res" where
  "apply_diff t source debug output final_diff w =
     bind_res (read_file source w) (\<lambda>s.
       let w1 = write_file output s w
       in case patch_prog t of
            None \<Rightarrow> Inl OSError
          | Some pr \<Rightarrow>
              bind_res (read_file final_diff w1) (\<lambda>fd.
                let (r, o1, e1) = pr fd s
                in Inr (output, log_err debug e1 (log_err debug o1 (write_file output r w1)))))"

definition indent :: "tools \<Rightarrow> string \<Rightarrow> bool \<Rightarrow> int \<Rightarrow> world \<Rightarrow> (string \<times> world) res" where
  "indent t source debug level w =
     (let (output, w1) = mkstemp t w;
          (cfg, w2) = uncrustify_config_file t level w1;
          w3 = log_err debug (''temporary file='' @ output @ [newline])
                 (log_err debug (''uncrustify config file='' @ cfg @ [newline])
                   (log_err debug (''original file='' @ source @ [newline]) w2))
      in bind_res (run_uncrustify t source debug cfg output w3) (\<lambda>w4.
         bind_res (make_diff t source debug output w4) (\<lambda>(diff, w5).
           let (final_diff, w6) = mkstemp t w5
           in bind_res (final_diff_text level diff) (\<lambda>fd.
                let w7 = write_file final_diff fd w6;
                    w8 = log_err debug (''final diff file='' @ final_diff @ [newline]) w7
                in apply_diff t source debug output final_diff w8))))"

definition filecmp_cmp :: "tools \<Rightarrow> world \<Rightarrow> string \<Rightarrow> string \<Rightarrow> bool res" where
  "filecmp_cmp t w a b =
     bind_res (read_file a w) (\<lambda>x. bind_res (read_file b w) (\<lambda>y. Inr (same_stat t w a b \<or> x = y)))"

definition indent_all ::
  "tools \<Rightarrow> bool \<Rightarrow> int \<Rightarrow> string list \<Rightarrow> world \<Rightarrow> ((string \<times> string) list \<times> world) res" where
  "indent_all t debug level fs w =
     fold_res (\<lambda>f (output, w). bind_res (indent t f debug level w) (\<lambda>(dst, w').
                 Inr (output @ [(f, dst)], w'))) fs ([], w)"

definition copy_inplace :: "(string \<times> string) list \<Rightarrow> world \<Rightarrow> world res" where
  "copy_inplace output w =
     fold_res (\<lambda>(src, dst) w. bind_res (read_file dst w) (\<lambda>c. Inr (write_file src c w))) output w"

definition find_failed ::
  "tools \<Rightarrow> world \<Rightarrow> (string \<times> string) list \<Rightarrow> (string \<times> string) list res" where
  "find_failed t w output =
     fold_res (\<lambda>(src, dst) failed. bind_res (filecmp_cmp t w src dst) (\<lambda>same.
                 Inr (if \<not> same then failed @ [(src, dst)] else failed))) output []"

definition report_failed ::
  "tools \<Rightarrow> bool \<Rightarrow> (string \<times> string) list \<Rightarrow> world \<Rightarrow> world res" where
  "report_failed t diff failed w =
     (if \<not> diff then
        Inr (fold (\<lambda>(src, dst). print_out (''  '' @ src)) failed
              (print_out (''Found '' @ nat_str (length failed) @ '' badly indented files:'') w))
      else
        fold_res (\<lambda>(src, dst) w.
          bind_res (read_file src w) (\<lambda>s. bind_res (read_file dst w) (\<lambda>d.
            Inr (fold print_out (unified_diff t (readlines s) (readlines d) src dst) w)))) failed w)"

definition indent_files ::
  "tools \<Rightarrow> string list \<Rightarrow> bool \<Rightarrow> bool \<Rightarrow> int \<Rightarrow> bool \<Rightarrow> world \<Rightarrow> (bool \<times> world) res" where
  "indent_files t fs diff debug level inplace w =
     bind_res (indent_all t debug level fs w) (\<lambda>(output, w1).
       if inplace then bind_res (copy_inplace output w1) (\<lambda>w2. Inr (True, w2))
       else bind_res (find_failed t w1 output) (\<lambda>failed.
              if length failed > 0
              then bind_res (report_failed t diff failed w1) (\<lambda>w2. Inr (False, w2))
              else Inr (True, w1)))"

definition run_as_hg_hook :: "tools \<Rightarrow> string list \<Rightarrow> world \<Rightarrow> (bool \<times> world) res" where
  "run_as_hg_hook t popen w =
     bind_res (indent_files t (hg_modified_files popen) False False 0 False w) (\<lambda>(ok, w').
       Inr (\<not> ok, w'))"

record cs_options =
  o_debug :: bool
  o_level :: int
  o_hg_hook :: bool
  o_hg :: bool
  o_file :: string
  o_diff :: bool
  o_in_place :: bool

text \<open>\<open>run_as_main\<close> always ends in \<open>sys.exit\<close>; the value is the exit status.\<close>

definition run_as_main ::
  "tools \<Rightarrow> cs_options \<Rightarrow> string list \<Rightarrow> world \<Rightarrow> (int \<times> world) res" where
  "run_as_main t opt popen w =
     (if o_hg_hook opt then
        bind_res (indent_files t (hg_modified_files popen) False (o_debug opt) (o_level opt) False w)
          (\<lambda>(ok, w'). if \<not> ok then Inr (1, w') else Inr (0, w'))
      else if o_hg opt then
        bind_res (indent_files t (hg_modified_files popen) (o_diff opt) (o_debug opt) (o_level opt)
                    (o_in_place opt) w) (\<lambda>(ok, w'). Inr (0, w'))
      else if o_file opt \<noteq> [] then
        (if map_of (files w) (o_file opt) = None
         then Inr (1, print_out (''file '' @ o_file opt @ '' does not exist'') w)
         else bind_res (indent_files t [o_file opt] (o_diff opt) (o_debug opt) (o_level opt)
                          (o_in_place opt) w) (\<lambda>(ok, w'). Inr (0, w')))
      else Inr (0, w))"

section \<open>Regular expressions\<close>

lemma re_line_write:
  assumes "newline \<notin> set b"
  shows "re_line p (p @ b @ [newline]) = Some b"
  using assms by (auto simp: re_line_def Let_def takeWhile_append dropWhile_append)

lemma re_line_noprefix: "\<not> prefix p s \<Longrightarrow> re_line p s = None"
  by (simp add: re_line_def)

lemma re_line_Some: "re_line p s = Some b \<Longrightarrow> newline \<notin> set b"
  by (auto simp: re_line_def Let_def split: if_splits dest: set_takeWhileD)

lemma re_line_Nil: "newline \<notin> set b \<Longrightarrow> re_line [] b = Some b"
  by (auto simp: re_line_def Let_def takeWhile_eq_all_conv dropWhile_eq_Nil_conv)

lemma re_chunk_start_header:
  assumes "0 \<le> src_pos c" "0 \<le> dst_pos c"
  shows "re_chunk_start (chunk_header c) = Some (int_str (src_pos c), int_str (dst_pos c))"
proof -
  have lit: "re_lit ''@@ -'' (CHR ''@'' # CHR ''@'' # CHR '' '' # CHR ''-'' # s) = Some s"
    "re_lit '','' (CHR '','' # s) = Some s" "re_lit '' +'' (CHR '' '' # CHR ''+'' # s) = Some s"
    "re_lit '' @@'' (CHR '' '' # CHR ''@'' # CHR ''@'' # s) = Some s" for s
    by (simp_all add: re_lit_def)
  show ?thesis using assms
    by (simp add: re_chunk_start_def chunk_header_def int_str_def lit re_digits_nat_str is_digit_def)
qed

lemma re_whitespace_iff:
  assumes "newline \<notin> set s"
  shows "re_whitespace s = Some (a, b) \<longleftrightarrow> (\<exists>c. is_blank c \<and> b = [c] \<and> s = a @ [c])"
  using assms by (cases s rule: rev_cases) (auto simp: re_whitespace_def re_line_Nil)

lemma re_whitespace_blank: "re_whitespace s = Some (a, b) \<Longrightarrow> \<exists>c. is_blank c \<and> b = [c]"
  by (auto simp: re_whitespace_def split: if_splits bind_splits)

section \<open>Parsing what was written\<close>

definition wf_line :: "patch_chunk_line \<Rightarrow> bool" where
  "wf_line l \<longleftrightarrow> ltype l \<noteq> NoType \<and> newline \<notin> set (ltext l)"

definition wf_chunk :: "patch_chunk \<Rightarrow> bool" where
  "wf_chunk c \<longleftrightarrow> 0 \<le> src_pos c \<and> 0 \<le> dst_pos c \<and> list_all wf_line (clines c)"

definition wf_patch :: "patch \<Rightarrow> bool" where
  "wf_patch p \<longleftrightarrow> newline \<notin> set (psrc p) \<and> newline \<notin> set (pdst p) \<and> list_all wf_chunk (chunks p)"

text \<open>A removed line that starts with two dashes and a blank, or an added line that starts
  with two plus signs and a blank, prints like a file header.\<close>

definition header_like :: "patch_chunk_line \<Rightarrow> bool" where
  "header_like l \<longleftrightarrow> ltype l = SRC \<and> prefix ''-- '' (ltext l)
     \<or> ltype l = DST \<and> prefix ''++ '' (ltext l)"

definition unambiguous :: "patch \<Rightarrow> bool" where
  "unambiguous p \<longleftrightarrow> list_all (\<lambda>c. list_all (\<lambda>l. \<not> header_like l) (clines c)) (chunks p)"

definition line_text :: "patch_chunk_line \<Rightarrow> string" where
  "line_text l = (case ltype l of SRC \<Rightarrow> ''-'' | DST \<Rightarrow> ''+'' | BOTH \<Rightarrow> '' '' | NoType \<Rightarrow> [])
     @ ltext l @ [newline]"

definition chunk_texts :: "patch_chunk \<Rightarrow> string list" where
  "chunk_texts c = chunk_header c # map line_text (clines c)"

definition patch_texts :: "patch \<Rightarrow> string list" where
  "patch_texts p = [''--- '' @ psrc p @ [newline], ''+++ '' @ pdst p @ [newline]]
     @ concat (map chunk_texts (chunks p))"

lemma line_write_wf: "wf_line l \<Longrightarrow> line_write l = Inr (line_text l)"
  by (auto simp: wf_line_def line_write_def line_text_def split: line_type.splits)

lemma chunk_write_wf: "wf_chunk c \<Longrightarrow> chunk_write c = Inr (chunk_texts c)"
  by (simp add: wf_chunk_def chunk_write_def chunk_texts_def list_all_iff line_write_wf
      map_res_all [where g = line_text])

lemma patch_write_wf: "wf_patch p \<Longrightarrow> patch_write p = Inr (patch_texts p)"
  by (simp add: wf_patch_def patch_write_def patch_texts_def list_all_iff chunk_write_wf
      map_res_all [where g = chunk_texts])

text \<open>The state of the parser in the middle of a chunk.\<close>

definition at_chunk :: "patch list \<Rightarrow> patch \<Rightarrow> patch_chunk \<Rightarrow> parse_state" where
  "at_chunk ps p c = \<lparr> patchset = ps @ [add_chunk c p],
     current_chunk = Some (length ps, length (chunks p)) \<rparr>"

lemma update_last_snoc [simp]: "update_last f (xs @ [x]) = xs @ [f x]"
  by (simp add: update_last_def)

lemma new_line_at_chunk: "new_line l (at_chunk ps p c) = Inr (at_chunk ps p (add_line l c))"
  by (simp add: new_line_def at_chunk_def add_chunk_def add_line_def)

lemma re_chunk_start_hd: "s \<noteq> [] \<Longrightarrow> hd s \<noteq> CHR ''@'' \<Longrightarrow> re_chunk_start s = None"
  by (cases s) (simp_all add: re_chunk_start_def re_lit_def)

lemma parse_line_text:
  assumes "wf_line l" "\<not> header_like l"
  shows "parse_line (line_text l) (at_chunk ps p c) = Inr (at_chunk ps p (add_line l c))"
proof -
  have l: "add_line \<lparr> ltype = ltype l, ltext = ltext l \<rparr> c = add_line l c" by (cases l) simp
  have w: "re_line ''-'' (CHR ''-'' # ltext l @ [newline]) = Some (ltext l)"
    "re_line ''+'' (CHR ''+'' # ltext l @ [newline]) = Some (ltext l)"
    "re_line '' '' (CHR '' '' # ltext l @ [newline]) = Some (ltext l)"
    using assms(1) re_line_write [of "ltext l" "''-''"] re_line_write [of "ltext l" "''+''"]
      re_line_write [of "ltext l" "'' ''"] by (simp_all add: wf_line_def)
  have pre: "\<not> prefix q (ltext l @ [newline])" if "\<not> prefix q (ltext l)" "newline \<notin> set q" for q
    using that by (auto simp: prefix_snoc)
  show ?thesis
  proof (cases "ltype l")
    case SRC
    then have "\<not> prefix ''-- '' (ltext l @ [newline])"
      using assms(2) by (intro pre) (auto simp: header_like_def)
    with SRC l [unfolded SRC] show ?thesis
      by (simp add: parse_line_def line_text_def re_line_noprefix re_chunk_start_hd w
          new_line_at_chunk set_src_def PatchChunkLine_init_def)
  next
    case DST
    then have "\<not> prefix ''++ '' (ltext l @ [newline])"
      using assms(2) by (intro pre) (auto simp: header_like_def)
    with DST l [unfolded DST] show ?thesis
      by (simp add: parse_line_def line_text_def re_line_noprefix re_chunk_start_hd w
          new_line_at_chunk set_dst_def PatchChunkLine_init_def)
  next
    case BOTH
    with l [unfolded BOTH] show ?thesis
      by (simp add: parse_line_def line_text_def re_line_noprefix re_chunk_start_hd w
          new_line_at_chunk set_both_def PatchChunkLine_init_def)
  qed (use assms in \<open>simp add: wf_line_def\<close>)
qed

lemma parse_line_texts:
  assumes "list_all wf_line ls" "list_all (\<lambda>l. \<not> header_like l) ls"
  shows "fold_res parse_line (map line_text ls) (at_chunk ps p c)
    = Inr (at_chunk ps p (c\<lparr> clines := clines c @ ls \<rparr>))"
  using assms
  by (induction ls arbitrary: c) (simp_all add: parse_line_text add_line_def)

lemma nat_of_digits_int_str: "0 \<le> i \<Longrightarrow> int (nat_of_digits (int_str i)) = i"
  by (simp add: int_str_def)

lemma chunk_header_not_file: "\<not> prefix ''--- '' (chunk_header c)" "\<not> prefix ''+++ '' (chunk_header c)"
  by (simp_all add: chunk_header_def)

lemma parse_chunk_texts:
  assumes "wf_chunk c" "list_all (\<lambda>l. \<not> header_like l) (clines c)" "patchset st = ps @ [p]"
  shows "fold_res parse_line (chunk_texts c) st = Inr (at_chunk ps p c)"
proof -
  have "parse_line (chunk_header c) st = Inr (at_chunk ps p (c\<lparr> clines := [] \<rparr>))"
    using assms
    by (cases st; cases c) (simp add: parse_line_def re_line_noprefix chunk_header_not_file re_chunk_start_header
        wf_chunk_def at_chunk_def PatchChunk_init_def nat_of_digits_int_str)
  then show ?thesis
    using assms parse_line_texts [of "clines c" ps p "c\<lparr> clines := [] \<rparr>"]
    by (simp add: chunk_texts_def wf_chunk_def)
qed

lemma parse_chunks_texts:
  assumes "list_all wf_chunk cs" "list_all (\<lambda>c. list_all (\<lambda>l. \<not> header_like l) (clines c)) cs"
    and "patchset st = ps @ [p]"
  shows "\<exists>st'. fold_res parse_line (concat (map chunk_texts cs)) st = Inr st'
    \<and> patchset st' = ps @ [p\<lparr> chunks := chunks p @ cs \<rparr>]"
  using assms
proof (induction cs arbitrary: st p)
  case (Cons c cs)
  have "fold_res parse_line (chunk_texts c) st = Inr (at_chunk ps p c)"
    using Cons.prems by (intro parse_chunk_texts) auto
  moreover obtain st' where "fold_res parse_line (concat (map chunk_texts cs)) (at_chunk ps p c)
      = Inr st'" "patchset st' = ps @ [(add_chunk c p)\<lparr> chunks := chunks (add_chunk c p) @ cs \<rparr>]"
    using Cons.IH [of "at_chunk ps p c" "add_chunk c p"] Cons.prems by (auto simp: at_chunk_def)
  ultimately show ?case by (simp add: fold_res_append add_chunk_def)
qed simp

lemma parse_patch_texts:
  assumes "wf_patch p" "unambiguous p"
  shows "\<exists>st'. fold_res parse_line (patch_texts p) st = Inr st' \<and> patchset st' = patchset st @ [p]"
proof -
  let ?p = "\<lparr> psrc = psrc p, pdst = pdst p, chunks = [] \<rparr>"
  have "re_line ''--- '' (''--- '' @ psrc p @ [newline]) = Some (psrc p)"
    "re_line ''+++ '' (''+++ '' @ pdst p @ [newline]) = Some (pdst p)"
    using assms(1) by (intro re_line_write; simp add: wf_patch_def)+
  then have "fold_res parse_line [''--- '' @ psrc p @ [newline], ''+++ '' @ pdst p @ [newline]] st
      = Inr (st\<lparr> patchset := patchset st @ [?p] \<rparr>)"
    by (simp add: parse_line_def re_line_noprefix Patch_init_def)
  moreover obtain st' where "fold_res parse_line (concat (map chunk_texts (chunks p)))
        (st\<lparr> patchset := patchset st @ [?p] \<rparr>) = Inr st'" "patchset st' = patchset st @ [p]"
    using parse_chunks_texts [of "chunks p" "st\<lparr> patchset := patchset st @ [?p] \<rparr>" "patchset st" ?p]
      assms by (auto simp: wf_patch_def unambiguous_def)
  ultimately show ?thesis by (simp add: patch_texts_def fold_res_append del: append_Cons fold_res.simps)
qed

lemma parse_patches_texts:
  assumes "list_all wf_patch ps" "list_all unambiguous ps"
  shows "\<exists>st'. fold_res parse_line (concat (map patch_texts ps)) st = Inr st'
    \<and> patchset st' = patchset st @ ps"
  using assms
proof (induction ps arbitrary: st)
  case (Cons p ps)
  obtain st1 where 1: "fold_res parse_line (patch_texts p) st = Inr st1"
    "patchset st1 = patchset st @ [p]" using parse_patch_texts Cons.prems by auto
  obtain st2 where "fold_res parse_line (concat (map patch_texts ps)) st1 = Inr st2"
    "patchset st2 = patchset st1 @ ps" using Cons by auto
  with 1 show ?case by (simp add: fold_res_append)
qed simp

text \<open>
  C33. Printing and parsing a patch set are inverse: every well-formed patch set (typed lines without
  newlines, nonnegative positions) in which no removed or added line looks like a file header
  is written without an exception, and \<open>parse_patchset\<close> reads the same patch set back.
\<close>

theorem parse_write_roundtrip:
  assumes "list_all wf_patch ps" and "list_all unambiguous ps"
  shows "\<exists>ls. map_res patch_write ps = Inr ls \<and> parse_patchset (concat ls) = Inr ps"
proof -
  have "map_res patch_write ps = Inr (map patch_texts ps)"
    using assms(1) by (intro map_res_all patch_write_wf) (auto simp: list_all_iff)
  moreover have "parse_patchset (concat (map patch_texts ps)) = Inr ps"
    using parse_patches_texts [OF assms, of parse_init] by (auto simp: parse_patchset_def parse_init_def)
  ultimately show ?thesis by simp
qed

theorem parse_write_roundtrip_witness:
  "\<exists>ls. map_res patch_write [\<lparr> psrc = ''a'', pdst = ''b'', chunks =
      [\<lparr> clines = [\<lparr> ltype = SRC, ltext = ''x '' \<rparr>, \<lparr> ltype = DST, ltext = ''x'' \<rparr>,
                   \<lparr> ltype = BOTH, ltext = ''}'' \<rparr>], src_pos = 12, dst_pos = 12 \<rparr>] \<rparr>] = Inr ls
    \<and> parse_patchset (concat ls) = Inr [\<lparr> psrc = ''a'', pdst = ''b'', chunks =
      [\<lparr> clines = [\<lparr> ltype = SRC, ltext = ''x '' \<rparr>, \<lparr> ltype = DST, ltext = ''x'' \<rparr>,
                   \<lparr> ltype = BOTH, ltext = ''}'' \<rparr>], src_pos = 12, dst_pos = 12 \<rparr>] \<rparr>]"
  by (rule parse_write_roundtrip)
    (simp_all add: wf_patch_def wf_chunk_def wf_line_def unambiguous_def header_like_def)

section \<open>Every parsed diff can be printed\<close>

definition parse_inv :: "parse_state \<Rightarrow> bool" where
  "parse_inv st \<longleftrightarrow> list_all wf_patch (patchset st)
     \<and> (case current_chunk st of None \<Rightarrow> True
        | Some (i, j) \<Rightarrow> i < length (patchset st) \<and> j < length (chunks (patchset st ! i)))"

lemma parse_inv_init: "parse_inv parse_init"
  by (simp add: parse_inv_def parse_init_def)

lemma list_all_update: "list_all P xs \<Longrightarrow> P x \<Longrightarrow> list_all P (xs[i := x])"
  by (auto simp: list_all_iff dest: set_update_subset_insert [THEN subsetD])

lemma list_all_nth: "list_all P xs \<Longrightarrow> i < length xs \<Longrightarrow> P (xs ! i)"
  by (simp add: list_all_length)

lemma update_last_nth:
  "i < length xs \<Longrightarrow> update_last f xs ! i = (if i = length xs - 1 then f (xs ! i) else xs ! i)"
  by (cases xs rule: rev_cases) (auto simp: nth_append)

lemma update_last_length [simp]: "length (update_last f xs) = length xs"
  by (simp add: update_last_def)

lemma update_last_all: "list_all P xs \<Longrightarrow> xs \<noteq> [] \<Longrightarrow> P (f (last xs)) \<Longrightarrow> list_all P (update_last f xs)"
  by (simp add: update_last_def list_all_update)

lemma new_line_inv:
  assumes "parse_inv st" "wf_line l" "new_line l st = Inr st'"
  shows "parse_inv st'"
proof -
  obtain i j where ij: "current_chunk st = Some (i, j)" "i < length (patchset st)"
    "j < length (chunks (patchset st ! i))" "list_all wf_patch (patchset st)"
    using assms by (auto simp: parse_inv_def new_line_def split: option.splits)
  let ?p = "patchset st ! i"
  have "wf_patch ?p" using ij by (simp add: list_all_nth)
  then have "wf_chunk (chunks ?p ! j)" using ij(3) by (simp add: wf_patch_def list_all_nth)
  then have "wf_chunk (add_line l (chunks ?p ! j))"
    using assms(2) by (simp add: wf_chunk_def add_line_def)
  then have "wf_patch (?p\<lparr> chunks := (chunks ?p)[j := add_line l (chunks ?p ! j)] \<rparr>)"
    using \<open>wf_patch ?p\<close> by (simp add: wf_patch_def list_all_update)
  then show ?thesis
    using ij assms(3) by (auto simp: new_line_def parse_inv_def Let_def list_all_update)
qed

lemma wf_new_lines:
  "newline \<notin> set g \<Longrightarrow> wf_line (set_src g PatchChunkLine_init)"
  "newline \<notin> set g \<Longrightarrow> wf_line (set_dst g PatchChunkLine_init)"
  "newline \<notin> set g \<Longrightarrow> wf_line (set_both g PatchChunkLine_init)"
  by (simp_all add: wf_line_def set_src_def set_dst_def set_both_def)

lemma parse_inv_snoc:
  "parse_inv st \<Longrightarrow> newline \<notin> set g
    \<Longrightarrow> parse_inv (st\<lparr> patchset := patchset st @ [Patch_init\<lparr> psrc := g \<rparr>] \<rparr>)"
  by (auto simp: parse_inv_def wf_patch_def Patch_init_def nth_append split: option.splits)

lemma parse_inv_dst:
  assumes "parse_inv st" "newline \<notin> set g" "patchset st \<noteq> []"
  shows "parse_inv (st\<lparr> patchset := update_last (\<lambda>p. p\<lparr> pdst := g \<rparr>) (patchset st) \<rparr>)"
proof -
  have "wf_patch (last (patchset st))" using assms by (simp add: parse_inv_def list_all_iff)
  then have "wf_patch ((last (patchset st))\<lparr> pdst := g \<rparr>)" using assms(2) by (simp add: wf_patch_def)
  then show ?thesis using assms
    by (auto simp: parse_inv_def update_last_all update_last_nth split: option.splits)
qed

lemma parse_inv_chunk:
  assumes "parse_inv st" "patchset st \<noteq> []"
  shows "parse_inv (st\<lparr> patchset := update_last (add_chunk (PatchChunk_init a b)) (patchset st),
    current_chunk := Some (length (patchset st) - 1, length (chunks (last (patchset st)))) \<rparr>)"
proof -
  have "wf_patch (last (patchset st))" using assms by (simp add: parse_inv_def list_all_iff)
  then have "wf_patch (add_chunk (PatchChunk_init a b) (last (patchset st)))"
    by (simp add: wf_patch_def add_chunk_def wf_chunk_def PatchChunk_init_def)
  then show ?thesis using assms
    by (simp add: parse_inv_def update_last_all update_last_nth add_chunk_def last_conv_nth)
qed

lemma parse_line_inv:
  assumes "parse_inv st" "parse_line line st = Inr st'"
  shows "parse_inv st'"
  using assms unfolding parse_line_def
  by (auto split: option.splits if_splits prod.splits dest!: re_line_Some
      intro: parse_inv_snoc parse_inv_dst parse_inv_chunk [simplified] new_line_inv wf_new_lines)

lemma parse_patchset_wf: "parse_patchset gen = Inr ps \<Longrightarrow> list_all wf_patch ps"
  using fold_res_invariant [of parse_line gen parse_init _ parse_inv]
  by (auto simp: parse_patchset_def bind_res_Inr_iff parse_inv_init parse_line_inv)
    (metis parse_inv_def parse_inv_init parse_line_inv)

lemma restore_one_wf: "list_all wf_line ls \<Longrightarrow> d < length ls \<Longrightarrow> list_all wf_line (restore_one s d ls)"
  by (auto simp: restore_one_def append_to_line_def wf_line_def is_blank_def
      split: option.splits dest!: re_whitespace_blank intro!: list_all_update dest: list_all_nth)

lemma restore_one_length [simp]: "length (restore_one s d ls) = length ls"
  by (simp add: restore_one_def split: option.splits prod.splits)

lemma restore_lines_wf:
  "list_all wf_line ls \<Longrightarrow> list_all (\<lambda>d. d < length ls) ds
    \<Longrightarrow> list_all wf_line (snd (restore_lines ss ds ls))"
  by (induction ss ds ls rule: restore_lines.induct) (simp_all add: restore_one_wf)

lemma restore_chunk_wf: "wf_chunk c \<Longrightarrow> wf_chunk (snd (restore_chunk c))"
  using restore_lines_wf [of "clines c" "dst_indices (clines c)" "src_indices (clines c)"]
  by (auto simp: restore_chunk_def wf_chunk_def list_all_iff dst_indices_def split: prod.splits)

lemma restore_chunks_wf: "list_all wf_chunk cs \<Longrightarrow> list_all wf_chunk (snd (restore_chunks cs))"
proof (induction cs)
  case (Cons c cs)
  then have "wf_chunk (snd (restore_chunk c))" by (simp add: restore_chunk_wf)
  with Cons show ?case by (auto split: prod.splits)
qed simp

lemma restore_patches_wf: "list_all wf_patch ps \<Longrightarrow> list_all wf_patch (restore_patches ps)"
proof (induction ps)
  case (Cons p ps)
  then have "list_all wf_chunk (snd (restore_chunks (chunks p)))"
    by (simp add: restore_chunks_wf wf_patch_def)
  with Cons show ?case by (auto simp: wf_patch_def split: prod.splits)
qed simp

text \<open>
  The final diff of \<open>indent\<close> is produced exactly when the style level keeps the diff as it is or
  the diff parses: whatever \<open>parse_patchset\<close> accepts, the blank filter and \<open>Patch.write\<close>
  process without the exception 'invalid patch'.
\<close>

theorem final_diff_text_total:
  "(\<exists>fd. final_diff_text level diff = Inr fd) \<longleftrightarrow> 3 \<le> level \<or> (\<exists>ps. parse_patchset diff = Inr ps)"
proof (cases "parse_patchset diff")
  case (Inr ps)
  then have "list_all wf_patch (restore_patches ps)"
    by (simp add: parse_patchset_wf restore_patches_wf)
  with Inr show ?thesis
    by (auto simp: final_diff_text_def remove_trailing_whitespace_changes_def patch_write_wf
        split: list.splits)
qed (simp add: final_diff_text_def remove_trailing_whitespace_changes_def)

section \<open>What the filter changes\<close>

definition keep_blank :: "string \<Rightarrow> string \<Rightarrow> string" where
  "keep_blank s d = (if s \<noteq> [] \<and> is_blank (last s) \<and> butlast s = d then s else d)"

definition aligned :: "patch_chunk \<Rightarrow> bool" where
  "aligned c \<longleftrightarrow> list_all2 (\<lambda>s d. s = d \<or> ltype (clines c ! d) = DST)
     (src_indices (clines c)) (take (src_len c) (dst_indices (clines c)))"

lemma keep_blank_self [simp]: "keep_blank s s = s"
  by (simp add: keep_blank_def)

lemma restore_one_eq:
  assumes "newline \<notin> set (ltext (ls ! s))" "d < length ls"
  shows "restore_one s d ls = ls[d := (ls ! d)\<lparr> ltext := keep_blank (ltext (ls ! s)) (ltext (ls ! d)) \<rparr>]"
proof (cases "re_whitespace (ltext (ls ! s))")
  case None
  then have "\<not> (ltext (ls ! s) \<noteq> [] \<and> is_blank (last (ltext (ls ! s))))"
    using assms by (auto simp: re_whitespace_def re_line_Nil split: if_splits)
  with None show ?thesis by (auto simp: restore_one_def keep_blank_def)
next
  case (Some p)
  then obtain a b where "re_whitespace (ltext (ls ! s)) = Some (a, b)" by (cases p) auto
  then obtain c where "is_blank c" "b = [c]" "ltext (ls ! s) = a @ [c]"
    using re_whitespace_iff assms(1) by metis
  with Some \<open>re_whitespace _ = Some (a, b)\<close> show ?thesis
    by (auto simp: restore_one_def keep_blank_def append_to_line_def)
qed

lemma filter_indices: "filter P xs = map ((!) xs) (filter (\<lambda>k. P (xs ! k)) [0..<length xs])"
proof -
  have "filter P xs = filter P (map ((!) xs) [0..<length xs])" by (simp add: map_nth)
  then show ?thesis by (simp add: filter_map o_def)
qed

lemma restore_lines_aligned:
  assumes "list_all wf_line ls" "distinct ds" "list_all (\<lambda>d. d < length ls) ds"
    and "list_all (\<lambda>s. is_src (ls ! s) \<and> s < length ls) ss"
    and "list_all2 (\<lambda>s d. s = d \<or> ltype (ls ! d) = DST) ss (take (length ss) ds)"
  shows "\<exists>ls'. restore_lines ss ds ls = (False, ls') \<and> length ls' = length ls
    \<and> (\<forall>k. k \<notin> set (take (length ss) ds) \<longrightarrow> ls' ! k = ls ! k)
    \<and> (\<forall>i < length ss. ls' ! (ds ! i)
         = (ls ! (ds ! i))\<lparr> ltext := keep_blank (ltext (ls ! (ss ! i))) (ltext (ls ! (ds ! i))) \<rparr>)"
  using assms
proof (induction ss ds ls rule: restore_lines.induct)
  case (3 s ss d ds ls)
  let ?l = "(ls ! d)\<lparr> ltext := keep_blank (ltext (ls ! s)) (ltext (ls ! d)) \<rparr>"
  let ?ls = "ls[d := ?l]"
  have nl: "newline \<notin> set (ltext (ls ! s))"
    using 3 by (auto simp: wf_line_def list_all_length)
  have one: "restore_one s d ls = ?ls" using nl 3 by (simp add: restore_one_eq)
  have same: "?ls ! s' = ls ! s'" if "s' \<in> set (s # ss)" for s'
  proof (cases "s' = d")
    case True
    then have "is_src (ls ! d)" using 3 that by (auto simp: list_all_iff)
    then have "s = d" using 3 by (auto simp: is_src_def)
    then show ?thesis by simp
  qed simp
  have ty: "ltype (?ls ! k) = ltype (ls ! k)" for k
    by (cases "k = d"; cases "d < length ls") (simp_all add: list_update_beyond)
  have "list_all (\<lambda>s. is_src (?ls ! s) \<and> s < length ?ls) ss"
    using 3 by (simp add: list_all_iff is_src_def ty)
  moreover have "list_all2 (\<lambda>s d. s = d \<or> ltype (?ls ! d) = DST) ss (take (length ss) ds)"
    using 3 by (simp add: ty)
  ultimately obtain ls' where ls': "restore_lines ss ds ?ls = (False, ls')" "length ls' = length ls"
    "\<forall>k. k \<notin> set (take (length ss) ds) \<longrightarrow> ls' ! k = ?ls ! k"
    "\<forall>i < length ss. ls' ! (ds ! i)
       = (?ls ! (ds ! i))\<lparr> ltext := keep_blank (ltext (?ls ! (ss ! i))) (ltext (?ls ! (ds ! i))) \<rparr>"
    using "3.IH" restore_one_wf [of ls d s] 3 unfolding one by auto
  have len: "length ss \<le> length ds" using 3 by (auto dest!: list_all2_lengthD)
  have "ls' ! d = ?l"
    using ls'(3) 3 by (auto dest: in_set_takeD)
  moreover have "ls' ! (ds ! i) = (ls ! (ds ! i))\<lparr> ltext := keep_blank (ltext (ls ! (ss ! i)))
      (ltext (ls ! (ds ! i))) \<rparr>" if "i < length ss" for i
  proof -
    have "ds ! i \<noteq> d" using 3 that len by auto
    then show ?thesis using ls'(4) that same [of "ss ! i"] by simp
  qed
  ultimately have "\<forall>i < length (s # ss). ls' ! ((d # ds) ! i) = (ls ! ((d # ds) ! i))\<lparr> ltext :=
      keep_blank (ltext (ls ! ((s # ss) ! i))) (ltext (ls ! ((d # ds) ! i))) \<rparr>"
    by (auto simp: nth_Cons')
  moreover have "ls' ! k = ls ! k" if "k \<notin> set (take (length (s # ss)) (d # ds))" for k
    using that ls'(3) by auto
  ultimately show ?case using ls'(1,2) by (simp add: one)
qed auto

lemma restore_chunk_lines:
  fixes c defines "S \<equiv> src_indices (clines c)" and "D \<equiv> dst_indices (clines c)"
  assumes "wf_chunk c" and "aligned c"
  shows "\<exists>ls'. restore_lines S D (clines c) = (False, ls') \<and> length ls' = length (clines c)
    \<and> (\<forall>k. ltype (ls' ! k) = ltype (clines c ! k)) \<and> (\<forall>s \<in> set S. ls' ! s = clines c ! s)
    \<and> (\<forall>i < length D. ltext (ls' ! (D ! i)) =
         (if i < length S then keep_blank (ltext (clines c ! (S ! i))) (ltext (clines c ! (D ! i)))
          else ltext (clines c ! (D ! i))))"
proof -
  let ?ls = "clines c"
  have "length S = src_len c"
    by (simp add: S_def src_len_def chunk_src_def src_indices_def filter_indices [of is_src])
  then have al: "list_all2 (\<lambda>s d. s = d \<or> ltype (?ls ! d) = DST) S (take (length S) D)"
    using assms by (simp add: aligned_def)
  have "\<exists>ls'. restore_lines S D ?ls = (False, ls') \<and> length ls' = length ?ls
    \<and> (\<forall>k. k \<notin> set (take (length S) D) \<longrightarrow> ls' ! k = ?ls ! k)
    \<and> (\<forall>i < length S. ls' ! (D ! i)
         = (?ls ! (D ! i))\<lparr> ltext := keep_blank (ltext (?ls ! (S ! i))) (ltext (?ls ! (D ! i))) \<rparr>)"
    using assms al by (intro restore_lines_aligned)
      (auto simp: wf_chunk_def src_indices_def dst_indices_def list_all_iff)
  then obtain ls' where ls': "restore_lines S D ?ls = (False, ls')" "length ls' = length ?ls"
    "\<And>k. k \<notin> set (take (length S) D) \<Longrightarrow> ls' ! k = ?ls ! k"
    "\<And>i. i < length S \<Longrightarrow> ls' ! (D ! i)
         = (?ls ! (D ! i))\<lparr> ltext := keep_blank (ltext (?ls ! (S ! i))) (ltext (?ls ! (D ! i))) \<rparr>"
    by blast
  have "ltype (ls' ! k) = ltype (?ls ! k) \<and> (k \<in> set S \<longrightarrow> ls' ! k = ?ls ! k)" for k
  proof (cases "k \<in> set (take (length S) D)")
    case True
    then obtain i where i: "i < length S" "i < length D" "k = D ! i" by (auto simp: in_set_conv_nth)
    have "S ! i = D ! i \<or> ltype (?ls ! (D ! i)) = DST"
      using list_all2_nthD [OF al i(1)] i by simp
    with i show ?thesis
      by (auto simp: ls'(4) S_def src_indices_def is_src_def)
  qed (simp add: ls'(3))
  moreover have "D ! i \<notin> set (take (length S) D)" if "length S \<le> i" "i < length D" for i
    using that by (auto simp: in_set_conv_nth D_def dst_indices_def nth_eq_iff_index_eq)
  ultimately show ?thesis using ls' by (intro exI [of _ ls']) auto
qed

text \<open>
  On a chunk whose source and destination lines correspond one to one (a context line to itself),
  the blank filter does not hit its exception, keeps all source lines and all line types, and
  replaces a destination line by its source line exactly when the two differ by one trailing
  blank.
\<close>

theorem restore_chunk_aligned:
  assumes "wf_chunk c" and "aligned c"
  shows "\<exists>c'. restore_chunk c = (False, c')
    \<and> chunk_src c' = chunk_src c \<and> map ltype (clines c') = map ltype (clines c)
    \<and> map ltext (chunk_dst c')
        = map2 keep_blank (map ltext (chunk_src c)) (map ltext (chunk_dst c))
          @ drop (src_len c) (map ltext (chunk_dst c))"
proof -
  let ?ls = "clines c"
  let ?S = "src_indices ?ls" and ?D = "dst_indices ?ls"
  obtain ls' where ls': "restore_lines ?S ?D ?ls = (False, ls')" "length ls' = length ?ls"
    "\<And>k. ltype (ls' ! k) = ltype (?ls ! k)" "\<And>s. s \<in> set ?S \<Longrightarrow> ls' ! s = ?ls ! s"
    "\<And>i. i < length ?D \<Longrightarrow> ltext (ls' ! (?D ! i)) =
       (if i < length ?S then keep_blank (ltext (?ls ! (?S ! i))) (ltext (?ls ! (?D ! i)))
        else ltext (?ls ! (?D ! i)))"
    using restore_chunk_lines [OF assms] by blast
  let ?c = "c\<lparr> clines := ls' \<rparr>"
  have old: "chunk_src c = map ((!) ?ls) ?S" "chunk_dst c = map ((!) ?ls) ?D"
    by (simp_all add: chunk_src_def chunk_dst_def src_indices_def dst_indices_def
        filter_indices [symmetric])
  have "src_indices ls' = ?S" "dst_indices ls' = ?D"
    using ls'(2) by (simp_all add: src_indices_def dst_indices_def is_src_def is_dst_def ls'(3))
  then have new: "chunk_src ?c = map ((!) ls') ?S" "chunk_dst ?c = map ((!) ls') ?D"
    using filter_indices [of is_src ls'] filter_indices [of is_dst ls']
    by (simp_all add: chunk_src_def chunk_dst_def src_indices_def dst_indices_def)
  have len: "length ?S = src_len c" "length ?S \<le> length ?D"
    using assms(2) by (auto simp: src_len_def old aligned_def dest!: list_all2_lengthD)
  have "map ltext (chunk_dst ?c)
      = map2 keep_blank (map ltext (chunk_src c)) (map ltext (chunk_dst c))
          @ drop (src_len c) (map ltext (chunk_dst c))"
    unfolding new old len(1) [symmetric]
    by (rule nth_equalityI) (use len(2) ls'(5) in \<open>auto simp: nth_append\<close>)
  moreover have "chunk_src ?c = chunk_src c" using ls'(4) by (simp add: new old)
  moreover have "map ltype ls' = map ltype ?ls" using ls'(2,3) by (simp add: list_eq_iff_nth_eq)
  ultimately show ?thesis using ls'(1) by (simp add: restore_chunk_def)
qed

theorem restore_chunk_aligned_witness:
  "\<exists>c'. restore_chunk \<lparr> clines = [\<lparr> ltype = SRC, ltext = ''x '' \<rparr>, \<lparr> ltype = DST, ltext = ''x'' \<rparr>,
        \<lparr> ltype = BOTH, ltext = ''}'' \<rparr>], src_pos = 1, dst_pos = 1 \<rparr> = (False, c')
     \<and> map ltext (chunk_dst c') = [''x '', ''}'']"
  using restore_chunk_aligned [of "\<lparr> clines = [\<lparr> ltype = SRC, ltext = ''x '' \<rparr>,
      \<lparr> ltype = DST, ltext = ''x'' \<rparr>, \<lparr> ltype = BOTH, ltext = ''}'' \<rparr>], src_pos = 1, dst_pos = 1 \<rparr>"]
  by (auto simp: wf_chunk_def wf_line_def aligned_def src_indices_def dst_indices_def is_src_def
      is_dst_def src_len_def chunk_src_def chunk_dst_def keep_blank_def is_blank_def upt_rec)

text \<open>A context line can be changed too: it is both a source and a destination line.\<close>

text \<open>
  The filter can alter a context line: a removed line with a trailing blank followed by the same
  line without it turns the context line of the diff into one that is not in the source file.
\<close>

lemma restore_changes_context:
  "remove_trailing_whitespace_changes
     [''--- a'', ''+++ b'', ''@@ -1,2 +1,1 @@'', ''-x '', '' x'']
   = parse_patchset [''--- a'', ''+++ b'', ''@@ -1,2 +1,1 @@'', ''-x '', '' x '']"
  by code_simp

lemma restore_two_blanks:
  "remove_trailing_whitespace_changes
     [''--- a'', ''+++ b'', ''@@ -1,1 +1,1 @@'', ''-x  '', ''+x'']
   = parse_patchset [''--- a'', ''+++ b'', ''@@ -1,1 +1,1 @@'', ''-x  '', ''+x'']"
  by code_simp

section \<open>The driver leaves the sources alone\<close>

definition fresh_names :: "tools \<Rightarrow> bool" where
  "fresh_names t \<longleftrightarrow> (\<forall>ks. mk t ks \<notin> set ks)"

text \<open>The file systems \<open>w\<close> and \<open>w'\<close> agree on the files of \<open>w\<close>.\<close>

definition extends :: "world \<Rightarrow> world \<Rightarrow> bool" where
  "extends w w' \<longleftrightarrow> (\<forall>p c. map_of (files w) p = Some c \<longrightarrow> map_of (files w') p = Some c)"

lemma map_of_write_file [simp]: "map_of (files (write_file p c w)) = (map_of (files w))(p \<mapsto> c)"
  by (simp add: write_file_def)

lemma files_log_err [simp]: "files (log_err b s w) = files w"
  by (simp add: log_err_def)

lemma files_print_out [simp]: "files (print_out s w) = files w"
  by (simp add: print_out_def)

lemma read_file_Inr [simp]: "read_file p w = Inr c \<longleftrightarrow> map_of (files w) p = Some c"
  by (simp add: read_file_def split: option.splits)

lemma files_extend_refl [simp]: "extends w w"
  by (simp add: extends_def)

lemma files_extend_trans [trans]: "extends w w' \<Longrightarrow> extends w' w'' \<Longrightarrow> extends w w''"
  by (simp add: extends_def)

lemma extendsD: "extends w w' \<Longrightarrow> map_of (files w) p = Some c \<Longrightarrow> map_of (files w') p = Some c"
  by (simp add: extends_def)

lemma extends_log_err [simp]: "extends w (log_err b s w') = extends w w'"
  by (simp add: extends_def)

lemma extends_write_file: "extends w w' \<Longrightarrow> map_of (files w) p = None \<Longrightarrow> extends w (write_file p c w')"
  by (auto simp: extends_def)

lemma mkstemp_fresh:
  assumes "fresh_names t" "mkstemp t w = (p, w')"
  shows "map_of (files w) p = None" "w' = write_file p [] w" "extends w w'"
proof -
  show 1: "map_of (files w) p = None"
    using assms unfolding mkstemp_def Let_def fresh_names_def map_of_eq_None_iff
    by (metis list.set_map prod.inject)
  show 2: "w' = write_file p [] w" using assms(2) by (auto simp: mkstemp_def Let_def)
  show "extends w w'" using 1 2 by (simp add: extends_write_file)
qed

lemma uncrustify_config_file_fresh:
  assumes "fresh_names t" "uncrustify_config_file t level w = (p, w')"
  shows "map_of (files w) p = None" "map_of (files w') p = Some (uncrustify_config_text level)"
    "extends w w'"
proof -
  obtain w1 where "mkstemp t w = (p, w1)" "w' = write_file p (uncrustify_config_text level) w1"
    using assms(2) by (auto simp: uncrustify_config_file_def split: prod.splits)
  with mkstemp_fresh [OF assms(1), of w p w1]
  show "map_of (files w) p = None" "map_of (files w') p = Some (uncrustify_config_text level)"
    "extends w w'" by (auto intro: extends_write_file)
qed

lemma run_uncrustify_cases:
  assumes "run_uncrustify t source debug cfg output w = Inr w'"
  obtains r where "files w' = files (case r of None \<Rightarrow> w | Some r \<Rightarrow> write_file output r w)"
proof -
  obtain u c where "uncrustify t = Some u" "map_of (files w) cfg = Some c"
    using assms by (auto simp: run_uncrustify_def bind_res_Inr_iff split: option.splits)
  moreover obtain r x y where "u c (map_of (files w) source) = (r, x, y)" by (metis prod_cases3)
  ultimately have "files w' = files (case r of None \<Rightarrow> w | Some r \<Rightarrow> write_file output r w)"
    using assms by (auto simp: run_uncrustify_def bind_res_Inr_iff Let_def)
  then show thesis by (rule that)
qed

lemma run_uncrustify_frame:
  assumes "run_uncrustify t source debug cfg output w' = Inr w''" "extends w w'"
    and "map_of (files w) output = None"
  shows "extends w w''"
proof -
  obtain r where "files w'' = files (case r of None \<Rightarrow> w' | Some r \<Rightarrow> write_file output r w')"
    using run_uncrustify_cases [OF assms(1)] .
  then show ?thesis using assms(2,3) by (cases r) (auto simp: extends_def)
qed

lemma run_uncrustify_output:
  assumes "run_uncrustify t source debug cfg output w = Inr w'" "map_of (files w) output \<noteq> None"
  shows "map_of (files w') output \<noteq> None"
proof -
  obtain r where "files w' = files (case r of None \<Rightarrow> w | Some r \<Rightarrow> write_file output r w)"
    using run_uncrustify_cases [OF assms(1)] .
  then show ?thesis using assms(2) by (cases r) auto
qed

lemma make_diff_frame:
  assumes "fresh_names t" "make_diff t source debug output w = Inr (d, w')"
  shows "extends w w'" "debug \<Longrightarrow> d = []"
proof -
  show "extends w w'"
  proof (cases debug)
    case True
    obtain p w1 where p: "mkstemp t w = (p, w1)" by fastforce
    with True assms(2) mkstemp_fresh [OF assms(1) p] show ?thesis
      by (auto simp: make_diff_def bind_res_Inr_iff Let_def intro!: extends_write_file)
  qed (use assms in \<open>auto simp: make_diff_def bind_res_Inr_iff Let_def\<close>)
  show "debug \<Longrightarrow> d = []"
    using assms by (auto simp: make_diff_def bind_res_Inr_iff Let_def case_prod_beta)
qed

lemma apply_diff_frame:
  assumes "apply_diff t source debug output fd w' = Inr (o', w'')" "extends w w'"
    and "map_of (files w) output = None" "map_of (files w') fd = Some f" "fd \<noteq> output"
  shows "o' = output" "extends w w''"
    "\<exists>pr s. patch_prog t = Some pr \<and> map_of (files w') source = Some s
       \<and> map_of (files w'') output = Some (fst (pr f s))"
  using assms
  by (auto simp: apply_diff_def bind_res_Inr_iff Let_def extends_write_file case_prod_beta
      split: option.splits)

lemma indent_runs:
  assumes "indent t source debug level w = Inr (output, w')"
  obtains w1 cfg w2 w3 w4 diff w5 fdp w6 fd where
    "mkstemp t w = (output, w1)" "uncrustify_config_file t level w1 = (cfg, w2)" "files w3 = files w2"
    "run_uncrustify t source debug cfg output w3 = Inr w4"
    "make_diff t source debug output w4 = Inr (diff, w5)"
    "mkstemp t w5 = (fdp, w6)" "final_diff_text level diff = Inr fd"
    "apply_diff t source debug output fdp (log_err debug (''final diff file='' @ fdp @ [newline])
       (write_file fdp fd w6)) = Inr (output, w')"
proof -
  obtain o1 w1 where 1: "mkstemp t w = (o1, w1)" by fastforce
  obtain cfg w2 where 2: "uncrustify_config_file t level w1 = (cfg, w2)" by fastforce
  define w3 where "w3 = log_err debug (''temporary file='' @ o1 @ [newline])
                 (log_err debug (''uncrustify config file='' @ cfg @ [newline])
                   (log_err debug (''original file='' @ source @ [newline]) w2))"
  obtain w4 diff w5 where 4: "run_uncrustify t source debug cfg o1 w3 = Inr w4"
    and 5: "make_diff t source debug o1 w4 = Inr (diff, w5)"
    using assms unfolding indent_def Let_def 1 2 prod.case w3_def [symmetric] bind_res_Inr_iff
    by (auto simp del: append_Cons)
  obtain fdp w6 where 6: "mkstemp t w5 = (fdp, w6)" by fastforce
  obtain fd where fd: "final_diff_text level diff = Inr fd"
    and ap: "apply_diff t source debug o1 fdp (log_err debug (''final diff file='' @ fdp @ [newline])
               (write_file fdp fd w6)) = Inr (output, w')"
    using assms unfolding indent_def Let_def 1 2 prod.case w3_def [symmetric] bind_res_Inr_iff
    by (auto simp: 4 5 6 bind_res_Inr_iff simp del: append_Cons)
  have "output = o1"
    using ap by (auto simp: apply_diff_def bind_res_Inr_iff Let_def case_prod_beta split: option.splits)
  with 1 2 4 5 6 fd ap show thesis by (intro that) (auto simp: w3_def)
qed

text \<open>What \<open>indent\<close> does to the file system, and that the copy it returns is the source
  patched with some diff, which is empty in debug mode.\<close>

lemma indent_frame:
  assumes fresh: "fresh_names t" and run: "indent t source debug level w = Inr (output, w')"
    and src: "map_of (files w) source = Some s"
  shows "map_of (files w) output = None" "extends w w'"
    "\<exists>pr fd. patch_prog t = Some pr \<and> map_of (files w') output = Some (fst (pr fd s))
       \<and> (debug \<longrightarrow> fd = [])"
proof -
  obtain w1 cfg w2 w3 w4 diff w5 fdp w6 fd where 1: "mkstemp t w = (output, w1)"
    and 2: "uncrustify_config_file t level w1 = (cfg, w2)" and 3: "files w3 = files w2"
    and 4: "run_uncrustify t source debug cfg output w3 = Inr w4"
    and 5: "make_diff t source debug output w4 = Inr (diff, w5)"
    and 6: "mkstemp t w5 = (fdp, w6)" and fd: "final_diff_text level diff = Inr fd"
    and ap: "apply_diff t source debug output fdp (log_err debug (''final diff file='' @ fdp @ [newline])
       (write_file fdp fd w6)) = Inr (output, w')"
    using indent_runs [OF run] .
  note f1 = mkstemp_fresh [OF fresh 1] and f2 = uncrustify_config_file_fresh [OF fresh 2]
    and f5 = make_diff_frame [OF fresh 5] and f6 = mkstemp_fresh [OF fresh 6]
  have "extends w w3" using f1(3) f2(3) 3 by (simp add: extends_def)
  then have e4: "extends w w4" using run_uncrustify_frame [OF 4, of w] f1(1) by simp
  then have e5: "extends w w5" and e6: "extends w w6" using f5(1) f6(3) files_extend_trans by blast+
  have "map_of (files w3) output \<noteq> None" using f1(2) f2(3) 3 by (auto simp: extends_def)
  then have ne: "fdp \<noteq> output" using run_uncrustify_output [OF 4] f5(1) f6(1) by (auto simp: extends_def)
  have nf: "map_of (files w) fdp = None" using f6(1) e5 by (cases "map_of (files w) fdp") (auto dest: extendsD)
  have e7: "extends w (log_err debug (''final diff file='' @ fdp @ [newline]) (write_file fdp fd w6))"
    using e6 nf by (simp add: extends_write_file)
  note fr = apply_diff_frame [OF ap e7 f1(1), of fd]
  show "map_of (files w) output = None" "extends w w'" using fr ne f1(1) by auto
  have "debug \<Longrightarrow> fd = []"
    using f5(2) fd by (auto simp: final_diff_text_def remove_trailing_whitespace_changes_def
        parse_patchset_def parse_init_def split: if_splits)
  moreover have "map_of (files w6) source = Some s" "source \<noteq> fdp"
    using e6 src nf extendsD by auto
  ultimately show "\<exists>pr fd. patch_prog t = Some pr \<and> map_of (files w') output = Some (fst (pr fd s))
       \<and> (debug \<longrightarrow> fd = [])"
    using fr ne by auto
qed

definition sources_in :: "string list \<Rightarrow> world \<Rightarrow> bool" where
  "sources_in fs w \<longleftrightarrow> list_all (\<lambda>f. map_of (files w) f \<noteq> None) fs"

lemma sources_in_extends: "sources_in fs w \<Longrightarrow> extends w w' \<Longrightarrow> sources_in fs w'"
  by (auto simp: sources_in_def list_all_iff extends_def)

text \<open>The pairs of a source and its copy that \<open>indent_all\<close> returns: the copy exists, is no source,
  and is the patched source.\<close>

definition copy_of :: "tools \<Rightarrow> bool \<Rightarrow> world \<Rightarrow> string \<times> string \<Rightarrow> bool" where
  "copy_of t debug w = (\<lambda>(src, dst). \<exists>s pr fd. map_of (files w) src = Some s \<and> patch_prog t = Some pr
     \<and> map_of (files w) dst = Some (fst (pr fd s)) \<and> (debug \<longrightarrow> fd = []))"

lemma copy_of_extends: "copy_of t debug w p \<Longrightarrow> extends w w' \<Longrightarrow> copy_of t debug w' p"
  unfolding copy_of_def extends_def by (cases p) (clarsimp, metis)

lemma indent_all_frame:
  assumes "fresh_names t" "sources_in fs w" "list_all (copy_of t debug w) acc"
    and "fold_res (\<lambda>f (output, w). bind_res (indent t f debug level w) (\<lambda>(dst, w').
                 Inr (output @ [(f, dst)], w'))) fs (acc, w) = Inr (output, w')"
  shows "extends w w' \<and> map fst output = map fst acc @ fs \<and> list_all (copy_of t debug w') output"
  using assms
proof (induction fs arbitrary: acc w)
  case (Cons f fs)
  obtain dst w1 where 1: "indent t f debug level w = Inr (dst, w1)"
    using Cons.prems(4) by (auto simp: bind_res_Inr_iff)
  obtain s where s: "map_of (files w) f = Some s" using Cons.prems(2) by (auto simp: sources_in_def)
  note fr = indent_frame [OF Cons.prems(1) 1 s]
  have "copy_of t debug w1 (f, dst)" using fr s extendsD unfolding copy_of_def by auto
  then have "list_all (copy_of t debug w1) (acc @ [(f, dst)])"
    using Cons.prems(3) fr(2) copy_of_extends by (auto simp: list_all_iff)
  moreover have "sources_in fs w1"
    using Cons.prems(2) fr(2) sources_in_extends [of fs w w1] by (simp add: sources_in_def)
  ultimately have "extends w1 w' \<and> map fst output = map fst (acc @ [(f, dst)]) @ fs
      \<and> list_all (copy_of t debug w') output"
    using Cons.IH [of w1 "acc @ [(f, dst)]"] Cons.prems(1,4) 1 by simp
  then show ?case using fr(2) files_extend_trans by auto
qed simp

lemma find_failed_eq:
  assumes "list_all (\<lambda>(s, d). map_of (files w) s \<noteq> None \<and> map_of (files w) d \<noteq> None) ps"
    and "\<forall>a b. \<not> same_stat t w a b"
  shows "fold_res (\<lambda>(src, dst) failed. bind_res (filecmp_cmp t w src dst) (\<lambda>same.
                 Inr (if \<not> same then failed @ [(src, dst)] else failed))) ps fl
    = Inr (fl @ filter (\<lambda>(s, d). map_of (files w) s \<noteq> map_of (files w) d) ps)"
  using assms
  by (induction ps arbitrary: fl) (auto simp: filecmp_cmp_def read_file_def)

lemma files_fold_print: "files (fold print_out ls w) = files w"
  by (induction ls arbitrary: w) simp_all

lemma report_failed_files:
  assumes "report_failed t diff failed w = Inr w'"
  shows "files w' = files w"
proof (cases diff)
  case True
  then have "fold_res (\<lambda>(src, dst) w.
          bind_res (read_file src w) (\<lambda>s. bind_res (read_file dst w) (\<lambda>d.
            Inr (fold print_out (unified_diff t (readlines s) (readlines d) src dst) w)))) failed w
      = Inr w'" using assms by (simp add: report_failed_def)
  then show ?thesis
    by (rule fold_res_invariant [where P = "\<lambda>v. files v = files w"])
      (auto simp: bind_res_Inr_iff files_fold_print)
next
  case False
  have "files (fold (\<lambda>(src, dst). print_out (''  '' @ src)) l w) = files w"
    for l :: "(string \<times> string) list" and w
    by (induction l arbitrary: w) auto
  with False assms show ?thesis by (auto simp: report_failed_def)
qed

lemma report_failed_total:
  assumes "list_all (\<lambda>(s, d). map_of (files w) s \<noteq> None \<and> map_of (files w) d \<noteq> None) failed"
  shows "\<exists>w'. report_failed t diff failed w = Inr w'"
proof (cases diff)
  case True
  have "\<exists>w'. fold_res (\<lambda>(src, dst) w.
          bind_res (read_file src w) (\<lambda>s. bind_res (read_file dst w) (\<lambda>d.
            Inr (fold print_out (unified_diff t (readlines s) (readlines d) src dst) w)))) failed w
      = Inr w' \<and> files w' = files w"
    by (rule fold_res_total)
      (use assms in \<open>auto simp: list_all_iff files_fold_print read_file_def dest!: bspec\<close>)
  with True show ?thesis by (auto simp: report_failed_def)
qed (simp add: report_failed_def)

lemma indent_files_check:
  assumes "fresh_names t" and "\<forall>w a b. \<not> same_stat t w a b" and "sources_in fs w"
    and "indent_all t debug level fs w = Inr (outs, w1)"
  shows "\<exists>w'. indent_files t fs diff debug level False w
      = Inr (list_all (\<lambda>(src, dst). map_of (files w1) dst = map_of (files w) src) outs, w')
    \<and> map fst outs = fs \<and> extends w w'"
proof -
  have fr: "extends w w1" "map fst outs = fs" "list_all (copy_of t debug w1) outs"
    using indent_all_frame [of t fs w debug "[]" level outs w1] assms
    by (simp_all add: indent_all_def)
  let ?failed = "filter (\<lambda>(s, d). map_of (files w1) s \<noteq> map_of (files w1) d) outs"
  have ex: "list_all (\<lambda>(s, d). map_of (files w1) s \<noteq> None \<and> map_of (files w1) d \<noteq> None) outs"
    using fr(3) by (auto simp: list_all_iff copy_of_def)
  have find: "find_failed t w1 outs = Inr ?failed"
    using find_failed_eq [OF ex, of t "[]"] assms(2) by (simp add: find_failed_def)
  obtain w2 where rep: "report_failed t diff ?failed w1 = Inr w2"
    using report_failed_total [of w1 ?failed t diff] ex by (fastforce simp: list_all_iff)
  have "map_of (files w1) s = map_of (files w) s" if "(s, d) \<in> set outs" for s d
  proof -
    have "s \<in> set fs" using that fr(2) by force
    then show ?thesis using assms(3) fr(1) by (auto simp: sources_in_def list_all_iff extends_def)
  qed
  then have verdict: "?failed = [] \<longleftrightarrow> list_all (\<lambda>(src, dst). map_of (files w1) dst = map_of (files w) src) outs"
    by (fastforce simp: filter_empty_conv list_all_iff)
  have "extends w w2" using report_failed_files [OF rep] fr(1) by (simp add: extends_def)
  then show ?thesis
    using fr(1,2) assms(4) find rep verdict by (auto simp: indent_files_def)
qed

text \<open>An instance of the external programs: \<open>uncrustify\<close> writes a fixed line and \<open>patch\<close>
  replaces the file when the diff is not empty.\<close>

definition demo_tools :: tools where
  "demo_tools = \<lparr> mk = (\<lambda>ks. CHR ''t'' # concat ks),
     uncrustify = Some (\<lambda>cfg src. (Some (''y'' @ [newline]), [], [])),
     unified_diff = (\<lambda>a b s d. if a = b then [] else
       [''--- a'', ''+++ b'', ''@@ -1,1 +1,1 @@'', CHR ''-'' # concat a, CHR ''+'' # concat b]),
     patch_prog = Some (\<lambda>fd s. (if fd = [] then s else ''y'' @ [newline], [], [])),
     same_stat = (\<lambda>w a b. False) \<rparr>"

definition demo_world :: world where
  "demo_world = \<lparr> files = [(''a'', ''x'' @ [newline])], err = [], out = [] \<rparr>"

lemma demo_fresh: "fresh_names demo_tools"
proof -
  have "length k \<le> length (concat ks)" if "k \<in> set ks" for k :: string and ks
    using that by (induction ks) auto
  then have "CHR ''t'' # concat ks \<notin> set ks" for ks by (metis impossible_Cons)
  then show ?thesis by (simp add: fresh_names_def demo_tools_def)
qed




lemma indent_debug_total:
  assumes fresh: "fresh_names t" and src: "map_of (files w) source = Some s"
    and "uncrustify t = Some u" and "patch_prog t = Some pr"
  shows "\<exists>r. indent t source True level w = Inr r"
proof -
  obtain o1 w1 where 1: "mkstemp t w = (o1, w1)" by fastforce
  obtain cfg w2 where 2: "uncrustify_config_file t level w1 = (cfg, w2)" by fastforce
  define w3 where "w3 = log_err True (''temporary file='' @ o1 @ [newline])
                 (log_err True (''uncrustify config file='' @ cfg @ [newline])
                   (log_err True (''original file='' @ source @ [newline]) w2))"
  note f1 = mkstemp_fresh [OF fresh 1] and f2 = uncrustify_config_file_fresh [OF fresh 2]
  obtain w4 where 4: "run_uncrustify t source True cfg o1 w3 = Inr w4"
    using assms(3) f2(2) by (auto simp: run_uncrustify_def read_file_def w3_def case_prod_beta Let_def)
  have "extends w w3" using f1(3) f2(3) by (simp add: extends_def w3_def)
  then have e4: "extends w w4" using run_uncrustify_frame [OF 4, of w] f1(1) by simp
  have "map_of (files w3) o1 \<noteq> None" using f1(2) f2(3) by (auto simp: extends_def w3_def)
  then obtain d where d: "map_of (files w4) o1 = Some d" using run_uncrustify_output [OF 4] by auto
  then obtain w5 where 5: "make_diff t source True o1 w4 = Inr ([], w5)"
    using extendsD [OF e4 src] by (auto simp: make_diff_def read_file_def case_prod_beta Let_def)
  obtain fdp w6 where 6: "mkstemp t w5 = (fdp, w6)" by fastforce
  have e5: "extends w w5" using e4 make_diff_frame(1) [OF fresh 5] files_extend_trans by blast
  have "map_of (files w6) source = Some s" "source \<noteq> fdp"
    using mkstemp_fresh [OF fresh 6] extendsD [OF e5 src] by auto
  moreover have "map_of (files w5) o1 \<noteq> None" using d make_diff_frame(1) [OF fresh 5] by (auto simp: extends_def)
  then have "fdp \<noteq> o1" using mkstemp_fresh(1) [OF fresh 6] by auto
  moreover have "final_diff_text level [] = Inr []"
    by (simp add: final_diff_text_def remove_trailing_whitespace_changes_def parse_patchset_def
        parse_init_def)
  ultimately show ?thesis
    unfolding indent_def Let_def 1 2 prod.case w3_def [symmetric] 4 5 bind_res_simps 6
    using assms(4) by (simp add: apply_diff_def read_file_def case_prod_beta Let_def)
qed

lemma indent_all_debug_total:
  assumes "fresh_names t" "sources_in fs w" "uncrustify t = Some u" "patch_prog t = Some pr"
  shows "\<exists>r. indent_all t True level fs w = Inr r"
proof -
  have "\<exists>r. fold_res (\<lambda>f (outs, w). bind_res (indent t f True level w) (\<lambda>(dst, w').
                 Inr (outs @ [(f, dst)], w'))) fs ([], w) = Inr r \<and> sources_in fs (snd r)"
  proof (rule fold_res_total)
    fix f and r :: "(string \<times> string) list \<times> world"
    assume f: "f \<in> set fs" and s: "sources_in fs (snd r)"
    obtain acc v where r: "r = (acc, v)" by fastforce
    obtain c where c: "map_of (files v) f = Some c"
      using f s r by (auto simp: sources_in_def list_all_iff)
    obtain dst v' where "indent t f True level v = Inr (dst, v')"
      using indent_debug_total [OF assms(1) c assms(3,4)] by fastforce
    moreover have "sources_in fs v'"
      using sources_in_extends indent_frame(2) [OF assms(1) calculation c] s r by simp
    ultimately show "\<exists>r'. (case r of (outs, w) \<Rightarrow> bind_res (indent t f True level w) (\<lambda>(dst, w').
        Inr (outs @ [(f, dst)], w'))) = Inr r' \<and> sources_in fs (snd r')" using r by simp
  qed (simp add: assms(2))
  then show ?thesis by (auto simp: indent_all_def)
qed

text \<open>
  With \<open>--debug\<close> the checker never reports a badly indented file: writing the debug copy of the
  diff exhausts the generator, so the diff that is applied is empty and every copy equals its
  source, whatever \<open>uncrustify\<close> does. Hypotheses: both programs are installed and \<open>patch\<close> leaves
  a file alone when the diff is empty.
\<close>

theorem indent_files_debug:
  assumes "fresh_names t" and "\<forall>w a b. \<not> same_stat t w a b" and "sources_in fs w"
    and "uncrustify t = Some u" and "patch_prog t = Some pr" and "\<forall>s. fst (pr [] s) = s"
  shows "\<exists>w'. indent_files t fs diff True level False w = Inr (True, w') \<and> extends w w'"
proof -
  obtain outs w1 where run: "indent_all t True level fs w = Inr (outs, w1)"
    using indent_all_debug_total [OF assms(1,3,4,5)] by fastforce
  have fr: "extends w w1" "map fst outs = fs" "list_all (copy_of t True w1) outs"
    using indent_all_frame [of t fs w True "[]" level outs w1] assms run
    by (simp_all add: indent_all_def)
  have "map_of (files w1) d = map_of (files w) s" if "(s, d) \<in> set outs" for s d
  proof -
    have "s \<in> set fs" using that fr(2) by force
    then have "map_of (files w1) s = map_of (files w) s"
      using assms(3) fr(1) by (auto simp: sources_in_def list_all_iff extends_def)
    moreover have "copy_of t True w1 (s, d)" using fr(3) that by (auto simp: list_all_iff)
    ultimately show ?thesis using assms(5,6) by (auto simp: copy_of_def)
  qed
  then have "list_all (\<lambda>(src, dst). map_of (files w1) dst = map_of (files w) src) outs"
    by (auto simp: list_all_iff)
  with indent_files_check [OF assms(1-3) run, of diff] show ?thesis by auto
qed

theorem indent_files_debug_witness:
  "\<exists>w'. indent_files demo_tools [''a''] False True 3 False demo_world = Inr (True, w')
     \<and> extends demo_world w'"
  using indent_files_debug [OF demo_fresh, of "[''a'']" demo_world
    "\<lambda>cfg src. (Some (''y'' @ [newline]), [], [])"
    "\<lambda>fd s. (if fd = [] then s else ''y'' @ [newline], [], [])" False 3]
  by (simp add: demo_tools_def demo_world_def sources_in_def)

end
