(* ===== verification/GridData.thy ===== *)
theory GridData
  imports PyNum
begin

text \<open>
  The data model of the timeline viewer \<open>utils/grid.py\<close>: ranges and events, the timelines that
  hold them under their names, the colours, and \<open>read_data\<close>, which fills them from a trace file.

  An object that the code gets from a container and then updates is the container's entry at
  an index: \<open>get_range\<close>, \<open>get_event_str\<close>, \<open>get_event_int\<close> and \<open>Timelines.get\<close> return the index
  together with the container. Times in the data are the integers of the trace; the bounds of a
  query are rational numbers, since the window that is drawn has float bounds.
\<close>

section \<open>Ranges and events\<close>

record data_range =
  dr_start :: int
  dr_end :: int
  dr_value :: string

datatype ev_value = VStr string | VInt int | VFloat rat

record event =
  ev_at :: int
  ev_value :: ev_value

definition DataRange :: "int \<Rightarrow> int \<Rightarrow> string \<Rightarrow> data_range" where
  "DataRange s e v = \<lparr> dr_start = s, dr_end = e, dr_value = v \<rparr>"

definition EventString :: "int \<Rightarrow> string \<Rightarrow> event" where
  "EventString a v = \<lparr> ev_at = a, ev_value = VStr v \<rparr>"

definition EventFloat :: "int \<Rightarrow> rat \<Rightarrow> event" where
  "EventFloat a v = \<lparr> ev_at = a, ev_value = VFloat v \<rparr>"

definition EventInt :: "int \<Rightarrow> int \<Rightarrow> event" where
  "EventInt a v = \<lparr> ev_at = a, ev_value = VInt v \<rparr>"

definition ranges_cmp :: "data_range \<Rightarrow> data_range \<Rightarrow> int" where
  "ranges_cmp a b =
     (let diff = dr_start a - dr_start b in if diff < 0 then - 1 else if diff > 0 then 1 else 0)"

definition events_cmp :: "event \<Rightarrow> event \<Rightarrow> int" where
  "events_cmp a b =
     (let diff = ev_at a - ev_at b in if diff < 0 then - 1 else if diff > 0 then 1 else 0)"

text \<open>\<open>list.sort(cmp)\<close> is a stable sort: an element goes behind the elements that do not compare
  greater.\<close>

fun insert_cmp :: "('a \<Rightarrow> 'a \<Rightarrow> int) \<Rightarrow> 'a \<Rightarrow> 'a list \<Rightarrow> 'a list" where
  "insert_cmp cmp x [] = [x]"
| "insert_cmp cmp x (y # ys) = (if cmp x y \<le> 0 then x # y # ys else y # insert_cmp cmp x ys)"

definition sort_cmp :: "('a \<Rightarrow> 'a \<Rightarrow> int) \<Rightarrow> 'a list \<Rightarrow> 'a list" where
  "sort_cmp cmp xs = foldr (insert_cmp cmp) xs []"

record timeline_data_range =
  tr_name :: string
  tr_ranges :: "data_range list"

record timeline_event =
  te_name :: string
  te_events :: "event list"

definition TimelineDataRange :: "string \<Rightarrow> timeline_data_range" where
  "TimelineDataRange name = \<lparr> tr_name = name, tr_ranges = [] \<rparr>"

definition TimelineEvent :: "string \<Rightarrow> timeline_event" where
  "TimelineEvent name = \<lparr> te_name = name, te_events = [] \<rparr>"

section \<open>Binary search\<close>

function range_search :: "data_range list \<Rightarrow> rat \<Rightarrow> int \<Rightarrow> int \<Rightarrow> int res" where
  "range_search ranges key l u =
     (if l \<le> u then
        let i = (l + u) div 2
        in bind_res (py_index ranges i) (\<lambda>r.
             if of_int (dr_start r) \<le> key \<and> key \<le> of_int (dr_end r) then Inr i
             else if key < of_int (dr_start r) then range_search ranges key l (i - 1)
             else range_search ranges key (i + 1) u)
      else Inr (- 1))"
  by pat_completeness auto
termination
  by (relation "measure (\<lambda>(ranges, key, l, u). nat (u + 1 - l))") auto

function event_search :: "event list \<Rightarrow> rat \<Rightarrow> int \<Rightarrow> int \<Rightarrow> int res" where
  "event_search events key l u =
     (if l \<le> u then
        let i = (l + u) div 2
        in bind_res (py_index events i) (\<lambda>e.
             if key = of_int (ev_at e) then Inr i
             else if key < of_int (ev_at e) then event_search events key l (i - 1)
             else event_search events key (i + 1) u)
      else Inr l)"
  by pat_completeness auto
termination
  by (relation "measure (\<lambda>(events, key, l, u). nat (u + 1 - l))") auto

declare range_search.simps [simp del] event_search.simps [simp del]

definition search_ranges :: "timeline_data_range \<Rightarrow> rat \<Rightarrow> int res" where
  "search_ranges t key = range_search (tr_ranges t) key 0 (int (length (tr_ranges t)) - 1)"

definition search_events :: "timeline_event \<Rightarrow> rat \<Rightarrow> int res" where
  "search_events t key = event_search (te_events t) key 0 (int (length (te_events t)) - 1)"

section \<open>Queries\<close>

definition add_range :: "data_range \<Rightarrow> timeline_data_range \<Rightarrow> timeline_data_range" where
  "add_range r t = t\<lparr> tr_ranges := tr_ranges t @ [r] \<rparr>"

definition get_ranges :: "timeline_data_range \<Rightarrow> rat \<Rightarrow> rat \<Rightarrow> data_range list res" where
  "get_ranges t start end =
     bind_res (search_ranges t start) (\<lambda>s.
     bind_res (search_ranges t end) (\<lambda>e. Inr (
       if s = - 1 \<and> e = - 1 then []
       else if s = - 1 then py_slice (tr_ranges t) 0 (e + 1)
       else if e = - 1 then py_slice (tr_ranges t) s (int (length (tr_ranges t)))
       else py_slice (tr_ranges t) s (e + 1))))"

definition get_ranges_bounds :: "timeline_data_range \<Rightarrow> rat \<Rightarrow> rat \<Rightarrow> (int \<times> int) res" where
  "get_ranges_bounds t start end =
     bind_res (search_ranges t start) (\<lambda>s.
     bind_res (search_ranges t end) (\<lambda>e. Inr (
       if s = - 1 \<and> e = - 1 then (0, 0)
       else if s = - 1 then (0, e + 1)
       else if e = - 1 then (s, int (length (tr_ranges t)))
       else (s, e + 1))))"

definition range_sort :: "timeline_data_range \<Rightarrow> timeline_data_range" where
  "range_sort t = t\<lparr> tr_ranges := sort_cmp ranges_cmp (tr_ranges t) \<rparr>"

definition range_bounds :: "timeline_data_range \<Rightarrow> int \<times> int" where
  "range_bounds t =
     (if length (tr_ranges t) > 0
      then (dr_start (hd (tr_ranges t)), dr_end (last (tr_ranges t))) else (0, 0))"

definition add_event :: "event \<Rightarrow> timeline_event \<Rightarrow> timeline_event" where
  "add_event e t = t\<lparr> te_events := te_events t @ [e] \<rparr>"

definition get_events :: "timeline_event \<Rightarrow> rat \<Rightarrow> rat \<Rightarrow> event list res" where
  "get_events t start end =
     bind_res (search_events t start) (\<lambda>s.
     bind_res (search_events t end) (\<lambda>e. Inr (py_slice (te_events t) s (e + 1))))"

definition get_events_bounds :: "timeline_event \<Rightarrow> rat \<Rightarrow> rat \<Rightarrow> (int \<times> int) res" where
  "get_events_bounds t start end =
     bind_res (search_events t start) (\<lambda>s.
     bind_res (search_events t end) (\<lambda>e. Inr (s, e + 1)))"

definition event_sort :: "timeline_event \<Rightarrow> timeline_event" where
  "event_sort t = t\<lparr> te_events := sort_cmp events_cmp (te_events t) \<rparr>"

definition event_bounds :: "timeline_event \<Rightarrow> int \<times> int" where
  "event_bounds t =
     (if length (te_events t) > 0
      then (ev_at (hd (te_events t)), ev_at (last (te_events t))) else (0, 0))"

section \<open>Timelines\<close>

record timeline =
  t_name :: string
  t_ranges :: "timeline_data_range list"
  t_event_str :: "timeline_event list"
  t_event_int :: "timeline_event list"

definition Timeline :: "string \<Rightarrow> timeline" where
  "Timeline name = \<lparr> t_name = name, t_ranges = [], t_event_str = [], t_event_int = [] \<rparr>"

text \<open>The linear search for a name: the index of the first entry that has it.\<close>

fun name_index :: "('a \<Rightarrow> string) \<Rightarrow> string \<Rightarrow> 'a list \<Rightarrow> nat option" where
  "name_index nm n [] = None"
| "name_index nm n (x # xs) = (if nm x = n then Some 0 else map_option Suc (name_index nm n xs))"

definition get_range :: "string \<Rightarrow> timeline \<Rightarrow> nat \<times> timeline" where
  "get_range name t =
     (case name_index tr_name name (t_ranges t) of
        Some i \<Rightarrow> (i, t)
      | None \<Rightarrow> (length (t_ranges t), t\<lparr> t_ranges := t_ranges t @ [TimelineDataRange name] \<rparr>))"

definition get_event_str :: "string \<Rightarrow> timeline \<Rightarrow> nat \<times> timeline" where
  "get_event_str name t =
     (case name_index te_name name (t_event_str t) of
        Some i \<Rightarrow> (i, t)
      | None \<Rightarrow> (length (t_event_str t), t\<lparr> t_event_str := t_event_str t @ [TimelineEvent name] \<rparr>))"

definition get_event_int :: "string \<Rightarrow> timeline \<Rightarrow> nat \<times> timeline" where
  "get_event_int name t =
     (case name_index te_name name (t_event_int t) of
        Some i \<Rightarrow> (i, t)
      | None \<Rightarrow> (length (t_event_int t), t\<lparr> t_event_int := t_event_int t @ [TimelineEvent name] \<rparr>))"

definition timeline_sort :: "timeline \<Rightarrow> timeline" where
  "timeline_sort t = t\<lparr> t_ranges := map range_sort (t_ranges t),
     t_event_int := map event_sort (t_event_int t), t_event_str := map event_sort (t_event_str t) \<rparr>"

definition widen :: "int \<times> int \<Rightarrow> int \<times> int \<Rightarrow> int \<times> int" where
  "widen b acc =
     (let (b_lo, b_hi) = b; (lo, hi) = acc
      in (if b_lo < lo then b_lo else lo, if b_hi > hi then b_hi else hi))"

definition timeline_bounds :: "timeline \<Rightarrow> int \<times> int" where
  "timeline_bounds t =
     fold (\<lambda>e. widen (event_bounds e)) (t_event_int t)
       (fold (\<lambda>e. widen (event_bounds e)) (t_event_str t)
         (fold (\<lambda>r. widen (range_bounds r)) (t_ranges t) (0, 0)))"

type_synonym timelines = "timeline list"

definition timelines_get :: "string \<Rightarrow> timelines \<Rightarrow> nat \<times> timelines" where
  "timelines_get name ts =
     (case name_index t_name name ts of
        Some i \<Rightarrow> (i, ts)
      | None \<Rightarrow> (length ts, ts @ [Timeline name]))"

definition timelines_sort :: "timelines \<Rightarrow> timelines" where
  "timelines_sort ts = map timeline_sort ts"

definition timelines_bounds :: "timelines \<Rightarrow> int \<times> int" where
  "timelines_bounds ts = fold (\<lambda>t. widen (timeline_bounds t)) ts (0, 0)"

text \<open>The values of all ranges: the keys of a dictionary, in the order \<open>ko\<close>.\<close>

definition get_all_range_values :: "(string list \<Rightarrow> string list) \<Rightarrow> timelines \<Rightarrow> string list" where
  "get_all_range_values ko ts =
     ko (keys (fold (\<lambda>t. fold (\<lambda>rs. fold (\<lambda>r d. AList.update (dr_value r) (1::int) d)
                (tr_ranges rs)) (t_ranges t)) ts []))"

section \<open>Colours\<close>

record color =
  c_r :: pynum
  c_g :: pynum
  c_b :: pynum

definition Color :: "pynum \<Rightarrow> pynum \<Rightarrow> pynum \<Rightarrow> color" where
  "Color r g b = \<lparr> c_r = r, c_g = g, c_b = b \<rparr>"

text \<open>\<open>default_colors\<close> is a class attribute from which \<open>lookup\<close> pops.\<close>

record colors =
  col_dict :: "(string, color) dict"
  default_colors :: "color list"

definition Colors_init :: colors where
  "Colors_init = \<lparr> col_dict = [],
     default_colors = [Color (I 1) (I 0) (I 0), Color (I 0) (I 1) (I 0), Color (I 0) (I 0) (I 1),
                       Color (I 1) (I 1) (I 0), Color (I 1) (I 0) (I 1), Color (I 0) (I 1) (I 1)] \<rparr>"

definition colors_add :: "string \<Rightarrow> color \<Rightarrow> colors \<Rightarrow> colors" where
  "colors_add name c cs = cs\<lparr> col_dict := AList.update name c (col_dict cs) \<rparr>"

definition colors_lookup :: "string \<Rightarrow> colors \<Rightarrow> (color \<times> colors) res" where
  "colors_lookup name cs =
     (case map_of (col_dict cs) name of
        Some c \<Rightarrow> Inr (c, cs)
      | None \<Rightarrow>
          if default_colors cs = [] then Inl IndexError
          else let c = last (default_colors cs)
               in Inr (c, colors_add name c (cs\<lparr> default_colors := butlast (default_colors cs) \<rparr>)))"

section \<open>Reading a trace\<close>

text \<open>\<open>([^ ]+)\<close> followed by a blank, and \<open>[a-fA-F0-9]{2,2}\<close>.\<close>

definition re_word :: "string \<Rightarrow> (string \<times> string) option" where
  "re_word s =
     (let w = takeWhile (\<lambda>c. c \<noteq> CHR '' '') s; r = dropWhile (\<lambda>c. c \<noteq> CHR '' '') s
      in if w \<noteq> [] \<and> r \<noteq> [] then Some (w, tl r) else None)"

definition hex_digit :: "char \<Rightarrow> int option" where
  "hex_digit c =
     (let n = (of_char c :: nat)
      in if 48 \<le> n \<and> n \<le> 57 then Some (int n - 48)
         else if 97 \<le> n \<and> n \<le> 102 then Some (int n - 87)
         else if 65 \<le> n \<and> n \<le> 70 then Some (int n - 55) else None)"

fun re_hex2 :: "string \<Rightarrow> (int \<times> string) option" where
  "re_hex2 (a # b # s) =
     Option.bind (hex_digit a) (\<lambda>x. Option.bind (hex_digit b) (\<lambda>y. Some (16 * x + y, s)))"
| "re_hex2 _ = None"

definition re_m1 :: "string \<Rightarrow> (string \<times> string \<times> string \<times> int \<times> int) option" where
  "re_m1 s =
     Option.bind (re_lit ''range '' s) (\<lambda>s1.
     Option.bind (re_word s1) (\<lambda>(g1, s2).
     Option.bind (re_word s2) (\<lambda>(g2, s3).
     Option.bind (re_word s3) (\<lambda>(g3, s4).
     Option.bind (re_digits s4) (\<lambda>(g4, s5).
     Option.bind (re_lit '' '' s5) (\<lambda>s6.
     Option.bind (re_digits s6) (\<lambda>(g5, s7).
       Some (g1, g2, g3, int (nat_of_digits g4), int (nat_of_digits g5)))))))))"

definition re_m2 :: "string \<Rightarrow> (string \<times> string \<times> string \<times> int) option" where
  "re_m2 s =
     Option.bind (re_lit ''event-str '' s) (\<lambda>s1.
     Option.bind (re_word s1) (\<lambda>(g1, s2).
     Option.bind (re_word s2) (\<lambda>(g2, s3).
     Option.bind (re_word s3) (\<lambda>(g3, s4).
     Option.bind (re_digits s4) (\<lambda>(g4, s5).
       Some (g1, g2, g3, int (nat_of_digits g4)))))))"

definition re_m3 :: "string \<Rightarrow> (string \<times> string \<times> int \<times> int) option" where
  "re_m3 s =
     Option.bind (re_lit ''event-int '' s) (\<lambda>s1.
     Option.bind (re_word s1) (\<lambda>(g1, s2).
     Option.bind (re_word s2) (\<lambda>(g2, s3).
     Option.bind (re_digits s3) (\<lambda>(g3, s4).
     Option.bind (re_lit '' '' s4) (\<lambda>s5.
     Option.bind (re_digits s5) (\<lambda>(g4, s6).
       Some (g1, g2, int (nat_of_digits g3), int (nat_of_digits g4))))))))"

definition re_m4 :: "string \<Rightarrow> (string \<times> int \<times> int \<times> int) option" where
  "re_m4 s =
     Option.bind (re_lit ''color '' s) (\<lambda>s1.
     Option.bind (re_word s1) (\<lambda>(g1, s2).
     Option.bind (re_lit ''#'' s2) (\<lambda>s3.
     Option.bind (re_hex2 s3) (\<lambda>(g2, s4).
     Option.bind (re_hex2 s4) (\<lambda>(g3, s5).
     Option.bind (re_hex2 s5) (\<lambda>(g4, s6). Some (g1, g2, g3, g4)))))))"

definition put_range :: "string \<Rightarrow> string \<Rightarrow> data_range \<Rightarrow> timelines \<Rightarrow> timelines" where
  "put_range a b r ts =
     (let (i, ts1) = timelines_get a ts; (j, t) = get_range b (ts1 ! i)
      in ts1[i := t\<lparr> t_ranges := (t_ranges t)[j := add_range r (t_ranges t ! j)] \<rparr>])"

definition put_event_str :: "string \<Rightarrow> string \<Rightarrow> event \<Rightarrow> timelines \<Rightarrow> timelines" where
  "put_event_str a b e ts =
     (let (i, ts1) = timelines_get a ts; (j, t) = get_event_str b (ts1 ! i)
      in ts1[i := t\<lparr> t_event_str := (t_event_str t)[j := add_event e (t_event_str t ! j)] \<rparr>])"

definition put_event_int :: "string \<Rightarrow> string \<Rightarrow> event \<Rightarrow> timelines \<Rightarrow> timelines" where
  "put_event_int a b e ts =
     (let (i, ts1) = timelines_get a ts; (j, t) = get_event_int b (ts1 ! i)
      in ts1[i := t\<lparr> t_event_int := (t_event_int t)[j := add_event e (t_event_int t ! j)] \<rparr>])"

definition read_line :: "string \<Rightarrow> colors \<times> timelines \<Rightarrow> colors \<times> timelines" where
  "read_line line = (\<lambda>(cs, ts).
     case re_m1 line of Some (a, b, v, s, e) \<Rightarrow> (cs, put_range a b (DataRange s e v) ts)
     | None \<Rightarrow>
     (case re_m2 line of Some (a, b, v, t0) \<Rightarrow> (cs, put_event_str a b (EventString t0 v) ts)
     | None \<Rightarrow>
     (case re_m3 line of Some (a, b, v, t0) \<Rightarrow> (cs, put_event_int a b (EventInt t0 v) ts)
     | None \<Rightarrow>
     (case re_m4 line of Some (n, r, g, b) \<Rightarrow>
        (colors_add n (Color (I (r div 255)) (I (g div 255)) (I (b div 255))) cs, ts)
     | None \<Rightarrow> (cs, ts)))))"

definition read_data :: "string list \<Rightarrow> colors \<times> timelines" where
  "read_data lines =
     (let (cs, ts) = fold read_line lines (Colors_init, []) in (cs, timelines_sort ts))"

section \<open>The binary searches\<close>

text \<open>
  Both searches are instances of one scheme. Where the key lies relative to an element is given by
  \<open>side\<close>; a search that ends without a hit returns \<open>miss\<close> of the insertion point.
\<close>

datatype side = Before | Hit | After

definition ordered_for :: "('e \<Rightarrow> rat \<Rightarrow> side) \<Rightarrow> 'e list \<Rightarrow> rat \<Rightarrow> bool" where
  "ordered_for side xs key \<longleftrightarrow> (\<forall>i j. i < j \<longrightarrow> j < length xs \<longrightarrow>
     (side (xs ! i) key = Before \<longrightarrow> side (xs ! j) key = Before)
     \<and> (side (xs ! j) key = After \<longrightarrow> side (xs ! i) key = After))"

definition insertion_point :: "('e \<Rightarrow> rat \<Rightarrow> side) \<Rightarrow> 'e list \<Rightarrow> rat \<Rightarrow> nat \<Rightarrow> bool" where
  "insertion_point side xs key p \<longleftrightarrow> p \<le> length xs \<and> (\<forall>i < p. side (xs ! i) key = After)
     \<and> (\<forall>i. p \<le> i \<longrightarrow> i < length xs \<longrightarrow> side (xs ! i) key = Before)"

locale bisection =
  fixes side :: "'e \<Rightarrow> rat \<Rightarrow> side"
    and miss :: "int \<Rightarrow> int"
    and search :: "'e list \<Rightarrow> rat \<Rightarrow> int \<Rightarrow> int \<Rightarrow> int res"
  assumes search_step: "l \<le> u \<Longrightarrow> search xs key l u =
      bind_res (py_index xs ((l + u) div 2)) (\<lambda>x.
        case side x key of Hit \<Rightarrow> Inr ((l + u) div 2)
        | Before \<Rightarrow> search xs key l ((l + u) div 2 - 1)
        | After \<Rightarrow> search xs key ((l + u) div 2 + 1) u)"
    and search_stop: "u < l \<Longrightarrow> search xs key l u = Inr (miss l)"
begin

lemma search_window:
  assumes "ordered_for side xs key" "0 \<le> l" "u < int (length xs)" "l \<le> u + 1"
    and "\<forall>i. int i < l \<longrightarrow> side (xs ! i) key = After"
    and "\<forall>i. u < int i \<longrightarrow> i < length xs \<longrightarrow> side (xs ! i) key = Before"
  shows "(\<exists>i < length xs. search xs key l u = Inr (int i) \<and> side (xs ! i) key = Hit)
    \<or> (\<exists>p. search xs key l u = Inr (miss (int p)) \<and> insertion_point side xs key p)"
  using assms
proof (induction "nat (u + 1 - l)" arbitrary: l u rule: less_induct)
  case less
  show ?case
  proof (cases "l \<le> u")
    case False
    then have "u = l - 1" using less.prems(4) by simp
    then have "insertion_point side xs key (nat l)"
      using less.prems by (auto simp: insertion_point_def)
    then show ?thesis using False less.prems(2) search_stop [of u l xs key]
      by (intro disjI2 exI [of _ "nat l"]) simp
  next
    case True
    define m where "m = (l + u) div 2"
    have m: "l \<le> m" "m \<le> u" using True by (auto simp: m_def)
    define k where "k = nat m"
    have k: "m = int k" "k < length xs" using m less.prems by (auto simp: k_def)
    have step: "search xs key l u = (case side (xs ! k) key of Hit \<Rightarrow> Inr (int k)
        | Before \<Rightarrow> search xs key l (int k - 1) | After \<Rightarrow> search xs key (int k + 1) u)"
      using search_step [OF True, of xs key] k(2) unfolding m_def [symmetric] k(1)
      by (simp add: py_index_nonneg)
    show ?thesis
    proof (cases "side (xs ! k) key")
      case Before
      have "\<forall>i. int k - 1 < int i \<longrightarrow> i < length xs \<longrightarrow> side (xs ! i) key = Before"
      proof (intro allI impI)
        fix i assume "int k - 1 < int i" "i < length xs"
        then have "k < i \<or> i = k" by linarith
        then show "side (xs ! i) key = Before"
          using \<open>i < length xs\<close> less.prems(1) Before unfolding ordered_for_def by auto
      qed
      then show ?thesis using less.hyps [of "int k - 1" l] less.prems m k step Before by auto
    next
      case Hit
      then show ?thesis using step k by auto
    next
      case After
      have "\<forall>i. int i < int k + 1 \<longrightarrow> side (xs ! i) key = After"
        using less.prems(1) After k(2) unfolding ordered_for_def
        by (metis of_nat_less_iff zless_add1_eq of_nat_eq_iff)
      then show ?thesis using less.hyps [of u "int k + 1"] less.prems m k step After by auto
    qed
  qed
qed

lemma search_full:
  assumes "ordered_for side xs key"
  shows "(\<exists>i < length xs. search xs key 0 (int (length xs) - 1) = Inr (int i)
        \<and> side (xs ! i) key = Hit)
    \<or> (\<exists>p. search xs key 0 (int (length xs) - 1) = Inr (miss (int p)) \<and> insertion_point side xs key p)"
  using assms by (intro search_window) auto

end

definition range_side :: "data_range \<Rightarrow> rat \<Rightarrow> side" where
  "range_side r key =
     (if of_int (dr_start r) \<le> key \<and> key \<le> of_int (dr_end r) then Hit
      else if key < of_int (dr_start r) then Before else After)"

definition event_side :: "event \<Rightarrow> rat \<Rightarrow> side" where
  "event_side e key =
     (if key = of_int (ev_at e) then Hit else if key < of_int (ev_at e) then Before else After)"

interpretation rb: bisection range_side "\<lambda>l. - 1" range_search
  by unfold_locales
    (subst range_search.simps, auto simp: range_side_def Let_def intro!: bind_res_cong)+

interpretation eb: bisection event_side "\<lambda>l. l" event_search
  by unfold_locales
    (subst event_search.simps, auto simp: event_side_def Let_def intro!: bind_res_cong)+

text \<open>Ranges are separated when each one ends before the next begins; events are separated when
  their times increase strictly.\<close>

definition separated :: "data_range list \<Rightarrow> bool" where
  "separated rs \<longleftrightarrow> sorted_wrt (\<lambda>a b. dr_end a < dr_start b) rs
     \<and> list_all (\<lambda>r. dr_start r \<le> dr_end r) rs"

definition strict_times :: "event list \<Rightarrow> bool" where
  "strict_times es \<longleftrightarrow> sorted_wrt (\<lambda>a b. ev_at a < ev_at b) es"

lemma separatedD:
  assumes "separated rs" "i < j" "j < length rs"
  shows "dr_start (rs ! i) \<le> dr_end (rs ! i)" "dr_end (rs ! i) < dr_start (rs ! j)"
    "dr_start (rs ! j) \<le> dr_end (rs ! j)"
  using assms by (auto simp: separated_def sorted_wrt_iff_nth_less list_all_length)

lemma separated_ordered: "separated rs \<Longrightarrow> ordered_for range_side rs key"
  unfolding ordered_for_def
proof (intro allI impI)
  fix i j assume "separated rs" "i < j" "j < length rs"
  note d = separatedD [OF this]
  have "(of_int (dr_start (rs ! i)) :: rat) \<le> of_int (dr_end (rs ! i))"
    "(of_int (dr_end (rs ! i)) :: rat) < of_int (dr_start (rs ! j))"
    "(of_int (dr_start (rs ! j)) :: rat) \<le> of_int (dr_end (rs ! j))"
    using d by simp_all
  then show "(range_side (rs ! i) key = Before \<longrightarrow> range_side (rs ! j) key = Before)
     \<and> (range_side (rs ! j) key = After \<longrightarrow> range_side (rs ! i) key = After)"
    by (auto simp: range_side_def split: if_splits)
qed

lemma strict_times_nth:
  "strict_times es \<Longrightarrow> i < j \<Longrightarrow> j < length es \<Longrightarrow> ev_at (es ! i) < ev_at (es ! j)"
  by (auto simp: strict_times_def sorted_wrt_iff_nth_less)

lemma strict_times_ordered: "strict_times es \<Longrightarrow> ordered_for event_side es key"
  unfolding ordered_for_def
proof (intro allI impI)
  fix i j assume "strict_times es" "i < j" "j < length es"
  then have "(of_int (ev_at (es ! i)) :: rat) < of_int (ev_at (es ! j))"
    by (simp add: strict_times_nth)
  then show "(event_side (es ! i) key = Before \<longrightarrow> event_side (es ! j) key = Before)
     \<and> (event_side (es ! j) key = After \<longrightarrow> event_side (es ! i) key = After)"
    by (auto simp: event_side_def split: if_splits)
qed

section \<open>What the window queries return\<close>

definition covered :: "data_range list \<Rightarrow> rat \<Rightarrow> bool" where
  "covered rs key \<longleftrightarrow> list_ex (\<lambda>r. of_int (dr_start r) \<le> key \<and> key \<le> of_int (dr_end r)) rs"

lemma range_side_Hit: "range_side r key = Hit \<longleftrightarrow> of_int (dr_start r) \<le> key \<and> key \<le> of_int (dr_end r)"
  by (simp add: range_side_def)

lemma hit_index:
  assumes "separated rs" "i < length rs" "range_side (rs ! i) key = Hit" "k < length rs"
  shows "of_int (dr_start (rs ! k)) \<le> key \<longleftrightarrow> k \<le> i" "key \<le> of_int (dr_end (rs ! k)) \<longleftrightarrow> i \<le> k"
proof -
  have c: "(of_int a :: rat) \<le> of_int b" if "a \<le> b" for a b using that by simp
  have h: "of_int (dr_start (rs ! i)) \<le> key" "key \<le> of_int (dr_end (rs ! i))"
    using assms(3) by (simp_all add: range_side_Hit)
  consider "k < i" | "k = i" | "i < k" by linarith
  then have "(of_int (dr_start (rs ! k)) \<le> key \<longleftrightarrow> k \<le> i) \<and> (key \<le> of_int (dr_end (rs ! k)) \<longleftrightarrow> i \<le> k)"
  proof cases
    case 1
    have "(of_int (dr_end (rs ! k)) :: rat) < of_int (dr_start (rs ! i))"
      "(of_int (dr_start (rs ! k)) :: rat) \<le> of_int (dr_end (rs ! k))"
      using separatedD [OF assms(1) 1 assms(2)] by simp_all
    with 1 h show ?thesis by auto
  next
    case 3
    have "(of_int (dr_end (rs ! i)) :: rat) < of_int (dr_start (rs ! k))"
      "(of_int (dr_start (rs ! k)) :: rat) \<le> of_int (dr_end (rs ! k))"
      using separatedD [OF assms(1) 3 assms(4)] by simp_all
    with 3 h show ?thesis by auto
  qed (use h in auto)
  then show "of_int (dr_start (rs ! k)) \<le> key \<longleftrightarrow> k \<le> i" "key \<le> of_int (dr_end (rs ! k)) \<longleftrightarrow> i \<le> k"
    by auto
qed

lemma search_ranges_cases:
  assumes "separated (tr_ranges t)"
  obtains (hit) i where "search_ranges t key = Inr (int i)" "i < length (tr_ranges t)"
      "range_side (tr_ranges t ! i) key = Hit" "covered (tr_ranges t) key"
  | (miss) "search_ranges t key = Inr (- 1)" "\<not> covered (tr_ranges t) key"
proof -
  let ?rs = "tr_ranges t"
  consider i where "i < length ?rs" "search_ranges t key = Inr (int i)" "range_side (?rs ! i) key = Hit"
    | p where "search_ranges t key = Inr (- 1)" "insertion_point range_side ?rs key p"
    using rb.search_full [OF separated_ordered [OF assms]] unfolding search_ranges_def by metis
  then show thesis
  proof cases
    case 1
    then have "covered ?rs key"
      by (auto simp: covered_def list_ex_length range_side_Hit)
    with 1 hit show thesis by blast
  next
    case (2 p)
    have "range_side (?rs ! i) key \<noteq> Hit" if "i < length ?rs" for i
      using 2(2) that unfolding insertion_point_def by (cases "i < p") auto
    then have "\<not> covered ?rs key" by (auto simp: covered_def list_ex_length range_side_Hit)
    with 2 miss show thesis by blast
  qed
qed

text \<open>
  The window query on separated ranges. When both ends of the window lie inside ranges, \<open>get_ranges\<close>
  returns exactly the ranges that meet the window. When only the right end does it returns all
  ranges that begin before it, even those that end before the window; when only the left end
  does, all that end after it. When both ends fall into gaps it returns no range at all, even
  when ranges lie inside the window. It never raises.
\<close>

theorem get_ranges_window:
  assumes "separated (tr_ranges t)" and "start \<le> end"
  shows "get_ranges t start end = Inr (
    if covered (tr_ranges t) start \<and> covered (tr_ranges t) end
    then filter (\<lambda>r. start \<le> of_int (dr_end r) \<and> of_int (dr_start r) \<le> end) (tr_ranges t)
    else if covered (tr_ranges t) end then filter (\<lambda>r. of_int (dr_start r) \<le> end) (tr_ranges t)
    else if covered (tr_ranges t) start then filter (\<lambda>r. start \<le> of_int (dr_end r)) (tr_ranges t)
    else [])"
proof -
  let ?rs = "tr_ranges t"
  note idx = hit_index [OF assms(1)]
  show ?thesis
  proof (cases rule: search_ranges_cases [OF assms(1), of start, case_names hit miss])
    case s: (hit i)
    have fr: "filter (\<lambda>r. start \<le> of_int (dr_end r)) ?rs = take (length ?rs - i) (drop i ?rs)"
      using s idx(2) [OF s(2,3)] by (intro filter_eq_take_drop) auto
    show ?thesis
    proof (cases rule: search_ranges_cases [OF assms(1), of "end", case_names hit miss])
      case e: (hit j)
      have "i \<le> j" using idx(1) [OF e(2,3) s(2)] s(3) assms(2) by (auto simp: range_side_Hit)
      then have "filter (\<lambda>r. start \<le> of_int (dr_end r) \<and> of_int (dr_start r) \<le> end) ?rs
          = take (Suc j - i) (drop i ?rs)"
        using s e idx(2) [OF s(2,3)] idx(1) [OF e(2,3)] by (intro filter_eq_take_drop) auto
      then show ?thesis using s e py_slice_nat [of ?rs i "Suc j"]
        by (simp add: get_ranges_def Suc_le_eq min_absorb2 add.commute)
    next
      case miss
      then show ?thesis using s fr py_slice_nat [of ?rs i "length ?rs"]
        by (simp add: get_ranges_def)
    qed
  next
    case s: miss
    show ?thesis
    proof (cases rule: search_ranges_cases [OF assms(1), of "end", case_names hit miss])
      case e: (hit j)
      have "filter (\<lambda>r. of_int (dr_start r) \<le> end) ?rs = take (Suc j - 0) (drop 0 ?rs)"
        using e idx(1) [OF e(2,3)] by (intro filter_eq_take_drop) auto
      then show ?thesis using s e py_slice_nat [of ?rs 0 "Suc j"]
        by (simp add: get_ranges_def Suc_le_eq min_absorb2 add.commute)
    next
      case miss
      with s show ?thesis by (simp add: get_ranges_def)
    qed
  qed
qed

theorem get_ranges_window_witness:
  "get_ranges \<lparr> tr_name = ''r'', tr_ranges = [DataRange 0 4 ''a'', DataRange 6 8 ''b'', DataRange 10 14 ''c''] \<rparr> 2 7
     = Inr [DataRange 0 4 ''a'', DataRange 6 8 ''b'']
   \<and> get_ranges \<lparr> tr_name = ''r'', tr_ranges = [DataRange 0 4 ''a'', DataRange 6 8 ''b'', DataRange 10 14 ''c''] \<rparr> 5 9
     = Inr []"
  using get_ranges_window [of "\<lparr> tr_name = ''r'', tr_ranges = [DataRange 0 4 ''a'', DataRange 6 8 ''b'', DataRange 10 14 ''c''] \<rparr>" 2 7]
    get_ranges_window [of "\<lparr> tr_name = ''r'', tr_ranges = [DataRange 0 4 ''a'', DataRange 6 8 ''b'', DataRange 10 14 ''c''] \<rparr>" 5 9]
  by (simp add: separated_def covered_def DataRange_def)

lemma search_events_point:
  assumes "strict_times (te_events t)"
  obtains p where "search_events t key = Inr (int p)" "p \<le> length (te_events t)"
    "\<And>k. k < length (te_events t) \<Longrightarrow> key \<le> of_int (ev_at (te_events t ! k)) \<longleftrightarrow> p \<le> k"
proof -
  let ?es = "te_events t"
  have lt: "(of_int (ev_at (?es ! a)) :: rat) < of_int (ev_at (?es ! b))" if "a < b" "b < length ?es" for a b
    using strict_times_nth [OF assms that] by simp
  consider i where "i < length ?es" "search_events t key = Inr (int i)" "event_side (?es ! i) key = Hit"
    | p where "search_events t key = Inr (int p)" "insertion_point event_side ?es key p"
    using eb.search_full [OF strict_times_ordered [OF assms]] unfolding search_events_def by metis
  then show thesis
  proof cases
    case (1 i)
    then have key: "key = of_int (ev_at (?es ! i))" by (auto simp: event_side_def split: if_splits)
    have "key \<le> of_int (ev_at (?es ! k)) \<longleftrightarrow> i \<le> k" if "k < length ?es" for k
      using lt [of i k] lt [of k i] that 1(1) unfolding key
      by (cases k i rule: linorder_cases) auto
    with 1 that show thesis by (meson less_imp_le)
  next
    case (2 p)
    have "key \<le> of_int (ev_at (?es ! k)) \<longleftrightarrow> p \<le> k" if "k < length ?es" for k
    proof (cases "k < p")
      case True
      then have "event_side (?es ! k) key = After" using 2(2) by (simp add: insertion_point_def)
      with True show ?thesis by (auto simp: event_side_def split: if_splits)
    next
      case False
      then have "event_side (?es ! k) key = Before" using 2(2) that by (simp add: insertion_point_def)
      with False show ?thesis by (auto simp: event_side_def split: if_splits)
    qed
    with 2 that show thesis by (auto simp: insertion_point_def)
  qed
qed

text \<open>
  The window query on events with strictly increasing times: \<open>get_events\<close> returns the events from the
  start of the window up to its end, followed by the first event at or after the end, also when
  that event lies outside the window. It never raises.
\<close>

theorem get_events_window:
  assumes "strict_times (te_events t)" and "start \<le> end"
  shows "get_events t start end = Inr (
    filter (\<lambda>e. start \<le> of_int (ev_at e) \<and> of_int (ev_at e) < end) (te_events t)
    @ take 1 (filter (\<lambda>e. end \<le> of_int (ev_at e)) (te_events t)))"
proof -
  let ?es = "te_events t"
  obtain p where p: "search_events t start = Inr (int p)" "p \<le> length ?es"
    "\<And>k. k < length ?es \<Longrightarrow> start \<le> of_int (ev_at (?es ! k)) \<longleftrightarrow> p \<le> k"
    using search_events_point [OF assms(1)] by metis
  obtain q where q: "search_events t end = Inr (int q)" "q \<le> length ?es"
    "\<And>k. k < length ?es \<Longrightarrow> end \<le> of_int (ev_at (?es ! k)) \<longleftrightarrow> q \<le> k"
    using search_events_point [OF assms(1)] by metis
  have "p \<le> q"
  proof (cases "q < length ?es")
    case True
    then show ?thesis using p(3) [of q] q(3) [of q] assms(2) by auto
  qed (use p(2) in simp)
  have "filter (\<lambda>e. start \<le> of_int (ev_at e) \<and> of_int (ev_at e) < end) ?es = take (q - p) (drop p ?es)"
    using p q \<open>p \<le> q\<close> by (intro filter_eq_take_drop) (auto simp: not_le [symmetric])
  moreover have "filter (\<lambda>e. end \<le> of_int (ev_at e)) ?es = take (length ?es - q) (drop q ?es)"
    using q by (intro filter_eq_take_drop) auto
  moreover have "py_slice ?es (int p) (int q + 1) = take (Suc q - p) (drop p ?es)"
    using py_slice_nat [of ?es p "Suc q"] p(2) by (simp add: add.commute take_all_iff min_def)
  moreover have "take (Suc q - p) (drop p ?es) = take (q - p) (drop p ?es) @ take 1 (drop q ?es)"
    using \<open>p \<le> q\<close> take_add [of "q - p" 1 "drop p ?es"] by (simp add: Suc_diff_le)
  ultimately show ?thesis using p(1) q(1) by (simp add: get_events_def)
qed

theorem get_events_window_witness:
  "get_events \<lparr> te_name = ''e'', te_events = [EventInt 1 10, EventInt 3 30, EventInt 5 50, EventInt 7 70] \<rparr> 2 4
     = Inr [EventInt 3 30, EventInt 5 50]"
  using get_events_window [of "\<lparr> te_name = ''e'', te_events = [EventInt 1 10, EventInt 3 30, EventInt 5 50, EventInt 7 70] \<rparr>" 2 4]
  by (simp add: strict_times_def EventInt_def)

section \<open>Containers that create their entries on demand\<close>

lemma sort_cmp_ranges: "sort_cmp ranges_cmp rs = sort_key dr_start rs"
proof -
  have "insert_cmp ranges_cmp r xs = insort_key dr_start r xs" for r xs
    by (induction xs) (auto simp: ranges_cmp_def Let_def)
  then have "insert_cmp ranges_cmp = insort_key dr_start" by (intro ext)
  then show ?thesis by (simp add: sort_cmp_def sort_key_def)
qed

lemma sort_cmp_events: "sort_cmp events_cmp es = sort_key ev_at es"
proof -
  have "insert_cmp events_cmp e xs = insort_key ev_at e xs" for e xs
    by (induction xs) (auto simp: events_cmp_def Let_def)
  then have "insert_cmp events_cmp = insort_key ev_at" by (intro ext)
  then show ?thesis by (simp add: sort_cmp_def sort_key_def)
qed

abbreviation find_name :: "('e \<Rightarrow> string) \<Rightarrow> string \<Rightarrow> 'e list \<Rightarrow> 'e option" where
  "find_name nm n xs \<equiv> List.find (\<lambda>x. nm x = n) xs"

lemma name_index_Some:
  "name_index nm n xs = Some i \<Longrightarrow>
     i < length xs \<and> nm (xs ! i) = n \<and> find_name nm n xs = Some (xs ! i)"
  by (induction xs arbitrary: i) (auto split: if_splits)

lemma name_index_None: "name_index nm n xs = None \<longleftrightarrow> n \<notin> nm ` set xs"
  by (induction xs) auto

lemma find_name_None: "find_name nm n xs = None \<longleftrightarrow> n \<notin> nm ` set xs"
  by (auto simp: find_None_iff)

lemma find_name_snoc: "find_name nm n (xs @ [x]) =
    (case find_name nm n xs of Some y \<Rightarrow> Some y | None \<Rightarrow> if nm x = n then Some x else None)"
  by (induction xs) auto

lemma find_name_map: "(\<And>x. nm (f x) = nm x) \<Longrightarrow> find_name nm n (map f xs) = map_option f (find_name nm n xs)"
  by (induction xs) auto

lemma find_name_update:
  assumes "name_index nm n xs = Some i" "nm y = n"
  shows "find_name nm n' (xs[i := y]) = (if n' = n then Some y else find_name nm n' xs)"
  using assms by (induction xs arbitrary: i) (auto split: if_splits nat.splits)

text \<open>
  The contract that \<open>get_range\<close>, \<open>get_event_str\<close>, \<open>get_event_int\<close> and \<open>Timelines.get\<close> share: the
  first entry of that name, or a fresh one that is appended.
\<close>

locale named_registry =
  fixes entries :: "'r \<Rightarrow> 'e list" and put :: "'e list \<Rightarrow> 'r \<Rightarrow> 'r"
    and nm :: "'e \<Rightarrow> string" and fresh :: "string \<Rightarrow> 'e" and get :: "string \<Rightarrow> 'r \<Rightarrow> nat \<times> 'r"
  assumes get_hit: "name_index nm n (entries r) = Some i \<Longrightarrow> get n r = (i, r)"
    and get_miss: "name_index nm n (entries r) = None
      \<Longrightarrow> get n r = (length (entries r), put (entries r @ [fresh n]) r)"
    and entries_put: "entries (put es r) = es"
    and nm_fresh: "nm (fresh n) = n"
begin

definition modify :: "string \<Rightarrow> ('e \<Rightarrow> 'e) \<Rightarrow> 'r \<Rightarrow> 'r" where
  "modify n f r = (let (i, r1) = get n r in put ((entries r1)[i := f (entries r1 ! i)]) r1)"

lemma get_index:
  "fst (get n r) < length (entries (snd (get n r)))
   \<and> nm (entries (snd (get n r)) ! fst (get n r)) = n"
  by (cases "name_index nm n (entries r)")
    (auto simp: get_hit get_miss entries_put nm_fresh dest: name_index_Some)

lemma name_index_get: "name_index nm n (entries (snd (get n r))) = Some (fst (get n r))"
proof (cases "name_index nm n (entries r)")
  case None
  have "name_index nm n (xs @ [fresh n]) = Some (length xs)" if "n \<notin> nm ` set xs" for xs
    using that by (induction xs) (auto simp: nm_fresh)
  with None show ?thesis by (simp add: get_miss entries_put name_index_None)
qed (simp add: get_hit)

lemma get_again: "get n (snd (get n r)) = (fst (get n r), snd (get n r))"
  by (rule get_hit [OF name_index_get])

lemma names_distinct:
  "distinct (map nm (entries r)) \<Longrightarrow> distinct (map nm (entries (snd (get n r))))"
  by (cases "name_index nm n (entries r)")
    (auto simp: get_hit get_miss entries_put nm_fresh name_index_None)

lemma find_modify:
  assumes "\<And>e. nm (f e) = nm e"
  shows "find_name nm n' (entries (modify n f r)) =
    (if n' = n then Some (f (case find_name nm n (entries r) of Some e \<Rightarrow> e | None \<Rightarrow> fresh n))
     else find_name nm n' (entries r))"
proof -
  obtain i r1 where g: "get n r = (i, r1)" by fastforce
  have i: "name_index nm n (entries r1) = Some i" using name_index_get [of n r] g by simp
  note s = name_index_Some [OF i]
  have upd: "find_name nm n' (entries (modify n f r)) =
      (if n' = n then Some (f (entries r1 ! i)) else find_name nm n' (entries r1))"
    using s assms by (simp add: modify_def g entries_put find_name_update [OF i])
  show ?thesis
  proof (cases "name_index nm n (entries r)")
    case None
    then have "entries r1 = entries r @ [fresh n]" "i = length (entries r)"
      using g by (auto simp: get_miss entries_put)
    moreover have "find_name nm n (entries r) = None"
      using None by (simp add: name_index_None find_name_None)
    ultimately show ?thesis using upd nm_fresh
      by (auto simp: find_name_snoc nth_append split: option.splits)
  next
    case (Some k)
    then have "r1 = r" "i = k" using g by (simp_all add: get_hit)
    then show ?thesis using upd s by simp
  qed
qed

end

interpretation rng: named_registry t_ranges "\<lambda>es t. t\<lparr> t_ranges := es \<rparr>" tr_name TimelineDataRange get_range
  by unfold_locales (simp_all add: get_range_def TimelineDataRange_def)

interpretation evs: named_registry t_event_str "\<lambda>es t. t\<lparr> t_event_str := es \<rparr>" te_name TimelineEvent
  get_event_str
  by unfold_locales (simp_all add: get_event_str_def TimelineEvent_def)

interpretation evi: named_registry t_event_int "\<lambda>es t. t\<lparr> t_event_int := es \<rparr>" te_name TimelineEvent
  get_event_int
  by unfold_locales (simp_all add: get_event_int_def TimelineEvent_def)

interpretation tls: named_registry "\<lambda>ts. ts" "\<lambda>es ts. es" t_name Timeline timelines_get
  by unfold_locales (simp_all add: timelines_get_def Timeline_def)

lemma put_range_modify: "put_range a b r ts = tls.modify a (rng.modify b (add_range r)) ts"
  by (simp add: put_range_def tls.modify_def rng.modify_def Let_def case_prod_beta)

lemma put_event_str_modify: "put_event_str a b e ts = tls.modify a (evs.modify b (add_event e)) ts"
  by (simp add: put_event_str_def tls.modify_def evs.modify_def Let_def case_prod_beta)

lemma put_event_int_modify: "put_event_int a b e ts = tls.modify a (evi.modify b (add_event e)) ts"
  by (simp add: put_event_int_def tls.modify_def evi.modify_def Let_def case_prod_beta)

section \<open>What \<open>read_data\<close> stores\<close>

definition view_ranges :: "string \<Rightarrow> string \<Rightarrow> timelines \<Rightarrow> data_range list" where
  "view_ranges a b ts =
     (case find_name t_name a ts of None \<Rightarrow> [] | Some t \<Rightarrow>
       (case find_name tr_name b (t_ranges t) of None \<Rightarrow> [] | Some r \<Rightarrow> tr_ranges r))"

definition view_event_str :: "string \<Rightarrow> string \<Rightarrow> timelines \<Rightarrow> event list" where
  "view_event_str a b ts =
     (case find_name t_name a ts of None \<Rightarrow> [] | Some t \<Rightarrow>
       (case find_name te_name b (t_event_str t) of None \<Rightarrow> [] | Some e \<Rightarrow> te_events e))"

definition view_event_int :: "string \<Rightarrow> string \<Rightarrow> timelines \<Rightarrow> event list" where
  "view_event_int a b ts =
     (case find_name t_name a ts of None \<Rightarrow> [] | Some t \<Rightarrow>
       (case find_name te_name b (t_event_int t) of None \<Rightarrow> [] | Some e \<Rightarrow> te_events e))"

lemma modify_name [simp]:
  "t_name (rng.modify b f t) = t_name t" "t_name (evs.modify b g t) = t_name t"
  "t_name (evi.modify b g t) = t_name t"
  by (simp_all add: rng.modify_def evs.modify_def evi.modify_def get_range_def get_event_str_def
      get_event_int_def case_prod_beta split: option.splits)

lemma modify_other [simp]:
  "t_event_str (rng.modify b f t) = t_event_str t" "t_event_int (rng.modify b f t) = t_event_int t"
  "t_ranges (evs.modify b g t) = t_ranges t" "t_event_int (evs.modify b g t) = t_event_int t"
  "t_ranges (evi.modify b g t) = t_ranges t" "t_event_str (evi.modify b g t) = t_event_str t"
  by (simp_all add: rng.modify_def evs.modify_def evi.modify_def get_range_def get_event_str_def
      get_event_int_def case_prod_beta split: option.splits)

lemma add_names [simp]: "tr_name (add_range r t) = tr_name t" "te_name (add_event e u) = te_name u"
  by (simp_all add: add_range_def add_event_def)

lemma fresh_empty [simp]:
  "t_ranges (Timeline a) = []" "t_event_str (Timeline a) = []" "t_event_int (Timeline a) = []"
  "tr_ranges (TimelineDataRange b) = []" "te_events (TimelineEvent b) = []"
  by (simp_all add: Timeline_def TimelineDataRange_def TimelineEvent_def)

lemma view_put_range:
  "view_ranges a b (put_range a' b' r ts) = view_ranges a b ts @ (if a' = a \<and> b' = b then [r] else [])"
  "view_event_str a b (put_range a' b' r ts) = view_event_str a b ts"
  "view_event_int a b (put_range a' b' r ts) = view_event_int a b ts"
  by (auto simp: view_ranges_def view_event_str_def view_event_int_def put_range_modify
      tls.find_modify rng.find_modify add_range_def split: option.splits)

lemma view_put_event_str:
  "view_event_str a b (put_event_str a' b' e ts)
     = view_event_str a b ts @ (if a' = a \<and> b' = b then [e] else [])"
  "view_ranges a b (put_event_str a' b' e ts) = view_ranges a b ts"
  "view_event_int a b (put_event_str a' b' e ts) = view_event_int a b ts"
  by (auto simp: view_ranges_def view_event_str_def view_event_int_def put_event_str_modify
      tls.find_modify evs.find_modify add_event_def split: option.splits)

lemma view_put_event_int:
  "view_event_int a b (put_event_int a' b' e ts)
     = view_event_int a b ts @ (if a' = a \<and> b' = b then [e] else [])"
  "view_ranges a b (put_event_int a' b' e ts) = view_ranges a b ts"
  "view_event_str a b (put_event_int a' b' e ts) = view_event_str a b ts"
  by (auto simp: view_ranges_def view_event_str_def view_event_int_def put_event_int_modify
      tls.find_modify evi.find_modify add_event_def split: option.splits)

lemmas view_put = view_put_range view_put_event_str view_put_event_int

text \<open>The records a line contributes to the entry \<open>b\<close> of the timeline \<open>a\<close>.\<close>

definition line_range :: "string \<Rightarrow> string \<Rightarrow> string \<Rightarrow> data_range list" where
  "line_range a b line =
     (case re_m1 line of Some (a', b', v, s, e) \<Rightarrow> if a' = a \<and> b' = b then [DataRange s e v] else []
      | None \<Rightarrow> [])"

definition line_event_str :: "string \<Rightarrow> string \<Rightarrow> string \<Rightarrow> event list" where
  "line_event_str a b line =
     (case re_m2 line of Some (a', b', v, t) \<Rightarrow> if a' = a \<and> b' = b then [EventString t v] else []
      | None \<Rightarrow> [])"

definition line_event_int :: "string \<Rightarrow> string \<Rightarrow> string \<Rightarrow> event list" where
  "line_event_int a b line =
     (case re_m3 line of Some (a', b', v, t) \<Rightarrow> if a' = a \<and> b' = b then [EventInt t v] else []
      | None \<Rightarrow> [])"

lemma re_exclusive:
  "re_m1 l = Some x \<Longrightarrow> re_m2 l = None \<and> re_m3 l = None"
  "re_m2 l = Some y \<Longrightarrow> re_m3 l = None"
  by (auto simp: re_m1_def re_m2_def re_m3_def re_lit_def prefix_def split: if_splits)

lemma view_read_line:
  "view_ranges a b (snd (read_line l (cs, ts))) = view_ranges a b ts @ line_range a b l"
  "view_event_str a b (snd (read_line l (cs, ts))) = view_event_str a b ts @ line_event_str a b l"
  "view_event_int a b (snd (read_line l (cs, ts))) = view_event_int a b ts @ line_event_int a b l"
  using re_exclusive [of l]
  by (auto simp: read_line_def line_range_def line_event_str_def line_event_int_def view_put
      split: option.splits)

lemma view_read_lines:
  "view_ranges a b (snd (fold read_line ls (cs, ts))) = view_ranges a b ts @ concat (map (line_range a b) ls)"
  "view_event_str a b (snd (fold read_line ls (cs, ts)))
     = view_event_str a b ts @ concat (map (line_event_str a b) ls)"
  "view_event_int a b (snd (fold read_line ls (cs, ts)))
     = view_event_int a b ts @ concat (map (line_event_int a b) ls)"
proof (induction ls arbitrary: cs ts)
  case (Cons l ls)
  {
    case 1
    show ?case using Cons(1) [of "fst (read_line l (cs, ts))" "snd (read_line l (cs, ts))"]
      by (simp add: view_read_line)
  next
    case 2
    show ?case using Cons(2) [of "fst (read_line l (cs, ts))" "snd (read_line l (cs, ts))"]
      by (simp add: view_read_line)
  next
    case 3
    show ?case using Cons(3) [of "fst (read_line l (cs, ts))" "snd (read_line l (cs, ts))"]
      by (simp add: view_read_line)
  }
qed simp_all

lemma view_sort:
  "view_ranges a b (timelines_sort ts) = sort_key dr_start (view_ranges a b ts)"
  "view_event_str a b (timelines_sort ts) = sort_key ev_at (view_event_str a b ts)"
  "view_event_int a b (timelines_sort ts) = sort_key ev_at (view_event_int a b ts)"
  by (simp_all add: view_ranges_def view_event_str_def view_event_int_def timelines_sort_def
      find_name_map timeline_sort_def range_sort_def event_sort_def sort_cmp_ranges sort_cmp_events
      split: option.splits)

text \<open>
  C35. What \<open>read_data\<close> stores: for every timeline \<open>a\<close> and every entry \<open>b\<close> of it, the ranges, the string
  events and the integer events are exactly the records of the lines of the file that name
  \<open>a\<close> and \<open>b\<close>, in file order, sorted stably by their time.
\<close>

theorem read_data_contents:
  "view_ranges a b (snd (read_data lines)) = sort_key dr_start (concat (map (line_range a b) lines))
   \<and> view_event_str a b (snd (read_data lines)) = sort_key ev_at (concat (map (line_event_str a b) lines))
   \<and> view_event_int a b (snd (read_data lines)) = sort_key ev_at (concat (map (line_event_int a b) lines))"
  using view_read_lines [of a b lines Colors_init "[]"]
  by (simp add: read_data_def case_prod_beta view_sort)
    (simp add: view_ranges_def view_event_str_def view_event_int_def)

section \<open>Bounds\<close>

lemma widen_simps [simp]:
  "fst (widen b acc) = min (fst b) (fst acc)" "snd (widen b acc) = max (snd b) (snd acc)"
  by (auto simp: widen_def case_prod_beta min_def max_def)

text \<open>The bounds that a loop over \<open>xs\<close> accumulates contain those of every element.\<close>

lemma fold_widen:
  fixes xs :: "'a list" and acc :: "int \<times> int"
  shows "fst (fold (\<lambda>x. widen (f x)) xs acc) \<le> fst acc" "snd acc \<le> snd (fold (\<lambda>x. widen (f x)) xs acc)"
    "x \<in> set xs \<Longrightarrow> fst (fold (\<lambda>x. widen (f x)) xs acc) \<le> fst (f x)"
    "x \<in> set xs \<Longrightarrow> snd (f x) \<le> snd (fold (\<lambda>x. widen (f x)) xs acc)"
proof -
  have m: "fst (fold (\<lambda>x. widen (f x)) xs acc) \<le> fst acc \<and> snd acc \<le> snd (fold (\<lambda>x. widen (f x)) xs acc)"
    for xs and acc :: "int \<times> int"
  proof (induction xs arbitrary: acc)
    case (Cons y ys)
    then show ?case using Cons [of "widen (f y) acc"] by simp
  qed simp
  then show "fst (fold (\<lambda>x. widen (f x)) xs acc) \<le> fst acc"
    "snd acc \<le> snd (fold (\<lambda>x. widen (f x)) xs acc)" by auto
  have "x \<in> set xs \<Longrightarrow> fst (fold (\<lambda>x. widen (f x)) xs acc) \<le> fst (f x)
      \<and> snd (f x) \<le> snd (fold (\<lambda>x. widen (f x)) xs acc)"
  proof (induction xs arbitrary: acc)
    case (Cons y ys)
    show ?case
    proof (cases "x \<in> set ys")
      case True
      then show ?thesis using Cons.IH [OF True, of "widen (f y) acc"] by simp
    next
      case False
      then show ?thesis using Cons.prems m [of ys "widen (f y) acc"] by simp
    qed
  qed simp
  then show "x \<in> set xs \<Longrightarrow> fst (fold (\<lambda>x. widen (f x)) xs acc) \<le> fst (f x)"
    "x \<in> set xs \<Longrightarrow> snd (f x) \<le> snd (fold (\<lambda>x. widen (f x)) xs acc)" by auto
qed

lemma range_bounds_cover:
  assumes "separated (tr_ranges t)" "r \<in> set (tr_ranges t)"
  shows "fst (range_bounds t) \<le> dr_start r \<and> dr_end r \<le> snd (range_bounds t)"
proof -
  let ?rs = "tr_ranges t"
  obtain i where i: "i < length ?rs" "r = ?rs ! i" using assms(2) by (auto simp: in_set_conv_nth)
  have ne: "?rs \<noteq> []" using assms(2) by auto
  have "dr_start (?rs ! 0) \<le> dr_start r"
    using separatedD [OF assms(1), of 0 i] i by (cases "i = 0") auto
  moreover have "dr_end r \<le> dr_end (?rs ! (length ?rs - 1))"
  proof (cases "i = length ?rs - 1")
    case False
    then have "i < length ?rs - 1" using i(1) by linarith
    moreover have "length ?rs - 1 < length ?rs" using ne by simp
    ultimately show ?thesis using separatedD [OF assms(1), of i "length ?rs - 1"] i(2)
      by (meson less_imp_le order_trans)
  qed (simp add: i(2))
  ultimately show ?thesis using ne by (simp add: range_bounds_def hd_conv_nth last_conv_nth)
qed

lemma event_bounds_cover:
  assumes "sorted (map ev_at (te_events t))" "e \<in> set (te_events t)"
  shows "fst (event_bounds t) \<le> ev_at e \<and> ev_at e \<le> snd (event_bounds t)"
proof -
  let ?es = "te_events t"
  obtain i where i: "i < length ?es" "e = ?es ! i" using assms(2) by (auto simp: in_set_conv_nth)
  have ne: "?es \<noteq> []" using assms(2) by auto
  have "ev_at (?es ! 0) \<le> ev_at e" "ev_at e \<le> ev_at (?es ! (length ?es - 1))"
    using sorted_nth_mono [OF assms(1), of 0 i] sorted_nth_mono [OF assms(1), of i "length ?es - 1"] i ne
    by auto
  then show ?thesis using ne by (simp add: event_bounds_def hd_conv_nth last_conv_nth)
qed

lemma timeline_bounds_cover:
  shows "r \<in> set (t_ranges t) \<Longrightarrow>
      fst (timeline_bounds t) \<le> fst (range_bounds r) \<and> snd (range_bounds r) \<le> snd (timeline_bounds t)"
    and "e \<in> set (t_event_str t) \<union> set (t_event_int t) \<Longrightarrow>
      fst (timeline_bounds t) \<le> fst (event_bounds e) \<and> snd (event_bounds e) \<le> snd (timeline_bounds t)"
  unfolding timeline_bounds_def
  by (auto intro: fold_widen order_trans [OF fold_widen(1)] order_trans [OF _ fold_widen(2)]
      order_trans [OF order_trans [OF fold_widen(1) fold_widen(1)]]
      order_trans [OF _ order_trans [OF fold_widen(2) fold_widen(2)]])

lemma timelines_bounds_cover:
  assumes "t \<in> set ts"
  shows "fst (timelines_bounds ts) \<le> fst (timeline_bounds t)"
    "snd (timeline_bounds t) \<le> snd (timelines_bounds ts)"
  using fold_widen(3,4) [OF assms, of timeline_bounds "(0, 0)"] by (simp_all add: timelines_bounds_def)

text \<open>
  The bounds of all timelines contain every range whose range list is separated: no such range
  begins before the lower bound or ends after the upper bound.
\<close>

theorem timelines_bounds_contain:
  assumes "t \<in> set ts"
  shows "rs \<in> set (t_ranges t) \<Longrightarrow> separated (tr_ranges rs) \<Longrightarrow> r \<in> set (tr_ranges rs)
    \<Longrightarrow> fst (timelines_bounds ts) \<le> dr_start r \<and> dr_end r \<le> snd (timelines_bounds ts)"
  using timelines_bounds_cover [OF assms] timeline_bounds_cover(1) [of rs t]
    range_bounds_cover [of rs r] by (meson order_trans)

theorem timelines_bounds_contain_witness:
  "timelines_bounds [\<lparr> t_name = ''t'', t_ranges = [\<lparr> tr_name = ''r'', tr_ranges = [DataRange 2 4 ''a'', DataRange 6 9 ''b''] \<rparr>],
       t_event_str = [], t_event_int = [] \<rparr>] = (0, 9)
   \<and> fst (timelines_bounds [\<lparr> t_name = ''t'', t_ranges = [\<lparr> tr_name = ''r'', tr_ranges = [DataRange 2 4 ''a'', DataRange 6 9 ''b''] \<rparr>],
       t_event_str = [], t_event_int = [] \<rparr>]) \<le> dr_start (DataRange 6 9 ''b'')"
proof
  show "timelines_bounds [\<lparr> t_name = ''t'', t_ranges = [\<lparr> tr_name = ''r'', tr_ranges = [DataRange 2 4 ''a'', DataRange 6 9 ''b''] \<rparr>],
       t_event_str = [], t_event_int = [] \<rparr>] = (0, 9)" by code_simp
  show "fst (timelines_bounds [\<lparr> t_name = ''t'', t_ranges = [\<lparr> tr_name = ''r'', tr_ranges = [DataRange 2 4 ''a'', DataRange 6 9 ''b''] \<rparr>],
       t_event_str = [], t_event_int = [] \<rparr>]) \<le> dr_start (DataRange 6 9 ''b'')"
    by (rule timelines_bounds_contain [THEN conjunct1])
      (auto simp: separated_def DataRange_def)
qed

section \<open>Colours\<close>

definition unknown :: "colors \<Rightarrow> string list \<Rightarrow> string list" where
  "unknown cs vs = filter (\<lambda>v. map_of (col_dict cs) v = None) vs"

text \<open>The loop of \<open>main\<close> that collects the colours of the legend.\<close>

definition legend_colors :: "string list \<Rightarrow> colors \<Rightarrow> (color list \<times> colors) res" where
  "legend_colors values cs =
     fold_res (\<lambda>v (acc, cs). bind_res (colors_lookup v cs) (\<lambda>(c, cs'). Inr (acc @ [c], cs'))) values ([], cs)"

lemma legend_colors_run:
  assumes "distinct vs"
  shows "(\<exists>r. fold_res (\<lambda>v (acc, cs). bind_res (colors_lookup v cs) (\<lambda>(c, cs'). Inr (acc @ [c], cs')))
      vs (acc, cs) = Inr r) \<longleftrightarrow> length (unknown cs vs) \<le> length (default_colors cs)"
  using assms
proof (induction vs arbitrary: acc cs)
  case (Cons v vs)
  let ?f = "\<lambda>v (acc, cs). bind_res (colors_lookup v cs) (\<lambda>(c, cs'). Inr (acc @ [c], cs'))"
  show ?case
  proof (cases "map_of (col_dict cs) v")
    case None
    show ?thesis
    proof (cases "default_colors cs = []")
      case True
      with None show ?thesis by (simp add: colors_lookup_def unknown_def)
    next
      case False
      let ?c = "last (default_colors cs)"
      let ?cs = "colors_add v ?c (cs\<lparr> default_colors := butlast (default_colors cs) \<rparr>)"
      have "unknown ?cs vs = unknown cs vs" "default_colors ?cs = butlast (default_colors cs)"
        using Cons.prems by (auto simp: unknown_def colors_add_def intro!: filter_cong)
      moreover have "?f v (acc, cs) = Inr (acc @ [?c], ?cs)"
        using None False by (simp add: colors_lookup_def Let_def)
      moreover have "length (unknown cs (v # vs)) \<le> length (default_colors cs)
          \<longleftrightarrow> length (unknown cs vs) \<le> length (butlast (default_colors cs))"
        using None False by (cases "default_colors cs" rule: rev_cases) (auto simp: unknown_def)
      ultimately show ?thesis using Cons by simp
    qed
  next
    case (Some c)
    then have "?f v (acc, cs) = Inr (acc @ [c], cs)" by (simp add: colors_lookup_def)
    with Cons Some show ?thesis by (simp add: unknown_def)
  qed
qed (simp add: unknown_def)

text \<open>
  The colours of the legend are found exactly when at most as many of the (distinct) range values
  lack a colour as default colours are left; with one more, \<open>pop\<close> on the empty list raises.
\<close>

theorem legend_colors_enough:
  assumes "distinct values"
  shows "(\<exists>r. legend_colors values cs = Inr r)
    \<longleftrightarrow> length (unknown cs values) \<le> length (default_colors cs)"
  using legend_colors_run [OF assms] by (simp add: legend_colors_def)

theorem legend_colors_enough_witness:
  "(\<exists>r. legend_colors [''a'', ''b'', ''c'', ''d'', ''e'', ''f''] Colors_init = Inr r)
   \<and> \<not> (\<exists>r. legend_colors [''a'', ''b'', ''c'', ''d'', ''e'', ''f'', ''g''] Colors_init = Inr r)"
  using legend_colors_enough [of "[''a'', ''b'', ''c'', ''d'', ''e'', ''f'']" Colors_init]
    legend_colors_enough [of "[''a'', ''b'', ''c'', ''d'', ''e'', ''f'', ''g'']" Colors_init]
  by (simp add: unknown_def Colors_init_def)

lemma colors_lookup_stable:
  assumes "colors_lookup n cs = Inr (c, cs')"
  shows "colors_lookup n cs' = Inr (c, cs')
    \<and> (\<forall>m. m \<noteq> n \<longrightarrow> map_of (col_dict cs') m = map_of (col_dict cs) m)"
  using assms by (auto simp: colors_lookup_def colors_add_def Let_def split: option.splits if_splits)

end
