(* ===== verification/GridRender.thy ===== *)
theory GridRender
  imports GridData
begin

text \<open>
  The renderers of the timeline viewer \<open>utils/grid.py\<close>: the legend, the timelines, the scales, the
  composition of the picture, and the mouse handling of the drawing area.

  A drawing context is the list of the cairo calls made on it. The size of a text is the
  parameter \<open>te\<close> (what \<open>text_extents\<close> returns), and the text of a float value the parameter \<open>fs\<close>.
  Numbers follow the rules of Python 2, so that an integer division stays one. An attribute
  that a method may read before it is set is an option, and reading it unset raises
  AttributeError; the attributes that \<open>layout\<close> sets are read after it only.
\<close>

section \<open>Drawing commands\<close>

datatype cmd =
    Rectangle pynum pynum pynum pynum
  | SetSourceRGB pynum pynum pynum
  | SetLineWidth pynum
  | SetDash pynum
  | SetOperatorSource
  | StrokePreserve | Stroke | Fill | ClosePath | Save | Restore
  | MoveTo pynum pynum
  | LineTo pynum pynum
  | RelLineTo pynum pynum
  | Translate pynum pynum
  | ShowText string

record extents =
  y_bearing :: rat
  t_width :: rat
  t_height :: rat

type_synonym text_extents = "string \<Rightarrow> extents"

abbreviation black :: cmd where "black \<equiv> SetSourceRGB (I 0) (I 0) (I 0)"
abbreviation grey :: cmd where "grey \<equiv> SetSourceRGB (F 0.9) (F 0.9) (F 0.9)"

definition py_half :: "pynum \<Rightarrow> pynum" where
  "py_half x = (case x of I a \<Rightarrow> I (a div 2) | F r \<Rightarrow> F (r / 2))"

definition alphabet :: string where
  "alphabet = ''ABCDEFGHIJKLMNOPQRSTUVWXYZabcedefghijklmnopqrstuvwxyz0123456789''"

definition concat_res :: "('a \<Rightarrow> 's \<Rightarrow> (cmd list \<times> 's) res) \<Rightarrow> 'a list \<Rightarrow> 's \<Rightarrow> (cmd list \<times> 's) res" where
  "concat_res f xs s =
     fold_res (\<lambda>x (cs, s). bind_res (f x s) (\<lambda>(c, s'). Inr (cs @ c, s'))) xs ([], s)"

section \<open>The legend\<close>

record top_legend =
  tl_padding :: pynum
  tl_legends :: "string list"
  tl_colors :: "color list"
  tl_width :: pynum
  tl_height :: pynum

definition TopLegendRenderer :: top_legend where
  "TopLegendRenderer = \<lparr> tl_padding = I 10, tl_legends = [], tl_colors = [], tl_width = I 0, tl_height = I 0 \<rparr>"

definition set_legends :: "string list \<Rightarrow> color list \<Rightarrow> top_legend \<Rightarrow> top_legend" where
  "set_legends ls cs t = t\<lparr> tl_legends := ls, tl_colors := cs \<rparr>"

text \<open>One step of the two loops: the line height, the height and the width used so far, after
  the item; the item is at the position \<open>x\<close>, which is the width used less the item's width.\<close>

definition legend_item :: "text_extents \<Rightarrow> top_legend \<Rightarrow> string \<Rightarrow> pynum \<times> pynum" where
  "legend_item te t legend =
     (py_add (py_add (py_add (tl_padding t) (tl_padding t)) (F (t_width (te legend)))) (tl_padding t),
      py_add (F (t_height (te legend))) (tl_padding t))"

definition legend_step ::
  "text_extents \<Rightarrow> top_legend \<Rightarrow> string \<Rightarrow> pynum \<times> pynum \<times> pynum \<Rightarrow> pynum \<times> pynum \<times> pynum" where
  "legend_step te t legend = (\<lambda>(line_height, total_height, line_used).
     let (item_width, item_height) = legend_item te t legend;
         line_height' = (if py_lt line_height item_height then item_height else line_height)
     in if py_lt (tl_width t) (py_add line_used item_width)
        then (line_height', py_add total_height line_height', py_add (tl_padding t) item_width)
        else (line_height', total_height, py_add line_used item_width))"

definition legend_layout :: "text_extents \<Rightarrow> pynum \<Rightarrow> top_legend \<Rightarrow> top_legend" where
  "legend_layout te width t0 =
     (let t = t0\<lparr> tl_width := width \<rparr>;
          (line_height, total_height, line_used) =
            fold (legend_step te t) (tl_legends t) (I 0, tl_padding t, tl_padding t)
      in t\<lparr> tl_height := py_add total_height line_height \<rparr>)"

fun legend_draw_loop ::
  "text_extents \<Rightarrow> top_legend \<Rightarrow> string list \<Rightarrow> nat \<Rightarrow> pynum \<times> pynum \<times> pynum \<Rightarrow> cmd list res" where
  "legend_draw_loop te t [] i st = Inr []"
| "legend_draw_loop te t (legend # ls) i st =
     (let st' = legend_step te t legend st;
          (line_height, total_height, line_used) = st';
          x = py_sub line_used (fst (legend_item te t legend))
      in bind_res (py_index (tl_colors t) (int i)) (\<lambda>c.
         bind_res (legend_draw_loop te t ls (i + 1) st') (\<lambda>rest.
           Inr ([Rectangle x total_height (tl_padding t) (tl_padding t), black, SetLineWidth (I 2),
                 StrokePreserve, SetSourceRGB (c_r c) (c_g c) (c_b c), Fill,
                 MoveTo (py_add x (py_mul (tl_padding t) (I 2))) (py_add total_height (F (t_height (te legend)))),
                 black, ShowText legend] @ rest))))"

definition legend_draw :: "text_extents \<Rightarrow> top_legend \<Rightarrow> cmd list res" where
  "legend_draw te t = legend_draw_loop te t (tl_legends t) 0 (I 0, tl_padding t, tl_padding t)"

section \<open>The timelines\<close>

record timelines_renderer =
  tr_padding :: pynum
  tr_timelines :: timelines
  tr_colors :: colors
  tr_start :: pynum
  tr_end :: pynum
  tr_left_width :: pynum
  tr_right_width :: pynum
  tr_max_text_height :: pynum
  tr_width :: pynum
  tr_height :: pynum


definition set_render_range :: "pynum \<Rightarrow> pynum \<Rightarrow> timelines_renderer \<Rightarrow> timelines_renderer" where
  "set_render_range s e r = r\<lparr> tr_start := s, tr_end := e \<rparr>"

definition get_data_x_start :: "timelines_renderer \<Rightarrow> pynum" where
  "get_data_x_start r =
     py_add (py_add (py_add (py_add (py_half (tr_padding r)) (tr_left_width r)) (tr_padding r))
       (tr_right_width r)) (py_half (tr_padding r))"

definition widest :: "text_extents \<Rightarrow> string list \<Rightarrow> pynum \<Rightarrow> pynum" where
  "widest te names w = fold (\<lambda>n w. py_max w (F (t_width (te n)))) names w"

definition row_names :: "timeline \<Rightarrow> string list" where
  "row_names t = map tr_name (t_ranges t) @ map te_name (t_event_int t) @ map te_name (t_event_str t)"

definition timelines_layout :: "text_extents \<Rightarrow> pynum \<Rightarrow> timelines_renderer \<Rightarrow> timelines_renderer" where
  "timelines_layout te width r =
     (let ts = tr_timelines r;
          max_text_height = F (t_height (te alphabet));
          left_width = widest te (map t_name ts) (I 0);
          right_width = widest te (concat (map row_names ts)) (I 0);
          left_n_lines = int (length ts);
          range_n = int (length (concat (map t_ranges ts)));
          eventint_n = int (length (concat (map t_event_int ts)));
          eventstr_n = int (length (concat (map t_event_str ts)));
          left_height = py_add (py_mul (I left_n_lines) max_text_height)
                          (py_mul (I (left_n_lines - 1)) (tr_padding r));
          right_n_lines = range_n + eventint_n + eventstr_n;
          right_height = py_add (py_mul (I (right_n_lines - 1)) (tr_padding r))
                           (py_mul (I right_n_lines) max_text_height);
          right_data_height = py_add (py_add (py_mul (I (eventint_n + eventstr_n)) (py_add max_text_height (I 5)))
                                (I (range_n * 10))) (py_mul (I (right_n_lines - 1)) (tr_padding r));
          height = py_max (py_max left_height right_height) right_data_height
      in r\<lparr> tr_left_width := left_width, tr_right_width := right_width,
             tr_max_text_height := max_text_height, tr_width := width,
             tr_height := py_add height (tr_padding r) \<rparr>)"

definition draw_line :: "pynum \<Rightarrow> pynum \<Rightarrow> pynum \<Rightarrow> pynum \<Rightarrow> cmd list" where
  "draw_line x y width height =
     [MoveTo x y, RelLineTo width height, ClosePath, SetOperatorSource, SetLineWidth (F 1), black, Stroke]"

definition background :: "timelines_renderer \<Rightarrow> int \<Rightarrow> pynum \<Rightarrow> pynum \<Rightarrow> pynum \<Rightarrow> pynum \<Rightarrow> cmd list" where
  "background r grey_background x y width height =
     (if grey_background mod 2 = 0
      then [Rectangle x (py_sub y (py_half (tr_padding r))) width (py_add height (tr_padding r)), grey, Fill]
      else [])"

text \<open>The pixel of a point in time, \<open>int(x + (at - start) * width / (end - start))\<close>.\<close>

definition pixel :: "timelines_renderer \<Rightarrow> pynum \<Rightarrow> pynum \<Rightarrow> pynum \<Rightarrow> pynum res" where
  "pixel r x width t =
     bind_res (py_div (py_mul (py_sub t (tr_start r)) width) (py_sub (tr_end r) (tr_start r)))
       (\<lambda>d. Inr (py_int (py_add x d)))"

definition ev_text :: "(rat \<Rightarrow> string) \<Rightarrow> ev_value \<Rightarrow> string" where
  "ev_text fs v = (case v of VStr s \<Rightarrow> s | VInt i \<Rightarrow> int_str i | VFloat q \<Rightarrow> fs q)"

definition draw_event ::
  "(rat \<Rightarrow> string) \<Rightarrow> timelines_renderer \<Rightarrow> pynum \<Rightarrow> pynum \<Rightarrow> pynum \<Rightarrow> event \<Rightarrow> pynum \<Rightarrow> (cmd list \<times> pynum) res" where
  "draw_event fs r x y width e last_x_drawn =
     bind_res (pixel r x width (I (ev_at e))) (\<lambda>real_x.
       if py_lt (py_add last_x_drawn (I 2)) real_x
       then Inr ([Rectangle real_x y (I 1) (I 1), SetSourceRGB (I 1) (I 0) (I 0), Stroke,
                  MoveTo real_x (py_add y (tr_max_text_height r)), black, ShowText (ev_text fs (ev_value e))], real_x)
       else Inr ([], last_x_drawn))"

definition draw_events ::
  "(rat \<Rightarrow> string) \<Rightarrow> timelines_renderer \<Rightarrow> int \<Rightarrow> timeline_event \<Rightarrow> pynum \<Rightarrow> pynum \<Rightarrow> pynum \<Rightarrow> pynum \<Rightarrow> cmd list res" where
  "draw_events fs r grey_background events x y width height =
     bind_res (get_events_bounds events (val (tr_start r)) (val (tr_end r))) (\<lambda>(lo, hi).
     bind_res (concat_res (draw_event fs r x y width) (py_slice (te_events events) lo hi) (py_int x)) (\<lambda>(cs, _).
       Inr (background r grey_background x y width height @ cs)))"

definition draw_range ::
  "timelines_renderer \<Rightarrow> pynum \<Rightarrow> pynum \<Rightarrow> pynum \<Rightarrow> data_range \<Rightarrow> pynum \<times> colors
    \<Rightarrow> (cmd list \<times> pynum \<times> colors) res" where
  "draw_range r x y width d = (\<lambda>(last_x_drawn, colors).
     bind_res (pixel r x width (py_max (I (dr_start d)) (tr_start r))) (\<lambda>x_start.
     bind_res (pixel r x width (py_min (I (dr_end d)) (tr_end r))) (\<lambda>x_end.
       if py_lt last_x_drawn x_end
       then bind_res (colors_lookup (dr_value d) colors) (\<lambda>(c, colors').
              Inr ([Rectangle x_start y (py_sub x_end x_start) (I 10), black, StrokePreserve,
                    SetSourceRGB (c_r c) (c_g c) (c_b c), Fill], x_end, colors'))
       else Inr ([], last_x_drawn, colors))))"

definition draw_ranges ::
  "timelines_renderer \<Rightarrow> int \<Rightarrow> timeline_data_range \<Rightarrow> pynum \<Rightarrow> pynum \<Rightarrow> pynum \<Rightarrow> pynum \<Rightarrow> colors
    \<Rightarrow> (cmd list \<times> colors) res" where
  "draw_ranges r grey_background ranges x y width height colors =
     bind_res (get_ranges_bounds ranges (val (tr_start r)) (val (tr_end r))) (\<lambda>(lo, hi).
     bind_res (concat_res (draw_range r x y width) (py_slice (tr_ranges ranges) lo hi)
                 (py_int (py_sub x (I 1)), colors)) (\<lambda>(cs, _, colors').
       Inr (background r grey_background x y width height @ cs, colors')))"

text \<open>One row of a timeline: its name, its data and the line below it.\<close>

record draw_state =
  cur_y :: pynum
  grey_background :: int
  ds_colors :: colors

definition row_cmds ::
  "text_extents \<Rightarrow> timelines_renderer \<Rightarrow> pynum \<Rightarrow> string \<Rightarrow> cmd list \<Rightarrow> pynum \<Rightarrow> draw_state \<Rightarrow> cmd list \<times> pynum" where
  "row_cmds te r right_x_start name body step st =
     (let e = te name; y = py_add (cur_y st) step
      in ([MoveTo right_x_start (py_sub (py_add (cur_y st) (tr_max_text_height r)) (F (t_height e + y_bearing e))),
           ShowText name] @ body
          @ draw_line (py_sub right_x_start (py_half (tr_padding r))) (py_sub y (py_half (tr_padding r)))
              (py_add (tr_right_width r) (tr_padding r)) (I 0), y))"

definition draw_event_row ::
  "(rat \<Rightarrow> string) \<Rightarrow> text_extents \<Rightarrow> timelines_renderer \<Rightarrow> pynum \<Rightarrow> pynum \<Rightarrow> pynum \<Rightarrow> timeline_event
    \<Rightarrow> draw_state \<Rightarrow> (cmd list \<times> draw_state) res" where
  "draw_event_row fs te r right_x_start data_x_start data_width events st =
     (let h = py_add (tr_max_text_height r) (I 5)
      in bind_res (draw_events fs r (grey_background st) events data_x_start (cur_y st) data_width h) (\<lambda>body.
           let (cs, y) = row_cmds te r right_x_start (te_name events) body (py_add h (tr_padding r)) st
           in Inr (cs, st\<lparr> cur_y := y, grey_background := grey_background st + 1 \<rparr>)))"

definition draw_range_row ::
  "text_extents \<Rightarrow> timelines_renderer \<Rightarrow> pynum \<Rightarrow> pynum \<Rightarrow> pynum \<Rightarrow> timeline_data_range
    \<Rightarrow> draw_state \<Rightarrow> (cmd list \<times> draw_state) res" where
  "draw_range_row te r right_x_start data_x_start data_width ranges st =
     bind_res (draw_ranges r (grey_background st) ranges data_x_start (cur_y st) data_width (I 10) (ds_colors st))
       (\<lambda>(body, colors').
         let (cs, y) = row_cmds te r right_x_start (tr_name ranges) body
                         (py_add (tr_max_text_height r) (tr_padding r)) st
         in Inr (cs, st\<lparr> cur_y := y, grey_background := grey_background st + 1, ds_colors := colors' \<rparr>))"

definition draw_timeline ::
  "(rat \<Rightarrow> string) \<Rightarrow> text_extents \<Rightarrow> timelines_renderer \<Rightarrow> pynum \<Rightarrow> pynum \<Rightarrow> pynum \<Rightarrow> pynum \<Rightarrow> timeline
    \<Rightarrow> draw_state \<Rightarrow> (cmd list \<times> draw_state) res" where
  "draw_timeline fs te r left_x_start right_x_start data_x_start data_width t st =
     (let e = te (t_name t);
          c0 = [MoveTo left_x_start (py_sub (py_add (cur_y st) (tr_max_text_height r)) (F (t_height e + y_bearing e))),
                ShowText (t_name t)]
      in bind_res (concat_res (draw_event_row fs te r right_x_start data_x_start data_width) (t_event_int t) st) (\<lambda>(c1, s1).
         bind_res (concat_res (draw_event_row fs te r right_x_start data_x_start data_width) (t_event_str t) s1) (\<lambda>(c2, s2).
         bind_res (concat_res (draw_range_row te r right_x_start data_x_start data_width) (t_ranges t) s2) (\<lambda>(c3, s3).
           Inr (c0 @ c1 @ c2 @ c3 @ draw_line (I 0) (py_sub (cur_y s3) (py_half (tr_padding r))) (tr_width r) (I 0), s3)))))"

definition timelines_draw ::
  "(rat \<Rightarrow> string) \<Rightarrow> text_extents \<Rightarrow> timelines_renderer \<Rightarrow> (cmd list \<times> timelines_renderer) res" where
  "timelines_draw fs te r =
     (let top_y = py_half (tr_padding r);
          left_x_start = py_half (tr_padding r);
          left_x_end = py_add left_x_start (tr_left_width r);
          right_x_start = py_add left_x_end (tr_padding r);
          right_x_end = py_add right_x_start (tr_right_width r);
          data_x_start = py_add right_x_end (py_half (tr_padding r));
          data_width = py_sub (tr_width r) data_x_start;
          st = \<lparr> cur_y = top_y, grey_background = 1, ds_colors = tr_colors r \<rparr>
      in bind_res (concat_res (draw_timeline fs te r left_x_start right_x_start data_x_start data_width)
                     (tr_timelines r) st) (\<lambda>(cs, st').
           let bot_y = py_sub (cur_y st') (py_half (tr_padding r))
           in Inr (draw_line (I 0) (I 0) (tr_width r) (I 0) @ cs
                   @ draw_line (py_add left_x_end (py_half (tr_padding r))) (I 0) (I 0) bot_y
                   @ draw_line (py_add right_x_end (py_half (tr_padding r))) (I 0) (I 0) bot_y,
                   r\<lparr> tr_colors := ds_colors st' \<rparr>)))"

section \<open>Scales\<close>

record scale =
  sc_top :: bool
  sc_lo :: pynum
  sc_hi :: pynum
  sc_delta :: pynum
  sc_width :: pynum
  sc_height :: pynum

definition ScaleRenderer :: scale where
  "ScaleRenderer = \<lparr> sc_top = False, sc_lo = I 0, sc_hi = I 0, sc_delta = I 0, sc_width = I 0, sc_height = I 0 \<rparr>"

definition set_bounds :: "pynum \<Rightarrow> pynum \<Rightarrow> scale \<Rightarrow> scale" where
  "set_bounds lo hi s = s\<lparr> sc_lo := lo, sc_hi := hi \<rparr>"



definition get_position :: "scale \<Rightarrow> pynum \<Rightarrow> pynum res" where
  "get_position s x = py_div (py_mul (py_sub x (sc_lo s)) (sc_width s)) (py_sub (sc_hi s) (sc_lo s))"

text \<open>The loop that multiplies by ten; \<open>closest\<close> starts at 1, and the first test is there for the
  termination of the function on other arguments only.\<close>

function closest_power :: "rat \<Rightarrow> int \<Rightarrow> int" where
  "closest_power data_delta closest =
     (if 0 < closest \<and> of_int (closest * 10) < data_delta
      then closest_power data_delta (closest * 10) else closest)"
  by pat_completeness auto
termination
proof (relation "measure (\<lambda>(d, c). nat (\<lceil>d\<rceil> - c))", goal_cases)
  case (2 d c)
  then have "c * 10 < \<lceil>d\<rceil>" by (meson less_ceiling_iff)
  with 2 show ?case by auto
qed simp

declare closest_power.simps [simp del]

definition scale_delta :: "scale \<Rightarrow> pynum res" where
  "scale_delta s =
     (let data_delta = py_sub (sc_hi s) (sc_lo s);
          closest = closest_power (val data_delta) 1
      in bind_res (py_div data_delta (I closest)) (\<lambda>q.
           if val q = 0 then Inr (I closest)
           else if val q = 1 then Inr (I (closest div 10))
           else Inr (I closest)))"

definition scale_start :: "scale \<Rightarrow> pynum \<Rightarrow> pynum res" where
  "scale_start s delta =
     bind_res (py_mod (sc_lo s) delta) (\<lambda>m. Inr (py_add (py_sub (sc_lo s) m) delta))"

definition scale_end :: "scale \<Rightarrow> pynum \<Rightarrow> pynum res" where
  "scale_end s delta = bind_res (py_mod (sc_hi s) delta) (\<lambda>m. Inr (py_sub (sc_hi s) m))"

definition scale_layout :: "text_extents \<Rightarrow> pynum \<Rightarrow> scale \<Rightarrow> scale res" where
  "scale_layout te width s =
     bind_res (scale_delta s) (\<lambda>delta.
     bind_res (scale_start s delta) (\<lambda>_.
     bind_res (scale_end s delta) (\<lambda>_.
       Inr (s\<lparr> sc_delta := delta, sc_width := width,
               sc_height := py_add (F (t_height (te alphabet))) (I 10) \<rparr>))))"

text \<open>\<open>range(a, b, c)\<close> for a positive step.\<close>

definition int_range :: "int \<Rightarrow> int \<Rightarrow> int \<Rightarrow> int list" where
  "int_range a b c = map (\<lambda>k. a + c * int k) [0..<nat ((b - a + c - 1) div c)]"

definition scale_ticks :: "scale \<Rightarrow> pynum \<Rightarrow> int list res" where
  "scale_ticks s delta =
     bind_res (scale_start s delta) (\<lambda>a.
     bind_res (scale_end s delta) (\<lambda>b.
       Inr (int_range (int_of a) (int_of (py_add b delta)) (int_of delta))))"

definition draw_tick :: "text_extents \<Rightarrow> scale \<Rightarrow> int \<Rightarrow> cmd list res" where
  "draw_tick te s x =
     bind_res (get_position s (I x)) (\<lambda>real_x.
       let sg = I (if sc_top s then - 1 else 1); e = te (int_str x);
           text_delta = (if sc_top s then F (t_height e + y_bearing e) else F (- y_bearing e))
       in Inr [MoveTo real_x (I 0), LineTo real_x (py_mul (I 5) sg), ClosePath, Stroke,
               MoveTo (py_sub real_x (F (t_width e / 2))) (py_mul (py_add (I 10) text_delta) sg),
               ShowText (int_str x)])"

definition draw_subtick :: "scale \<Rightarrow> int \<Rightarrow> cmd list res" where
  "draw_subtick s x =
     bind_res (get_position s (I x)) (\<lambda>real_x.
       Inr [MoveTo real_x (I 0), LineTo real_x (py_mul (I 3) (I (if sc_top s then - 1 else 1))),
            ClosePath, Stroke])"

definition scale_draw :: "text_extents \<Rightarrow> scale \<Rightarrow> cmd list res" where
  "scale_draw te s =
     bind_res (scale_ticks s (sc_delta s)) (\<lambda>ticks.
     bind_res (map_res (draw_tick te s) ticks) (\<lambda>c1.
     bind_res (py_div (sc_delta s) (I 10)) (\<lambda>delta.
     bind_res (if py_lt (I 0) delta
               then bind_res (scale_ticks s delta) (map_res (draw_subtick s)) else Inr []) (\<lambda>c2.
       Inr ([black, SetLineWidth (F 1)] @ concat c1 @ concat c2)))))"

section \<open>The picture\<close>

record graphic =
  g_start :: pynum
  g_end :: pynum
  g_mid_scale :: scale
  g_bot_scale :: scale
  g_width :: pynum
  g_height :: pynum
  g_top_legend :: top_legend
  g_data :: timelines_renderer
  g_r_start :: pynum
  g_r_end :: pynum


definition get_data_rectangle :: "graphic \<Rightarrow> pynum \<times> pynum \<times> pynum \<times> pynum" where
  "get_data_rectangle g =
     (let x_start = get_data_x_start (g_data g)
      in (x_start, tl_height (g_top_legend g), py_sub (g_width g) x_start, tr_height (g_data g)))"

definition scale_data :: "graphic \<Rightarrow> pynum \<Rightarrow> pynum res" where
  "scale_data g x =
     bind_res (py_div x (py_sub (g_width g) (get_data_x_start (g_data g)))) (\<lambda>q.
       Inr (py_mul q (py_sub (g_r_end g) (g_r_start g))))"

definition get_selection_rectangle :: "graphic \<Rightarrow> (pynum \<times> pynum \<times> pynum \<times> pynum) res" where
  "get_selection_rectangle g =
     bind_res (get_position (g_bot_scale g) (g_r_start g)) (\<lambda>x_start.
     bind_res (get_position (g_bot_scale g) (g_r_end g)) (\<lambda>x_end.
       Inr (x_start,
            py_add (py_add (py_add (tl_height (g_top_legend g)) (tr_height (g_data g)))
              (sc_height (g_mid_scale g))) (I 20),
            py_sub x_end x_start, py_add (sc_height (g_bot_scale g)) (I 20))))"

definition scale_selection :: "graphic \<Rightarrow> pynum \<Rightarrow> pynum res" where
  "scale_selection g x =
     bind_res (py_div x (g_width g)) (\<lambda>q. Inr (py_mul q (py_sub (g_end g) (g_start g))))"

definition graphic_layout :: "text_extents \<Rightarrow> pynum \<Rightarrow> pynum \<Rightarrow> graphic \<Rightarrow> graphic res" where
  "graphic_layout te width height g =
     (let legend = legend_layout te width (g_top_legend g);
          data = timelines_layout te width (g_data g)
      in bind_res (scale_layout te (py_sub width (get_data_x_start data)) (g_mid_scale g)) (\<lambda>mid.
         bind_res (scale_layout te width (g_bot_scale g)) (\<lambda>bot.
           Inr (g\<lparr> g_width := width, g_height := height, g_top_legend := legend, g_data := data,
                   g_mid_scale := mid, g_bot_scale := bot \<rparr>))))"

definition set_range :: "text_extents \<Rightarrow> pynum \<Rightarrow> pynum \<Rightarrow> graphic \<Rightarrow> graphic res" where
  "set_range te start end g =
     (let s = py_min start end; e = py_max start end;
          start' = py_max (g_start g) s; end' = py_min (g_end g) e
      in graphic_layout te (g_width g) (g_height g)
           (g\<lparr> g_r_start := start', g_r_end := end',
               g_data := set_render_range start' end' (g_data g),
               g_mid_scale := set_bounds start' end' (g_mid_scale g) \<rparr>))"

definition get_range_g :: "graphic \<Rightarrow> pynum \<times> pynum" where
  "get_range_g g = (g_r_start g, g_r_end g)"

text \<open>\<open>GraphicRenderer.draw\<close>, after the background and the legend: the frame of the data and the
  scales around the selection.\<close>

definition frame_cmds :: "graphic \<Rightarrow> pynum \<Rightarrow> pynum \<Rightarrow> pynum \<Rightarrow> cmd list" where
  "frame_cmds g height_used select_start select_end =
     (let x0 = get_data_x_start (g_data g); w = g_width g; below = py_add height_used (I 20);
          unused_height = py_add (sc_height (g_bot_scale g)) (I 20)
      in [MoveTo x0 height_used, RelLineTo (I 0) (py_neg (sc_height (g_mid_scale g))), ClosePath, black,
          SetLineWidth (I 2), Stroke,
          MoveTo (I 0) height_used, LineTo w height_used, ClosePath, SetLineWidth (I 2), black, Stroke,
          MoveTo (I 0) height_used, LineTo x0 height_used, LineTo select_start below, LineTo (I 0) below,
          LineTo (I 0) height_used, black, SetLineWidth (I 1), StrokePreserve, grey, Fill,
          MoveTo w height_used, LineTo w below, LineTo select_end below, LineTo w height_used,
          black, SetLineWidth (I 1), StrokePreserve, grey, Fill,
          Rectangle (I 0) below select_start unused_height,
          Rectangle select_end below (py_sub w select_end) unused_height, grey, Fill,
          MoveTo select_end below, LineTo w below, LineTo w (py_add below unused_height),
          LineTo (I 0) (py_add below unused_height), LineTo (I 0) below, LineTo select_start below,
          ClosePath, SetLineWidth (I 2), black, Stroke,
          MoveTo select_start below, LineTo select_end below, ClosePath, SetLineWidth (I 1), grey, Stroke,
          Save, MoveTo (py_max select_start (I 2)) below, RelLineTo (I 0) unused_height,
          MoveTo (py_min select_end (py_sub w (I 2))) below, RelLineTo (I 0) unused_height,
          SetDash (I 5), black, SetLineWidth (I 1), Stroke, Restore])"

definition graphic_draw :: "(rat \<Rightarrow> string) \<Rightarrow> text_extents \<Rightarrow> graphic \<Rightarrow> (cmd list \<times> graphic) res" where
  "graphic_draw fs te g =
     (let top_legend_height = tl_height (g_top_legend g);
          height_used = py_add (py_add top_legend_height (tr_height (g_data g))) (sc_height (g_mid_scale g))
      in bind_res (legend_draw te (g_top_legend g)) (\<lambda>c1.
         bind_res (timelines_draw fs te (g_data g)) (\<lambda>(c2, data').
         bind_res (scale_draw te (g_mid_scale g)) (\<lambda>c3.
         bind_res (get_position (g_bot_scale g) (g_r_start g)) (\<lambda>select_start.
         bind_res (get_position (g_bot_scale g) (g_r_end g)) (\<lambda>select_end.
         bind_res (scale_draw te (g_bot_scale g)) (\<lambda>c4.
           Inr ([Save, SetSourceRGB (I 1) (I 1) (I 1), SetOperatorSource,
                 Rectangle (I 0) (I 0) (g_width g) (g_height g), Fill, Save] @ c1 @ [Restore,
                 MoveTo (I 0) top_legend_height, LineTo (g_width g) top_legend_height, ClosePath,
                 SetLineWidth (I 2), black, Stroke, Save, Translate (I 0) top_legend_height] @ c2
                @ [Restore, Save, Translate (get_data_x_start (g_data g)) height_used] @ c3 @ [Restore]
                @ frame_cmds g height_used select_start select_end
                @ [Save, Translate (I 0) (py_add height_used (I 20))] @ c4 @ [Restore],
                g\<lparr> g_data := data' \<rparr>))))))))"

section \<open>The drawing area\<close>

text \<open>
  The state of the mouse. The attributes \<open>moving_..._cur\<close> and \<open>moving_..._start\<close> do not exist before
  they are first assigned. \<open>moving_right\<close> is a truth value in all places but one, where
  \<open>motion_notify\<close> assigns the width to it, which counts as true unless it is zero.
\<close>

record area =
  ar_data :: graphic
  moving_left :: bool
  moving_right :: bool
  moving_both :: bool
  moving_top :: bool
  moving_left_cur :: "pynum option"
  moving_right_cur :: "pynum option"
  moving_both_start :: "pynum option"
  moving_both_cur :: "pynum option"
  moving_top_start :: "pynum option"
  moving_top_cur :: "pynum option"
  ar_width :: "pynum option"
  force_full_redraw :: bool


definition attr :: "'a option \<Rightarrow> 'a res" where
  "attr a = (case a of None \<Rightarrow> Inl AttributeError | Some x \<Rightarrow> Inr x)"

definition redraw_with :: "graphic \<Rightarrow> area \<Rightarrow> area" where
  "redraw_with g a = a\<lparr> ar_data := g, force_full_redraw := True \<rparr>"

definition set_smaller_zoom :: "text_extents \<Rightarrow> area \<Rightarrow> area res" where
  "set_smaller_zoom te a =
     (let (start, end) = get_range_g (ar_data a)
      in bind_res (set_range te start (py_add start (py_mul (py_sub end start) (I 2))) (ar_data a)) (\<lambda>g.
           Inr (redraw_with g a)))"

definition set_bigger_zoom :: "text_extents \<Rightarrow> area \<Rightarrow> area res" where
  "set_bigger_zoom te a =
     (let (start, end) = get_range_g (ar_data a)
      in bind_res (py_div (py_sub end start) (I 2)) (\<lambda>h.
         bind_res (set_range te start (py_add start h) (ar_data a)) (\<lambda>g. Inr (redraw_with g a))))"

definition button_press :: "pynum \<Rightarrow> pynum \<Rightarrow> area \<Rightarrow> (bool \<times> area) res" where
  "button_press ex ey a =
     bind_res (get_selection_rectangle (ar_data a)) (\<lambda>(x, y, width, height).
       let (d_x, d_y, d_width, d_height) = get_data_rectangle (ar_data a);
           in_sel = py_lt y ey \<and> py_lt ey (py_add y height)
       in Inr (
         if in_sel \<and> py_lt (py_abs (py_sub ex x)) (I 5) then (True, a\<lparr> moving_left := True \<rparr>)
         else if in_sel \<and> py_lt (py_abs (py_sub ex (py_add x width))) (I 5) then (True, a\<lparr> moving_right := True \<rparr>)
         else if in_sel \<and> py_lt x ex \<and> py_lt ex (py_add x width)
         then (True, a\<lparr> moving_both := True, moving_both_start := Some ex, moving_both_cur := Some ex \<rparr>)
         else if py_lt d_y ey \<and> py_lt ey (py_add d_y d_height) \<and> py_lt d_x ex \<and> py_lt ex (py_add d_x d_width)
         then (True, a\<lparr> moving_top := True, moving_top_start := Some ex, moving_top_cur := Some ex \<rparr>)
         else (False, a)))"

definition button_release :: "text_extents \<Rightarrow> area \<Rightarrow> (bool \<times> area) res" where
  "button_release te a =
     (if moving_left a then
        (let a1 = a\<lparr> moving_left := False \<rparr>
         in bind_res (attr (moving_left_cur a)) (\<lambda>cur.
            bind_res (scale_selection (ar_data a) cur) (\<lambda>left.
            bind_res (set_range te left (snd (get_range_g (ar_data a))) (ar_data a)) (\<lambda>g.
              Inr (True, redraw_with g a1)))))
      else if moving_right a then
        (let a1 = a\<lparr> moving_right := False \<rparr>
         in bind_res (attr (moving_right_cur a)) (\<lambda>cur.
            bind_res (scale_selection (ar_data a) cur) (\<lambda>right.
            bind_res (set_range te (fst (get_range_g (ar_data a))) right (ar_data a)) (\<lambda>g.
              Inr (True, redraw_with g a1)))))
      else if moving_both a then
        (let a1 = a\<lparr> moving_both := False \<rparr>
         in bind_res (attr (moving_both_cur a)) (\<lambda>cur.
            bind_res (attr (moving_both_start a)) (\<lambda>start.
            bind_res (scale_selection (ar_data a) (py_sub cur start)) (\<lambda>delta.
              let (left, right) = get_range_g (ar_data a)
              in bind_res (set_range te (py_add left delta) (py_add right delta) (ar_data a)) (\<lambda>g.
                   Inr (True, redraw_with g a1))))))
      else Inr (False, a\<lparr> moving_top := False \<rparr>))"

definition motion_left :: "pynum \<Rightarrow> pynum \<Rightarrow> pynum \<Rightarrow> area \<Rightarrow> area" where
  "motion_left ex x width a =
     (if py_le ex (I 0) then a\<lparr> moving_left_cur := Some (I 0) \<rparr>
      else if py_le (py_add x width) ex then a\<lparr> moving_left_cur := Some (py_add x width) \<rparr>
      else a\<lparr> moving_left_cur := Some ex \<rparr>)"

definition motion_right :: "pynum \<Rightarrow> pynum \<Rightarrow> pynum \<Rightarrow> area \<Rightarrow> area" where
  "motion_right ex x w a =
     (if py_le w ex then a\<lparr> moving_right := (val w \<noteq> 0) \<rparr>
      else if py_lt ex x then a\<lparr> moving_right_cur := Some x \<rparr>
      else a\<lparr> moving_right_cur := Some ex \<rparr>)"

definition motion_both :: "pynum \<Rightarrow> pynum \<Rightarrow> pynum \<Rightarrow> pynum \<Rightarrow> pynum \<Rightarrow> area \<Rightarrow> area" where
  "motion_both ex x width start w a =
     (let cur_e = py_sub w (py_sub (py_add x width) start); cur_s = py_sub start x
      in if py_lt ex cur_s then a\<lparr> moving_both_cur := Some cur_s \<rparr>
         else if py_lt cur_e ex then a\<lparr> moving_both_cur := Some cur_e \<rparr>
         else a\<lparr> moving_both_cur := Some ex \<rparr>)"

text \<open>The result of the handler is whether it consumed the event; the pointer shapes that it sets
  when nothing moves are left out.\<close>

definition motion_notify :: "text_extents \<Rightarrow> pynum \<Rightarrow> pynum \<Rightarrow> area \<Rightarrow> (bool \<times> area) res" where
  "motion_notify te ex ey a =
     bind_res (get_selection_rectangle (ar_data a)) (\<lambda>(x, y, width, height).
       if moving_left a then
         bind_res (attr (ar_width a)) (\<lambda>w. Inr (True, motion_left ex x width a))
       else if moving_right a then
         bind_res (attr (ar_width a)) (\<lambda>w. Inr (True, motion_right ex x w a))
       else if moving_both a then
         bind_res (attr (ar_width a)) (\<lambda>w.
         bind_res (attr (moving_both_start a)) (\<lambda>start.
           Inr (True, motion_both ex x width start w a)))
       else if moving_top a then
         bind_res (attr (moving_top_start a)) (\<lambda>start.
         bind_res (scale_data (ar_data a) (py_sub start ex)) (\<lambda>delta.
           let (left, right) = get_range_g (ar_data a)
           in bind_res (set_range te (py_add left delta) (py_add right delta) (ar_data a)) (\<lambda>g.
                Inr (True, (redraw_with g a)\<lparr> moving_top_cur := Some ex, moving_top_start := Some ex \<rparr>))))
       else
         (let (d_x, d_y, d_width, d_height) = get_data_rectangle (ar_data a);
              in_sel = py_lt y ey \<and> py_lt ey (py_add y height)
          in Inr ((in_sel \<and> (py_lt (py_abs (py_sub ex x)) (I 5)
                      \<or> py_lt (py_abs (py_sub ex (py_add x width))) (I 5)
                      \<or> py_lt x ex \<and> py_lt ex (py_add x width)))
                  \<or> (py_lt d_y ey \<and> py_lt ey (py_add d_y d_height)
                      \<and> py_lt d_x ex \<and> py_lt ex (py_add d_x d_width)), a)))"

definition size_allocate :: "text_extents \<Rightarrow> int \<Rightarrow> int \<Rightarrow> area \<Rightarrow> area res" where
  "size_allocate te width height a =
     bind_res (graphic_layout te (I width) (I height) (ar_data a)) (\<lambda>g.
       Inr ((redraw_with g a)\<lparr> ar_width := Some (I width) \<rparr>))"

text \<open>\<open>expose\<close>: a full redraw when it is forced, and the lines of the selection that moves.\<close>

definition expose :: "(rat \<Rightarrow> string) \<Rightarrow> text_extents \<Rightarrow> area \<Rightarrow> (cmd list \<times> area) res" where
  "expose fs te a =
     bind_res (if force_full_redraw a
               then bind_res (graphic_draw fs te (ar_data a)) (\<lambda>(cs, g).
                      Inr (a\<lparr> ar_data := g, force_full_redraw := False \<rparr>))
               else Inr a) (\<lambda>a1.
     bind_res (get_selection_rectangle (ar_data a1)) (\<lambda>(x, y, width, height).
     bind_res (if moving_left a1
               then bind_res (attr (moving_left_cur a1)) (\<lambda>cur.
                 Inr [MoveTo (py_max cur (I 2)) y, RelLineTo (I 0) height, ClosePath, SetLineWidth (I 1), black, Stroke])
               else Inr []) (\<lambda>c1.
     bind_res (if moving_right a1
               then bind_res (attr (moving_right_cur a1)) (\<lambda>cur. bind_res (attr (ar_width a1)) (\<lambda>w.
                 Inr [MoveTo (py_min cur (py_sub w (I 2))) y, RelLineTo (I 0) height, ClosePath, SetLineWidth (I 1), black, Stroke]))
               else Inr []) (\<lambda>c2.
     bind_res (if moving_both a1
               then bind_res (attr (moving_both_cur a1)) (\<lambda>cur. bind_res (attr (moving_both_start a1)) (\<lambda>start.
                 let delta_x = py_sub cur start
                 in Inr [MoveTo (py_add x delta_x) y, RelLineTo (I 0) height, ClosePath,
                         MoveTo (py_add (py_add x width) delta_x) y, RelLineTo (I 0) height, ClosePath,
                         black, SetLineWidth (I 1), Stroke]))
               else Inr []) (\<lambda>c3. Inr (c1 @ c2 @ c3, a1))))))"

section \<open>The program\<close>



text \<open>Text sizes for the examples below.\<close>

definition demo_extents :: text_extents where
  "demo_extents = (\<lambda>s. \<lparr> y_bearing = 0, t_width = 8, t_height = 6 \<rparr>)"

section \<open>The legend fits its height\<close>

lemma legend_item_height [simp]: "legend_item te (t\<lparr> tl_height := h \<rparr>) = legend_item te t"
  by (simp add: legend_item_def fun_eq_iff)

lemma legend_step_height [simp]: "legend_step te (t\<lparr> tl_height := h \<rparr>) = legend_step te t"
  by (simp add: legend_step_def fun_eq_iff case_prod_beta)

definition extent :: "pynum \<times> pynum \<times> pynum \<Rightarrow> rat" where
  "extent st = val (fst st) + val (fst (snd st))"

lemma legend_step_grows:
  assumes "0 \<le> val (fst st)"
  shows "0 \<le> val (fst (legend_step te t l st))" "extent st \<le> extent (legend_step te t l st)"
    "val (snd (legend_item te t l)) + val (fst (snd (legend_step te t l st))) \<le> extent (legend_step te t l st)"
  using assms by (auto simp: legend_step_def extent_def case_prod_beta Let_def)

lemma legend_fold_grows:
  "0 \<le> val (fst st) \<Longrightarrow> extent st \<le> extent (fold (legend_step te t) ls st)"
proof (induction ls arbitrary: st)
  case (Cons l ls)
  have "extent st \<le> extent (legend_step te t l st)" by (rule legend_step_grows(2) [OF Cons.prems])
  also have "\<dots> \<le> extent (fold (legend_step te t) ls (legend_step te t l st))"
    by (rule Cons.IH [OF legend_step_grows(1) [OF Cons.prems]])
  finally show ?case by simp
qed simp

lemma legend_draw_loop_fits:
  assumes "legend_draw_loop te t ls i st = Inr cs" "0 \<le> val (fst st)" "MoveTo x y \<in> set cs"
  shows "val y + val (tl_padding t) \<le> extent (fold (legend_step te t) ls st)"
  using assms
proof (induction ls arbitrary: i st cs)
  case (Cons l ls)
  let ?st = "legend_step te t l st"
  obtain rest where rest: "legend_draw_loop te t ls (i + 1) ?st = Inr rest"
    and cs: "MoveTo x y \<in> set rest \<or> y = py_add (fst (snd ?st)) (F (t_height (te l)))"
    using Cons.prems(1,3) by (auto simp: Let_def bind_res_Inr_iff case_prod_beta)
  have pos: "0 \<le> val (fst ?st)" using legend_step_grows(1) [OF Cons.prems(2)] .
  from cs show ?case
  proof
    assume "MoveTo x y \<in> set rest"
    with Cons.IH [OF rest pos] show ?thesis by simp
  next
    assume "y = py_add (fst (snd ?st)) (F (t_height (te l)))"
    then have "val y + val (tl_padding t) \<le> extent ?st"
      using legend_step_grows(3) [OF Cons.prems(2), of te t l] by (simp add: legend_item_def algebra_simps)
    also have "\<dots> \<le> extent (fold (legend_step te t) ls ?st)" by (rule legend_fold_grows [OF pos])
    finally show ?thesis by simp
  qed
qed simp

text \<open>
  The legend fits the height that its layout computed: every text of the legend is drawn at least the
  padding above the lower border, for any sizes of the texts, since \<open>draw\<close> repeats the line breaking
  of \<open>layout\<close>.
\<close>

theorem legend_text_fits:
  assumes "legend_draw te (legend_layout te width t) = Inr cs" and "MoveTo x y \<in> set cs"
  shows "val y + val (tl_padding t) \<le> val (tl_height (legend_layout te width t))"
proof -
  let ?t = "t\<lparr> tl_width := width \<rparr>"
  let ?st = "(I 0, tl_padding t, tl_padding t)"
  obtain h where l: "legend_layout te width t = ?t\<lparr> tl_height := h \<rparr>"
    and h: "val h = extent (fold (legend_step te ?t) (tl_legends t) ?st)"
    by (simp add: legend_layout_def Let_def case_prod_beta extent_def)
  have loop: "legend_draw_loop te (?t\<lparr> tl_height := h \<rparr>) (tl_legends t) 0 ?st = Inr cs"
    using assms(1) by (simp add: l legend_draw_def)
  show ?thesis
    using legend_draw_loop_fits [OF loop _ assms(2)] unfolding l by (simp add: h)
qed

theorem legend_text_fits_witness:
  "\<exists>cs. legend_draw demo_extents (legend_layout demo_extents (I 100)
       (set_legends [''idle''] [Color (I 1) (I 0) (I 0)] TopLegendRenderer)) = Inr cs
     \<and> MoveTo (F 30) (F 16) \<in> set cs
     \<and> 16 + 10 \<le> val (tl_height (legend_layout demo_extents (I 100)
       (set_legends [''idle''] [Color (I 1) (I 0) (I 0)] TopLegendRenderer)))"
proof -
  let ?t = "set_legends [''idle''] [Color (I 1) (I 0) (I 0)] TopLegendRenderer"
  obtain cs where cs: "legend_draw demo_extents (legend_layout demo_extents (I 100) ?t) = Inr cs"
    "MoveTo (F 30) (F 16) \<in> set cs"
    by (simp add: legend_draw_def legend_layout_def set_legends_def TopLegendRenderer_def legend_step_def
        legend_item_def demo_extents_def Let_def py_index_def)
  from legend_text_fits [OF this] this show ?thesis by (simp add: set_legends_def TopLegendRenderer_def)
qed

section \<open>Scales\<close>

lemma closest_power_cases:
  assumes "0 < c"
  shows "closest_power d c = c \<and> d \<le> of_int (c * 10) \<or> 10 * c \<le> closest_power d c"
  using assms
proof (induction d c rule: closest_power.induct)
  case (1 d c)
  show ?case
  proof (cases "of_int (c * 10) < d")
    case True
    then have "closest_power d c = closest_power d (c * 10)" using 1(2) by (subst closest_power.simps) simp
    then show ?thesis using 1(1) [OF conjI [OF 1(2) True]] 1(2) by auto
  next
    case False
    then have "closest_power d c = c" by (subst closest_power.simps) simp
    then show ?thesis using False by auto
  qed
qed

lemma closest_one: "closest_power 1 1 = 1"
  by (subst closest_power.simps) simp

lemma scale_delta_zero:
  "\<exists>d. scale_delta s = Inr (I d) \<and> 0 \<le> d \<and> (d = 0 \<longleftrightarrow> val (sc_hi s) - val (sc_lo s) = 1)"
proof -
  let ?dd = "py_sub (sc_hi s) (sc_lo s)" and ?c = "closest_power (val (sc_hi s) - val (sc_lo s)) 1"
  have c: "?c = 1 \<or> 10 \<le> ?c" using closest_power_cases [of 1 "val (sc_hi s) - val (sc_lo s)"] by auto
  then have pos: "0 < ?c" by auto
  then obtain q where q: "py_div ?dd (I ?c) = Inr q" using py_div_total [of "I ?c" ?dd] by auto
  have big: "?c = 1" if "val (sc_hi s) - val (sc_lo s) = 1" using that closest_one by simp
  have one: "val q = 1 \<longleftrightarrow> val (sc_hi s) - val (sc_lo s) = 1" if "?c = 1"
    using q that by (cases "sc_hi s"; cases "sc_lo s") (auto split: if_splits)
  have "val q = 1 \<Longrightarrow> ?c = 1 \<Longrightarrow> ?c div 10 = 0" by simp
  show ?thesis
  proof (cases "val q = 1")
    case True
    then have "scale_delta s = Inr (I (?c div 10))" by (simp add: scale_delta_def Let_def q)
    moreover have "?c div 10 = 0 \<longleftrightarrow> val (sc_hi s) - val (sc_lo s) = 1"
      using c one True big by auto
    ultimately show ?thesis using pos by auto
  next
    case False
    then have "scale_delta s = Inr (I ?c)" by (simp add: scale_delta_def Let_def q)
    moreover have "val (sc_hi s) - val (sc_lo s) \<noteq> 1" using False one big by blast
    ultimately show ?thesis using pos by auto
  qed
qed

lemma py_mod_zero_iff: "(\<exists>m. py_mod x (I d) = Inr m) \<longleftrightarrow> d \<noteq> 0"
  by (cases x) auto

text \<open>
  The layout of a scale raises exactly when the scale is one unit wide: then the distance of the ticks
  is the integer quotient \<open>1 / 10\<close>, which is zero, and the remainder modulo zero raises
  ZeroDivisionError. For every other width, empty and negative ones included, it returns.
\<close>

theorem scale_layout_total:
  "(\<exists>s'. scale_layout te width s = Inr s') \<longleftrightarrow> val (sc_hi s) - val (sc_lo s) \<noteq> 1"
proof -
  obtain d where d: "scale_delta s = Inr (I d)" "d = 0 \<longleftrightarrow> val (sc_hi s) - val (sc_lo s) = 1"
    using scale_delta_zero by blast
  show ?thesis
  proof (cases "d = 0")
    case True
    then have "scale_start s (I d) = Inl ZeroDivisionError"
      by (cases "sc_lo s") (simp_all add: scale_start_def)
    then show ?thesis using d True by (simp add: scale_layout_def)
  next
    case False
    then obtain m n where "py_mod (sc_lo s) (I d) = Inr m" "py_mod (sc_hi s) (I d) = Inr n"
      using py_mod_zero_iff by metis
    then show ?thesis using d False by (simp add: scale_layout_def scale_start_def scale_end_def)
  qed
qed

lemma int_range_multiples:
  assumes "0 < (c::int)"
  shows "set (int_range (c * m) (c * n) c) = {x. c dvd x \<and> c * m \<le> x \<and> x < c * n}"
proof -
  have "(c * n - c * m + c - 1) div c = n - m"
  proof -
    have "(c * (n - m) + (c - 1)) div c = n - m + (c - 1) div c" using assms by simp
    moreover have "(c - 1) div c = 0" using assms by (intro div_pos_pos_trivial) auto
    ultimately show ?thesis by (simp add: algebra_simps)
  qed
  then have "set (int_range (c * m) (c * n) c) = (\<lambda>k. c * m + c * int k) ` {0..<nat (n - m)}"
    by (simp add: int_range_def)
  also have "\<dots> = {x. c dvd x \<and> c * m \<le> x \<and> x < c * n}"
  proof (intro set_eqI iffI)
    fix x assume "x \<in> {x. c dvd x \<and> c * m \<le> x \<and> x < c * n}"
    then obtain k where "x = c * k" "c * m \<le> c * k" "c * k < c * n" by auto
    then have "x = c * k" "m \<le> k" "k < n" using assms by simp_all
    then show "x \<in> (\<lambda>k. c * m + c * int k) ` {0..<nat (n - m)}"
      by (intro image_eqI [of _ _ "nat (k - m)"]) (auto simp: algebra_simps)
  next
    fix x assume "x \<in> (\<lambda>k. c * m + c * int k) ` {0..<nat (n - m)}"
    then obtain k where "x = c * m + c * int k" "k \<in> {0..<nat (n - m)}" by blast
    then have "x = c * (m + int k)" "m + int k < n" by (simp_all add: distrib_left)
    then show "x \<in> {x. c dvd x \<and> c * m \<le> x \<and> x < c * n}" using assms by auto
  qed
  finally show ?thesis .
qed

lemma multiple_bounds:
  assumes "0 < (d::int)"
  shows "lo div d + 1 \<le> k \<longleftrightarrow> lo < d * k" "k \<le> lo div d \<longleftrightarrow> d * k \<le> lo"
proof -
  have lo: "lo = d * (lo div d) + lo mod d" "0 \<le> lo mod d" "lo mod d < d" using assms by simp_all
  have le: "d * k \<le> lo" if "k \<le> lo div d"
    using mult_left_mono [OF that, of d] assms lo by linarith
  have less: "lo < d * k" if "lo div d + 1 \<le> k"
    using mult_left_mono [OF that, of d] assms lo unfolding distrib_left by linarith
  show "lo div d + 1 \<le> k \<longleftrightarrow> lo < d * k" "k \<le> lo div d \<longleftrightarrow> d * k \<le> lo"
    using le less by (meson linorder_not_le not_less zle_add1_eq_le zless_add1_eq add1_zle_eq)+
qed

text \<open>
  On a scale with integer bounds the ticks are exactly the multiples of the tick distance above the lower
  and up to the upper bound.
\<close>

theorem scale_ticks_exact:
  assumes "sc_lo s = I lo" and "sc_hi s = I hi" and "0 < d"
  shows "\<exists>xs. scale_ticks s (I d) = Inr xs \<and> set xs = {x. d dvd x \<and> lo < x \<and> x \<le> hi}"
proof -
  have a: "lo - lo mod d + d = d * (lo div d + 1)" and b: "hi - hi mod d + d = d * (hi div d + 1)"
    by (simp_all add: minus_mod_eq_mult_div algebra_simps)
  have "scale_ticks s (I d) = Inr (int_range (d * (lo div d + 1)) (d * (hi div d + 1)) d)"
    using assms a b by (simp add: scale_ticks_def scale_start_def scale_end_def int_of_def)
  moreover have "d * (lo div d + 1) \<le> d * k \<longleftrightarrow> lo < d * k" for k
    using multiple_bounds(1) [OF assms(3)] assms(3) by simp
  moreover have "d * k < d * (hi div d + 1) \<longleftrightarrow> d * k \<le> hi" for k
    using multiple_bounds(2) [OF assms(3)] assms(3) by auto
  ultimately show ?thesis using int_range_multiples [OF assms(3)] by auto
qed

theorem scale_ticks_exact_witness:
  "\<exists>xs. scale_ticks (set_bounds (I 3) (I 25) ScaleRenderer) (I 10) = Inr xs \<and> 10 \<in> set xs \<and> 20 \<in> set xs
     \<and> 30 \<notin> set xs"
  using scale_ticks_exact [of "set_bounds (I 3) (I 25) ScaleRenderer" 3 25 10]
  by (auto simp: set_bounds_def ScaleRenderer_def)

section \<open>The selected range stays within the data\<close>

definition range_within :: "graphic \<Rightarrow> bool" where
  "range_within g \<longleftrightarrow> val (g_start g) \<le> val (g_r_start g) \<and> val (g_r_end g) \<le> val (g_end g)"

definition same_bounds :: "graphic \<Rightarrow> graphic \<Rightarrow> bool" where
  "same_bounds g g' \<longleftrightarrow> g_start g' = g_start g \<and> g_end g' = g_end g"




text \<open>The events of the drawing area, one rule per handler. A handler that raises leaves no
  successor.\<close>

inductive area_step :: "(rat \<Rightarrow> string) \<Rightarrow> text_extents \<Rightarrow> area \<Rightarrow> area \<Rightarrow> bool"
  for fs :: "rat \<Rightarrow> string" and te :: text_extents where
  press: "button_press ex ey a = Inr (b, a') \<Longrightarrow> area_step fs te a a'"
| release: "button_release te a = Inr (b, a') \<Longrightarrow> area_step fs te a a'"
| motion: "motion_notify te ex ey a = Inr (b, a') \<Longrightarrow> area_step fs te a a'"
| zoom_out: "set_smaller_zoom te a = Inr a' \<Longrightarrow> area_step fs te a a'"
| zoom_in: "set_bigger_zoom te a = Inr a' \<Longrightarrow> area_step fs te a a'"
| resize: "size_allocate te w h a = Inr a' \<Longrightarrow> area_step fs te a a'"
| paint: "expose fs te a = Inr (cs, a') \<Longrightarrow> area_step fs te a a'"

definition keeps_range :: "graphic \<Rightarrow> graphic \<Rightarrow> bool" where
  "keeps_range g g' \<longleftrightarrow> same_bounds g g' \<and> (range_within g \<longrightarrow> range_within g')"

lemma keeps_range_refl [simp]: "keeps_range g g"
  by (simp add: keeps_range_def same_bounds_def)






lemma motion_data [simp]:
  "ar_data (motion_left ex x width a) = ar_data a" "ar_data (motion_right ex x w a) = ar_data a"
  "ar_data (motion_both ex x width start w a) = ar_data a"
  by (simp_all add: motion_left_def motion_right_def motion_both_def Let_def)









text \<open>A press on a handle that is released without a motion event in between raises.\<close>

lemma release_needs_motion:
  assumes "moving_left a" "moving_left_cur a = None"
  shows "button_release te a = Inl AttributeError"
  using assms by (simp add: button_release_def attr_def)

lemma motion_right_past_border:
  assumes "val w \<le> val ex"
  shows "moving_right_cur (motion_right ex x w a) = moving_right_cur a"
  using assms by (simp add: motion_right_def)

end
