(* ===== verification/PyOs.thy ===== *)
theory PyOs
  imports PyBase
begin

text \<open>
  What the sources use of \<open>os.path\<close> (on POSIX systems) and of \<open>shlex\<close>: joining, splitting and normalising
  paths, and splitting a command line into words by the rules of a POSIX shell. The lemmas describe
  normalised paths by their components and show that splitting gives back words that were quoted.
\<close>

section \<open>Paths\<close>

definition path_join :: "string \<Rightarrow> string \<Rightarrow> string" where
  "path_join a b =
     (if startswith b ''/'' then b
      else if a = [] \<or> last a = CHR ''/'' then a @ b
      else a @ ''/'' @ b)"

text \<open>\<open>os.path.join\<close> of a non-empty list of components.\<close>

definition path_join_list :: "string list \<Rightarrow> string" where
  "path_join_list ps = foldl path_join (hd ps) (tl ps)"

text \<open>\<open>os.path.split\<close> and \<open>os.path.basename\<close>.\<close>

definition path_basename :: "string \<Rightarrow> string" where
  "path_basename p = rev (takeWhile (\<lambda>c. c \<noteq> CHR ''/'') (rev p))"

definition path_head :: "string \<Rightarrow> string" where
  "path_head p =
     (let h = rev (dropWhile (\<lambda>c. c \<noteq> CHR ''/'') (rev p))
      in if list_all (\<lambda>c. c = CHR ''/'') h then h
         else rev (dropWhile (\<lambda>c. c = CHR ''/'') (rev h)))"

text \<open>
  \<open>os.path.normpath\<close>: the loop over the components with the list of those kept so far. Two leading
  slashes are kept, as POSIX allows them a meaning of their own.
\<close>

definition norm_step :: "bool \<Rightarrow> string list \<Rightarrow> string \<Rightarrow> string list" where
  "norm_step absolute new_comps c =
     (if c = [] \<or> c = ''.'' then new_comps
      else if c \<noteq> ''..'' \<or> (\<not> absolute \<and> new_comps = []) \<or> (new_comps \<noteq> [] \<and> last new_comps = ''..'')
      then new_comps @ [c]
      else butlast new_comps)"

definition norm_comps :: "bool \<Rightarrow> string list \<Rightarrow> string list" where
  "norm_comps absolute comps = foldl (norm_step absolute) [] comps"

definition initial_slashes :: "string \<Rightarrow> string" where
  "initial_slashes p =
     (if startswith p ''//'' \<and> \<not> startswith p ''///'' then ''//''
      else if startswith p ''/'' then ''/'' else [])"

definition normpath :: "string \<Rightarrow> string" where
  "normpath p =
     (if p = [] then ''.''
      else let lead = initial_slashes p;
               q = lead @ str_join ''/'' (norm_comps (lead \<noteq> []) (split_char (CHR ''/'') p))
           in if q = [] then ''.'' else q)"

text \<open>\<open>os.path.abspath\<close> in a process whose current directory is \<open>cwd\<close>.\<close>

definition abspath :: "string \<Rightarrow> string \<Rightarrow> string" where
  "abspath cwd p = normpath (if startswith p ''/'' then p else path_join cwd p)"

lemma path_join_inj:
  assumes "\<not> prefix ''/'' a" "\<not> prefix ''/'' b" "path_join d a = path_join d b"
  shows "a = b"
  using assms by (auto simp: path_join_def split: if_splits)

text \<open>The components of a path that matter to \<open>normpath\<close>, and the components that it leaves in place.\<close>

definition comps :: "string \<Rightarrow> string list" where
  "comps p = filter (\<lambda>c. c \<noteq> []) (split_char (CHR ''/'') p)"

definition proper :: "string \<Rightarrow> bool" where
  "proper c \<longleftrightarrow> c \<noteq> [] \<and> c \<noteq> ''.'' \<and> c \<noteq> ''..'' \<and> CHR ''/'' \<notin> set c"

lemma str_join_simps [simp]:
  "str_join sep [] = []" "str_join sep [x] = x"
  "str_join sep (x # y # ys) = x @ sep @ str_join sep (y # ys)"
  by (simp_all add: str_join_def)

lemma split_char_join:
  "cs \<noteq> [] \<Longrightarrow> list_all (\<lambda>c. sep \<notin> set c) cs \<Longrightarrow> split_char sep (str_join [sep] cs) = cs"
  by (induction cs rule: induct_list012) (simp_all add: split_char_plain split_char_append)

lemma split_char_at: "split_char sep (a @ sep # b) = split_char sep a @ split_char sep b"
  by (induction a) (auto split: list.split)

lemma split_char_glue:
  "a = [] \<or> last a = sep \<Longrightarrow> split_char sep (a @ b) = butlast (split_char sep a) @ split_char sep b"
proof (induction a rule: rev_induct)
  case (snoc x a)
  then show ?case using split_char_at [of sep a b] split_char_at [of sep a "[]"] by simp
qed simp

lemma comps_slash: "comps (a @ ''/'' @ b) = comps a @ comps b"
  by (simp add: comps_def split_char_at)

lemma comps_join:
  assumes "\<not> startswith b ''/''"
  shows "comps (path_join a b) = comps a @ comps b"
proof -
  have "comps (a @ b) = comps a @ comps b" if "a = [] \<or> last a = CHR ''/''"
  proof (cases a rule: rev_cases)
    case (snoc a' x)
    then show ?thesis using that comps_slash [of a' b] comps_slash [of a' "[]"] by (simp add: comps_def)
  qed (simp add: comps_def)
  then show ?thesis using assms comps_slash by (simp add: path_join_def)
qed

lemma path_join_relative:
  "\<not> startswith a ''/'' \<Longrightarrow> \<not> startswith b ''/'' \<Longrightarrow> \<not> startswith (path_join a b) ''/''"
  by (cases a) (auto simp: path_join_def)

lemma comps_join_list:
  assumes "ps \<noteq> []" and "list_all (\<lambda>p. CHR ''/'' \<notin> set p) ps"
  shows "comps (path_join_list ps) = filter (\<lambda>c. c \<noteq> []) ps \<and> \<not> startswith (path_join_list ps) ''/''"
  using assms
proof (induction ps rule: rev_nonempty_induct)
  case (single p)
  then show ?case by (cases p) (auto simp: path_join_list_def comps_def split_char_plain)
next
  case (snoc p ps)
  have "\<not> startswith p ''/''" using snoc.prems by (cases p) auto
  moreover have "path_join_list (ps @ [p]) = path_join (path_join_list ps) p"
    using snoc.hyps by (simp add: path_join_list_def)
  moreover have "comps p = filter (\<lambda>c. c \<noteq> []) [p]"
    using snoc.prems by (simp add: comps_def split_char_plain)
  ultimately show ?case using snoc by (simp add: comps_join path_join_relative)
qed

lemma norm_comps_skip: "norm_comps a (filter (\<lambda>c. c \<noteq> []) cs) = norm_comps a cs"
proof -
  have "foldl (norm_step a) acc (filter (\<lambda>c. c \<noteq> []) cs) = foldl (norm_step a) acc cs" for acc
    by (induction cs arbitrary: acc) (simp_all add: norm_step_def)
  then show ?thesis by (simp add: norm_comps_def)
qed

lemma norm_comps_proper: "list_all proper (norm_comps True (split_char (CHR ''/'') p))"
proof -
  have "list_all proper (foldl (norm_step True) acc cs)"
    if "list_all proper acc" "list_all (\<lambda>c. CHR ''/'' \<notin> set c) cs" for acc cs
    using that
  proof (induction cs arbitrary: acc)
    case (Cons c cs)
    have "list_all proper (norm_step True acc c)"
      using Cons.prems by (auto simp: norm_step_def proper_def list_all_iff dest: in_set_butlastD)
    with Cons show ?case by simp
  qed simp
  from this [of "[]" "split_char (CHR ''/'') p"] show ?thesis
    using split_char_no_sep [of _ "CHR ''/''" p] by (simp add: norm_comps_def list_all_iff)
qed

lemma norm_comps_push: "list_all proper cs \<Longrightarrow> foldl (norm_step True) acc cs = acc @ cs"
  by (induction cs arbitrary: acc) (simp_all add: norm_step_def proper_def)

lemma norm_comps_pop:
  "list_all proper acc \<Longrightarrow> foldl (norm_step True) acc (replicate n ''..'') = take (length acc - n) acc"
proof (induction n arbitrary: acc)
  case (Suc n)
  have "norm_step True acc ''..'' = butlast acc"
    using Suc.prems by (cases acc rule: rev_cases) (auto simp: norm_step_def proper_def)
  moreover have "list_all proper (butlast acc)"
    using Suc.prems by (auto simp: list_all_iff dest: in_set_butlastD)
  ultimately show ?case using Suc.IH [of "butlast acc"] by (simp add: butlast_conv_take min_def)
qed simp

lemma normpath_rooted:
  assumes "startswith p ''/''" and "\<not> startswith (normpath p) ''//''"
  shows "normpath p = ''/'' @ str_join ''/'' (norm_comps True (comps p))"
proof -
  have "initial_slashes p = ''/''"
  proof (rule ccontr)
    assume "initial_slashes p \<noteq> ''/''"
    then have "initial_slashes p = ''//''" using assms(1) by (auto simp: initial_slashes_def split: if_splits)
    moreover have "p \<noteq> []" using assms(1) by auto
    ultimately have "normpath p = ''//'' @ str_join ''/'' (norm_comps True (split_char (CHR ''/'') p))"
      by (simp add: normpath_def)
    then show False using assms(2) by simp
  qed
  then show ?thesis using assms(1)
    by (auto simp: normpath_def Let_def comps_def norm_comps_skip)
qed

section \<open>Heads and base names\<close>

lemma path_split_last:
  assumes "CHR ''/'' \<notin> set c"
  shows "path_basename (x @ CHR ''/'' # c) = c"
    and "x \<noteq> [] \<Longrightarrow> last x \<noteq> CHR ''/'' \<Longrightarrow> path_head (x @ CHR ''/'' # c) = x"
proof -
  have c: "takeWhile (\<lambda>y. y \<noteq> CHR ''/'') (rev c @ CHR ''/'' # rev x) = rev c"
    "dropWhile (\<lambda>y. y \<noteq> CHR ''/'') (rev c @ CHR ''/'' # rev x) = CHR ''/'' # rev x"
    using assms by (auto simp: takeWhile_tail dropWhile_append)
  show "path_basename (x @ CHR ''/'' # c) = c" by (simp add: path_basename_def c)
  assume x: "x \<noteq> []" "last x \<noteq> CHR ''/''"
  then have "dropWhile (\<lambda>y. y = CHR ''/'') (rev x) = rev x" by (simp add: dropWhile_eq_self_iff hd_rev)
  moreover have "\<not> list_all (\<lambda>y. y = CHR ''/'') x" using x last_in_set [of x] unfolding list_all_iff by blast
  moreover note c
  ultimately show "path_head (x @ CHR ''/'' # c) = x" by (simp add: path_head_def Let_def)
qed

text \<open>A path is its head, a slash and the base name, unless nothing but slashes stands before the base name.\<close>

lemma path_head_cases:
  "(\<exists>n. path_head p = replicate n (CHR ''/'') \<and> p = path_head p @ path_basename p)
   \<or> (\<exists>k. p = path_head p @ replicate (Suc k) (CHR ''/'') @ path_basename p)"
proof -
  let ?h = "rev (dropWhile (\<lambda>c. c \<noteq> CHR ''/'') (rev p))"
  have p: "p = ?h @ path_basename p"
    unfolding path_basename_def by (metis rev_append rev_rev_ident takeWhile_dropWhile_id)
  show ?thesis
  proof (cases "list_all (\<lambda>c. c = CHR ''/'') ?h")
    case True
    then have "?h = replicate (length ?h) (CHR ''/'')" unfolding list_all_iff by (rule replicate_length_same [symmetric])
    moreover have h: "path_head p = ?h" using True by (simp add: path_head_def Let_def)
    moreover have "p = path_head p @ path_basename p" unfolding h by (rule p)
    ultimately show ?thesis by (intro disjI1 exI conjI) (rule trans)
  next
    case False
    let ?q = "rev (dropWhile (\<lambda>c. c = CHR ''/'') (rev ?h))" and ?s = "rev (takeWhile (\<lambda>c. c = CHR ''/'') (rev ?h))"
    have h: "?h = ?q @ ?s" by (metis rev_append rev_rev_ident takeWhile_dropWhile_id)
    have "\<forall>c \<in> set ?s. c = CHR ''/''" by (auto dest: set_takeWhileD)
    then have s: "?s = replicate (length ?s) (CHR ''/'')" by (rule replicate_length_same [symmetric])
    have "dropWhile (\<lambda>c. c \<noteq> CHR ''/'') (rev p) \<noteq> []"
    proof
      assume e: "dropWhile (\<lambda>c. c \<noteq> CHR ''/'') (rev p) = []"
      show False using False unfolding e by simp
    qed
    then have "hd (rev ?h) = CHR ''/''" using hd_dropWhile [of "\<lambda>c. c \<noteq> CHR ''/''" "rev p"] by simp
    then have "?s \<noteq> []" using \<open>dropWhile (\<lambda>c. c \<noteq> CHR ''/'') (rev p) \<noteq> []\<close>
      by (cases "rev ?h") auto
    then obtain k where "length ?s = Suc k" by (cases "length ?s") auto
    with s have s: "?s = replicate (Suc k) (CHR ''/'')" by simp
    have "path_head p = ?q" using False by (simp add: path_head_def Let_def)
    moreover have "(?q @ ?s) @ path_basename p = ?q @ replicate (Suc k) (CHR ''/'') @ path_basename p" unfolding s by simp
    then have "p = ?q @ replicate (Suc k) (CHR ''/'') @ path_basename p"
      by (rule trans [OF trans [OF p arg_cong [OF h, of "\<lambda>z. z @ path_basename p"]]])
    ultimately show ?thesis by metis
  qed
qed

lemma base_in_components: "path_basename p \<in> set (split_char (CHR ''/'') p)"
proof -
  let ?h = "rev (dropWhile (\<lambda>c. c \<noteq> CHR ''/'') (rev p))"
  have p: "p = ?h @ path_basename p"
    unfolding path_basename_def by (metis rev_append rev_rev_ident takeWhile_dropWhile_id)
  have b: "CHR ''/'' \<notin> set (path_basename p)" by (auto simp: path_basename_def dest: set_takeWhileD)
  show ?thesis
  proof (cases "?h = []")
    case True
    with p b show ?thesis by (metis append_Nil list.set_intros(1) split_char_plain)
  next
    case False
    then have "last ?h = CHR ''/''" using hd_dropWhile [of "\<lambda>c. c \<noteq> CHR ''/''" "rev p"] by (simp add: last_rev)
    then have "p = butlast ?h @ CHR ''/'' # path_basename p" using p False
      by (metis append.assoc append_Cons append_Nil append_butlast_last_id)
    then show ?thesis using b split_char_plain split_char_at
      by (metis Un_iff list.set_intros(1) set_append)
  qed
qed

lemma path_head_prefix: "prefix (path_head p) p"
proof -
  have "suffix (dropWhile Q (dropWhile P (rev p))) (rev p)" "suffix (dropWhile P (rev p)) (rev p)" for P Q
    using suffix_order.trans [OF suffix_dropWhile suffix_dropWhile] suffix_dropWhile by blast+
  then show ?thesis by (simp add: path_head_def Let_def suffix_to_prefix)
qed

lemma path_head_components:
  assumes "startswith p ''/''"
  shows "startswith (path_head p) ''/''" "x \<noteq> [] \<Longrightarrow> x \<in> set (split_char (CHR ''/'') (path_head p)) \<Longrightarrow> x \<in> set (split_char (CHR ''/'') p)"
proof -
  have b: "CHR ''/'' \<notin> set (path_basename p)" by (auto simp: path_basename_def dest: set_takeWhileD)
  obtain q where q: "p = CHR ''/'' # q" using assms by (auto simp: prefix_def)
  have rep: "set (split_char (CHR ''/'') (replicate n (CHR ''/''))) = {[]}" for n by (induction n) simp_all
  from path_head_cases [of p]
  have "startswith (path_head p) ''/'' \<and> (x \<noteq> [] \<longrightarrow> x \<in> set (split_char (CHR ''/'') (path_head p)) \<longrightarrow> x \<in> set (split_char (CHR ''/'') p))"
  proof (elim disjE exE conjE)
    fix n assume n: "path_head p = replicate n (CHR ''/'')" "p = path_head p @ path_basename p"
    then have "n \<noteq> 0" using q b by (metis append_Nil list.set_intros(1) replicate_0)
    then show ?thesis using rep n(1) by (cases n) auto
  next
    fix k assume p: "p = path_head p @ replicate (Suc k) (CHR ''/'') @ path_basename p"
    have "path_head p \<noteq> []"
    proof
      assume e: "path_head p = []"
      let ?h = "rev (dropWhile (\<lambda>c. c \<noteq> CHR ''/'') (rev p))"
      show False
      proof (cases "list_all (\<lambda>c. c = CHR ''/'') ?h")
        case True
        then have "?h = []" using e by (simp only: path_head_def Let_def if_True)
        then show False using q by (simp add: dropWhile_eq_Nil_conv)
      next
        case False
        then have "rev (dropWhile (\<lambda>c. c = CHR ''/'') (rev ?h)) = []" using e by (simp only: path_head_def Let_def if_False)
        then have "\<forall>c \<in> set ?h. c = CHR ''/''" by (simp only: rev_is_Nil_conv dropWhile_eq_Nil_conv set_rev)
        with False show False unfolding list_all_iff by blast
      qed
    qed
    then have "startswith (path_head p) ''/''" using path_head_prefix [of p] unfolding q prefix_Cons by (elim disjE exE conjE) (simp_all add: prefix_def)
    moreover have "split_char (CHR ''/'') p = split_char (CHR ''/'') (path_head p)
        @ split_char (CHR ''/'') (replicate k (CHR ''/'') @ path_basename p)"
      by (rule trans [OF arg_cong [OF p, of "split_char (CHR ''/'')"]])
        (simp only: replicate_Suc append_Cons split_char_at)
    then have "set (split_char (CHR ''/'') (path_head p)) \<subseteq> set (split_char (CHR ''/'') p)"
      by (rule ssubst) simp
    ultimately show ?thesis by blast
  qed
  then show "startswith (path_head p) ''/''" "x \<noteq> [] \<Longrightarrow> x \<in> set (split_char (CHR ''/'') (path_head p)) \<Longrightarrow> x \<in> set (split_char (CHR ''/'') p)"
    by blast+
qed


section \<open>Words of a command line\<close>

definition sh_white :: "char \<Rightarrow> bool" where
  "sh_white c \<longleftrightarrow> c \<in> {CHR '' '', CHR 0x09, CHR 0x0D, CHR 0x0A}"

definition sh_quote :: "char \<Rightarrow> bool" where
  "sh_quote c \<longleftrightarrow> c = CHR 0x27 \<or> c = CHR 0x22"

definition backslash :: char where
  "backslash = CHR 0x5C"

text \<open>
  The states of the reader: between words, inside a word, inside quotes, and after a backslash with the
  state to go back to.
\<close>

datatype sh_state = SWhite | SWord | SQuote char | SEsc "char option"

definition sh_back :: "char option \<Rightarrow> sh_state" where
  "sh_back k = (case k of None \<Rightarrow> SWord | Some q \<Rightarrow> SQuote q)"

text \<open>The token read so far, and whether a part of it was quoted, so that an empty token counts.\<close>

definition sh_emit :: "string \<Rightarrow> bool \<Rightarrow> string list" where
  "sh_emit token quoted = (if token = [] \<and> \<not> quoted then [] else [token])"

fun shlex_read :: "sh_state \<Rightarrow> string \<Rightarrow> bool \<Rightarrow> string \<Rightarrow> string list res" where
  "shlex_read SWhite token quoted [] = Inr (sh_emit token quoted)"
| "shlex_read SWhite token quoted (c # cs) =
     (if sh_white c then
        (if token \<noteq> [] \<or> quoted
         then bind_res (shlex_read SWhite [] False cs) (\<lambda>ts. Inr (token # ts))
         else shlex_read SWhite token quoted cs)
      else if c = backslash then shlex_read (SEsc None) token quoted cs
      else if sh_quote c then shlex_read (SQuote c) token quoted cs
      else shlex_read SWord [c] quoted cs)"
| "shlex_read (SQuote k) token quoted [] = Inl ValueError"
| "shlex_read (SQuote k) token quoted (c # cs) =
     (if c = k then shlex_read SWord token True cs
      else if c = backslash \<and> k = CHR 0x22 then shlex_read (SEsc (Some k)) token True cs
      else shlex_read (SQuote k) (token @ [c]) True cs)"
| "shlex_read (SEsc k) token quoted [] = Inl ValueError"
| "shlex_read (SEsc k) token quoted (c # cs) =
     shlex_read (sh_back k)
       (if k \<noteq> None \<and> c \<noteq> backslash \<and> Some c \<noteq> k then token @ [backslash, c] else token @ [c]) quoted cs"
| "shlex_read SWord token quoted [] = Inr (sh_emit token quoted)"
| "shlex_read SWord token quoted (c # cs) =
     (if sh_white c then
        (if token \<noteq> [] \<or> quoted
         then bind_res (shlex_read SWhite [] False cs) (\<lambda>ts. Inr (token # ts))
         else shlex_read SWhite token quoted cs)
      else if sh_quote c then shlex_read (SQuote c) token quoted cs
      else if c = backslash then shlex_read (SEsc None) token quoted cs
      else shlex_read SWord (token @ [c]) quoted cs)"

definition shlex_split :: "string \<Rightarrow> string list res" where
  "shlex_split s = shlex_read SWhite [] False s"

lemma shlex_read_error: "shlex_read st token q cs = Inl e \<Longrightarrow> e = ValueError"
  by (induction st token q cs rule: shlex_read.induct)
    (auto simp: bind_res_Inl_iff sh_back_def split: if_splits option.splits)

text \<open>A word in single quotes.\<close>

definition sh_single :: "string \<Rightarrow> string" where
  "sh_single w = [CHR 0x27] @ w @ [CHR 0x27]"

lemma space_append: "(@) '' '' = (#) (CHR '' '')"
  by (simp add: fun_eq_iff)

lemma shlex_read_quoted:
  "CHR 0x27 \<notin> set w \<Longrightarrow>
   shlex_read (SQuote (CHR 0x27)) token q (w @ [CHR 0x27] @ rest) = shlex_read SWord (token @ w) True rest"
  by (induction w arbitrary: token q) (auto simp: backslash_def)

lemma shlex_split_quoted_more:
  assumes "CHR 0x27 \<notin> set w"
  shows "shlex_read SWhite [] False (sh_single w @ rest) = shlex_read SWord w True rest"
  using shlex_read_quoted [OF assms, of "[]" False rest]
  by (simp add: sh_single_def sh_white_def sh_quote_def backslash_def)

theorem shlex_split_quoted:
  assumes "list_all (\<lambda>w. CHR 0x27 \<notin> set w) ws"
  shows "shlex_split (str_join '' '' (map sh_single ws)) = Inr ws"
proof -
  have "shlex_read SWhite [] False (sh_single w @ concat (map (\<lambda>s. '' '' @ s) (map sh_single us))) = Inr (w # us)"
    if "CHR 0x27 \<notin> set w" "list_all (\<lambda>w. CHR 0x27 \<notin> set w) us" for w us
    using that
  proof (induction us arbitrary: w)
    case Nil
    then show ?case by (simp add: shlex_split_quoted_more [of w "[]", simplified] sh_emit_def)
  next
    case (Cons v vs)
    then show ?case by (simp add: shlex_split_quoted_more sh_white_def)
  qed
  with assms show ?thesis
    by (cases ws) (simp_all add: shlex_split_def str_join_def sh_emit_def space_append)
qed

text \<open>A word that needs no quotes.\<close>

definition sh_plain :: "string \<Rightarrow> bool" where
  "sh_plain w \<longleftrightarrow> w \<noteq> [] \<and> list_all (\<lambda>c. \<not> sh_white c \<and> \<not> sh_quote c \<and> c \<noteq> backslash) w"

lemma shlex_read_word:
  "list_all (\<lambda>c. \<not> sh_white c \<and> \<not> sh_quote c \<and> c \<noteq> backslash) w \<Longrightarrow>
   shlex_read SWord token q (w @ rest) = shlex_read SWord (token @ w) q rest"
  by (induction w arbitrary: token) auto

lemma shlex_read_plain:
  assumes "sh_plain w"
  shows "shlex_read SWhite [] False (w @ rest) = shlex_read SWord w False rest"
proof (cases w)
  case (Cons c cs)
  then show ?thesis using assms shlex_read_word [of cs "[c]" False rest] by (simp add: sh_plain_def)
qed (use assms in \<open>simp add: sh_plain_def\<close>)

lemma shlex_split_plain:
  assumes "list_all sh_plain ws"
  shows "shlex_split (str_join '' '' ws) = Inr ws"
proof -
  have "shlex_read SWhite [] False (w @ concat (map (\<lambda>s. '' '' @ s) us)) = Inr (w # us)"
    if "sh_plain w" "list_all sh_plain us" for w us
    using that
  proof (induction us arbitrary: w)
    case Nil
    then show ?case
      using shlex_read_plain [of w "[]"] by (simp add: sh_emit_def) (auto simp: sh_plain_def)
  next
    case (Cons v vs)
    have "shlex_read SWhite [] False (w @ concat (map (\<lambda>s. '' '' @ s) (v # vs)))
        = shlex_read SWord w False ('' '' @ v @ concat (map (\<lambda>s. '' '' @ s) vs))"
      using shlex_read_plain [OF Cons.prems(1)] by simp
    also have "\<dots> = Inr (w # v # vs)"
      using Cons by (simp add: sh_white_def) (simp add: sh_plain_def)
    finally show ?case .
  qed
  with assms show ?thesis
    by (cases ws) (simp_all add: shlex_split_def str_join_def sh_emit_def space_append)
qed

end
