(* ===== verification/TestJobs.thy ===== *)
theory TestJobs
  imports PyNum PyOs
begin

text \<open>
  The test driver \<open>test.py\<close>, first part: the environment it sets up, the examples it finds, the
  command of a job, the \<open>Job\<close> class, and the choice of the jobs from the command-line options.

  The command-line options and the configuration that \<open>read_waf_config\<close> loads are records. Running
  a shell command is the parameter \<open>exec\<close> (command and directory to return code, standard output,
  standard error and elapsed time); the existence of a path, the lists in an
  \<open>examples-to-run.py\<close> file and the evaluation of a condition string are parameters too. The extra
  progress messages of \<open>--verbose\<close> are left out.
\<close>

section \<open>Options and configuration\<close>

record test_options =
  opt_buildpath :: string
  opt_constrain :: string
  opt_example :: string
  opt_update_data :: bool
  opt_valgrind :: bool
  opt_kinds :: bool
  opt_list :: bool
  opt_multiple :: bool
  opt_nowaf :: bool
  opt_pyexample :: string
  opt_retain :: bool
  opt_suite :: string
  opt_text :: string
  opt_verbose :: bool
  opt_html :: string
  opt_xml :: string

definition default_options :: test_options where
  "default_options = \<lparr> opt_buildpath = [], opt_constrain = [], opt_example = [],
     opt_update_data = False, opt_valgrind = False, opt_kinds = False, opt_list = False,
     opt_multiple = False, opt_nowaf = False, opt_pyexample = [], opt_retain = False,
     opt_suite = [], opt_text = [], opt_verbose = False, opt_html = [], opt_xml = [] \<rparr>"

record waf_config =
  NS3_BUILDDIR :: string
  NS3_ENABLED_MODULES :: "string list"
  NS3_MODULE_PATH :: "string list"
  NSC_ENABLED :: bool
  ENABLE_EXAMPLES :: bool
  ENABLE_TESTS :: bool
  EXAMPLE_DIRECTORIES :: "string list"
  ENABLE_PYTHON_BINDINGS :: bool

definition core_kinds :: "string list" where
  "core_kinds = [''bvt'', ''core'', ''system'', ''unit'']"

definition core_valgrind_skip_tests :: "string list" where
  "core_valgrind_skip_tests =
     [''ns3-tcp-cwnd'', ''nsc-tcp-loss'', ''ns3-tcp-interoperability'', ''routing-click'']"

definition core_nsc_missing_skip_tests :: "string list" where
  "core_nsc_missing_skip_tests = [''ns3-tcp-cwnd'', ''nsc-tcp-loss'', ''ns3-tcp-interoperability'']"

section \<open>The environment\<close>

type_synonym environ = "(string, string) dict"

definition env_get :: "environ \<Rightarrow> string \<Rightarrow> string" where
  "env_get env k = (case map_of env k of Some v \<Rightarrow> v | None \<Rightarrow> [])"

text \<open>One branch of the platform switch: create the variable when it is missing and append the
  module paths with the separator.\<close>

definition append_paths :: "string \<Rightarrow> string \<Rightarrow> string list \<Rightarrow> bool \<Rightarrow> environ \<Rightarrow> environ" where
  "append_paths var sep paths have env =
     (let env1 = (if \<not> have then AList.update var [] env else env)
      in fold (\<lambda>p env. AList.update var (env_get env var @ sep @ p) env) paths env1)"

definition make_paths :: "string \<Rightarrow> waf_config \<Rightarrow> environ \<Rightarrow> environ" where
  "make_paths platform cfg env =
     (let have_DYLD_LIBRARY_PATH = (''DYLD_LIBRARY_PATH'' \<in> set (keys env));
          have_LD_LIBRARY_PATH = (''LD_LIBRARY_PATH'' \<in> set (keys env));
          have_PATH = (''PATH'' \<in> set (keys env));
          have_PYTHONPATH = (''PYTHONPATH'' \<in> set (keys env));
          pypath = path_join (path_join (NS3_BUILDDIR cfg) ''bindings'') ''python'';
          env1 = AList.update ''PYTHONPATH'' pypath env;
          env2 = (if \<not> have_PYTHONPATH then AList.update ''PYTHONPATH'' pypath env1
                  else AList.update ''PYTHONPATH'' (env_get env1 ''PYTHONPATH'' @ '':'' @ pypath) env1)
      in if platform = ''darwin''
         then append_paths ''DYLD_LIBRARY_PATH'' '':'' (NS3_MODULE_PATH cfg) have_DYLD_LIBRARY_PATH env2
         else if platform = ''win32''
         then append_paths ''PATH'' '';'' (NS3_MODULE_PATH cfg) have_PATH env2
         else if platform = ''cygwin''
         then append_paths ''PATH'' '':'' (NS3_MODULE_PATH cfg) have_PATH env2
         else append_paths ''LD_LIBRARY_PATH'' '':'' (NS3_MODULE_PATH cfg) have_LD_LIBRARY_PATH env2)"

section \<open>Examples to run\<close>

type_synonym cpp_example = "string \<times> string \<times> string"
type_synonym py_example = "string \<times> string"

definition parse_examples_to_run_file ::
  "(string \<Rightarrow> bool) \<Rightarrow> (string \<Rightarrow> cpp_example list) \<Rightarrow> (string \<Rightarrow> py_example list)
    \<Rightarrow> string \<Rightarrow> string \<Rightarrow> string \<Rightarrow> cpp_example list \<times> py_example list
    \<Rightarrow> cpp_example list \<times> py_example list" where
  "parse_examples_to_run_file exists cpp_list py_list examples_to_run_path cpp_executable_dir
       python_script_dir tests =
     (if exists examples_to_run_path then
        let (example_tests, python_tests) = tests;
            example_tests' = fold (\<lambda>(example_name, do_run, do_valgrind_run) acc.
              let example_path = path_join cpp_executable_dir example_name
              in if exists example_path then acc @ [(example_path, do_run, do_valgrind_run)] else acc)
              (cpp_list examples_to_run_path) example_tests;
            python_tests' = fold (\<lambda>(example_name, do_run) acc.
              let example_path = path_join python_script_dir example_name
              in if exists example_path then acc @ [(example_path, do_run)] else acc)
              (py_list examples_to_run_path) python_tests
        in (example_tests', python_tests')
      else tests)"

definition find_examples ::
  "(string \<Rightarrow> bool) \<Rightarrow> (string \<Rightarrow> cpp_example list) \<Rightarrow> (string \<Rightarrow> py_example list)
    \<Rightarrow> waf_config \<Rightarrow> cpp_example list \<times> py_example list" where
  "find_examples exists cpp_list py_list cfg =
     (let tests1 = fold (\<lambda>directory.
            let example_directory = path_join ''examples'' directory
            in parse_examples_to_run_file exists cpp_list py_list
                 (path_join example_directory ''examples-to-run.py'')
                 (path_join (NS3_BUILDDIR cfg) example_directory) example_directory)
            (EXAMPLE_DIRECTORIES cfg) ([], [])
      in fold (\<lambda>module.
            let module_directory = path_join ''src'' (drop (length ''ns3-'') module);
                example_directory = path_join module_directory ''examples''
            in parse_examples_to_run_file exists cpp_list py_list
                 (path_join (path_join module_directory ''test'') ''examples-to-run.py'')
                 (path_join (NS3_BUILDDIR cfg) example_directory) example_directory)
            (NS3_ENABLED_MODULES cfg) tests1)"

section \<open>Running one command\<close>

type_synonym exec = "string \<Rightarrow> string \<Rightarrow> int \<times> string \<times> string \<times> rat"

definition VALGRIND_SUPPRESSIONS_FILE :: string where
  "VALGRIND_SUPPRESSIONS_FILE = ''testpy.supp''"

definition job_command :: "waf_config \<Rightarrow> string \<Rightarrow> bool \<Rightarrow> bool \<Rightarrow> string \<Rightarrow> string" where
  "job_command cfg shell_command valgrind is_python build_path =
     (let base = path_head (NS3_BUILDDIR cfg);
          suppressions_path = path_join base VALGRIND_SUPPRESSIONS_FILE;
          path_cmd = (if is_python then ''python '' @ path_join base shell_command
                      else if length build_path > 0 then path_join build_path shell_command
                      else path_join (NS3_BUILDDIR cfg) shell_command)
      in if valgrind
         then ''valgrind --suppressions='' @ suppressions_path
           @ '' --leak-check=full --show-reachable=yes --error-exitcode=2 '' @ path_cmd
         else path_cmd)"

definition run_job_synchronously ::
  "exec \<Rightarrow> waf_config \<Rightarrow> string \<Rightarrow> string \<Rightarrow> bool \<Rightarrow> bool \<Rightarrow> string \<Rightarrow> int \<times> string \<times> string \<times> rat" where
  "run_job_synchronously exec cfg shell_command directory valgrind is_python build_path =
     (let (rc, stdout_results, stderr_results, elapsed_time) =
            exec (job_command cfg shell_command valgrind is_python build_path) directory;
          retval = (if valgrind \<and> rc = 0 \<and> str_in ''== LEAK SUMMARY:'' stderr_results then 2 else rc)
      in (retval, stdout_results, stderr_results, elapsed_time))"

section \<open>Jobs\<close>

record job =
  is_break :: bool
  is_skip :: bool
  is_example :: bool
  is_pyexample :: bool
  shell_command :: string
  display_name :: string
  basedir :: string
  tempdir :: string
  cwd :: string
  tmp_file_name :: string
  returncode :: int
  elapsed_time :: rat
  build_path :: string

definition Job_init :: job where
  "Job_init = \<lparr> is_break = False, is_skip = False, is_example = False, is_pyexample = False,
     shell_command = [], display_name = [], basedir = [], tempdir = [], cwd = [],
     tmp_file_name = [], returncode = 0, elapsed_time = 0, build_path = [] \<rparr>"

definition set_is_break :: "bool \<Rightarrow> job \<Rightarrow> job" where
  "set_is_break b j = j\<lparr> is_break := b \<rparr>"

definition set_is_skip :: "bool \<Rightarrow> job \<Rightarrow> job" where
  "set_is_skip b j = j\<lparr> is_skip := b \<rparr>"

definition set_is_example :: "bool \<Rightarrow> job \<Rightarrow> job" where
  "set_is_example b j = j\<lparr> is_example := b \<rparr>"

definition set_is_pyexample :: "bool \<Rightarrow> job \<Rightarrow> job" where
  "set_is_pyexample b j = j\<lparr> is_pyexample := b \<rparr>"

definition set_shell_command :: "string \<Rightarrow> job \<Rightarrow> job" where
  "set_shell_command s j = j\<lparr> shell_command := s \<rparr>"

definition set_build_path :: "string \<Rightarrow> job \<Rightarrow> job" where
  "set_build_path s j = j\<lparr> build_path := s \<rparr>"

definition set_display_name :: "string \<Rightarrow> job \<Rightarrow> job" where
  "set_display_name s j = j\<lparr> display_name := s \<rparr>"

definition set_basedir :: "string \<Rightarrow> job \<Rightarrow> job" where
  "set_basedir s j = j\<lparr> basedir := s \<rparr>"

definition set_tempdir :: "string \<Rightarrow> job \<Rightarrow> job" where
  "set_tempdir s j = j\<lparr> tempdir := s \<rparr>"

definition set_cwd :: "string \<Rightarrow> job \<Rightarrow> job" where
  "set_cwd s j = j\<lparr> cwd := s \<rparr>"

definition set_tmp_file_name :: "string \<Rightarrow> job \<Rightarrow> job" where
  "set_tmp_file_name s j = j\<lparr> tmp_file_name := s \<rparr>"

definition set_returncode :: "int \<Rightarrow> job \<Rightarrow> job" where
  "set_returncode r j = j\<lparr> returncode := r \<rparr>"

definition set_elapsed_time :: "rat \<Rightarrow> job \<Rightarrow> job" where
  "set_elapsed_time t j = j\<lparr> elapsed_time := t \<rparr>"

text \<open>The part of \<open>worker_thread.run\<close> that launches a job.\<close>

definition launch_job :: "exec \<Rightarrow> waf_config \<Rightarrow> test_options \<Rightarrow> job \<Rightarrow> job" where
  "launch_job exec cfg opt j =
     (let (rc, out, err, et) =
        (if is_example j \<or> is_pyexample j
         then run_job_synchronously exec cfg (shell_command j) (cwd j) (opt_valgrind opt)
                (is_pyexample j) (build_path j)
         else run_job_synchronously exec cfg
                (shell_command j @ '' --xml --tempdir='' @ tempdir j @ '' --out='' @ tmp_file_name j
                   @ '' '' @ (if opt_update_data opt then ''--update-data'' else []))
                (cwd j) (opt_valgrind opt) False [])
      in set_elapsed_time et (set_returncode rc j))"

section \<open>What to build and which suites to run\<close>

definition waf_command :: "string \<Rightarrow> test_options \<Rightarrow> string" where
  "waf_command platform opt =
     (if opt_kinds opt \<or> opt_list opt
         \<or> (length (opt_constrain opt) > 0 \<and> opt_constrain opt \<in> set core_kinds)
      then (if platform = ''win32'' then ''waf --target=test-runner'' else ''./waf --target=test-runner'')
      else if length (opt_example opt) > 0
      then (if platform = ''win32'' then ''waf --target='' @ path_basename (opt_example opt)
            else ''./waf --target='' @ path_basename (opt_example opt))
      else (if platform = ''win32'' then ''waf'' else ''./waf''))"

definition stdout_of :: "int \<times> string \<times> string \<times> rat \<Rightarrow> string" where
  "stdout_of r = fst (snd r)"

definition select_suites :: "exec \<Rightarrow> waf_config \<Rightarrow> test_options \<Rightarrow> string \<Rightarrow> string res" where
  "select_suites exec cfg opt dir =
     (let list_all = path_join ''utils'' ''test-runner --print-test-name-list''
      in if length (opt_suite opt) > 0 then
           let suites = stdout_of (run_job_synchronously exec cfg list_all dir False False [])
           in if str_in (opt_suite opt) suites then Inr (opt_suite opt @ [CHR 0x0A])
              else Inl (SystemExit 2)
         else if length (opt_example opt) = 0 \<and> length (opt_pyexample opt) = 0 then
           (if length (opt_constrain opt) > 0
            then Inr (stdout_of (run_job_synchronously exec cfg
                   (path_join ''utils'' (''test-runner --print-test-name-list --test-type=''
                      @ opt_constrain opt)) dir False False []))
            else Inr (stdout_of (run_job_synchronously exec cfg list_all dir False False [])))
         else Inr [])"

section \<open>Building the jobs\<close>

definition suite_job :: "waf_config \<Rightarrow> test_options \<Rightarrow> string \<Rightarrow> string \<Rightarrow> string \<Rightarrow> job" where
  "suite_job cfg opt getcwd outdir test =
     (let j1 = set_tempdir outdir (set_basedir getcwd (set_cwd getcwd
                 (set_tmp_file_name (path_join outdir (test @ ''.xml''))
                   (set_display_name test (set_is_pyexample False (set_is_example False Job_init))))));
          multiple = (if opt_multiple opt then [] else '' --stop-on-failure'');
          j2 = set_shell_command (path_join ''utils'' (''test-runner --test-name='' @ test @ multiple)) j1;
          j3 = (if opt_valgrind opt \<and> test \<in> set core_valgrind_skip_tests then set_is_skip True j2 else j2)
      in if \<not> NSC_ENABLED cfg \<and> test \<in> set core_nsc_missing_skip_tests then set_is_skip True j3 else j3)"

definition suite_jobs :: "waf_config \<Rightarrow> test_options \<Rightarrow> string \<Rightarrow> string \<Rightarrow> string \<Rightarrow> job list" where
  "suite_jobs cfg opt getcwd outdir suites =
     map (suite_job cfg opt getcwd outdir)
       (filter (\<lambda>t. length t > 0) (map str_strip (split_char (CHR 0x0A) suites)))"

definition example_job :: "bool \<Rightarrow> string \<Rightarrow> string \<Rightarrow> string \<Rightarrow> string \<Rightarrow> job" where
  "example_job py getcwd outdir test bpath =
     set_build_path bpath (set_shell_command test (set_tempdir outdir (set_basedir getcwd
       (set_cwd outdir (set_tmp_file_name [] (set_display_name test
         (set_is_pyexample py (set_is_example (\<not> py) Job_init))))))))"

text \<open>The jobs of the C++ examples and the message that is printed.\<close>

definition example_jobs ::
  "(string \<Rightarrow> bool) \<Rightarrow> waf_config \<Rightarrow> test_options \<Rightarrow> string list \<Rightarrow> string \<Rightarrow> string
    \<Rightarrow> cpp_example list \<Rightarrow> job list \<times> string list" where
  "example_jobs eval_cond cfg opt runnable getcwd outdir example_tests =
     (if length (opt_suite opt) = 0 \<and> length (opt_example opt) = 0 \<and> length (opt_pyexample opt) = 0 then
        (if (length (opt_constrain opt) = 0 \<or> opt_constrain opt = ''example'') \<and> ENABLE_EXAMPLES cfg
         then (map (\<lambda>(test, do_run, do_valgrind_run).
                 let j = example_job False getcwd outdir test []
                 in if opt_valgrind opt \<and> \<not> eval_cond do_valgrind_run then set_is_skip True j else j)
                 (filter (\<lambda>(test, do_run, do_valgrind_run).
                    path_basename test \<in> set runnable \<and> eval_cond do_run) example_tests), [])
         else ([], []))
      else if length (opt_example opt) > 0 then
        (let example_name = path_basename (opt_example opt)
         in if example_name \<notin> set runnable
            then ([], [''Example '' @ example_name @ '' is not runnable.''])
            else ([example_job False getcwd outdir (opt_example opt) (opt_buildpath opt)], []))
      else ([], []))"

definition pyexample_jobs ::
  "(string \<Rightarrow> bool) \<Rightarrow> waf_config \<Rightarrow> test_options \<Rightarrow> string list \<Rightarrow> string \<Rightarrow> string
    \<Rightarrow> py_example list \<Rightarrow> job list \<times> string list" where
  "pyexample_jobs eval_cond cfg opt runnable getcwd outdir python_tests =
     (if length (opt_suite opt) = 0 \<and> length (opt_example opt) = 0 \<and> length (opt_pyexample opt) = 0 then
        (if (length (opt_constrain opt) = 0 \<or> opt_constrain opt = ''pyexample'') \<and> ENABLE_EXAMPLES cfg
         then (map (\<lambda>(test, do_run).
                 let j = example_job True getcwd outdir test [];
                     j1 = (if opt_valgrind opt then set_is_skip True j else j)
                 in if \<not> ENABLE_PYTHON_BINDINGS cfg then set_is_skip True j1 else j1)
                 (filter (\<lambda>(test, do_run).
                    path_basename test \<in> set runnable \<and> eval_cond do_run) python_tests), [])
         else ([], []))
      else if length (opt_pyexample opt) > 0 then
        (let example_name = path_basename (opt_pyexample opt)
         in if example_name \<notin> set runnable
            then ([], [''Example '' @ example_name @ '' is not runnable.''])
            else ([example_job True getcwd outdir (opt_pyexample opt) []], []))
      else ([], []))"

definition break_jobs :: "nat \<Rightarrow> job list" where
  "break_jobs processors = replicate processors (set_is_break True Job_init)"

text \<open>A small configuration and job for the examples below.\<close>

definition demo_exec :: exec where
  "demo_exec = (\<lambda>cmd dir. (0, [], [], 0))"

definition demo_cfg :: waf_config where
  "demo_cfg = \<lparr> NS3_BUILDDIR = ''/ns3/build'', NS3_ENABLED_MODULES = [], NS3_MODULE_PATH = [''/ns3/build''],
     NSC_ENABLED = True, ENABLE_EXAMPLES = True, ENABLE_TESTS = True, EXAMPLE_DIRECTORIES = [],
     ENABLE_PYTHON_BINDINGS = True \<rparr>"

definition demo_job :: job where
  "demo_job = Job_init\<lparr> display_name := ''udp-echo'', is_example := True \<rparr>"

section \<open>The environment after \<open>make_paths\<close>\<close>

definition lib_var :: "string \<Rightarrow> string \<times> string" where
  "lib_var platform =
     (if platform = ''darwin'' then (''DYLD_LIBRARY_PATH'', '':'')
      else if platform = ''win32'' then (''PATH'', '';'')
      else if platform = ''cygwin'' then (''PATH'', '':'')
      else (''LD_LIBRARY_PATH'', '':''))"

lemma append_paths_fold:
  assumes "map_of env var = Some v"
  shows "map_of (fold (\<lambda>p env. AList.update var (env_get env var @ sep @ p) env) paths env)
    = (map_of env)(var \<mapsto> v @ concat (map (\<lambda>p. sep @ p) paths))"
  using assms
proof (induction paths arbitrary: env v)
  case (Cons p paths)
  let ?env = "AList.update var (env_get env var @ sep @ p) env"
  have "map_of ?env var = Some (v @ sep @ p)" using Cons.prems by (simp add: env_get_def)
  from Cons.IH [OF this] Cons.prems show ?case by (simp add: env_get_def fun_eq_iff)
qed (simp add: fun_upd_idem)

lemma append_paths_effect:
  assumes "have \<longleftrightarrow> map_of env var \<noteq> None"
  shows "map_of (append_paths var sep paths have env)
    = (map_of env)(var \<mapsto> env_get env var @ concat (map (\<lambda>p. sep @ p) paths))"
proof (cases "map_of env var")
  case None
  then show ?thesis
    using assms append_paths_fold [of "AList.update var [] env" var "[]" sep paths]
    by (simp add: append_paths_def env_get_def)
next
  case (Some v)
  then show ?thesis
    using assms append_paths_fold [of env var v sep paths] by (simp add: append_paths_def env_get_def)
qed

text \<open>
  The environment that \<open>make_paths\<close> leaves: the library path variable of the platform gets the module
  paths appended with its separator, all other variables but \<open>PYTHONPATH\<close> are unchanged, and
  \<open>PYTHONPATH\<close> is the bindings directory; a value the user had set is lost, the directory
  appears twice instead.
\<close>

theorem make_paths_effect:
  "map_of (make_paths platform cfg env) =
     (let pypath = path_join (path_join (NS3_BUILDDIR cfg) ''bindings'') ''python'';
          (var, sep) = lib_var platform
      in (map_of env)
           (''PYTHONPATH'' \<mapsto> (if map_of env ''PYTHONPATH'' = None then pypath else pypath @ '':'' @ pypath),
            var \<mapsto> env_get env var @ concat (map (\<lambda>p. sep @ p) (NS3_MODULE_PATH cfg))))"
  (is "?l = ?r")
proof -
  have have_iff: "k \<in> set (keys env) \<longleftrightarrow> map_of env k \<noteq> None" for k
    by (simp add: map_of_eq_None_iff image_iff)
  define pypath where "pypath = path_join (path_join (NS3_BUILDDIR cfg) ''bindings'') ''python''"
  define env2 where "env2 = (if ''PYTHONPATH'' \<notin> set (keys env)
      then AList.update ''PYTHONPATH'' pypath (AList.update ''PYTHONPATH'' pypath env)
      else AList.update ''PYTHONPATH'' (env_get (AList.update ''PYTHONPATH'' pypath env) ''PYTHONPATH''
             @ '':'' @ pypath) (AList.update ''PYTHONPATH'' pypath env))"
  obtain var sep where vs: "lib_var platform = (var, sep)" by fastforce
  have var: "var \<noteq> ''PYTHONPATH''" using vs by (auto simp: lib_var_def split: if_splits)
  have m2: "map_of env2 = (map_of env)(''PYTHONPATH'' \<mapsto>
      (if map_of env ''PYTHONPATH'' = None then pypath else pypath @ '':'' @ pypath))"
    unfolding env2_def have_iff by (simp add: env_get_def fun_eq_iff)
  then have same: "map_of env2 var = map_of env var" "env_get env2 var = env_get env var"
    using var by (simp_all add: env_get_def)
  have "make_paths platform cfg env
      = append_paths var sep (NS3_MODULE_PATH cfg) (var \<in> set (keys env)) env2"
    using vs unfolding make_paths_def Let_def pypath_def [symmetric] env2_def [symmetric]
    by (auto simp: lib_var_def split: if_splits)
  moreover have "var \<in> set (keys env) \<longleftrightarrow> map_of env2 var \<noteq> None" using same(1) have_iff by simp
  ultimately have "?l = (map_of env2)(var \<mapsto> env_get env2 var
      @ concat (map (\<lambda>p. sep @ p) (NS3_MODULE_PATH cfg)))"
    using append_paths_effect [of "var \<in> set (keys env)" env2 var sep] by simp
  then show ?thesis by (simp add: m2 same(2) vs pypath_def [symmetric] Let_def)
qed

section \<open>Jobs\<close>

lemma suite_job_fields [simp]:
  "is_break (suite_job cfg opt d o' t) = False" "is_example (suite_job cfg opt d o' t) = False"
  "is_pyexample (suite_job cfg opt d o' t) = False" "display_name (suite_job cfg opt d o' t) = t"
  "tmp_file_name (suite_job cfg opt d o' t) = path_join o' (t @ ''.xml'')"
  by (simp_all add: suite_job_def Job_init_def Let_def set_is_break_def set_is_skip_def
      set_is_example_def set_is_pyexample_def set_shell_command_def set_display_name_def
      set_basedir_def set_tempdir_def set_cwd_def set_tmp_file_name_def)

text \<open>
  Suites that run in parallel write to different temporary files: when the names of the suites
  differ and none is an absolute path, the file names of the jobs differ.
\<close>

theorem suite_jobs_private_files:
  assumes "distinct (map display_name (suite_jobs cfg opt dir outdir suites))"
    and "list_all (\<lambda>j. \<not> prefix ''/'' (display_name j)) (suite_jobs cfg opt dir outdir suites)"
  shows "distinct (map tmp_file_name (suite_jobs cfg opt dir outdir suites))"
proof -
  let ?ts = "filter (\<lambda>t. length t > 0) (map str_strip (split_char (CHR 0x0A) suites))"
  have names: "map display_name (suite_jobs cfg opt dir outdir suites) = ?ts"
    by (simp add: suite_jobs_def comp_def)
  have files: "map tmp_file_name (suite_jobs cfg opt dir outdir suites)
      = map (\<lambda>t. path_join outdir (t @ ''.xml'')) ?ts"
    by (simp add: suite_jobs_def comp_def)
  have rel: "\<not> prefix ''/'' (t @ ''.xml'')" if "t \<in> set ?ts" for t
  proof -
    have "\<not> prefix ''/'' t" using assms(2) that by (auto simp: suite_jobs_def list_all_iff)
    moreover have "t \<noteq> []" using that by auto
    ultimately show ?thesis by (cases t) auto
  qed
  have "inj_on (\<lambda>t. path_join outdir (t @ ''.xml'')) (set ?ts)"
    using rel by (intro inj_onI) (metis append_same_eq path_join_inj)
  then show ?thesis using assms(1) unfolding names files by (simp add: distinct_map)
qed

theorem suite_jobs_private_files_witness:
  "map tmp_file_name (suite_jobs demo_cfg default_options ''/ns3'' ''/tmp'' (''a'' @ [CHR 0x0A] @ ''b'' @ [CHR 0x0A]))
     = [''/tmp/a.xml'', ''/tmp/b.xml'']
   \<and> distinct (map tmp_file_name (suite_jobs demo_cfg default_options ''/ns3'' ''/tmp'' (''a'' @ [CHR 0x0A] @ ''b'' @ [CHR 0x0A])))"
proof
  show "map tmp_file_name (suite_jobs demo_cfg default_options ''/ns3'' ''/tmp'' (''a'' @ [CHR 0x0A] @ ''b'' @ [CHR 0x0A]))
     = [''/tmp/a.xml'', ''/tmp/b.xml'']" by code_simp
  show "distinct (map tmp_file_name (suite_jobs demo_cfg default_options ''/ns3'' ''/tmp'' (''a'' @ [CHR 0x0A] @ ''b'' @ [CHR 0x0A])))"
    by (rule suite_jobs_private_files) code_simp+
qed

text \<open>
  A suite that does not exist can be accepted: the test whether the requested suite is known is a
  substring test on the printed list, so \<open>tcp\<close> passes when the list has \<open>ns3-tcp-cwnd\<close>, and a job
  with that name is queued.
\<close>

lemma unknown_suite_accepted:
  "let exec = (\<lambda>cmd dir. (0, ''ns3-tcp-cwnd'' @ [CHR 0x0A] @ ''ns3-tcp-state'' @ [CHR 0x0A], [], 0));
       cfg = \<lparr> NS3_BUILDDIR = ''b'', NS3_ENABLED_MODULES = [], NS3_MODULE_PATH = [], NSC_ENABLED = True,
               ENABLE_EXAMPLES = True, ENABLE_TESTS = True, EXAMPLE_DIRECTORIES = [],
               ENABLE_PYTHON_BINDINGS = True \<rparr>;
       opt = default_options\<lparr> opt_suite := ''tcp'' \<rparr>
   in ''tcp'' \<notin> set (split_char (CHR 0x0A) (stdout_of (exec [] [])))
      \<and> select_suites exec cfg opt [] = Inr (''tcp'' @ [CHR 0x0A])
      \<and> map display_name (suite_jobs cfg opt [] [] (''tcp'' @ [CHR 0x0A])) = [''tcp'']"
  by code_simp

end
