(* ===== verification/TestPool.thy ===== *)
theory TestPool
  imports TestJobs
begin

text \<open>
  The test driver \<open>test.py\<close>, second part: the worker threads, the two queues and the main thread
  that fills the one and empties the other, as a step relation.

  A worker is idle (blocked in \<open>input_queue.get()\<close>), has got a job, has launched a job whose
  command is still running, or has returned. The test of \<open>thread_exit\<close> is made when the worker
  decides what to do with the job it got, so a job that runs when SIGINT arrives is finished
  normally, as in the code. The main thread puts the jobs and then one break job per worker, and
  after that gets as many results as it put jobs. Any interleaving of the threads, and a SIGINT at
  any moment, is a run of the relation.
\<close>

section \<open>Queues\<close>

text \<open>\<open>Queue.Queue(0)\<close>: an unbounded queue; \<open>get\<close> blocks (\<open>None\<close>) on the empty queue.\<close>

type_synonym 'a queue = "'a list"

definition q_empty :: "'a queue" where
  "q_empty = []"

definition q_put :: "'a queue \<Rightarrow> 'a \<Rightarrow> 'a queue" where
  "q_put q x = q @ [x]"

fun q_get :: "'a queue \<Rightarrow> ('a \<times> 'a queue) option" where
  "q_get [] = None"
| "q_get (x # q) = Some (x, q)"

section \<open>Workers and the main thread\<close>

datatype worker = Idle | Got job | Launched job | Exited

record pool =
  todo :: "job list"
  input_queue :: "job queue"
  workers :: "worker list"
  output_queue :: "job queue"
  collected :: "job list"
  expected :: nat
  thread_exit :: bool

definition sigint_hook :: "pool \<Rightarrow> pool" where
  "sigint_hook p = p\<lparr> thread_exit := True \<rparr>"

text \<open>The main thread starts one worker per processor and then dispatches the jobs.\<close>

definition start_pool :: "job list \<Rightarrow> nat \<Rightarrow> pool" where
  "start_pool js processors =
     \<lparr> todo = js @ break_jobs processors, input_queue = q_empty, workers = replicate processors Idle,
       output_queue = q_empty, collected = [], expected = length js, thread_exit = False \<rparr>"

text \<open>What a worker does with the job it got: return, hand a job back at once, or launch it.\<close>

datatype decision = Return | PutBack job | Launch

definition decide :: "bool \<Rightarrow> job \<Rightarrow> decision" where
  "decide stop j =
     (if is_break j then Return
      else if stop then PutBack (set_is_break True j)
      else if is_skip j then PutBack j
      else Launch)"

inductive pool_step :: "exec \<Rightarrow> waf_config \<Rightarrow> test_options \<Rightarrow> pool \<Rightarrow> pool \<Rightarrow> bool"
  for ex :: exec and cfg :: waf_config and opt :: test_options where
  main_put: "todo p = j # js \<Longrightarrow>
     pool_step ex cfg opt p (p\<lparr> todo := js, input_queue := q_put (input_queue p) j \<rparr>)"
| worker_get: "i < length (workers p) \<Longrightarrow> workers p ! i = Idle \<Longrightarrow> q_get (input_queue p) = Some (j, q) \<Longrightarrow>
     pool_step ex cfg opt p (p\<lparr> input_queue := q, workers := (workers p)[i := Got j] \<rparr>)"
| worker_return: "i < length (workers p) \<Longrightarrow> workers p ! i = Got j \<Longrightarrow>
     decide (thread_exit p) j = Return \<Longrightarrow>
     pool_step ex cfg opt p (p\<lparr> workers := (workers p)[i := Exited] \<rparr>)"
| worker_putback: "i < length (workers p) \<Longrightarrow> workers p ! i = Got j \<Longrightarrow>
     decide (thread_exit p) j = PutBack j' \<Longrightarrow>
     pool_step ex cfg opt p (p\<lparr> workers := (workers p)[i := Idle],
                                output_queue := q_put (output_queue p) j' \<rparr>)"
| worker_launch: "i < length (workers p) \<Longrightarrow> workers p ! i = Got j \<Longrightarrow>
     decide (thread_exit p) j = Launch \<Longrightarrow>
     pool_step ex cfg opt p (p\<lparr> workers := (workers p)[i := Launched j] \<rparr>)"
| worker_done: "i < length (workers p) \<Longrightarrow> workers p ! i = Launched j \<Longrightarrow>
     pool_step ex cfg opt p (p\<lparr> workers := (workers p)[i := Idle],
                                output_queue := q_put (output_queue p) (launch_job ex cfg opt j) \<rparr>)"
| main_collect: "todo p = [] \<Longrightarrow> length (collected p) < expected p \<Longrightarrow>
     q_get (output_queue p) = Some (j, q) \<Longrightarrow>
     pool_step ex cfg opt p (p\<lparr> output_queue := q, collected := collected p @ [j] \<rparr>)"
| interrupt: "\<not> thread_exit p \<Longrightarrow> pool_step ex cfg opt p (sigint_hook p)"

inductive_cases pool_stepE: "pool_step ex cfg opt p p'"

text \<open>The main thread has all results and has joined all workers.\<close>

definition joined :: "pool \<Rightarrow> bool" where
  "joined p \<longleftrightarrow> todo p = [] \<and> length (collected p) = expected p \<and> list_all (\<lambda>w. w = Exited) (workers p)"

section \<open>The queue contract\<close>

locale fifo_queue =
  fixes empty :: 'q and put :: "'q \<Rightarrow> 'a \<Rightarrow> 'q" and get :: "'q \<Rightarrow> ('a \<times> 'q) option"
    and contents :: "'q \<Rightarrow> 'a list"
  assumes contents_empty: "contents empty = []"
    and contents_put: "contents (put q x) = contents q @ [x]"
    and get_None: "get q = None \<longleftrightarrow> contents q = []"
    and get_Some: "get q = Some (x, q') \<Longrightarrow> contents q = x # contents q'"
begin

lemma get_first:
  "contents q = x # xs \<Longrightarrow> \<exists>q'. get q = Some (x, q') \<and> contents q' = xs"
proof -
  assume q: "contents q = x # xs"
  then obtain y q' where g: "get q = Some (y, q')" using get_None [of q] by auto
  from get_Some [OF g] q g show ?thesis by auto
qed

lemma get_after_put: "contents q = [] \<Longrightarrow> \<exists>q'. get (put q x) = Some (x, q') \<and> contents q' = []"
  using get_first [of "put q x" x "[]"] by (simp add: contents_put)

lemma size_get: "get q = Some (x, q') \<Longrightarrow> length (contents q) = Suc (length (contents q'))"
  by (drule get_Some) simp

lemma mset_get: "get q = Some (x, q') \<Longrightarrow> mset (contents q) = add_mset x (mset (contents q'))"
  by (drule get_Some) simp

lemma mset_put: "mset (contents (put q x)) = add_mset x (mset (contents q))"
  by (simp add: contents_put)

end

interpretation pyq: fifo_queue q_empty q_put q_get "\<lambda>q. q"
proof unfold_locales
  fix q q' :: "'a list" and x
  show "q_get q = None \<longleftrightarrow> q = []" by (cases q) auto
  show "q_get q = Some (x, q') \<Longrightarrow> q = x # q'" by (cases q) auto
qed (simp_all add: q_empty_def q_put_def)

section \<open>The number of steps\<close>

fun worker_weight :: "worker \<Rightarrow> nat" where
  "worker_weight Idle = 0"
| "worker_weight (Got j) = 3"
| "worker_weight (Launched j) = 2"
| "worker_weight Exited = 0"

definition pool_weight :: "pool \<Rightarrow> nat" where
  "pool_weight p = 5 * length (todo p) + 4 * length (input_queue p)
     + sum_list (map worker_weight (workers p)) + length (output_queue p)
     + (if thread_exit p then 0 else 1)"

lemma sum_list_update_worker:
  fixes g :: "'w \<Rightarrow> 'b::comm_monoid_add"
  shows "i < length ws \<Longrightarrow> sum_list (map g (ws[i := w])) + g (ws ! i) = sum_list (map g ws) + g w"
  by (induction ws arbitrary: i) (auto simp: nth_Cons' ac_simps split: nat.splits)

lemma pool_step_weight: "pool_step ex cfg opt p p' \<Longrightarrow> pool_weight p' < pool_weight p"
proof (induction rule: pool_step.induct)
  case (worker_get i p j q)
  then show ?case
    using sum_list_update_worker [of i "workers p" worker_weight "Got j"] pyq.size_get
    by (fastforce simp: pool_weight_def)
next
  case (worker_return i p j)
  then show ?case
    using sum_list_update_worker [of i "workers p" worker_weight Exited] by (simp add: pool_weight_def)
next
  case (worker_putback i p j j')
  then show ?case
    using sum_list_update_worker [of i "workers p" worker_weight Idle]
    by (simp add: pool_weight_def q_put_def)
next
  case (worker_launch i p j)
  then show ?case
    using sum_list_update_worker [of i "workers p" worker_weight "Launched j"]
    by (simp add: pool_weight_def)
next
  case (worker_done i p j)
  then show ?case
    using sum_list_update_worker [of i "workers p" worker_weight Idle]
    by (simp add: pool_weight_def q_put_def)
next
  case (main_collect p j q)
  then show ?case using pyq.size_get by (fastforce simp: pool_weight_def)
qed (simp_all add: pool_weight_def q_put_def sigint_hook_def)

lemma pool_steps_weight: "(pool_step ex cfg opt ^^ k) p p' \<Longrightarrow> k + pool_weight p' \<le> pool_weight p"
proof (induction k arbitrary: p')
  case (Suc k)
  then obtain q where "(pool_step ex cfg opt ^^ k) p q" "pool_step ex cfg opt q p'" by auto
  with Suc.IH [of q] pool_step_weight [of ex cfg opt q p'] show ?case by simp
qed simp

section \<open>The invariant\<close>

text \<open>What stays the same in a job while it travels through the pool, and its result when no
  interrupt occurs.\<close>

definition core :: "job \<Rightarrow> job" where
  "core j = j\<lparr> is_break := False, returncode := 0, elapsed_time := 0 \<rparr>"

definition job_result :: "exec \<Rightarrow> waf_config \<Rightarrow> test_options \<Rightarrow> job \<Rightarrow> job" where
  "job_result ex cfg opt j = (if is_skip j then j else launch_job ex cfg opt j)"

fun real_load :: "worker \<Rightarrow> job multiset" where
  "real_load Idle = {#}"
| "real_load (Got j) = (if is_break j then {#} else {#j#})"
| "real_load (Launched j) = {#j#}"
| "real_load Exited = {#}"

fun leaving :: "worker \<Rightarrow> nat" where
  "leaving Idle = 0"
| "leaving (Got j) = (if is_break j then 1 else 0)"
| "leaving (Launched j) = 0"
| "leaving Exited = 1"

definition in_work :: "pool \<Rightarrow> job multiset" where
  "in_work p = sum_list (map real_load (workers p))"

definition leavers :: "pool \<Rightarrow> nat" where
  "leavers p = sum_list (map leaving (workers p))"

text \<open>The jobs that wait are the real ones, followed by the break jobs.\<close>

definition waiting_are :: "pool \<Rightarrow> job list \<Rightarrow> nat \<Rightarrow> bool" where
  "waiting_are p rs b \<longleftrightarrow> input_queue p @ todo p = rs @ break_jobs b
     \<and> list_all (\<lambda>j. \<not> is_break j) rs"

definition inv_at ::
  "exec \<Rightarrow> waf_config \<Rightarrow> test_options \<Rightarrow> job list \<Rightarrow> nat \<Rightarrow> pool \<Rightarrow> job list \<Rightarrow> nat \<Rightarrow> bool" where
  "inv_at ex cfg opt js n p rs b \<longleftrightarrow> length (workers p) = n \<and> expected p = length js
     \<and> (todo p = [] \<or> collected p = [])
     \<and> list_all (\<lambda>w. \<forall>j. w = Launched j \<longrightarrow> \<not> is_break j \<and> \<not> is_skip j) (workers p)
     \<and> waiting_are p rs b \<and> b + leavers p = n \<and> (rs \<noteq> [] \<longrightarrow> leavers p = 0)
     \<and> mset (map core (output_queue p @ collected p)) + image_mset core (in_work p + mset rs)
       = mset (map core js)
     \<and> (\<not> thread_exit p \<longrightarrow> mset (output_queue p @ collected p)
          + image_mset (job_result ex cfg opt) (in_work p + mset rs) = mset (map (job_result ex cfg opt) js))"

definition pool_inv :: "exec \<Rightarrow> waf_config \<Rightarrow> test_options \<Rightarrow> job list \<Rightarrow> nat \<Rightarrow> pool \<Rightarrow> bool" where
  "pool_inv ex cfg opt js n p \<longleftrightarrow> (\<exists>rs b. inv_at ex cfg opt js n p rs b)"

lemma core_simps [simp]:
  "core (set_is_break b j) = core j" "core (launch_job ex cfg opt j) = core j"
  by (simp_all add: core_def set_is_break_def launch_job_def set_elapsed_time_def set_returncode_def
      case_prod_beta)

lemma break_job_simps [simp]: "is_break (set_is_break b j) = b"
  by (simp add: set_is_break_def)

lemma in_work_update:
  "i < length (workers p) \<Longrightarrow>
     in_work (p\<lparr> workers := (workers p)[i := w] \<rparr>) + real_load (workers p ! i) = in_work p + real_load w"
  "i < length (workers p) \<Longrightarrow>
     leavers (p\<lparr> workers := (workers p)[i := w] \<rparr>) + leaving (workers p ! i) = leavers p + leaving w"
  by (simp_all add: in_work_def leavers_def sum_list_update_worker)

lemma start_pool_inv:
  assumes "list_all (\<lambda>j. \<not> is_break j) js"
  shows "pool_inv ex cfg opt js n (start_pool js n)"
proof -
  have "sum_list (replicate n {#}) = ({#} :: job multiset)" by (induction n) simp_all
  then have "in_work (start_pool js n) = {#}" "leavers (start_pool js n) = 0"
    by (simp_all add: in_work_def leavers_def start_pool_def sum_list_replicate)
  moreover have "waiting_are (start_pool js n) js n"
    using assms by (simp add: waiting_are_def start_pool_def q_empty_def)
  ultimately have "inv_at ex cfg opt js n (start_pool js n) js n"
    by (simp add: inv_at_def start_pool_def q_empty_def list_all_iff)
  then show ?thesis unfolding pool_inv_def by blast
qed

lemma in_work_irrelevant [simp]:
  "in_work (p\<lparr> todo := a \<rparr>) = in_work p" "in_work (p\<lparr> input_queue := b \<rparr>) = in_work p"
  "in_work (p\<lparr> output_queue := b \<rparr>) = in_work p" "in_work (p\<lparr> collected := b \<rparr>) = in_work p"
  "in_work (p\<lparr> thread_exit := c \<rparr>) = in_work p"
  "leavers (p\<lparr> todo := a \<rparr>) = leavers p" "leavers (p\<lparr> input_queue := b \<rparr>) = leavers p"
  "leavers (p\<lparr> output_queue := b \<rparr>) = leavers p" "leavers (p\<lparr> collected := b \<rparr>) = leavers p"
  "leavers (p\<lparr> thread_exit := c \<rparr>) = leavers p"
  by (simp_all add: in_work_def leavers_def)

lemma inv_atI:
  assumes "inv_at ex cfg opt js n p rs b"
    and "length (workers p') = n" "expected p' = expected p" "todo p' = [] \<or> collected p' = []"
    and "list_all (\<lambda>w. \<forall>j. w = Launched j \<longrightarrow> \<not> is_break j \<and> \<not> is_skip j) (workers p')"
    and "waiting_are p' rs' b'" "b' + leavers p' = b + leavers p" "rs' \<noteq> [] \<longrightarrow> leavers p' = 0"
    and "mset (map core (output_queue p' @ collected p')) + image_mset core (in_work p' + mset rs')
      = mset (map core (output_queue p @ collected p)) + image_mset core (in_work p + mset rs)"
    and "\<not> thread_exit p' \<Longrightarrow> \<not> thread_exit p \<and> mset (output_queue p' @ collected p')
        + image_mset (job_result ex cfg opt) (in_work p' + mset rs')
      = mset (output_queue p @ collected p) + image_mset (job_result ex cfg opt) (in_work p + mset rs)"
  shows "pool_inv ex cfg opt js n p'"
  using assms unfolding pool_inv_def inv_at_def by (intro exI [of _ rs'] exI [of _ b']) auto

lemma launched_update:
  assumes "inv_at ex cfg opt js n p rs b" "\<forall>j. w = Launched j \<longrightarrow> \<not> is_break j \<and> \<not> is_skip j"
  shows "list_all (\<lambda>w. \<forall>j. w = Launched j \<longrightarrow> \<not> is_break j \<and> \<not> is_skip j) ((workers p)[i := w])"
  using assms set_update_subset_insert [of "workers p" i w] unfolding list_all_iff inv_at_def by blast

text \<open>Steps of a worker that keep the queue of waiting jobs: the jobs of \<open>new\<close> leave the load of
  the worker for the output queue.\<close>

lemma pool_inv_worker:
  assumes "pool_inv ex cfg opt js n p" and i: "i < length (workers p)"
    and w: "\<forall>j. w = Launched j \<longrightarrow> \<not> is_break j \<and> \<not> is_skip j"
    and leave: "leaving w = leaving (workers p ! i)"
    and cores: "image_mset core (real_load (workers p ! i))
      = image_mset core (real_load w) + mset (map core new)"
    and results: "\<not> thread_exit p \<Longrightarrow> image_mset (job_result ex cfg opt) (real_load (workers p ! i))
      = image_mset (job_result ex cfg opt) (real_load w) + mset new"
  shows "pool_inv ex cfg opt js n
    (p\<lparr> workers := (workers p)[i := w], output_queue := output_queue p @ new \<rparr>)"
proof -
  let ?p = "p\<lparr> workers := (workers p)[i := w] \<rparr>"
  obtain rs b where inv: "inv_at ex cfg opt js n p rs b" using assms(1) by (auto simp: pool_inv_def)
  have l: "leavers ?p = leavers p" using in_work_update(2) [OF i, of w] leave by simp
  have e: "image_mset f (in_work ?p) + image_mset f (real_load (workers p ! i))
      = image_mset f (in_work p) + image_mset f (real_load w)" for f
    using in_work_update(1) [OF i, of w] by (metis image_mset_union)
  have c: "image_mset core (in_work p) = image_mset core (in_work ?p) + mset (map core new)"
    using e [of core] unfolding cores by (simp add: ac_simps)
  have r: "image_mset (job_result ex cfg opt) (in_work p)
      = image_mset (job_result ex cfg opt) (in_work ?p) + mset new" if "\<not> thread_exit p"
    using e [of "job_result ex cfg opt"] unfolding results [OF that] by (simp add: ac_simps)
  show ?thesis
  proof (rule inv_atI [OF inv, of _ rs b])
    show "waiting_are (p\<lparr> workers := (workers p)[i := w], output_queue := output_queue p @ new \<rparr>) rs b"
      using inv by (simp add: waiting_are_def inv_at_def)
  qed (use inv l c r launched_update [OF inv w] in \<open>auto simp: inv_at_def ac_simps\<close>)
qed

lemma pool_inv_get:
  assumes "pool_inv ex cfg opt js n p" and i: "i < length (workers p)" "workers p ! i = Idle"
    and q: "input_queue p = j # q"
  shows "pool_inv ex cfg opt js n (p\<lparr> input_queue := q, workers := (workers p)[i := Got j] \<rparr>)"
    (is "pool_inv _ _ _ _ _ ?p")
proof -
  obtain rs b where inv: "inv_at ex cfg opt js n p rs b" using assms(1) by (auto simp: pool_inv_def)
  have iw: "in_work ?p = in_work p + real_load (Got j)"
    and le: "leavers ?p = leavers p + leaving (Got j)"
    using in_work_update [OF i(1), of "Got j"] i(2) by (simp_all add: in_work_def leavers_def)
  have wait: "j # q @ todo p = rs @ break_jobs b" "list_all (\<lambda>j. \<not> is_break j) rs"
    "rs \<noteq> [] \<longrightarrow> leavers p = 0"
    using inv q by (simp_all add: waiting_are_def inv_at_def)
  note la = launched_update [OF inv, of "Got j" i]
  show ?thesis
  proof (cases rs)
    case Nil
    then obtain b' where b: "b = Suc b'" "j = set_is_break True Job_init" "q @ todo p = break_jobs b'"
      using wait(1) by (cases b) (auto simp: break_jobs_def)
    show ?thesis
      by (rule inv_atI [OF inv, of _ "[]" b'])
        (use inv la iw le b Nil in \<open>auto simp: inv_at_def waiting_are_def\<close>)
  next
    case (Cons r rs')
    then have r: "r = j" "q @ todo p = rs' @ break_jobs b" "\<not> is_break j" using wait by auto
    show ?thesis
      by (rule inv_atI [OF inv, of _ rs' b])
        (use inv la iw le r Cons wait in \<open>auto simp: inv_at_def waiting_are_def\<close>)
  qed
qed

lemma pool_inv_step:
  assumes "pool_step ex cfg opt p p'" "pool_inv ex cfg opt js n p"
  shows "pool_inv ex cfg opt js n p'"
  using assms
proof (induction rule: pool_step.induct)
  case (main_put p j js')
  then obtain rs b where inv: "inv_at ex cfg opt js n p rs b" by (auto simp: pool_inv_def)
  show ?case
    by (rule inv_atI [OF inv, of _ rs b])
      (use inv main_put in \<open>auto simp: inv_at_def waiting_are_def q_put_def\<close>)
next
  case (worker_get i p j q)
  then show ?case by (intro pool_inv_get pyq.get_Some)
next
  case (worker_return i p j)
  have b: "is_break j" using worker_return(3) by (auto simp: decide_def split: if_splits)
  show ?case
    using pool_inv_worker [OF worker_return(4,1), of Exited "[]"] worker_return(2) b by simp
next
  case (worker_putback i p j j')
  have "\<not> is_break j" "thread_exit p \<and> j' = set_is_break True j \<or> \<not> thread_exit p \<and> is_skip j \<and> j' = j"
    using worker_putback(3) by (auto simp: decide_def split: if_splits)
  then show ?case
    using pool_inv_worker [OF worker_putback(4,1), of Idle "[j']"] worker_putback(2)
    by (auto simp: q_put_def job_result_def)
next
  case (worker_launch i p j)
  have "\<not> is_break j" "\<not> is_skip j" using worker_launch(3) by (auto simp: decide_def split: if_splits)
  then show ?case
    using pool_inv_worker [OF worker_launch(4,1), of "Launched j" "[]"] worker_launch(2) by simp
next
  case (worker_done i p j)
  have "list_all (\<lambda>w. \<forall>j. w = Launched j \<longrightarrow> \<not> is_break j \<and> \<not> is_skip j) (workers p)"
    using worker_done(3) by (auto simp: pool_inv_def inv_at_def)
  moreover have "Launched j \<in> set (workers p)" using worker_done(1,2) nth_mem by metis
  ultimately have "\<not> is_skip j" by (auto simp: list_all_iff)
  then show ?case
    using pool_inv_worker [OF worker_done(3,1), of Idle "[launch_job ex cfg opt j]"] worker_done(2)
    by (simp add: q_put_def job_result_def)
next
  case (main_collect p j q)
  then have "output_queue p = j # q" by (intro pyq.get_Some)
  moreover obtain rs b where inv: "inv_at ex cfg opt js n p rs b"
    using main_collect by (auto simp: pool_inv_def)
  ultimately show ?case
    by (intro inv_atI [OF inv, of _ rs b])
      (use main_collect in \<open>auto simp: inv_at_def waiting_are_def\<close>)
next
  case (interrupt p)
  then obtain rs b where inv: "inv_at ex cfg opt js n p rs b" by (auto simp: pool_inv_def)
  show ?case
    by (rule inv_atI [OF inv, of _ rs b])
      (use inv in \<open>auto simp: inv_at_def waiting_are_def sigint_hook_def\<close>)
qed

lemma in_work_empty: "\<forall>w \<in> set (workers p). real_load w = {#} \<Longrightarrow> in_work p = {#}"
proof -
  have "\<forall>w \<in> set ws. real_load w = {#} \<Longrightarrow> sum_list (map real_load ws) = {#}" for ws
    by (induction ws) auto
  then show "\<forall>w \<in> set (workers p). real_load w = {#} \<Longrightarrow> in_work p = {#}"
    by (simp add: in_work_def)
qed

lemma pool_inv_steps:
  assumes "(pool_step ex cfg opt)\<^sup>*\<^sup>* (start_pool js n) p" "list_all (\<lambda>j. \<not> is_break j) js"
  shows "pool_inv ex cfg opt js n p"
  using assms by (induction rule: rtranclp_induct) (auto intro: start_pool_inv pool_inv_step)

section \<open>Progress, termination and delivery\<close>

lemma sum_leaving_all:
  "sum_list (map leaving ws) = length ws \<Longrightarrow> \<forall>w \<in> set ws. leaving w = 1"
proof (induction ws)
  case (Cons w ws)
  have le: "leaving v \<le> 1" for v by (cases v) auto
  have "sum_list (map leaving ws) \<le> length ws"
    using sum_list_mono [of ws leaving "\<lambda>_. 1"] le by (simp add: sum_list_triv)
  with Cons le [of w] show ?case by (auto simp: le_Suc_eq)
qed simp

lemma got_can_step:
  assumes "i < length (workers p)" "workers p ! i = Got j"
  shows "\<exists>p'. pool_step ex cfg opt p p' \<and> thread_exit p' = thread_exit p"
  using assms
  by (cases "decide (thread_exit p) j")
    (fastforce intro: worker_return worker_putback worker_launch)+

lemma busy_can_step:
  assumes "w \<in> set (workers p)" "w \<noteq> Idle" "w \<noteq> Exited"
  shows "\<exists>p'. pool_step ex cfg opt p p' \<and> thread_exit p' = thread_exit p"
proof -
  obtain i where i: "i < length (workers p)" "workers p ! i = w"
    using assms(1) by (auto simp: in_set_conv_nth)
  show ?thesis
  proof (cases w)
    case (Got j)
    with i show ?thesis using got_can_step by blast
  next
    case (Launched j)
    with i worker_done [of i p j ex cfg opt] show ?thesis by fastforce
  qed (use assms in auto)
qed

lemma quiet_can_step:
  assumes inv: "inv_at ex cfg opt js n p rs b" and "0 < n" "\<not> joined p" "todo p = []"
    and quiet: "\<forall>w \<in> set (workers p). w = Idle \<or> w = Exited"
  shows "\<exists>p'. pool_step ex cfg opt p p' \<and> thread_exit p' = thread_exit p"
proof (cases "input_queue p")
  case Nil
  then have w: "rs = []" "b = 0"
    using inv assms(4) by (auto simp: inv_at_def waiting_are_def break_jobs_def)
  then have "sum_list (map leaving (workers p)) = length (workers p)"
    using inv by (simp add: inv_at_def leavers_def)
  then have all: "list_all (\<lambda>w. w = Exited) (workers p)"
    using sum_leaving_all quiet by (fastforce simp: list_all_iff)
  have "in_work p = {#}" using quiet by (intro in_work_empty) auto
  then have "mset (map core (output_queue p @ collected p)) = mset (map core js)"
    using inv w by (simp add: inv_at_def)
  then have "length (output_queue p @ collected p) = length js" by (metis length_map mset_eq_length)
  then have "length (collected p) \<noteq> expected p \<Longrightarrow> length (collected p) < expected p \<and> output_queue p \<noteq> []"
    using inv by (auto simp: inv_at_def)
  then have "length (collected p) < expected p" "output_queue p \<noteq> []"
    using assms(3,4) all by (auto simp: joined_def)
  then obtain j q where "q_get (output_queue p) = Some (j, q)" by (cases "output_queue p") auto
  with main_collect [OF assms(4) \<open>length (collected p) < expected p\<close>] show ?thesis by fastforce
next
  case (Cons j q)
  have "\<exists>i < length (workers p). workers p ! i = Idle"
  proof (rule ccontr)
    assume "\<not> ?thesis"
    then have "\<forall>w \<in> set (workers p). w = Exited" using quiet by (metis in_set_conv_nth)
    then have "\<forall>w \<in> set (workers p). leaving w = 1" by auto
    then have "leavers p = n"
      using inv sum_list_const [of "workers p" leaving 1] by (simp add: inv_at_def leavers_def)
    then have "rs = []" "b = 0" using inv assms(2) by (auto simp: inv_at_def)
    then show False using inv Cons by (auto simp: inv_at_def waiting_are_def break_jobs_def)
  qed
  then obtain i where "i < length (workers p)" "workers p ! i = Idle" by blast
  moreover have "q_get (input_queue p) = Some (j, q)" using Cons by simp
  ultimately show ?thesis using worker_get [of i p j q ex cfg opt] by fastforce
qed

text \<open>A complete run of one worker on one job.\<close>

definition demo_state :: "job list \<Rightarrow> job list \<Rightarrow> worker \<Rightarrow> job list \<Rightarrow> job list \<Rightarrow> pool" where
  "demo_state td inq w outq col = \<lparr> todo = td, input_queue = inq, workers = [w], output_queue = outq,
     collected = col, expected = 1, thread_exit = False \<rparr>"

abbreviation demo_break :: job where
  "demo_break \<equiv> set_is_break True Job_init"

abbreviation demo_step :: "pool \<Rightarrow> pool \<Rightarrow> bool" where
  "demo_step \<equiv> pool_step demo_exec demo_cfg default_options"

abbreviation demo_done :: job where
  "demo_done \<equiv> launch_job demo_exec demo_cfg default_options demo_job"

lemma demo_steps:
  "demo_step (demo_state [demo_job, demo_break] [] Idle [] []) (demo_state [demo_break] [demo_job] Idle [] [])"
  "demo_step (demo_state [demo_break] [demo_job] Idle [] []) (demo_state [] [demo_job, demo_break] Idle [] [])"
  "demo_step (demo_state [] [demo_job, demo_break] Idle [] []) (demo_state [] [demo_break] (Got demo_job) [] [])"
  "demo_step (demo_state [] [demo_break] (Got demo_job) [] []) (demo_state [] [demo_break] (Launched demo_job) [] [])"
  "demo_step (demo_state [] [demo_break] (Launched demo_job) [] []) (demo_state [] [demo_break] Idle [demo_done] [])"
  "demo_step (demo_state [] [demo_break] Idle [demo_done] []) (demo_state [] [] (Got demo_break) [demo_done] [])"
  "demo_step (demo_state [] [] (Got demo_break) [demo_done] []) (demo_state [] [] Exited [demo_done] [])"
  "demo_step (demo_state [] [] Exited [demo_done] []) (demo_state [] [] Exited [] [demo_done])"
  using main_put [of "demo_state [demo_job, demo_break] [] Idle [] []" demo_job "[demo_break]"]
    main_put [of "demo_state [demo_break] [demo_job] Idle [] []" demo_break "[]"]
    worker_get [of 0 "demo_state [] [demo_job, demo_break] Idle [] []" demo_job "[demo_break]"]
    worker_launch [of 0 "demo_state [] [demo_break] (Got demo_job) [] []" demo_job]
    worker_done [of 0 "demo_state [] [demo_break] (Launched demo_job) [] []" demo_job]
    worker_get [of 0 "demo_state [] [demo_break] Idle [demo_done] []" demo_break "[]"]
    worker_return [of 0 "demo_state [] [] (Got demo_break) [demo_done] []" demo_break]
    main_collect [of "demo_state [] [] Exited [demo_done] []" demo_done "[]"]
  by (simp_all add: demo_state_def q_put_def decide_def demo_job_def Job_init_def set_is_break_def)

lemma demo_start: "start_pool [demo_job] 1 = demo_state [demo_job, demo_break] [] Idle [] []"
  by (simp add: start_pool_def demo_state_def break_jobs_def q_empty_def)

lemma demo_reaches: "demo_step\<^sup>*\<^sup>* (start_pool [demo_job] 1) (demo_state [] [] Exited [] [demo_done])"
  unfolding demo_start
  by ((rule converse_rtranclp_into_rtranclp, rule demo_steps)+, rule rtranclp.rtrancl_refl)

lemma demo_real: "list_all (\<lambda>j. \<not> is_break j) [demo_job]"
  by (simp add: demo_job_def Job_init_def)

lemma demo_joined: "joined (demo_state [] [] Exited [] [demo_done])"
  by (simp add: joined_def demo_state_def)

text \<open>
  C3. The worker pool does not deadlock: in every state that is reachable from the start with at least
  one worker, under any interleaving and with SIGINT at any time, either the main thread has all
  results and all workers have returned, or some thread can make a step.
\<close>

theorem pool_no_deadlock:
  assumes "list_all (\<lambda>j. \<not> is_break j) js" and "0 < n"
    and "(pool_step ex cfg opt)\<^sup>*\<^sup>* (start_pool js n) p" and "\<not> joined p"
  shows "\<exists>p'. pool_step ex cfg opt p p' \<and> thread_exit p' = thread_exit p"
proof -
  obtain rs b where inv: "inv_at ex cfg opt js n p rs b"
    using pool_inv_steps [OF assms(3,1)] by (auto simp: pool_inv_def)
  show ?thesis
  proof (cases "todo p")
    case (Cons j js')
    with main_put [of p j js' ex cfg opt] show ?thesis by fastforce
  next
    case Nil
    with quiet_can_step [OF inv assms(2,4)] busy_can_step show ?thesis by metis
  qed
qed

theorem pool_no_deadlock_witness:
  "\<exists>p'. demo_step (demo_state [demo_job, demo_break] [] Idle [] []) p' \<and> \<not> thread_exit p'"
proof -
  have "\<not> joined (start_pool [demo_job] 1)" unfolding demo_start by (simp add: joined_def demo_state_def)
  from pool_no_deadlock [OF demo_real zero_less_one rtranclp.rtrancl_refl this]
  obtain p' where "demo_step (start_pool [demo_job] 1) p'"
    "thread_exit p' = thread_exit (start_pool [demo_job] 1)" by blast
  then show ?thesis unfolding demo_start by (auto simp: demo_state_def)
qed

text \<open>
  C4. The worker pool terminates: a run with \<open>n\<close> workers on a list of jobs has at most five steps per
  job and worker, and one for SIGINT.
\<close>

theorem pool_run_bounded:
  assumes "(pool_step ex cfg opt ^^ k) (start_pool js n) p"
  shows "k \<le> 5 * (length js + n) + 1"
proof -
  have "pool_weight (start_pool js n) = 5 * (length js + n) + 1"
    by (simp add: pool_weight_def start_pool_def q_empty_def break_jobs_def sum_list_replicate)
  with pool_steps_weight [OF assms] show ?thesis by simp
qed

theorem pool_run_bounded_witness: "(1::nat) \<le> 5 * (length [demo_job] + 1) + 1"
proof (rule pool_run_bounded)
  show "(demo_step ^^ 1) (start_pool [demo_job] 1) (demo_state [demo_break] [demo_job] Idle [] [])"
    unfolding demo_start using demo_steps(1) by (auto simp: OO_def)
qed

lemma joined_empty:
  assumes "inv_at ex cfg opt js n p rs b" "joined p"
  shows "in_work p = {#}" "rs = []" "output_queue p = []"
proof -
  have all: "\<forall>w \<in> set (workers p). w = Exited" using assms(2) by (simp add: joined_def list_all_iff)
  show 1: "in_work p = {#}" using all by (intro in_work_empty) auto
  have len: "length (output_queue p @ collected p) + length rs = length js"
    using assms(1) 1 mset_eq_length [of "map core (output_queue p @ collected p @ rs)" "map core js"]
    by (simp add: inv_at_def ac_simps)
  moreover have "length (collected p) = length js" using assms by (simp add: joined_def inv_at_def)
  ultimately show "rs = []" "output_queue p = []" by auto
qed

lemma joined_delivered:
  assumes "list_all (\<lambda>j. \<not> is_break j) js"
    and "(pool_step ex cfg opt)\<^sup>*\<^sup>* (start_pool js n) p" and "joined p"
  shows "mset (map core (collected p)) = mset (map core js)
    \<and> (\<not> thread_exit p \<longrightarrow> mset (collected p) = mset (map (job_result ex cfg opt) js))"
proof -
  obtain rs b where inv: "inv_at ex cfg opt js n p rs b"
    using pool_inv_steps [OF assms(2,1)] by (auto simp: pool_inv_def)
  from inv joined_empty [OF inv assms(3)] show ?thesis by (auto simp: inv_at_def)
qed

text \<open>
  C2. When the main thread has joined the workers it has received every job exactly once (up to the
  fields that running changes), and without an interrupt exactly the results of running, or
  skipping, each job.
\<close>

theorem pool_delivers:
  assumes "list_all (\<lambda>j. \<not> is_break j) js"
    and "(pool_step ex cfg opt)\<^sup>*\<^sup>* (start_pool js n) p" and "joined p"
  shows "mset (map core (collected p)) = mset (map core js)
    \<and> (\<not> thread_exit p \<longrightarrow> mset (collected p) = mset (map (job_result ex cfg opt) js))"
  using assms by (rule joined_delivered)

theorem pool_delivers_witness:
  "mset (collected (demo_state [] [] Exited [] [demo_done]))
     = mset (map (job_result demo_exec demo_cfg default_options) [demo_job])"
  using pool_delivers [OF _ demo_reaches demo_joined]
  by (simp add: demo_job_def Job_init_def demo_state_def)

end
