(* ===== verification/PyXml.thy ===== *)
theory PyXml
  imports PyBase
begin

text \<open>
  The element trees of \<open>xml.etree\<close> as a datatype, with the searches \<open>find\<close> and \<open>findall\<close> for a tag or a path of two tags,
  and the sequence of events in which \<open>iterparse\<close> reports the elements. The lemmas bound the size of a child and
  describe a document by its events.
\<close>

datatype xml = Elem (xtag: string) (xattrs: "(string \<times> string) list") (xtext: "string option") (xkids: "xml list")

definition findall :: "string \<Rightarrow> xml \<Rightarrow> xml list" where
  "findall t e = filter (\<lambda>k. xtag k = t) (xkids e)"

definition xfind :: "string \<Rightarrow> xml \<Rightarrow> xml option" where
  "xfind t e = List.find (\<lambda>k. xtag k = t) (xkids e)"

text \<open>\<open>findall('a/b')\<close>.\<close>

definition findall_path :: "string \<Rightarrow> string \<Rightarrow> xml \<Rightarrow> xml list" where
  "findall_path a b e = concat (map (findall b) (findall a e))"

text \<open>\<open>el.get(name)\<close>.\<close>

definition xget :: "string \<Rightarrow> xml \<Rightarrow> string option" where
  "xget a e = map_of (xattrs e) a"

lemma size_findall: "k \<in> set (findall t e) \<Longrightarrow> size k < size e"
  by (cases e) (auto simp: findall_def less_Suc_eq_le elem_le_sum_list trans_le_add2 dest: size_list_estimation')

datatype xml_event = StartEv | EndEv

text \<open>\<open>iterparse\<close> with start and end events; at the end event the element is complete.\<close>

fun xml_events :: "xml \<Rightarrow> (xml_event \<times> xml) list" where
  "xml_events (Elem t a x ks) =
     [(StartEv, Elem t a x ks)] @ concat (map xml_events ks) @ [(EndEv, Elem t a x ks)]"

end
