(* ===== verification/TestReport.thy ===== *)
theory TestReport
  imports TestPool PyXml
begin

text \<open>
  The test driver \<open>test.py\<close>, third part: dispatching the jobs, collecting the results in the main
  thread, the XML file that is written on the way, the exit status, and the translations of the
  XML results to text and to HTML.

  A written file is the list of the strings passed to \<open>write\<close>. The XML tree that
  \<open>ElementTree.parse\<close> returns is the datatype \<open>xml\<close>; a missing child is the value \<open>None\<close> of
  \<open>find\<close>, whose attribute \<open>text\<close> raises AttributeError, and a missing text prints as \<open>None\<close>. The
  rendering of a time with \<open>%.3f\<close> is the parameter \<open>fmt\<close>, and the contents of the temporary result
  files are the parameter \<open>tmp\<close>.
\<close>

abbreviation nl :: char where "nl \<equiv> CHR 0x0A"

section \<open>Dispatching\<close>

record surroundings =
  sr_exists :: "string \<Rightarrow> bool"
  sr_cpp_list :: "string \<Rightarrow> cpp_example list"
  sr_py_list :: "string \<Rightarrow> py_example list"
  sr_eval :: "string \<Rightarrow> bool"
  sr_programs :: "string list"
  sr_scripts :: "string list"
  sr_getcwd :: string

definition dispatch_jobs ::
  "exec \<Rightarrow> surroundings \<Rightarrow> waf_config \<Rightarrow> test_options \<Rightarrow> string \<Rightarrow> (job list \<times> string list) res" where
  "dispatch_jobs ex sr cfg opt outdir =
     (let (example_tests, python_tests) = find_examples (sr_exists sr) (sr_cpp_list sr) (sr_py_list sr) cfg
      in bind_res (select_suites ex cfg opt (sr_getcwd sr)) (\<lambda>suites.
           let js1 = suite_jobs cfg opt (sr_getcwd sr) outdir suites;
               (js2, m2) = example_jobs (sr_eval sr) cfg opt (sr_programs sr) (sr_getcwd sr) outdir example_tests;
               (js3, m3) = pyexample_jobs (sr_eval sr) cfg opt (sr_scripts sr) (sr_getcwd sr) outdir python_tests
           in Inr (js1 @ js2 @ js3, m2 @ m3)))"

section \<open>Collecting\<close>

datatype status = PASS | FAIL | VALGR | CRASH | SKIP

definition status_str :: "status \<Rightarrow> string" where
  "status_str s = (case s of PASS \<Rightarrow> ''PASS'' | FAIL \<Rightarrow> ''FAIL'' | VALGR \<Rightarrow> ''VALGR''
     | CRASH \<Rightarrow> ''CRASH'' | SKIP \<Rightarrow> ''SKIP'')"

definition job_status :: "job \<Rightarrow> status" where
  "job_status j =
     (if is_skip j then SKIP
      else if returncode j = 0 then PASS
      else if returncode j = 1 then FAIL
      else if returncode j = 2 then VALGR
      else CRASH)"

record tally =
  passed_tests :: nat
  failed_tests :: nat
  crashed_tests :: nat
  valgrind_errors :: nat
  skipped_tests :: nat
  xml_file :: "string list"
  printed :: "string list"

definition tally_init :: tally where
  "tally_init = \<lparr> passed_tests = 0, failed_tests = 0, crashed_tests = 0, valgrind_errors = 0,
     skipped_tests = 0, xml_file = [''<?xml version=\"1.0\"?>'' @ [nl], ''<Results>'' @ [nl]], printed = [] \<rparr>"

definition count_status :: "status \<Rightarrow> tally \<Rightarrow> tally" where
  "count_status s t =
     (case s of
        SKIP \<Rightarrow> t\<lparr> skipped_tests := skipped_tests t + 1 \<rparr>
      | PASS \<Rightarrow> t\<lparr> passed_tests := passed_tests t + 1 \<rparr>
      | FAIL \<Rightarrow> t\<lparr> failed_tests := failed_tests t + 1 \<rparr>
      | VALGR \<Rightarrow> t\<lparr> valgrind_errors := valgrind_errors t + 1 \<rparr>
      | CRASH \<Rightarrow> t\<lparr> crashed_tests := crashed_tests t + 1 \<rparr>)"

definition example_xml :: "(rat \<Rightarrow> string) \<Rightarrow> job \<Rightarrow> string list" where
  "example_xml fmt j =
     [''<Example>'' @ [nl],
      ''  <Name>'' @ display_name j @ ''</Name>'' @ [nl],
      ''  <Result>'' @ status_str (job_status j) @ ''</Result>'' @ [nl],
      ''  <Time real=\"'' @ fmt (elapsed_time j) @ ''\"/>'' @ [nl],
      ''</Example>'' @ [nl]]"

definition skip_xml :: "job \<Rightarrow> string list" where
  "skip_xml j =
     [''<Test>'' @ [nl],
      ''  <Name>'' @ display_name j @ ''</Name>'' @ [nl],
      ''  <Result>SKIP</Result>'' @ [nl],
      ''</Test>'' @ [nl]]"

definition crash_xml :: "job \<Rightarrow> string list" where
  "crash_xml j =
     [''<Test>'' @ [nl],
      ''  <Name>'' @ display_name j @ ''</Name>'' @ [nl],
      ''  <Result>CRASH</Suite>'' @ [nl],
      ''</Test>'' @ [nl]]"

definition valgr_xml :: "job \<Rightarrow> string list" where
  "valgr_xml j =
     [''<Test>'' @ [nl],
      ''  <Name>'' @ display_name j @ ''</Name>'' @ [nl],
      ''  <Result>VALGR</Result>'' @ [nl],
      ''</Test>'' @ [nl]]"

definition suite_xml :: "(string \<Rightarrow> string option) \<Rightarrow> job \<Rightarrow> string list res" where
  "suite_xml tmp j =
     (if is_skip j then Inr (skip_xml j)
      else if returncode j = 0 \<or> returncode j = 1 \<or> returncode j = 2 then
        (case tmp (tmp_file_name j) of None \<Rightarrow> Inl IOError | Some c \<Rightarrow> Inr [c])
      else Inr (crash_xml j @ (if returncode j = 2 then valgr_xml j else [])))"

definition collect_job ::
  "(rat \<Rightarrow> string) \<Rightarrow> (string \<Rightarrow> string option) \<Rightarrow> job \<Rightarrow> tally \<Rightarrow> tally res" where
  "collect_job fmt tmp j t =
     (if is_break j then Inr t
      else
        let kind = (if is_example j \<or> is_pyexample j then ''Example'' else ''TestSuite'');
            status = job_status j;
            t1 = count_status status t;
            t2 = t1\<lparr> printed := printed t1 @ [status_str status @ '': '' @ kind @ '' '' @ display_name j] \<rparr>
        in bind_res (if is_example j \<or> is_pyexample j then Inr (example_xml fmt j) else suite_xml tmp j)
             (\<lambda>x. Inr (t2\<lparr> xml_file := xml_file t2 @ x \<rparr>)))"

definition collect_all ::
  "(rat \<Rightarrow> string) \<Rightarrow> (string \<Rightarrow> string option) \<Rightarrow> job list \<Rightarrow> tally res" where
  "collect_all fmt tmp js =
     bind_res (fold_res (collect_job fmt tmp) js tally_init) (\<lambda>t.
       Inr (t\<lparr> xml_file := xml_file t @ [''</Results>'' @ [nl]] \<rparr>))"

definition summary_line :: "nat \<Rightarrow> tally \<Rightarrow> string" where
  "summary_line total_tests t =
     nat_str (passed_tests t) @ '' of '' @ nat_str total_tests @ '' tests passed ('' @ nat_str (passed_tests t)
     @ '' passed, '' @ nat_str (skipped_tests t) @ '' skipped, '' @ nat_str (failed_tests t)
     @ '' failed, '' @ nat_str (crashed_tests t) @ '' crashed, '' @ nat_str (valgrind_errors t)
     @ '' valgrind errors)''"

definition disabled_notes :: "waf_config \<Rightarrow> string list" where
  "disabled_notes cfg =
     (if \<not> ENABLE_TESTS cfg \<or> \<not> ENABLE_EXAMPLES cfg then
        [[]] @
        (if \<not> ENABLE_TESTS cfg then
           [''***  Note: ns-3 tests are currently disabled. Enable them by adding'',
            ''***  \"--enable-tests\" to ./waf configure or modifying your .ns3rc file.'', []] else [])
        @ (if \<not> ENABLE_EXAMPLES cfg then
           [''***  Note: ns-3 examples are currently disabled. Enable them by adding'',
            ''***  \"--enable-examples\" to ./waf configure or modifying your .ns3rc file.'', []] else [])
      else [])"

definition exit_status :: "nat \<Rightarrow> tally \<Rightarrow> int" where
  "exit_status total_tests t = (if passed_tests t + skipped_tests t = total_tests then 0 else 1)"

text \<open>The end of \<open>run_tests\<close>, from the collection of the results to the return value.\<close>

definition finish_tests ::
  "(rat \<Rightarrow> string) \<Rightarrow> (string \<Rightarrow> string option) \<Rightarrow> waf_config \<Rightarrow> nat \<Rightarrow> job list \<Rightarrow> (int \<times> tally) res" where
  "finish_tests fmt tmp cfg total_tests js =
     bind_res (collect_all fmt tmp js) (\<lambda>t.
       Inr (exit_status total_tests t,
            t\<lparr> printed := printed t @ [summary_line total_tests t] @ disabled_notes cfg \<rparr>))"

section \<open>The results file\<close>

definition child_text :: "string \<Rightarrow> xml \<Rightarrow> string option res" where
  "child_text t e = (case xfind t e of None \<Rightarrow> Inl AttributeError | Some k \<Rightarrow> Inr (xtext k))"

definition show_opt :: "string option \<Rightarrow> string" where
  "show_opt s = (case s of None \<Rightarrow> ''None'' | Some x \<Rightarrow> x)"

definition read_test :: "xml \<Rightarrow> (string option \<times> string option \<times> string option) res" where
  "read_test test =
     bind_res (child_text ''Result'' test) (\<lambda>result.
     bind_res (child_text ''Name'' test) (\<lambda>name.
       Inr (result, name,
            (case xfind ''Time'' test of None \<Rightarrow> Some [] | Some t \<Rightarrow> map_of (xattrs t) ''real''))))"

section \<open>Text\<close>

definition detail_text :: "string \<Rightarrow> string \<Rightarrow> xml \<Rightarrow> string res" where
  "detail_text label t d =
     bind_res (child_text t d) (\<lambda>s. Inr (label @ show_opt s @ [nl]))"

definition details_to_text :: "xml \<Rightarrow> string list res" where
  "details_to_text d =
     bind_res (map_res (\<lambda>(label, t). detail_text label t d)
       [(''      Message:   '', ''Message''), (''      Condition: '', ''Condition''),
        (''      Actual:    '', ''Actual''), (''      Limit:     '', ''Limit''),
        (''      File:      '', ''File''), (''      Line:      '', ''Line'')])
       (\<lambda>ls. Inr ((''    Details:'' @ [nl]) # ls))"

function node_to_text :: "xml \<Rightarrow> string list res" where
  "node_to_text test =
     bind_res (read_test test) (\<lambda>(result, name, time_real).
     bind_res (map_res details_to_text (findall ''FailureDetails'' test)) (\<lambda>ds.
     bind_res (map_res node_to_text (findall ''Test'' test)) (\<lambda>cs.
       Inr ((show_opt result @ '': Test Suite \"'' @ show_opt name @ ''\" ('' @ show_opt time_real @ '')'' @ [nl])
            # concat ds @ concat cs))))"
  by pat_completeness auto
termination
  by (relation "measure size") (auto simp: size_findall)

declare node_to_text.simps [simp del]

definition example_to_text :: "xml \<Rightarrow> string res" where
  "example_to_text e =
     bind_res (read_test e) (\<lambda>(result, name, time_real).
       Inr (show_opt result @ '': Example \"'' @ show_opt name @ ''\" ('' @ show_opt time_real @ '')'' @ [nl]))"

definition translate_to_text :: "xml \<Rightarrow> string list res" where
  "translate_to_text et =
     bind_res (map_res node_to_text (findall ''Test'' et)) (\<lambda>ts.
     bind_res (map_res example_to_text (findall ''Example'' et)) (\<lambda>es. Inr (concat ts @ es)))"

section \<open>HTML\<close>

definition html_detail :: "string \<Rightarrow> string \<Rightarrow> string \<Rightarrow> xml \<Rightarrow> string res" where
  "html_detail label t sep d =
     bind_res (child_text t d) (\<lambda>s. Inr (''<b>'' @ label @ '': </b>'' @ show_opt s @ sep))"

text \<open>The row of one failure; the first row repeats the result, the name and the time.\<close>

definition html_failure_row ::
  "bool \<Rightarrow> string option \<Rightarrow> string option \<Rightarrow> string option \<Rightarrow> xml \<Rightarrow> string list res" where
  "html_failure_row first result name time d =
     bind_res (map_res (\<lambda>(label, sep). html_detail label label sep d)
       [(''Message'', '', ''), (''Condition'', '', ''), (''Actual'', '', ''), (''Limit'', '', ''),
        (''File'', '', ''), (''Line'', [])]) (\<lambda>ls.
       Inr ([''<tr>'' @ [nl]]
         @ (if first
            then [''<td style=\"color:red\">'' @ show_opt result @ ''</td>'' @ [nl],
                  ''<td>'' @ show_opt name @ ''</td>'' @ [nl],
                  ''<td>'' @ show_opt time @ ''</td>'' @ [nl]]
            else [''<td></td>'' @ [nl], ''<td></td>'' @ [nl], ''<td></td>'' @ [nl]])
         @ [''<td>''] @ ls @ [''</td>'' @ [nl], ''</td>'' @ [nl]]))"

fun html_failure_rows ::
  "bool \<Rightarrow> string option \<Rightarrow> string option \<Rightarrow> string option \<Rightarrow> xml list \<Rightarrow> string list res" where
  "html_failure_rows first result name time [] = Inr []"
| "html_failure_rows first result name time (d # ds) =
     bind_res (html_failure_row first result name time d) (\<lambda>r.
     bind_res (html_failure_rows False result name time ds) (\<lambda>rs. Inr (r @ rs)))"

definition html_case :: "xml \<Rightarrow> string list res" where
  "html_case c =
     bind_res (read_test c) (\<lambda>(result, name, time).
       if result = Some ''FAIL''
       then html_failure_rows True result name time (findall ''FailureDetails'' c)
       else Inr [''<tr>'' @ [nl],
                 ''<td style=\"color:green\">'' @ show_opt result @ ''</td>'' @ [nl],
                 ''<td>'' @ show_opt name @ ''</td>'' @ [nl],
                 ''<td>'' @ show_opt time @ ''</td>'' @ [nl],
                 ''<td></td>'' @ [nl],
                 ''</tr>'' @ [nl]])"

definition no_cases :: "string option \<Rightarrow> bool" where
  "no_cases result \<longleftrightarrow> result \<in> {Some ''CRASH'', Some ''SKIP'', Some ''VALGR''}"

definition html_suite :: "xml \<Rightarrow> string list res" where
  "html_suite suite =
     bind_res (read_test suite) (\<lambda>(result, name, time).
       let title = show_opt result @ '': '' @ show_opt name @ '' ('' @ show_opt time @ '')'';
           h3 = (if result = Some ''PASS'' then ''<h3 style=\"color:green\">'' @ title @ ''</h3>'' @ [nl]
                 else if result = Some ''SKIP'' then ''<h3 style=\"color:#ff6600\">'' @ title @ ''</h3>'' @ [nl]
                 else ''<h3 style=\"color:red\">'' @ title @ ''</h3>'' @ [nl]);
           head = [h3, ''<table border=\"1\">'' @ [nl], ''<th> Result </th>'' @ [nl]]
       in if no_cases result then
            Inr (head @ [''<tr>'' @ [nl],
              (if result = Some ''SKIP'' then ''<td style=\"color:#ff6600\">'' @ show_opt result @ ''</td>'' @ [nl]
               else ''<td style=\"color:red\">'' @ show_opt result @ ''</td>'' @ [nl]),
              ''</tr>'' @ [nl], ''</table>'' @ [nl]])
          else
            bind_res (map_res html_case (findall ''Test'' suite)) (\<lambda>cs.
              Inr (head @ [''<th>Test Case Name</th>'' @ [nl], ''<th> Time </th>'' @ [nl]]
                @ (if result = Some ''FAIL'' then [''<th>Failure Details</th>'' @ [nl]] else [])
                @ concat cs @ [''</table>'' @ [nl]])))"

definition html_example :: "xml \<Rightarrow> string list res" where
  "html_example e =
     bind_res (read_test e) (\<lambda>(result, name, time).
       Inr [''<tr>'' @ [nl],
            (if result = Some ''PASS'' then ''<td style=\"color:green\">'' @ show_opt result @ ''</td>'' @ [nl]
             else if result = Some ''SKIP'' then ''<td style=\"color:#ff6600\">'' @ show_opt result @ ''</fd>'' @ [nl]
             else ''<td style=\"color:red\">'' @ show_opt result @ ''</td>'' @ [nl]),
            ''<td>'' @ show_opt name @ ''</td>'' @ [nl],
            ''<td>'' @ show_opt time @ ''</td>'' @ [nl],
            ''</tr>'' @ [nl]])"

definition translate_to_html :: "xml \<Rightarrow> string list res" where
  "translate_to_html et =
     bind_res (map_res html_suite (findall ''Test'' et)) (\<lambda>ss.
     bind_res (map_res html_example (findall ''Example'' et)) (\<lambda>es.
       Inr ([''<html>'' @ [nl], ''<body>'' @ [nl], ''<center><h1>ns-3 Test Results</h1></center>'' @ [nl],
             ''<h2>Test Suites</h2>'' @ [nl]]
         @ concat ss
         @ [''<h2>Examples</h2>'' @ [nl], ''<table border=\"1\">'' @ [nl], ''<th> Result </th>'' @ [nl],
            ''<th>Example Name</th>'' @ [nl], ''<th>Elapsed Time</th>'' @ [nl]]
         @ concat es
         @ [''</table>'' @ [nl], ''</body>'' @ [nl], ''</html>'' @ [nl]])))"

section \<open>Counting the results\<close>

definition with_status :: "status \<Rightarrow> job list \<Rightarrow> nat" where
  "with_status s js = length (filter (\<lambda>j. \<not> is_break j \<and> job_status j = s) js)"

definition tally_of :: "job list \<Rightarrow> tally \<Rightarrow> tally \<Rightarrow> bool" where
  "tally_of js t t' \<longleftrightarrow> passed_tests t' = passed_tests t + with_status PASS js
     \<and> failed_tests t' = failed_tests t + with_status FAIL js
     \<and> crashed_tests t' = crashed_tests t + with_status CRASH js
     \<and> valgrind_errors t' = valgrind_errors t + with_status VALGR js
     \<and> skipped_tests t' = skipped_tests t + with_status SKIP js"

lemma collect_job_tally: "collect_job fmt tmp j t = Inr t' \<Longrightarrow> tally_of [j] t t'"
  by (cases "job_status j")
    (auto simp: collect_job_def tally_of_def with_status_def count_status_def Let_def bind_res_Inr_iff
      split: if_splits)

lemma collect_jobs_tally: "fold_res (collect_job fmt tmp) js t = Inr t' \<Longrightarrow> tally_of js t t'"
proof (induction js arbitrary: t)
  case (Cons j js)
  then obtain t1 where "collect_job fmt tmp j t = Inr t1" "fold_res (collect_job fmt tmp) js t1 = Inr t'"
    by (auto simp: bind_res_Inr_iff)
  with Cons.IH [of t1] collect_job_tally [of fmt tmp j t t1] show ?case
    by (simp add: tally_of_def with_status_def)
qed (simp add: tally_of_def with_status_def)

lemma finish_tests_tally:
  assumes "finish_tests fmt tmp cfg n js = Inr (st, t)"
  shows "tally_of js tally_init t \<and> st = exit_status n t"
proof -
  obtain t0 where "fold_res (collect_job fmt tmp) js tally_init = Inr t0"
    "t = t0\<lparr> xml_file := xml_file t0 @ [''</Results>'' @ [nl]],
       printed := printed t0 @ [summary_line n (t0\<lparr> xml_file := xml_file t0 @ [''</Results>'' @ [nl]] \<rparr>)]
         @ disabled_notes cfg \<rparr>"
    "st = exit_status n (t0\<lparr> xml_file := xml_file t0 @ [''</Results>'' @ [nl]] \<rparr>)"
    using assms by (auto simp: finish_tests_def collect_all_def bind_res_Inr_iff)
  with collect_jobs_tally [of fmt tmp js tally_init t0] show ?thesis
    by (simp add: tally_of_def exit_status_def)
qed

lemma with_status_sum:
  "with_status PASS js + with_status FAIL js + with_status CRASH js + with_status VALGR js
     + with_status SKIP js = length (filter (\<lambda>j. \<not> is_break j) js)"
proof (induction js)
  case (Cons j js)
  then show ?case by (cases "job_status j") (auto simp: with_status_def)
qed (simp add: with_status_def)

lemma accounting:
  assumes "finish_tests fmt tmp cfg total_tests js = Inr (st, t)"
  shows "passed_tests t + failed_tests t + crashed_tests t + valgrind_errors t + skipped_tests t
      = length (filter (\<lambda>j. \<not> is_break j) js)
    \<and> (length js = total_tests \<longrightarrow>
        (st = 0 \<longleftrightarrow> (\<forall>j \<in> set js. \<not> is_break j \<and> job_status j \<in> {PASS, SKIP})))"
proof -
  have t: "tally_of js tally_init t" "st = exit_status total_tests t"
    using finish_tests_tally [OF assms] by auto
  have "with_status PASS js + with_status SKIP js
      = length (filter (\<lambda>j. \<not> is_break j \<and> job_status j \<in> {PASS, SKIP}) js)"
    by (induction js) (auto simp: with_status_def)
  moreover have "length (filter P js) = length js \<longleftrightarrow> (\<forall>j \<in> set js. P j)" for P
    by (metis filter_True filter_id_conv length_filter_less less_irrefl)
  ultimately have "st = 0 \<longleftrightarrow> (\<forall>j \<in> set js. \<not> is_break j \<and> job_status j \<in> {PASS, SKIP})"
    if "length js = total_tests"
    using t that by (simp add: exit_status_def tally_of_def tally_init_def)
  then show ?thesis using t(1) with_status_sum [of js] by (simp add: tally_of_def tally_init_def)
qed

text \<open>
  The five counters add up to the number of results that are not marked as interrupted, and when all
  results are there the exit status is zero exactly when every one is PASS or SKIP.
\<close>

theorem finish_tests_accounting:
  assumes "finish_tests fmt tmp cfg total_tests js = Inr (st, t)"
  shows "passed_tests t + failed_tests t + crashed_tests t + valgrind_errors t + skipped_tests t
      = length (filter (\<lambda>j. \<not> is_break j) js)
    \<and> (length js = total_tests \<longrightarrow>
        (st = 0 \<longleftrightarrow> (\<forall>j \<in> set js. \<not> is_break j \<and> job_status j \<in> {PASS, SKIP})))"
  using assms by (rule accounting)

theorem finish_tests_accounting_witness:
  "\<exists>st t. finish_tests (\<lambda>x. ''0.000'') (\<lambda>f. None) demo_cfg 1 [demo_done] = Inr (st, t) \<and> st = 0
     \<and> passed_tests t + failed_tests t + crashed_tests t + valgrind_errors t + skipped_tests t = 1"
proof -
  obtain st t where r: "finish_tests (\<lambda>x. ''0.000'') (\<lambda>f. None) demo_cfg 1 [demo_done] = Inr (st, t)"
    by (simp add: finish_tests_def collect_all_def collect_job_def launch_job_def demo_job_def
        Job_init_def set_returncode_def set_elapsed_time_def case_prod_beta Let_def)
  from finish_tests_accounting [OF r] r show ?thesis
    by (simp add: launch_job_def demo_job_def Job_init_def set_returncode_def set_elapsed_time_def
        case_prod_beta Let_def run_job_synchronously_def demo_exec_def job_status_def default_options_def)
qed

section \<open>The XML entries\<close>

text \<open>The tags of a text (the strings between angle brackets), and whether they are balanced.\<close>

fun xml_tags :: "string option \<Rightarrow> string \<Rightarrow> string list" where
  "xml_tags None [] = []"
| "xml_tags (Some t) [] = [rev t]"
| "xml_tags None (c # s) = (if c = CHR ''<'' then xml_tags (Some []) s else xml_tags None s)"
| "xml_tags (Some t) (c # s) = (if c = CHR ''>'' then rev t # xml_tags None s else xml_tags (Some (c # t)) s)"

fun balanced_tags :: "string list \<Rightarrow> string list \<Rightarrow> bool" where
  "balanced_tags [] st = (st = [])"
| "balanced_tags (t # ts) st =
     (if prefix ''/'' t then (case st of [] \<Rightarrow> False | x # st' \<Rightarrow> x = tl t \<and> balanced_tags ts st')
      else if t \<noteq> [] \<and> last t = CHR ''/'' then balanced_tags ts st
      else balanced_tags ts (takeWhile (\<lambda>c. c \<noteq> CHR '' '') t # st))"

definition well_nested :: "string list \<Rightarrow> bool" where
  "well_nested ls = balanced_tags (xml_tags None (concat ls)) []"

lemma xml_tags_text: "CHR ''<'' \<notin> set w \<Longrightarrow> xml_tags None (w @ s) = xml_tags None s"
  by (induction w) auto

lemma xml_tags_inside: "CHR ''>'' \<notin> set w \<Longrightarrow> xml_tags (Some t) (w @ s) = xml_tags (Some (rev w @ t)) s"
  by (induction w arbitrary: t) auto

text \<open>
  The XML entries that \<open>test.py\<close> writes itself are well nested for examples and for skipped suites,
  for every name without an opening bracket, and never for a crashed suite, whose \<open>Result\<close> element
  is closed with the wrong tag.
\<close>

theorem crash_entry_malformed:
  assumes "CHR ''<'' \<notin> set (display_name j)" and "CHR ''>'' \<notin> set (fmt (elapsed_time j))"
  shows "well_nested (example_xml fmt j) \<and> well_nested (skip_xml j) \<and> \<not> well_nested (crash_xml j)"
proof -
  have "well_nested (skip_xml j)" "\<not> well_nested (crash_xml j)"
    using assms(1) by (simp_all add: well_nested_def skip_xml_def crash_xml_def xml_tags_text)
  moreover have "well_nested (example_xml fmt j)"
    using assms by (cases "job_status j")
      (simp_all add: well_nested_def example_xml_def xml_tags_text xml_tags_inside status_str_def)
  ultimately show ?thesis by simp
qed

theorem crash_entry_malformed_witness:
  "well_nested (example_xml (\<lambda>x. ''0.000'') demo_job) \<and> well_nested (skip_xml demo_job)
     \<and> \<not> well_nested (crash_xml demo_job)"
  by (rule crash_entry_malformed) (simp_all add: demo_job_def Job_init_def)

lemma valgr_entry_unreachable: "suite_xml tmp j = Inr x \<Longrightarrow> x \<noteq> crash_xml j @ valgr_xml j"
  by (auto simp: suite_xml_def skip_xml_def crash_xml_def valgr_xml_def split: if_splits option.splits)

section \<open>Rows of the HTML report\<close>

definition tr_open :: string where "tr_open = ''<tr>'' @ [nl]"
definition tr_close :: string where "tr_close = ''</tr>'' @ [nl]"

text \<open>The failures that a suite of the report shows, one row each.\<close>

definition case_failures :: "xml \<Rightarrow> nat" where
  "case_failures c =
     (case child_text ''Result'' c of Inr (Some r) \<Rightarrow>
        if r = ''FAIL'' then length (findall ''FailureDetails'' c) else 0 | _ \<Rightarrow> 0)"

definition suite_failures :: "xml \<Rightarrow> nat" where
  "suite_failures s =
     (case child_text ''Result'' s of Inr r \<Rightarrow>
        if no_cases r then 0 else sum_list (map case_failures (findall ''Test'' s)) | _ \<Rightarrow> 0)"

definition row_excess :: "string list \<Rightarrow> nat \<Rightarrow> bool" where
  "row_excess out k \<longleftrightarrow> count_list out tr_open = count_list out tr_close + k"

lemma row_excess_append: "row_excess a k \<Longrightarrow> row_excess b l \<Longrightarrow> row_excess (a @ b) (k + l)"
  by (simp add: row_excess_def)

lemma row_excess_none: "tr_open \<notin> set a \<Longrightarrow> tr_close \<notin> set a \<Longrightarrow> row_excess a 0"
  by (simp add: row_excess_def count_list_0_iff)

lemma row_excess_map_res:
  assumes "\<And>x y. x \<in> set xs \<Longrightarrow> f x = Inr y \<Longrightarrow> row_excess y (g x)" and "map_res f xs = Inr ys"
  shows "row_excess (concat ys) (sum_list (map g xs))"
  using assms
proof (induction xs arbitrary: ys)
  case (Cons x xs)
  then obtain y zs where "f x = Inr y" "map_res f xs = Inr zs" "ys = y # zs"
    by (auto simp: bind_res_Inr_iff)
  with Cons show ?case by (auto intro!: row_excess_append)
qed (simp add: row_excess_def)

lemma failure_row_excess: "html_failure_row b r n t d = Inr out \<Longrightarrow> row_excess out 1"
  by (auto simp: html_failure_row_def html_detail_def bind_res_Inr_iff row_excess_def tr_open_def
      tr_close_def split: if_splits)

lemma failure_rows_excess: "html_failure_rows b r n t ds = Inr out \<Longrightarrow> row_excess out (length ds)"
proof (induction b r n t ds arbitrary: out rule: html_failure_rows.induct)
  case (2 b r n t d ds)
  then obtain x y where "html_failure_row b r n t d = Inr x" "html_failure_rows False r n t ds = Inr y"
    "out = x @ y" by (auto simp: bind_res_Inr_iff)
  with "2.IH" row_excess_append [OF failure_row_excess, of b r n t d x y "length ds"] show ?case by auto
qed (simp add: row_excess_def)

lemma read_test_result: "read_test c = Inr (r, n, t) \<Longrightarrow> child_text ''Result'' c = Inr r"
  by (auto simp: read_test_def bind_res_Inr_iff)

lemma html_case_excess:
  assumes "html_case c = Inr out"
  shows "row_excess out (case_failures c)"
proof -
  obtain r n t where rt: "read_test c = Inr (r, n, t)"
    using assms by (auto simp: html_case_def bind_res_Inr_iff)
  note res = read_test_result [OF rt]
  show ?thesis
  proof (cases "r = Some ''FAIL''")
    case True
    then show ?thesis using assms rt res failure_rows_excess
      by (simp add: html_case_def case_failures_def)
  next
    case False
    then have "case_failures c = 0" using res by (auto simp: case_failures_def split: option.splits)
    with False rt assms show ?thesis
      by (auto simp: html_case_def row_excess_def tr_open_def tr_close_def)
  qed
qed

lemma html_suite_excess:
  assumes "html_suite s = Inr out"
  shows "row_excess out (suite_failures s)"
proof -
  obtain r n t where rt: "read_test s = Inr (r, n, t)"
    using assms by (auto simp: html_suite_def bind_res_Inr_iff)
  note res = read_test_result [OF rt]
  show ?thesis
  proof (cases "no_cases r")
    case True
    then show ?thesis using assms rt res
      by (auto simp: html_suite_def suite_failures_def row_excess_def tr_open_def tr_close_def Let_def)
  next
    case False
    then obtain cs where cs: "map_res html_case (findall ''Test'' s) = Inr cs"
      using assms rt by (auto simp: html_suite_def bind_res_Inr_iff Let_def)
    have "row_excess (concat cs) (sum_list (map case_failures (findall ''Test'' s)))"
      by (rule row_excess_map_res [OF html_case_excess cs])
    with False cs assms rt res show ?thesis
      by (auto simp: html_suite_def suite_failures_def row_excess_def tr_open_def tr_close_def Let_def)
  qed
qed

lemma html_example_excess: "html_example e = Inr out \<Longrightarrow> row_excess out 0"
  by (auto simp: html_example_def bind_res_Inr_iff row_excess_def tr_open_def tr_close_def)

text \<open>
  In the HTML report the rows that are opened exceed the rows that are closed by exactly the number of
  failure details shown, since a failure row is closed with a cell tag; a report without
  failures has balanced rows.
\<close>

theorem html_rows_unclosed:
  assumes "translate_to_html et = Inr out"
  shows "count_list out (''<tr>'' @ [nl])
    = count_list out (''</tr>'' @ [nl]) + sum_list (map suite_failures (findall ''Test'' et))"
proof -
  obtain ss es where s: "map_res html_suite (findall ''Test'' et) = Inr ss"
    and e: "map_res html_example (findall ''Example'' et) = Inr es"
    using assms by (auto simp: translate_to_html_def bind_res_Inr_iff)
  have "row_excess (concat ss) (sum_list (map suite_failures (findall ''Test'' et)))"
    by (rule row_excess_map_res [OF html_suite_excess s])
  moreover have "row_excess (concat es) (sum_list (map (\<lambda>e. 0) (findall ''Example'' et)))"
    by (rule row_excess_map_res [OF html_example_excess e])
  ultimately show ?thesis using assms s e
    by (simp add: translate_to_html_def row_excess_def tr_open_def tr_close_def)
      (auto simp: sum_list_triv)
qed

theorem html_rows_unclosed_witness:
  "\<exists>out. translate_to_html (Elem ''Results'' [] None [Elem ''Test'' [] None
      [Elem ''Name'' [] (Some ''s'') [], Elem ''Result'' [] (Some ''PASS'') []]]) = Inr out
     \<and> count_list out (''<tr>'' @ [nl]) = count_list out (''</tr>'' @ [nl])"
proof -
  obtain out where r: "translate_to_html (Elem ''Results'' [] None [Elem ''Test'' [] None
      [Elem ''Name'' [] (Some ''s'') [], Elem ''Result'' [] (Some ''PASS'') []]]) = Inr out"
    by (simp add: translate_to_html_def html_suite_def findall_def read_test_def child_text_def xfind_def
        no_cases_def Let_def)
  from html_rows_unclosed [OF r] r show ?thesis
    by (simp add: findall_def suite_failures_def child_text_def xfind_def no_cases_def)
qed

end
