(* ===== verification/ShellCmd.thy ===== *)
theory ShellCmd
  imports PyOs
begin

text \<open>
  The small shell of the build, \<open>waf-tools/shellcmd.py\<close>: \<open>Pipeline.parse\<close> turns the words of a command line
  into a list of commands, directory changes and operators, \<open>Pipeline.run\<close> executes that list.

  Starting and waiting for processes and opening files are operations of the system, the fields of the
  record \<open>osys\<close> over a state of any type; \<open>dev_null\<close> is a handle of its own. The messages of \<open>debug\<close>
  are left out. The specification of \<open>run\<close> is the evaluation of a script, a tree of groups of piped commands;
  the lemmas show that the parser only produces the node lists of such scripts and that \<open>run\<close> evaluates them.
\<close>

section \<open>Data\<close>

text \<open>\<open>Command.PIPE\<close>, \<open>Command.STDOUT\<close>, or the name of a file.\<close>

datatype redirect = PIPE | STDOUT | File string

record command =
  c_name :: string
  c_argv :: "string list"
  c_stdin :: "string option"
  c_stdout :: "redirect option"
  c_stderr :: "redirect option"
  c_env_vars :: "(string, string) dict option"

definition Command_init :: "string \<Rightarrow> command" where
  "Command_init n = \<lparr> c_name = n, c_argv = [n], c_stdin = None, c_stdout = None, c_stderr = None,
     c_env_vars = None \<rparr>"

datatype node = Pipe | And | Or | Command command | Chdir "string option"

record pipeline =
  current_command :: "node option"
  nodes :: "node list"

definition Pipeline_init :: pipeline where
  "Pipeline_init = \<lparr> current_command = None, nodes = [] \<rparr>"

definition commit_command :: "pipeline \<Rightarrow> pipeline res" where
  "commit_command p =
     (case current_command p of
        None \<Rightarrow> Inl AssertionError
      | Some n \<Rightarrow> Inr (p\<lparr> nodes := nodes p @ [n], current_command := None \<rparr>))"

text \<open>The branch for \<open>||\<close> repeats the test for \<open>And\<close>, so an \<open>Or\<close> leaves nothing.\<close>

definition abbreviated :: "node \<Rightarrow> string list" where
  "abbreviated n =
     (case n of
        Command c \<Rightarrow> [c_name c]
      | Chdir d \<Rightarrow> [''cd '' @ (case d of None \<Rightarrow> ''None'' | Some s \<Rightarrow> s)]
      | Pipe \<Rightarrow> [''|'']
      | And \<Rightarrow> [''&&'']
      | Or \<Rightarrow> [])"

definition get_abbreviated_command :: "pipeline \<Rightarrow> string" where
  "get_abbreviated_command p = str_join '' '' (concat (map abbreviated (nodes p)))"

section \<open>Parsing\<close>

text \<open>\<open>env_var_rx\<close>; the dollar sign also matches before a newline at the end.\<close>

definition is_word :: "char \<Rightarrow> bool" where
  "is_word c \<longleftrightarrow> is_digit c \<or> c = CHR ''_'' \<or>
     (65 \<le> (of_char c :: nat) \<and> (of_char c :: nat) \<le> 90) \<or> (97 \<le> (of_char c :: nat) \<and> (of_char c :: nat) \<le> 122)"

definition env_var_rx :: "string \<Rightarrow> (string \<times> string) option" where
  "env_var_rx token =
     (let k = takeWhile is_word token; r = dropWhile is_word token in
      case r of
        [] \<Rightarrow> None
      | e # r' \<Rightarrow>
          let v = takeWhile (\<lambda>c. \<not> is_space c) r'; z = dropWhile (\<lambda>c. \<not> is_space c) r'
          in if k \<noteq> [] \<and> e = CHR ''='' \<and> v \<noteq> [] \<and> (z = [] \<or> z = [CHR 0x0A]) then Some (k, v) else None)"

datatype pstate = BEGIN | COMMAND | CHDIR | ERR | OUT | IN

record parser =
  p_pipe :: pipeline
  p_state :: pstate
  p_env :: "(string, string) dict"

definition parser_init :: parser where
  "parser_init = \<lparr> p_pipe = Pipeline_init, p_state = BEGIN, p_env = [] \<rparr>"

definition set_current :: "node \<Rightarrow> parser \<Rightarrow> parser" where
  "set_current n st = st\<lparr> p_pipe := (p_pipe st)\<lparr> current_command := Some n \<rparr> \<rparr>"

text \<open>An assignment to an attribute of the current command, which may raise.\<close>

definition on_command :: "(command \<Rightarrow> command res) \<Rightarrow> parser \<Rightarrow> parser res" where
  "on_command f st =
     (case current_command (p_pipe st) of
        Some (Command c) \<Rightarrow> bind_res (f c) (\<lambda>c'. Inr (set_current (Command c') st))
      | _ \<Rightarrow> Inl AttributeError)"

definition end_command :: "node \<Rightarrow> parser \<Rightarrow> parser res" where
  "end_command opr st =
     bind_res (commit_command (p_pipe st)) (\<lambda>p.
       Inr (st\<lparr> p_pipe := p\<lparr> nodes := nodes p @ [opr] \<rparr>, p_state := BEGIN \<rparr>))"

definition set_stdout :: "redirect \<Rightarrow> command \<Rightarrow> command res" where
  "set_stdout r c = (if c_stdout c \<noteq> None then Inl AssertionError else Inr (c\<lparr> c_stdout := Some r \<rparr>))"

definition set_stderr :: "redirect \<Rightarrow> command \<Rightarrow> command res" where
  "set_stderr r c = (if c_stderr c \<noteq> None then Inl AssertionError else Inr (c\<lparr> c_stderr := Some r \<rparr>))"

definition set_stdin :: "string \<Rightarrow> command \<Rightarrow> command res" where
  "set_stdin f c = (if c_stdin c \<noteq> None then Inl AssertionError else Inr (c\<lparr> c_stdin := Some f \<rparr>))"

definition add_arg :: "string \<Rightarrow> command \<Rightarrow> command res" where
  "add_arg a c = Inr (c\<lparr> c_argv := c_argv c @ [a] \<rparr>)"

definition goto :: "pstate \<Rightarrow> parser \<Rightarrow> parser" where
  "goto s st = st\<lparr> p_state := s \<rparr>"

definition parse_begin :: "string \<Rightarrow> parser \<Rightarrow> parser res" where
  "parse_begin token st =
     (case env_var_rx token of
        Some (k, v) \<Rightarrow> Inr (st\<lparr> p_env := AList.update k v (p_env st) \<rparr>)
      | None \<Rightarrow>
          if current_command (p_pipe st) \<noteq> None then Inl AssertionError
          else if token = ''cd'' then
            (if p_env st \<noteq> [] then Inl AssertionError
             else Inr (goto CHDIR (set_current (Chdir None) st)))
          else
            let c = Command_init token;
                c' = (if p_env st \<noteq> [] then c\<lparr> c_env_vars := Some (p_env st) \<rparr> else c)
            in Inr (goto COMMAND (set_current (Command c') (st\<lparr> p_env := [] \<rparr>))))"

definition parse_command :: "string \<Rightarrow> parser \<Rightarrow> parser res" where
  "parse_command token st =
     (if token = ''>'' then Inr (goto OUT st)
      else if token = ''2>'' then Inr (goto ERR st)
      else if token = ''2>&1'' then on_command (set_stderr STDOUT) st
      else if token = ''<'' then Inr (goto IN st)
      else if token = ''|'' then bind_res (on_command (set_stdout PIPE) st) (end_command Pipe)
      else if token = ''&&'' then end_command And st
      else if token = ''||'' then end_command Or st
      else on_command (add_arg token) st)"

definition parse_chdir :: "string \<Rightarrow> parser \<Rightarrow> parser res" where
  "parse_chdir token st =
     (if token = ''&&'' then end_command And st
      else (case current_command (p_pipe st) of
              Some (Chdir d) \<Rightarrow>
                if d \<noteq> None then Inl AssertionError else Inr (set_current (Chdir (Some token)) st)
            | _ \<Rightarrow> Inl AttributeError))"

definition parse_token :: "string \<Rightarrow> parser \<Rightarrow> parser res" where
  "parse_token token st =
     (case p_state st of
        BEGIN \<Rightarrow> parse_begin token st
      | COMMAND \<Rightarrow> parse_command token st
      | CHDIR \<Rightarrow> parse_chdir token st
      | OUT \<Rightarrow> bind_res (on_command (set_stdout (File token)) st) (\<lambda>s. Inr (goto COMMAND s))
      | ERR \<Rightarrow> bind_res (on_command (set_stderr (File token)) st) (\<lambda>s. Inr (goto COMMAND s))
      | IN \<Rightarrow> bind_res (on_command (set_stdin token) st) (\<lambda>s. Inr (goto COMMAND s)))"

text \<open>The argument of \<open>parse\<close>: a list of words, or a string that \<open>shlex\<close> splits.\<close>

datatype command_line = Words "string list" | Line string

definition parse_pipeline :: "command_line \<Rightarrow> pipeline res" where
  "parse_pipeline cl =
     bind_res (case cl of Words ws \<Rightarrow> Inr ws | Line s \<Rightarrow> shlex_split s) (\<lambda>tokens.
     bind_res (fold_res parse_token tokens parser_init) (\<lambda>st.
       commit_command (p_pipe st)))"

section \<open>Running\<close>

datatype handle = DevNull | Handle nat

text \<open>What a standard stream of a new process is connected to.\<close>

datatype stream = Inherit | Opened handle | OutputOf nat | NewPipe | SameAsStdout

record spawn =
  sp_argv :: "string list"
  sp_stdin :: stream
  sp_stdout :: stream
  sp_stderr :: stream
  sp_env :: "(string, string) dict option"
  sp_cwd :: "string option"

record 'w osys =
  os_open_read :: "string \<Rightarrow> 'w \<Rightarrow> (nat \<times> 'w) res"
  os_open_write :: "string \<Rightarrow> 'w \<Rightarrow> (nat \<times> 'w) res"
  os_close :: "nat \<Rightarrow> 'w \<Rightarrow> 'w"
  os_popen :: "spawn \<Rightarrow> 'w \<Rightarrow> (nat \<times> 'w) res"
  os_wait :: "nat \<Rightarrow> 'w \<Rightarrow> int \<times> 'w"
  os_print :: "string \<Rightarrow> 'w \<Rightarrow> 'w"
  os_environ :: "(string, string) dict"
  os_items :: "string list \<Rightarrow> string list"

definition open_out_file :: "'w osys \<Rightarrow> string \<Rightarrow> 'w \<Rightarrow> (handle \<times> 'w) res" where
  "open_out_file os f w =
     (if f \<in> {''NUL:'', ''/dev/null''} then Inr (DevNull, w)
      else bind_res (os_open_write os f w) (\<lambda>(h, w'). Inr (Handle h, w')))"

text \<open>
  The local variables of \<open>run\<close>. A process is remembered with whether its \<open>stdout\<close> attribute is a pipe.
\<close>

record run_state =
  files_to_close :: "handle list"
  piped_commands :: "(nat \<times> bool) list"
  display :: "string list"
  piping :: bool
  cwd :: string

definition run_init :: run_state where
  "run_init = \<lparr> files_to_close = [], piped_commands = [], display = [], piping = False, cwd = ''.'' \<rparr>"

definition show_if :: "bool \<Rightarrow> string list \<Rightarrow> run_state \<Rightarrow> run_state" where
  "show_if v ls st = (if v then st\<lparr> display := display st @ ls \<rparr> else st)"

definition keep_open :: "handle \<Rightarrow> run_state \<Rightarrow> run_state" where
  "keep_open h st = st\<lparr> files_to_close := files_to_close st @ [h] \<rparr>"

definition command_display :: "(string list \<Rightarrow> string list) \<Rightarrow> command \<Rightarrow> string" where
  "command_display items c =
     (case c_env_vars c of
        None \<Rightarrow> str_join '' '' (c_argv c)
      | Some e \<Rightarrow>
          if e = [] then str_join '' '' (c_argv c)
          else str_join '' '' (map (\<lambda>k. k @ ''='' @ the (map_of e k)) (items (keys e))) @ '' ''
               @ str_join '' '' (c_argv c))"

definition choose_stdin ::
    "'w osys \<Rightarrow> bool \<Rightarrow> command \<Rightarrow> run_state \<times> 'w \<Rightarrow> (stream \<times> run_state \<times> 'w) res" where
  "choose_stdin os verbose c = (\<lambda>(st, w).
     if piping st then
       (case rev (piped_commands st) of
          [] \<Rightarrow> Inl IndexError
        | (pid, has_pipe) # _ \<Rightarrow> Inr (if has_pipe then OutputOf pid else Inherit, st, w))
     else (case c_stdin c of
             None \<Rightarrow> Inr (Inherit, st, w)
           | Some f \<Rightarrow>
               bind_res (os_open_read os f w) (\<lambda>(h, w').
                 Inr (Opened (Handle h), keep_open (Handle h) (show_if verbose [''< '' @ f] st), w'))))"

definition choose_stdout ::
    "'w osys \<Rightarrow> bool \<Rightarrow> command \<Rightarrow> run_state \<times> 'w \<Rightarrow> (stream \<times> run_state \<times> 'w) res" where
  "choose_stdout os verbose c = (\<lambda>(st, w).
     case c_stdout c of
       None \<Rightarrow> Inr (Inherit, st, w)
     | Some PIPE \<Rightarrow> Inr (NewPipe, st, w)
     | Some STDOUT \<Rightarrow> Inl TypeError
     | Some (File f) \<Rightarrow>
         bind_res (open_out_file os f w) (\<lambda>(h, w').
           Inr (Opened h, show_if verbose [''> '' @ f] (keep_open h st), w')))"

definition choose_stderr ::
    "'w osys \<Rightarrow> bool \<Rightarrow> command \<Rightarrow> run_state \<times> 'w \<Rightarrow> (stream \<times> run_state \<times> 'w) res" where
  "choose_stderr os verbose c = (\<lambda>(st, w).
     case c_stderr c of
       None \<Rightarrow> Inr (Inherit, st, w)
     | Some PIPE \<Rightarrow> Inr (NewPipe, st, w)
     | Some STDOUT \<Rightarrow> Inr (SameAsStdout, show_if verbose [''2>&1''] st, w)
     | Some (File f) \<Rightarrow>
         bind_res (open_out_file os f w) (\<lambda>(h, w').
           Inr (Opened h, show_if verbose [''2> '' @ f] (keep_open h st), w')))"

definition command_env :: "'w osys \<Rightarrow> command \<Rightarrow> (string, string) dict option" where
  "command_env os c =
     (case c_env_vars c of
        None \<Rightarrow> None
      | Some e \<Rightarrow> if e = [] then None
                  else Some (foldl (\<lambda>d (k, v). AList.update k v d) (os_environ os) e))"

definition start_command ::
    "'w osys \<Rightarrow> bool \<Rightarrow> command \<Rightarrow> run_state \<times> 'w \<Rightarrow> (run_state \<times> 'w) res" where
  "start_command os verbose c = (\<lambda>(st, w).
     bind_res (choose_stdin os verbose c (show_if verbose [command_display (os_items os) c] st, w)) (\<lambda>(i, s1).
     bind_res (choose_stdout os verbose c s1) (\<lambda>(out, s2).
     bind_res (choose_stderr os verbose c s2) (\<lambda>(err, st3, w3).
     bind_res (os_popen os \<lparr> sp_argv = c_argv c, sp_stdin = i, sp_stdout = out, sp_stderr = err,
                 sp_env = command_env os c, sp_cwd = (if cwd st3 = ''.'' then None else Some (cwd st3)) \<rparr> w3)
       (\<lambda>(pid, w4). Inr (st3\<lparr> piped_commands := piped_commands st3 @ [(pid, out = NewPipe)] \<rparr>, w4))))))"

text \<open>\<open>_exec_piped_commands\<close>: all processes are waited for before the codes are looked at.\<close>

fun wait_all :: "'w osys \<Rightarrow> (nat \<times> bool) list \<Rightarrow> 'w \<Rightarrow> int list \<times> 'w" where
  "wait_all os [] w = ([], w)"
| "wait_all os ((pid, b) # ps) w =
     (let (r, w1) = os_wait os pid w; (rs, w2) = wait_all os ps w1 in (r # rs, w2))"

fun first_failure :: "int list \<Rightarrow> int list \<Rightarrow> int" where
  "first_failure retvals [] = 0"
| "first_failure retvals (r # rs) = (if r \<noteq> 0 then last retvals else first_failure retvals rs)"

definition exec_piped_commands :: "'w osys \<Rightarrow> (nat \<times> bool) list \<Rightarrow> 'w \<Rightarrow> int \<times> 'w" where
  "exec_piped_commands os ps w =
     (let (retvals, w') = wait_all os ps w in (first_failure retvals retvals, w'))"

definition close_files :: "'w osys \<Rightarrow> handle list \<Rightarrow> 'w \<Rightarrow> 'w" where
  "close_files os hs w = foldl (\<lambda>w h. case h of DevNull \<Rightarrow> w | Handle n \<Rightarrow> os_close os n w) w hs"

definition collect_group :: "'w osys \<Rightarrow> run_state \<times> 'w \<Rightarrow> int \<times> run_state \<times> 'w" where
  "collect_group os = (\<lambda>(st, w).
     let (retval, w') = exec_piped_commands os (piped_commands st) w
     in (retval, st\<lparr> files_to_close := [] \<rparr>, close_files os (files_to_close st) w'))"

definition next_group :: "run_state \<Rightarrow> run_state" where
  "next_group st = st\<lparr> piping := False, piped_commands := [], display := [] \<rparr>"

text \<open>
  The loop over the nodes. With \<open>verbose\<close> the branches of \<open>&&\<close> and \<open>||\<close> format the variable \<open>retval\<close>, which
  is only assigned in the last branch of the loop.
\<close>

fun run_nodes :: "'w osys \<Rightarrow> bool \<Rightarrow> node list \<Rightarrow> run_state \<times> 'w \<Rightarrow> (int option \<times> 'w) res" where
  "run_nodes os verbose [] (st, w) = Inr (None, w)"
| "run_nodes os verbose (Chdir d # rest) (st, w) =
     (case rest of
        [] \<Rightarrow> Inl IndexError
      | next_op # rest' \<Rightarrow>
          if next_op \<noteq> And then Inl AssertionError
          else (case d of
                  None \<Rightarrow> Inl AttributeError
                | Some s \<Rightarrow>
                    run_nodes os verbose rest'
                      (show_if verbose [''cd '' @ s @ '' &&''] (st\<lparr> cwd := path_join (cwd st) s \<rparr>), w)))"
| "run_nodes os verbose (Command c # rest) (st, w) =
     bind_res (start_command os verbose c (st, w)) (\<lambda>(st1, w1).
       case rest of
         [] \<Rightarrow>
           (case exec_piped_commands os (piped_commands st1) w1 of
              (retval, w2) \<Rightarrow>
                let w3 = (if verbose
                          then os_print os (str_join '' '' (display st1) @ '': exit code '' @ int_str retval) w2
                          else w2)
                in Inr (Some retval, close_files os (files_to_close st1) w3))
       | Pipe # rest' \<Rightarrow>
           run_nodes os verbose rest' (st1\<lparr> piping := True, display := display st1 @ [''|''] \<rparr>, w1)
       | Or # rest' \<Rightarrow>
           (case collect_group os (st1, w1) of
              (this_retval, st2, w2) \<Rightarrow>
                if verbose then Inl UnboundLocalError
                else if this_retval = 0 then Inr (Some this_retval, w2)
                else run_nodes os verbose rest' (next_group st2, w2))
       | And # rest' \<Rightarrow>
           (case collect_group os (st1, w1) of
              (this_retval, st2, w2) \<Rightarrow>
                if verbose then Inl UnboundLocalError
                else if this_retval \<noteq> 0 then Inr (Some this_retval, w2)
                else run_nodes os verbose rest' (next_group st2, w2))
       | other # rest' \<Rightarrow> run_nodes os verbose rest' (st1, w1))"
| "run_nodes os verbose (opr # rest) (st, w) = Inl AssertionError"

definition run_pipeline :: "'w osys \<Rightarrow> bool \<Rightarrow> pipeline \<Rightarrow> 'w \<Rightarrow> (int option \<times> 'w) res" where
  "run_pipeline os verbose p w = run_nodes os verbose (nodes p) (run_init, w)"


definition main_command :: string where
  "main_command = ''./foo.py 2>&1 < xxx | cat && ls''"

text \<open>\<open>_main\<close>: the constructor, the parser and a run.\<close>

definition shell_main :: "'w osys \<Rightarrow> 'w \<Rightarrow> (int option \<times> 'w) res" where
  "shell_main os w = bind_res (parse_pipeline (Line main_command)) (\<lambda>p. run_pipeline os False p w)"

section \<open>Specification: scripts\<close>

text \<open>
  A group is a list of commands that are connected by pipes, each after some directory changes. A script
  chains groups; the rest of a chain depends on the exit code of its first group.
\<close>

type_synonym item = "string list \<times> command"

datatype connective = AndThen | OrElse

datatype script = Final "item list" | Chain "item list" connective script

definition item_nodes :: "item \<Rightarrow> node list" where
  "item_nodes = (\<lambda>(ds, c). concat (map (\<lambda>d. [Chdir (Some d), And]) ds) @ [Command c])"

fun group_nodes :: "item list \<Rightarrow> node list" where
  "group_nodes [] = []"
| "group_nodes [i] = item_nodes i"
| "group_nodes (i # is) = item_nodes i @ Pipe # group_nodes is"

definition connective_node :: "connective \<Rightarrow> node" where
  "connective_node k = (case k of AndThen \<Rightarrow> And | OrElse \<Rightarrow> Or)"

fun script_nodes :: "script \<Rightarrow> node list" where
  "script_nodes (Final g) = group_nodes g"
| "script_nodes (Chain g k s) = group_nodes g @ connective_node k # script_nodes s"

fun script_ok :: "script \<Rightarrow> bool" where
  "script_ok (Final g) \<longleftrightarrow> g \<noteq> []"
| "script_ok (Chain g k s) \<longleftrightarrow> g \<noteq> [] \<and> script_ok s"

fun start_group :: "'w osys \<Rightarrow> item list \<Rightarrow> run_state \<times> 'w \<Rightarrow> (run_state \<times> 'w) res" where
  "start_group os [] s = Inr s"
| "start_group os ((ds, c) # is) (st, w) =
     bind_res (start_command os False c (st\<lparr> cwd := foldl path_join (cwd st) ds \<rparr>, w)) (\<lambda>(st', w').
       start_group os is (st'\<lparr> piping := True \<rparr>, w'))"

text \<open>A group starts all its commands, waits for them, and has the exit code of the last one.\<close>

definition exec_group :: "'w osys \<Rightarrow> item list \<Rightarrow> string \<Rightarrow> 'w \<Rightarrow> (int \<times> string \<times> 'w) res" where
  "exec_group os g dir w =
     bind_res (start_group os g (run_init\<lparr> cwd := dir \<rparr>, w)) (\<lambda>(st, w1).
       let (rs, w2) = wait_all os (piped_commands st) w1
       in Inr (last rs, cwd st, close_files os (files_to_close st) w2))"

fun eval_script :: "'w osys \<Rightarrow> script \<Rightarrow> string \<Rightarrow> 'w \<Rightarrow> (int option \<times> 'w) res" where
  "eval_script os (Final g) dir w =
     bind_res (exec_group os g dir w) (\<lambda>(r, _, w'). Inr (Some r, w'))"
| "eval_script os (Chain g k s) dir w =
     bind_res (exec_group os g dir w) (\<lambda>(r, dir', w').
       if (r = 0) = (k = OrElse) then Inr (Some r, w') else eval_script os s dir' w')"

section \<open>What the parser returns\<close>

definition block_ok :: "node \<Rightarrow> node \<Rightarrow> bool" where
  "block_ok x opr =
     (case x of
        Command c \<Rightarrow> (opr = Pipe \<and> c_stdout c = Some PIPE) \<or> (opr \<in> {And, Or} \<and> c_stdout c \<noteq> Some PIPE)
      | Chdir d \<Rightarrow> opr = And
      | _ \<Rightarrow> False)"

definition end_ok :: "node \<Rightarrow> bool" where
  "end_ok x = (case x of Command c \<Rightarrow> c_stdout c \<noteq> Some PIPE | Chdir d \<Rightarrow> True | _ \<Rightarrow> False)"

fun blocks :: "node list \<Rightarrow> bool" where
  "blocks [] = True"
| "blocks [x] = False"
| "blocks (x # opr # ns) \<longleftrightarrow> block_ok x opr \<and> blocks ns"

fun wf_nodes :: "node list \<Rightarrow> bool" where
  "wf_nodes [] = False"
| "wf_nodes [x] = end_ok x"
| "wf_nodes (x # opr # ns) \<longleftrightarrow> block_ok x opr \<and> wf_nodes ns"

lemma blocks_snoc: "blocks ns \<Longrightarrow> blocks (ns @ [x, opr]) \<longleftrightarrow> block_ok x opr"
  by (induction ns rule: blocks.induct) auto

lemma blocks_end: "blocks ns \<Longrightarrow> wf_nodes (ns @ [x]) \<longleftrightarrow> end_ok x"
  by (induction ns rule: blocks.induct) auto

text \<open>The invariant of the parser: which kind of command is under construction in each state.\<close>

definition parser_inv :: "parser \<Rightarrow> bool" where
  "parser_inv st \<longleftrightarrow> blocks (nodes (p_pipe st)) \<and>
     (case p_state st of
        BEGIN \<Rightarrow> current_command (p_pipe st) = None
      | CHDIR \<Rightarrow> (\<exists>d. current_command (p_pipe st) = Some (Chdir d))
      | _ \<Rightarrow> (\<exists>c. current_command (p_pipe st) = Some (Command c) \<and> c_stdout c \<noteq> Some PIPE))"

lemmas parser_ops = parse_begin_def parse_command_def parse_chdir_def on_command_def end_command_def
  commit_command_def set_current_def goto_def set_stdout_def set_stderr_def set_stdin_def add_arg_def

lemma parser_init_inv: "parser_inv parser_init"
  by (simp add: parser_inv_def parser_init_def Pipeline_init_def)

lemma parse_token_inv:
  assumes "parser_inv st" and "parse_token t st = Inr st'"
  shows "parser_inv st'"
  using assms by (cases "p_state st")
    (auto simp: parse_token_def parser_ops parser_inv_def blocks_snoc block_ok_def Command_init_def Let_def
      split: option.splits if_splits)

lemma parse_token_error:
  assumes "parser_inv st" and "parse_token t st = Inl e"
  shows "e = AssertionError"
  using assms by (cases "p_state st")
    (auto simp: parse_token_def parser_ops parser_inv_def Let_def split: option.splits if_splits)

lemma parse_tokens_inv: "fold_res parse_token ts parser_init = Inr st \<Longrightarrow> parser_inv st"
  using fold_res_invariant [of parse_token ts parser_init st parser_inv] parser_init_inv parse_token_inv by blast

lemma fold_res_error:
  assumes "fold_res f xs s = Inl e" and "P s"
    and "\<And>x s s'. P s \<Longrightarrow> f x s = Inr s' \<Longrightarrow> P s'" and "\<And>x s e. P s \<Longrightarrow> f x s = Inl e \<Longrightarrow> Q e"
  shows "Q e"
  using assms(1,2)
proof (induction xs arbitrary: s)
  case (Cons x xs)
  then show ?case using assms(3,4) by (cases "f x s") auto
qed simp

lemma parse_words_outcome:
  "case parse_pipeline (Words ws) of
     Inr p \<Rightarrow> wf_nodes (nodes p) \<and> current_command p = None
   | Inl e \<Rightarrow> e = AssertionError"
proof (cases "fold_res parse_token ws parser_init")
  case (Inl e)
  then have "e = AssertionError"
    using fold_res_error [of parse_token ws parser_init e parser_inv "\<lambda>e. e = AssertionError"]
      parser_init_inv parse_token_inv parse_token_error by blast
  with Inl show ?thesis by (simp add: parse_pipeline_def)
next
  case (Inr st)
  then have "parser_inv st" by (rule parse_tokens_inv)
  with Inr show ?thesis
    by (cases "p_state st") (auto simp: parse_pipeline_def commit_command_def parser_inv_def blocks_end end_ok_def
        split: option.splits)
qed


text \<open>
  C12. The parser is type safe. What it returns is a sequence of commands and directory changes with an operator between each
  two, where a command is connected to a pipe exactly when \<open>|\<close> follows it and only \<open>&&\<close> follows a \<open>cd\<close>, and no
  command is left under construction. It never reads an attribute that the current command does not have: the only exceptions
  are its assertions and an unterminated quote or escape in the string.
\<close>

theorem parse_type_safe:
  "case parse_pipeline cl of
     Inr p \<Rightarrow> wf_nodes (nodes p) \<and> current_command p = None
   | Inl e \<Rightarrow> e = AssertionError \<or> (e = ValueError \<and> (\<exists>s. cl = Line s \<and> shlex_split s = Inl ValueError))"
proof (cases cl)
  case (Words ws)
  then show ?thesis using parse_words_outcome [of ws] by (simp split: sum.splits)
next
  case (Line s)
  show ?thesis
  proof (cases "shlex_split s")
    case (Inl e)
    then have "e = ValueError" using shlex_read_error by (simp add: shlex_split_def)
    with Inl Line show ?thesis by (simp add: parse_pipeline_def)
  next
    case (Inr ws)
    then have "parse_pipeline cl = parse_pipeline (Words ws)" using Line by (simp add: parse_pipeline_def)
    then show ?thesis using parse_words_outcome [of ws] by (simp split: sum.splits)
  qed
qed

text \<open>A node list that ends in a command and names a directory in each \<open>cd\<close>.\<close>

definition complete :: "node list \<Rightarrow> bool" where
  "complete ns \<longleftrightarrow> Chdir None \<notin> set ns \<and> (\<exists>c. ns \<noteq> [] \<and> last ns = Command c)"

fun add_dir :: "string \<Rightarrow> item list \<Rightarrow> item list" where
  "add_dir d [] = []"
| "add_dir d ((ds, c) # is) = (d # ds, c) # is"

fun map_first :: "(item list \<Rightarrow> item list) \<Rightarrow> script \<Rightarrow> script" where
  "map_first f (Final g) = Final (f g)"
| "map_first f (Chain g k s) = Chain (f g) k s"

lemma group_nodes_dir: "g \<noteq> [] \<Longrightarrow> group_nodes (add_dir d g) = Chdir (Some d) # And # group_nodes g"
  by (cases g rule: group_nodes.cases) (auto simp: item_nodes_def)

lemma group_nodes_pipe: "g \<noteq> [] \<Longrightarrow> group_nodes (([], c) # g) = Command c # Pipe # group_nodes g"
  by (cases g) (auto simp: item_nodes_def)

lemma add_dir_Nil [simp]: "add_dir d g = [] \<longleftrightarrow> g = []"
  by (cases g) auto

lemma map_first_ok [simp]: "script_ok s \<Longrightarrow> (\<And>g. g \<noteq> [] \<Longrightarrow> f g \<noteq> []) \<Longrightarrow> script_ok (map_first f s)"
  by (cases s) auto

lemma map_first_nodes:
  "script_ok s \<Longrightarrow> (\<And>g. g \<noteq> [] \<Longrightarrow> group_nodes (f g) = pre @ group_nodes g) \<Longrightarrow>
   script_nodes (map_first f s) = pre @ script_nodes s"
  by (cases s) auto

lemma wf_nodes_script:
  "wf_nodes ns \<Longrightarrow> complete ns \<Longrightarrow> \<exists>s. script_ok s \<and> script_nodes s = ns"
proof (induction ns rule: wf_nodes.induct)
  case (2 x)
  then obtain c where "x = Command c" by (auto simp: complete_def)
  then have "script_ok (Final [([], c)]) \<and> script_nodes (Final [([], c)]) = [x]"
    by (simp add: item_nodes_def)
  then show ?case by blast
next
  case (3 x opr ns)
  then have ne: "ns \<noteq> []" and blk: "block_ok x opr" by auto
  with 3 obtain s where s: "script_ok s" "script_nodes s = ns" by (auto simp: complete_def)
  show ?case
  proof (cases x)
    case (Command c)
    consider "opr = Pipe" | "opr = And" | "opr = Or" using blk Command by (auto simp: block_ok_def)
    then show ?thesis
    proof cases
      case 1
      then have "script_nodes (map_first ((#) ([], c)) s) = [x, opr] @ ns" "script_ok (map_first ((#) ([], c)) s)"
        using s Command map_first_nodes [OF s(1), of "(#) ([], c)" "[x, opr]"] by (simp_all add: group_nodes_pipe)
      then show ?thesis by auto
    next
      case 2
      then show ?thesis using s Command
        by (intro exI [of _ "Chain [([], c)] AndThen s"]) (simp add: item_nodes_def connective_node_def)
    next
      case 3
      then show ?thesis using s Command
        by (intro exI [of _ "Chain [([], c)] OrElse s"]) (simp add: item_nodes_def connective_node_def)
    qed
  next
    case (Chdir d)
    then obtain e where "x = Chdir (Some e)" "opr = And"
      using blk 3 by (cases d) (auto simp: complete_def block_ok_def)
    then have "script_nodes (map_first (add_dir e) s) = [x, opr] @ ns" "script_ok (map_first (add_dir e) s)"
      using s map_first_nodes [OF s(1), of "add_dir e" "[x, opr]"] by (simp_all add: group_nodes_dir)
    then show ?thesis by auto
  qed (use blk in \<open>simp_all add: block_ok_def\<close>)
qed simp

section \<open>Running evaluates the script\<close>

lemma first_failure_last:
  "(\<exists>r \<in> set rs. r \<noteq> 0) \<or> rvs = [] \<or> last rvs = 0 \<Longrightarrow> rvs \<noteq> [] \<Longrightarrow> first_failure rvs rs = last rvs"
  by (induction rs) auto

lemma exec_piped_last:
  assumes "ps \<noteq> []"
  shows "exec_piped_commands os ps w = (last (fst (wait_all os ps w)), snd (wait_all os ps w))"
proof -
  have "fst (wait_all os ps w) \<noteq> []" using assms
    by (cases "(os, ps, w)" rule: wait_all.cases) (auto simp: case_prod_beta Let_def)
  moreover have "(\<exists>r \<in> set rs. r \<noteq> 0) \<or> last rs = 0" if "rs \<noteq> []" for rs :: "int list"
    using that by (metis last_in_set)
  ultimately show ?thesis
    using first_failure_last by (simp add: exec_piped_commands_def case_prod_beta Let_def)
qed

definition finish :: "'w osys \<Rightarrow> node list \<Rightarrow> run_state \<times> 'w \<Rightarrow> (int option \<times> 'w) res" where
  "finish os rest s =
     (case collect_group os s of (r, st', w') \<Rightarrow>
        (case rest of
           [] \<Rightarrow> Inr (Some r, w')
         | opr # rest' \<Rightarrow>
             if (r = 0) = (opr = Or) then Inr (Some r, w')
             else run_nodes os False rest' (next_group st', w')))"

lemma run_command:
  assumes "rest = [] \<or> hd rest \<in> {And, Or}"
  shows "run_nodes os False (Command c # rest) s = bind_res (start_command os False c s) (finish os rest)"
proof -
  obtain st w where s: "s = (st, w)" by (cases s)
  have "(\<lambda>(st1, w1). case rest of
         [] \<Rightarrow> (case exec_piped_commands os (piped_commands st1) w1 of (retval, w2) \<Rightarrow>
                  Inr (Some retval, close_files os (files_to_close st1) w2))
       | opr # rest' \<Rightarrow> finish os rest (st1, w1)) = finish os rest"
    by (auto simp: fun_eq_iff finish_def collect_group_def split: list.splits prod.splits)
  with assms show ?thesis unfolding s
    by (cases rest) (auto simp: bind_res_def finish_def fun_eq_iff split: sum.splits prod.splits)
qed

lemma run_dirs:
  "run_nodes os False (concat (map (\<lambda>d. [Chdir (Some d), And]) ds) @ ns) (st, w)
     = run_nodes os False ns (st\<lparr> cwd := foldl path_join (cwd st) ds \<rparr>, w)"
  by (induction ds arbitrary: st) (simp_all add: show_if_def)

lemma choose_display:
  "choose_stdin os False c (st\<lparr> display := d \<rparr>, w)
     = bind_res (choose_stdin os False c (st, w)) (\<lambda>(x, st', w'). Inr (x, st'\<lparr> display := d \<rparr>, w'))"
  "choose_stdout os False c (st\<lparr> display := d \<rparr>, w)
     = bind_res (choose_stdout os False c (st, w)) (\<lambda>(x, st', w'). Inr (x, st'\<lparr> display := d \<rparr>, w'))"
  "choose_stderr os False c (st\<lparr> display := d \<rparr>, w)
     = bind_res (choose_stderr os False c (st, w)) (\<lambda>(x, st', w'). Inr (x, st'\<lparr> display := d \<rparr>, w'))"
  by (auto simp: choose_stdin_def choose_stdout_def choose_stderr_def show_if_def keep_open_def bind_res_assoc
      case_prod_beta split: option.split redirect.split list.split intro!: bind_res_cong)

lemma start_command_display:
  "start_command os False c (st\<lparr> display := d \<rparr>, w)
     = bind_res (start_command os False c (st, w)) (\<lambda>(st', w'). Inr (st'\<lparr> display := d \<rparr>, w'))"
  unfolding start_command_def
  by (auto simp: choose_display show_if_def bind_res_assoc case_prod_beta intro!: bind_res_cong)

lemma finish_display: "finish os rest (st\<lparr> display := d \<rparr>, w) = finish os rest (st, w)"
  by (auto simp: finish_def collect_group_def next_group_def Let_def split: prod.splits list.splits)

lemma display_last:
  "(st :: run_state)\<lparr> display := d, cwd := e \<rparr> = st\<lparr> cwd := e, display := d \<rparr>"
  "(st :: run_state)\<lparr> display := d, piping := b \<rparr> = st\<lparr> piping := b, display := d \<rparr>"
  by simp_all

lemma start_group_display:
  "bind_res (start_group os g (st\<lparr> display := d \<rparr>, w)) (finish os rest)
     = bind_res (start_group os g (st, w)) (finish os rest)"
proof (induction g arbitrary: st w)
  case (Cons i js)
  obtain ds c where i: "i = (ds, c)" by (cases i)
  have "start_command os False c (st\<lparr> display := d, cwd := e \<rparr>, w)
      = bind_res (start_command os False c (st\<lparr> cwd := e \<rparr>, w)) (\<lambda>(st', w'). Inr (st'\<lparr> display := d \<rparr>, w'))" for e
    by (simp only: display_last start_command_display)
  moreover have "bind_res (start_group os js (st'\<lparr> display := d, piping := True \<rparr>, w')) (finish os rest)
      = bind_res (start_group os js (st'\<lparr> piping := True \<rparr>, w')) (finish os rest)" for st' w'
    by (simp only: display_last Cons.IH)
  ultimately show ?case
    by (auto simp: i bind_res_assoc case_prod_beta intro!: bind_res_cong)
qed (simp add: finish_display)

lemma run_group:
  assumes "g \<noteq> []" and "rest = [] \<or> hd rest \<in> {And, Or}"
  shows "run_nodes os False (group_nodes g @ rest) (st, w) = bind_res (start_group os g (st, w)) (finish os rest)"
  using assms(1)
proof (induction g arbitrary: st w rule: group_nodes.induct)
  case (2 i)
  have fin: "finish os rest (st'\<lparr> piping := True \<rparr>, w') = finish os rest (st', w')" for st' w'
    by (auto simp: finish_def collect_group_def next_group_def Let_def split: prod.splits list.splits)
  show ?case
    by (cases i) (auto simp: item_nodes_def run_dirs run_command [OF assms(2)] bind_res_assoc fin case_prod_beta
        simp del: run_nodes.simps intro!: bind_res_cong)
next
  case (3 i j js)
  obtain ds c where i: "i = (ds, c)" by (cases i)
  have "run_nodes os False (group_nodes (j # js) @ rest) (st'\<lparr> piping := True, display := d \<rparr>, w')
      = bind_res (start_group os (j # js) (st'\<lparr> piping := True \<rparr>, w')) (finish os rest)" for st' d w'
    using 3 start_group_display by (metis list.distinct(1))
  moreover have "group_nodes (i # j # js) @ rest
      = concat (map (\<lambda>d. [Chdir (Some d), And]) ds) @ Command c # Pipe # group_nodes (j # js) @ rest"
    by (simp add: i item_nodes_def del: group_nodes.simps(2))
  ultimately show ?case
    by (auto simp: i run_dirs bind_res_assoc case_prod_beta intro!: bind_res_cong
        simp del: group_nodes.simps(2,3) start_group.simps(1))
qed simp


lemma start_command_keeps:
  assumes "start_command os False c (st, w) = Inr (st', w')"
  shows "piped_commands st' \<noteq> []"
  using assms unfolding start_command_def by (auto simp: bind_res_Inr_iff)

lemma start_group_piped:
  assumes "start_group os g (st, w) = Inr (st', w')" and "g \<noteq> []"
  shows "piped_commands st' \<noteq> []"
  using assms
proof (induction g arbitrary: st w)
  case (Cons i js)
  obtain ds c where i: "i = (ds, c)" by (cases i)
  from Cons.prems obtain st1 w1 where
    "start_command os False c (st\<lparr> cwd := foldl path_join (cwd st) ds \<rparr>, w) = Inr (st1, w1)"
    and more: "start_group os js (st1\<lparr> piping := True \<rparr>, w1) = Inr (st', w')"
    by (auto simp: i bind_res_Inr_iff)
  from start_command_keeps [OF this(1)] have "piped_commands st1 \<noteq> []" .
  with more Cons.IH show ?case by (cases js) auto
qed simp

lemma collect_started:
  assumes "start_group os g (run_init\<lparr> cwd := dir \<rparr>, w) = Inr (st, w1)" and "g \<noteq> []"
    and "wait_all os (piped_commands st) w1 = (rs, w2)"
  shows "collect_group os (st, w1) = (last rs, st\<lparr> files_to_close := [] \<rparr>, close_files os (files_to_close st) w2)"
  using start_group_piped [OF assms(1,2)] assms(3) by (simp add: collect_group_def exec_piped_last)

lemma next_group_init: "next_group (st\<lparr> files_to_close := [] \<rparr>) = run_init\<lparr> cwd := cwd st \<rparr>"
  by (simp add: next_group_def run_init_def)

lemma run_script:
  "script_ok s \<Longrightarrow> run_nodes os False (script_nodes s) (run_init\<lparr> cwd := dir \<rparr>, w) = eval_script os s dir w"
proof (induction s arbitrary: dir w)
  case (Final g)
  then have "run_nodes os False (group_nodes g) (run_init\<lparr> cwd := dir \<rparr>, w)
      = bind_res (start_group os g (run_init\<lparr> cwd := dir \<rparr>, w)) (finish os [])"
    using run_group [of g "[]"] by simp
  also have "\<dots> = eval_script os (Final g) dir w"
    using Final unfolding eval_script.simps exec_group_def bind_res_assoc
    by (intro bind_res_cong) (auto simp: finish_def collect_started split: prod.split)
  finally show ?case by simp
next
  case (Chain g k s)
  let ?rest = "connective_node k # script_nodes s"
  have "?rest = [] \<or> hd ?rest \<in> {And, Or}"
    by (cases k; simp add: connective_node_def)
  then have "run_nodes os False (group_nodes g @ ?rest) (run_init\<lparr> cwd := dir \<rparr>, w)
      = bind_res (start_group os g (run_init\<lparr> cwd := dir \<rparr>, w)) (finish os ?rest)"
    using Chain.prems run_group [of g ?rest] by simp
  also have "\<dots> = eval_script os (Chain g k s) dir w"
    using Chain.prems unfolding eval_script.simps exec_group_def bind_res_assoc
    by (intro bind_res_cong)
      (cases k; auto simp: finish_def collect_started next_group_init Chain.IH connective_node_def
        simp del: run_nodes.simps split: prod.split)+
  finally show ?case by simp
qed

text \<open>
  C11. \<open>Pipeline.run\<close> implements the evaluation of scripts. Every command line that \<open>parse\<close> accepts, that ends in
  a command and in which each \<open>cd\<close> names a directory, is the node list of a script, and running it has in every system and
  state the result of evaluating that script: the groups of piped commands are started and waited for in
  turn, the exit code of a group is the one of its last process, \<open>&&\<close> goes on after the code 0 and \<open>||\<close> after any
  other code, and the directory changes add up.
\<close>

theorem run_refines_script:
  assumes "parse_pipeline (Words ws) = Inr p" and "complete (nodes p)"
  shows "\<exists>s. script_ok s \<and> nodes p = script_nodes s \<and>
    (\<forall>os w. run_pipeline os False p w = eval_script os s ''.'' w)"
proof -
  have "wf_nodes (nodes p)" using parse_words_outcome [of ws] assms(1) by simp
  then obtain s where s: "script_ok s" "script_nodes s = nodes p" using wf_nodes_script assms(2) by blast
  have init: "run_init\<lparr> cwd := ''.'' \<rparr> = run_init" by (simp add: run_init_def)
  have "run_pipeline os False p w = eval_script os s ''.'' w" for os :: "'a osys" and w
    using run_script [OF s(1), of os "''.''" w] s(2) init by (simp add: run_pipeline_def)
  then show ?thesis using s by metis
qed


text \<open>A system in which every process ends with the code 0; its state lists the processes.\<close>

definition quiet_os :: "spawn list osys" where
  "quiet_os = \<lparr> os_open_read = (\<lambda>f w. Inr (0, w)), os_open_write = (\<lambda>f w. Inr (1, w)), os_close = (\<lambda>h w. w),
     os_popen = (\<lambda>sp w. Inr (length w, w @ [sp])), os_wait = (\<lambda>pid w. (0, w)), os_print = (\<lambda>s w. w),
     os_environ = [], os_items = id \<rparr>"

definition main_words :: "string list" where
  "main_words = [''./foo.py'', ''2>&1'', ''<'', ''xxx'', ''|'', ''cat'', ''&&'', ''ls'']"

theorem run_refines_script_witness:
  "\<exists>p s. parse_pipeline (Words main_words) = Inr p \<and> script_ok s \<and> nodes p = script_nodes s
     \<and> run_pipeline quiet_os False p [] = eval_script quiet_os s ''.'' []"
proof -
  have ok: "case parse_pipeline (Words main_words) of Inr p \<Rightarrow> complete (nodes p) | Inl e \<Rightarrow> False"
    by (simp add: main_words_def parse_pipeline_def parse_token_def parser_ops parser_init_def Pipeline_init_def
        env_var_rx_def is_word_def is_digit_def is_space_def Command_init_def complete_def)
  then obtain p where p: "parse_pipeline (Words main_words) = Inr p" "complete (nodes p)"
    by (auto split: sum.splits)
  from run_refines_script [where 'a = "spawn list", OF this] p show ?thesis by metis
qed

section \<open>Printing and parsing\<close>

definition command_words :: "command \<Rightarrow> string list" where
  "command_words c =
     (case c_env_vars c of None \<Rightarrow> [] | Some e \<Rightarrow> map (\<lambda>(k, v). k @ ''='' @ v) e)
     @ c_argv c
     @ (case c_stdin c of None \<Rightarrow> [] | Some f \<Rightarrow> [''<'', f])
     @ (case c_stdout c of Some (File f) \<Rightarrow> [''>'', f] | _ \<Rightarrow> [])
     @ (case c_stderr c of Some (File f) \<Rightarrow> [''2>'', f] | Some STDOUT \<Rightarrow> [''2>&1''] | _ \<Rightarrow> [])"

definition node_words :: "node \<Rightarrow> string list" where
  "node_words n =
     (case n of
        Command c \<Rightarrow> command_words c
      | Chdir d \<Rightarrow> ''cd'' # (case d of None \<Rightarrow> [] | Some s \<Rightarrow> [s])
      | Pipe \<Rightarrow> [''|'']
      | And \<Rightarrow> [''&&'']
      | Or \<Rightarrow> [''||''])"

definition operators :: "string list" where
  "operators = [''>'', ''2>'', ''2>&1'', ''<'', ''|'', ''&&'', ''||'']"

text \<open>The words of a command can be told from operators, assignments and \<open>cd\<close>.\<close>

definition printable_command :: "command \<Rightarrow> bool" where
  "printable_command c \<longleftrightarrow>
     c_argv c \<noteq> [] \<and> hd (c_argv c) = c_name c \<and> env_var_rx (c_name c) = None \<and> c_name c \<noteq> ''cd''
     \<and> list_all (\<lambda>a. a \<notin> set operators) (tl (c_argv c))
     \<and> c_stdout c \<noteq> Some STDOUT \<and> c_stderr c \<noteq> Some PIPE
     \<and> (case c_env_vars c of
          None \<Rightarrow> True
        | Some e \<Rightarrow> e \<noteq> [] \<and> distinct (keys e) \<and> list_all (\<lambda>(k, v). env_var_rx (k @ ''='' @ v) = Some (k, v)) e)"

definition printable :: "node \<Rightarrow> bool" where
  "printable n =
     (case n of Command c \<Rightarrow> printable_command c | Chdir d \<Rightarrow> d \<noteq> Some ''&&'' | _ \<Rightarrow> True)"

definition at_begin :: "node list \<Rightarrow> (string, string) dict \<Rightarrow> parser" where
  "at_begin ns e = \<lparr> p_pipe = \<lparr> current_command = None, nodes = ns \<rparr>, p_state = BEGIN, p_env = e \<rparr>"

definition at_node :: "pstate \<Rightarrow> node list \<Rightarrow> node \<Rightarrow> parser" where
  "at_node s ns n = \<lparr> p_pipe = \<lparr> current_command = Some n, nodes = ns \<rparr>, p_state = s, p_env = [] \<rparr>"

lemma update_fresh: "k \<notin> fst ` set d \<Longrightarrow> AList.update k v d = d @ [(k, v)]"
  by (induction d) auto

lemma parse_env_words:
  "distinct (keys (d @ e)) \<Longrightarrow> list_all (\<lambda>(k, v). env_var_rx (k @ ''='' @ v) = Some (k, v)) e \<Longrightarrow>
   fold_res parse_token (map (\<lambda>(k, v). k @ ''='' @ v) e) (at_begin ns d) = Inr (at_begin ns (d @ e))"
proof (induction e arbitrary: d)
  case (Cons kv e)
  obtain k v where kv: "kv = (k, v)" by (cases kv)
  have "parse_token (k @ ''='' @ v) (at_begin ns d) = Inr (at_begin ns (d @ [(k, v)]))"
    using Cons.prems by (simp add: kv parse_token_def at_begin_def parse_begin_def update_fresh)
  with Cons.IH [of "d @ [(k, v)]"] Cons.prems show ?case by (simp add: kv)
qed simp

lemma parse_name:
  "env_var_rx n = None \<Longrightarrow> n \<noteq> ''cd'' \<Longrightarrow>
   parse_token n (at_begin ns e) = Inr (at_node COMMAND ns (Command
     ((Command_init n)\<lparr> c_env_vars := (if e = [] then None else Some e) \<rparr>)))"
  by (auto simp: parse_token_def at_begin_def at_node_def parse_begin_def Command_init_def set_current_def goto_def)

lemma parse_args:
  "list_all (\<lambda>a. a \<notin> set operators) as \<Longrightarrow>
   fold_res parse_token as (at_node COMMAND ns (Command c))
     = Inr (at_node COMMAND ns (Command (c\<lparr> c_argv := c_argv c @ as \<rparr>)))"
proof (induction as arbitrary: c)
  case (Cons a as)
  then have "parse_token a (at_node COMMAND ns (Command c))
      = Inr (at_node COMMAND ns (Command (c\<lparr> c_argv := c_argv c @ [a] \<rparr>)))"
    by (simp add: parse_token_def at_node_def parser_ops operators_def)
  with Cons show ?case by simp
qed simp

lemma parse_redirections:
  assumes "c_stdin c = None" "c_stdout c = None" "c_stderr c = None" "out \<noteq> Some STDOUT" "err \<noteq> Some PIPE"
  shows "fold_res parse_token
      ((case i of None \<Rightarrow> [] | Some f \<Rightarrow> [''<'', f]) @ (case out of Some (File f) \<Rightarrow> [''>'', f] | _ \<Rightarrow> [])
       @ (case err of Some (File f) \<Rightarrow> [''2>'', f] | Some STDOUT \<Rightarrow> [''2>&1''] | _ \<Rightarrow> []))
      (at_node COMMAND ns (Command c))
    = Inr (at_node COMMAND ns (Command (c\<lparr> c_stdin := i,
        c_stdout := (if out = Some PIPE then None else out), c_stderr := err \<rparr>)))"
  using assms by (auto simp: parse_token_def at_node_def parser_ops fold_res_append
      split: option.splits redirect.splits)

text \<open>A command as it stands before the operator that ends it.\<close>

definition unpiped :: "command \<Rightarrow> command" where
  "unpiped c = (if c_stdout c = Some PIPE then c\<lparr> c_stdout := None \<rparr> else c)"

lemma parse_command_words:
  assumes "printable_command c"
  shows "fold_res parse_token (command_words c) (at_begin ns []) = Inr (at_node COMMAND ns (Command (unpiped c)))"
proof -
  obtain as where argv: "c_argv c = c_name c # as"
    and n: "env_var_rx (c_name c) = None" "c_name c \<noteq> ''cd''" "list_all (\<lambda>a. a \<notin> set operators) as"
    using assms by (cases "c_argv c") (auto simp: printable_command_def)
  define e where "e = (case c_env_vars c of None \<Rightarrow> [] | Some e \<Rightarrow> e)"
  have e: "(if e = [] then None else Some e) = c_env_vars c" "distinct (keys e)"
    "list_all (\<lambda>(k, v). env_var_rx (k @ ''='' @ v) = Some (k, v)) e"
    using assms by (auto simp: e_def printable_command_def split: option.splits)
  have words: "(case c_env_vars c of None \<Rightarrow> [] | Some e \<Rightarrow> map (\<lambda>(k, v). k @ ''='' @ v) e)
      = map (\<lambda>(k, v). k @ ''='' @ v) e" by (simp add: e_def split: option.split)
  define R where "R = (case c_stdin c of None \<Rightarrow> [] | Some f \<Rightarrow> [''<'', f])
     @ (case c_stdout c of Some (File f) \<Rightarrow> [''>'', f] | _ \<Rightarrow> [])
     @ (case c_stderr c of Some (File f) \<Rightarrow> [''2>'', f] | Some STDOUT \<Rightarrow> [''2>&1''] | _ \<Rightarrow> [])"
  define b where "b = (Command_init (c_name c))\<lparr> c_env_vars := c_env_vars c, c_argv := c_argv c \<rparr>"
  have "unpiped c = b\<lparr> c_stdin := c_stdin c,
      c_stdout := (if c_stdout c = Some PIPE then None else c_stdout c), c_stderr := c_stderr c \<rparr>"
    by (cases c) (simp add: unpiped_def b_def Command_init_def)
  then have R: "fold_res parse_token R (at_node COMMAND ns (Command b)) = Inr (at_node COMMAND ns (Command (unpiped c)))"
    unfolding R_def using assms by (simp add: parse_redirections b_def Command_init_def printable_command_def)
  have "command_words c = map (\<lambda>(k, v). k @ ''='' @ v) e @ c_name c # as @ R"
    by (simp add: command_words_def words argv R_def)
  moreover have "b = (Command_init (c_name c))\<lparr> c_env_vars := c_env_vars c, c_argv := c_name c # as \<rparr>"
    by (simp add: b_def argv)
  ultimately show ?thesis
    using parse_env_words [of "[]" e ns] e n R
    by (simp add: fold_res_append parse_name parse_args Command_init_def)
qed


lemma parse_dir_words:
  "d \<noteq> Some ''&&'' \<Longrightarrow> fold_res parse_token (node_words (Chdir d)) (at_begin ns []) = Inr (at_node CHDIR ns (Chdir d))"
proof -
  have "env_var_rx ''cd'' = None" by (simp add: env_var_rx_def is_word_def is_digit_def)
  moreover assume "d \<noteq> Some ''&&''"
  ultimately show ?thesis
    by (auto simp: node_words_def parse_token_def at_begin_def at_node_def parser_ops split: option.splits)
qed

lemma parse_block:
  assumes "block_ok x opr" and "printable x"
  shows "fold_res parse_token (node_words x @ node_words opr) (at_begin ns []) = Inr (at_begin (ns @ [x, opr]) [])"
proof (cases x)
  case (Command c)
  then have "fold_res parse_token (node_words x) (at_begin ns []) = Inr (at_node COMMAND ns (Command (unpiped c)))"
    using parse_command_words assms(2) by (simp add: printable_def node_words_def)
  then show ?thesis using assms(1) Command
    by (cases c) (auto simp: fold_res_append block_ok_def node_words_def parse_token_def at_node_def at_begin_def
        parser_ops unpiped_def)
next
  case (Chdir d)
  then have "fold_res parse_token (node_words x) (at_begin ns []) = Inr (at_node CHDIR ns (Chdir d))"
    using parse_dir_words assms(2) by (simp add: printable_def)
  moreover have "node_words opr = [''&&'']" "opr = And"
    using assms(1) Chdir by (simp_all add: block_ok_def node_words_def)
  ultimately show ?thesis using Chdir
    by (simp add: fold_res_append parse_token_def at_node_def at_begin_def parser_ops)
qed (use assms in \<open>simp_all add: block_ok_def\<close>)

lemma parse_end:
  assumes "end_ok x" and "printable x"
  shows "\<exists>s. fold_res parse_token (node_words x) (at_begin ns []) = Inr (at_node s ns x)"
proof (cases x)
  case (Command c)
  then have "fold_res parse_token (node_words x) (at_begin ns []) = Inr (at_node COMMAND ns x)"
    using parse_command_words [of c ns] assms by (simp add: printable_def node_words_def end_ok_def unpiped_def)
  then show ?thesis by blast
next
  case (Chdir d)
  then show ?thesis using parse_dir_words [of d ns] assms(2) by (auto simp: printable_def)
qed (use assms in \<open>simp_all add: end_ok_def\<close>)

lemma parse_nodes:
  "wf_nodes ns \<Longrightarrow> list_all printable ns \<Longrightarrow>
   bind_res (fold_res parse_token (concat (map node_words ns)) (at_begin pre [])) (\<lambda>st. commit_command (p_pipe st))
     = Inr \<lparr> current_command = None, nodes = pre @ ns \<rparr>"
proof (induction ns arbitrary: pre rule: wf_nodes.induct)
  case (2 x)
  then obtain s where "fold_res parse_token (node_words x) (at_begin pre []) = Inr (at_node s pre x)"
    using parse_end by fastforce
  then show ?case by (simp add: commit_command_def at_node_def)
next
  case (3 x opr ns)
  then have "fold_res parse_token (node_words x @ node_words opr) (at_begin pre []) = Inr (at_begin (pre @ [x, opr]) [])"
    using parse_block by simp
  moreover have "concat (map node_words (x # opr # ns)) = (node_words x @ node_words opr) @ concat (map node_words ns)"
    by simp
  ultimately show ?case using 3 by (simp only: fold_res_append [of _ _ "concat (map node_words ns)"]) simp
qed simp

text \<open>
  C16. Printing and parsing of command lines. The words of a well-formed node list whose commands can be told from
  operators, assignments and \<open>cd\<close> are parsed back to that node list, with environment, arguments and
  redirections; when no word holds a single quote, the same holds for the string of the quoted words, which
  \<open>shlex\<close> splits.
\<close>

theorem parse_words_roundtrip:
  assumes "wf_nodes ns" and "list_all printable ns"
    and "list_all (\<lambda>w. CHR 0x27 \<notin> set w) (concat (map node_words ns))"
  shows "parse_pipeline (Words (concat (map node_words ns))) = Inr \<lparr> current_command = None, nodes = ns \<rparr>
    \<and> parse_pipeline (Line (str_join '' '' (map sh_single (concat (map node_words ns)))))
        = Inr \<lparr> current_command = None, nodes = ns \<rparr>"
proof -
  have "parser_init = at_begin [] []" by (simp add: parser_init_def Pipeline_init_def at_begin_def)
  then show ?thesis
    using parse_nodes [OF assms(1,2), of "[]"] shlex_split_quoted [OF assms(3)] by (simp add: parse_pipeline_def)
qed

theorem parse_words_roundtrip_witness:
  "parse_pipeline (Line (str_join '' '' (map sh_single [''X=1'', ''a'', ''b'', ''>'', ''f'', ''||'', ''cd'', ''d''])))
     = Inr \<lparr> current_command = None, nodes = [Command \<lparr> c_name = ''a'', c_argv = [''a'', ''b''], c_stdin = None,
         c_stdout = Some (File ''f''), c_stderr = None, c_env_vars = Some [(''X'', ''1'')] \<rparr>, Or, Chdir (Some ''d'')] \<rparr>"
  using parse_words_roundtrip [of "[Command \<lparr> c_name = ''a'', c_argv = [''a'', ''b''], c_stdin = None,
         c_stdout = Some (File ''f''), c_stderr = None, c_env_vars = Some [(''X'', ''1'')] \<rparr>, Or, Chdir (Some ''d'')]"]
  by (simp add: block_ok_def end_ok_def printable_def printable_command_def operators_def env_var_rx_def is_word_def
      is_digit_def is_space_def node_words_def command_words_def)

section \<open>Verbose runs\<close>

text \<open>A system that opens every file and starts every process.\<close>

definition os_total :: "'w osys \<Rightarrow> bool" where
  "os_total os \<longleftrightarrow> (\<forall>f w. (\<exists>r. os_open_read os f w = Inr r) \<and> (\<exists>r. os_open_write os f w = Inr r))
     \<and> (\<forall>sp w. \<exists>r. os_popen os sp w = Inr r)"

definition can_start :: "run_state \<Rightarrow> bool" where
  "can_start st \<longleftrightarrow> (piping st \<longrightarrow> piped_commands st \<noteq> [])"

lemma choose_total:
  assumes "os_total os" and "c_stdout c \<noteq> Some STDOUT"
  shows "can_start st \<Longrightarrow> \<exists>x st' w'. choose_stdin os v c (st, w) = Inr (x, st', w')"
    and "\<exists>x st' w'. choose_stdout os v c (st, w) = Inr (x, st', w')"
    and "\<exists>x st' w'. choose_stderr os v c (st, w) = Inr (x, st', w')"
proof -
  have rd: "os_open_read os f w \<noteq> Inl e" for f w e
    using assms(1) unfolding os_total_def by (metis sum.distinct(1))
  have "os_open_write os f w \<noteq> Inl e" for f w e
    using assms(1) unfolding os_total_def by (metis sum.distinct(1))
  then have wr: "open_out_file os f w \<noteq> Inl e" for f w e
    by (auto simp: open_out_file_def bind_res_def split: sum.split)
  show "can_start st \<Longrightarrow> \<exists>x st' w'. choose_stdin os v c (st, w) = Inr (x, st', w')"
    using rd by (auto simp: choose_stdin_def can_start_def bind_res_def split: option.split list.split sum.split)
  show "\<exists>x st' w'. choose_stdout os v c (st, w) = Inr (x, st', w')"
    using assms(2) wr by (auto simp: choose_stdout_def bind_res_def split: option.split redirect.split sum.split)
  show "\<exists>x st' w'. choose_stderr os v c (st, w) = Inr (x, st', w')"
    using wr by (auto simp: choose_stderr_def bind_res_def split: option.split redirect.split sum.split)
qed

lemma start_command_total:
  assumes "os_total os" and "c_stdout c \<noteq> Some STDOUT" and "can_start st"
  shows "\<exists>st' w'. start_command os v c (st, w) = Inr (st', w') \<and> piped_commands st' \<noteq> []"
proof -
  have "can_start (show_if v ls st)" for ls using assms(3) by (simp add: can_start_def show_if_def)
  then obtain i st1 w1 out st2 w2 err st3 w3 where
    "choose_stdin os v c (show_if v [command_display (os_items os) c] st, w) = Inr (i, st1, w1)"
    "choose_stdout os v c (st1, w1) = Inr (out, st2, w2)" "choose_stderr os v c (st2, w2) = Inr (err, st3, w3)"
    using choose_total [OF assms(1,2)] by metis
  moreover obtain pid w4 where "os_popen os \<lparr> sp_argv = c_argv c, sp_stdin = i, sp_stdout = out, sp_stderr = err,
      sp_env = command_env os c, sp_cwd = (if cwd st3 = ''.'' then None else Some (cwd st3)) \<rparr> w3 = Inr (pid, w4)"
    using assms(1) unfolding os_total_def by (metis surj_pair)
  ultimately show ?thesis by (simp add: start_command_def)
qed

lemma run_verbose_group:
  assumes "os_total os" and "opr = And \<or> opr = Or"
    and "g \<noteq> []" and "list_all (\<lambda>(ds, c). c_stdout c \<noteq> Some STDOUT) g" and "can_start st"
  shows "run_nodes os True (group_nodes g @ opr # rest) (st, w) = Inl UnboundLocalError"
  using assms(3-5)
proof (induction g arbitrary: st w rule: group_nodes.induct)
  case (2 i)
  obtain ds c where i: "i = (ds, c)" by (cases i)
  have "run_nodes os True (Command c # opr # rest) (st, w) = Inl UnboundLocalError" if "can_start st" for st
    using start_command_total [OF assms(1) _ that, of c True w] 2 assms(2) i
    by (auto split: prod.split)
  then have "run_nodes os True (concat (map (\<lambda>d. [Chdir (Some d), And]) ds) @ Command c # opr # rest) (st, w)
      = Inl UnboundLocalError"
    using "2.prems"(3)
    by (induction ds arbitrary: st) (simp_all add: can_start_def show_if_def del: run_nodes.simps(3))
  then show ?case by (simp add: i item_nodes_def)
next
  case (3 i j js)
  obtain ds c where i: "i = (ds, c)" by (cases i)
  have "run_nodes os True (Command c # Pipe # group_nodes (j # js) @ opr # rest) (st, w) = Inl UnboundLocalError"
    if "can_start st" for st
    using start_command_total [OF assms(1) _ that, of c True w] 3 i
    by (auto simp: can_start_def simp del: group_nodes.simps)
  then have "run_nodes os True (concat (map (\<lambda>d. [Chdir (Some d), And]) ds)
      @ Command c # Pipe # group_nodes (j # js) @ opr # rest) (st, w) = Inl UnboundLocalError"
    using "3.prems"(3)
    by (induction ds arbitrary: st)
      (simp_all add: can_start_def show_if_def del: run_nodes.simps(3) group_nodes.simps)
  then show ?case by (simp add: i item_nodes_def del: group_nodes.simps(2))
qed simp

text \<open>
  With \<open>verbose\<close> set, a command line that has \<open>&&\<close> or \<open>||\<close> between two groups never returns an exit code, even in a
  system that opens all files and starts all processes: once the first group has been waited for, the message
  reads \<open>retval\<close> before its first assignment.
\<close>

theorem run_verbose_chain:
  assumes "os_total os" and "nodes p = script_nodes (Chain g k s)" and "g \<noteq> []"
    and "list_all (\<lambda>(ds, c). c_stdout c \<noteq> Some STDOUT) g"
  shows "run_pipeline os True p w = Inl UnboundLocalError"
  using assms run_verbose_group [OF assms(1), of "connective_node k" g run_init]
  by (cases k) (simp_all add: run_pipeline_def connective_node_def can_start_def run_init_def)

theorem run_verbose_chain_witness:
  "run_pipeline quiet_os True \<lparr> current_command = None, nodes = [Command (Command_init ''a''), And, Command (Command_init ''b'')] \<rparr> []
     = Inl UnboundLocalError"
  by (rule run_verbose_chain [of _ _ "[([], Command_init ''a'')]" AndThen "Final [([], Command_init ''b'')]"])
    (simp_all add: item_nodes_def connective_node_def quiet_os_def os_total_def Command_init_def)

text \<open>Two command lines that are parsed but do not run: \<open>cd\<close> at the end, and \<open>cd\<close> without a directory.\<close>

lemma trailing_cd: "run_nodes os v [Chdir d] s = Inl IndexError"
  by (cases s) simp

lemma cd_without_dir: "run_nodes os v (Chdir None # And # ns) s = Inl AttributeError"
  by (cases s) simp

text \<open>
  In a shell, \<open>a && b || c\<close> runs \<open>c\<close> after a failure of \<open>a\<close>. Here the first failure ends the run.
\<close>

lemma and_or_ends:
  assumes "exec_group os a dir w = Inr (r, dir', w')" and "r \<noteq> 0"
  shows "eval_script os (Chain a AndThen (Chain b OrElse c)) dir w = Inr (Some r, w')"
  using assms by simp

lemma or_not_displayed: "get_abbreviated_command \<lparr> current_command = None, nodes =
    [Command (Command_init ''a''), Or, Command (Command_init ''b'')] \<rparr> = ''a b''"
  by (simp add: get_abbreviated_command_def abbreviated_def Command_init_def str_join_def)

end
