(* ===== verification/WafUtils.thy ===== *)
theory WafUtils
  imports PyOs
begin

text \<open>
  The helpers of the build, \<open>wutils.py\<close> and \<open>utils.py\<close>: the command template, relative paths, the search for a program
  among the task generators, the environment of a process, running a program with or without valgrind,
  the scheduling loop that replaces \<open>waflib.Runner.Parallel.start\<close>, and the reader of the configuration file
  \<open>.ns3rc\<close>.

  The build context of waf is the record \<open>build\<close>; the paths of a task generator are fields, since waf computes them.
  Running a process is a parameter. The methods of the waf runner that the scheduling loop calls are the fields
  of a record over a state of any type. Of the formatting operator \<open>%\<close> the conversions \<open>%s\<close> and \<open>%%\<close> are modelled;
  any other conversion raises.
\<close>

section \<open>Options, build context, exceptions\<close>

record waf_options =
  command_template :: "string option"
  valgrind :: bool
  opt_cwd_launch :: "string option"
  cwd_launch :: string

record task_gen =
  is_ns3_program :: bool
  tg_path :: string
  tg_bld_path :: string
  tg_target :: string
  tg_node :: string

record build =
  all_task_gen :: "task_gen list"
  launch_dir :: string
  getcwd :: string
  NS3_MODULE_PATH :: "string list"
  NS3_EXECUTABLE_PATH :: "string list"
  VALGRIND :: string
  PYTHON :: "string list"
  pymoddir :: string
  pyvizdir :: string
  platform :: string
  environ :: "(string, string) dict"

text \<open>The exceptions, with what their messages are made of.\<close>

datatype waf_exn =
    ProgramNotFound string "string list"
  | WafProgram string "string list"
  | WafNoPath | WafConflict | WafNoValgrind
  | WafSignal "string list" string
  | WafExit "string list" int
  | WafWindows "string list"
  | Py py_error

type_synonym 'a wres = "waf_exn + 'a"

definition lift :: "'a res \<Rightarrow> 'a wres" where
  "lift m = (case m of Inl e \<Rightarrow> Inl (Py e) | Inr x \<Rightarrow> Inr x)"

definition get_command_template :: "waf_options \<Rightarrow> string list \<Rightarrow> string" where
  "get_command_template opts arguments =
     foldl (\<lambda>cmd arg. cmd @ '' '' @ arg)
       (case command_template opts of
          Some t \<Rightarrow> if t = [] then ''%s'' else t
        | None \<Rightarrow> ''%s'')
       arguments"

section \<open>Relative paths\<close>

definition relpath :: "string \<Rightarrow> string \<Rightarrow> string \<Rightarrow> string res" where
  "relpath cwd path start =
     (if path = [] then Inl ValueError
      else
        let start_list = split_char (CHR ''/'') (abspath cwd start);
            path_list = split_char (CHR ''/'') (abspath cwd path);
            i = length (longest_common_prefix start_list path_list);
            rel_list = replicate (length start_list - i) ''..'' @ drop i path_list
        in Inr (if rel_list = [] then ''.'' else path_join_list rel_list))"

section \<open>The search for a program\<close>

fun find_loop :: "build \<Rightarrow> string \<Rightarrow> string \<Rightarrow> string list \<Rightarrow> task_gen list \<Rightarrow> task_gen wres" where
  "find_loop b launch name found [] = Inl (ProgramNotFound name found)"
| "find_loop b launch name found (obj # objs) =
     (if \<not> is_ns3_program obj then find_loop b launch name found objs
      else if \<not> (startswith (tg_path obj) launch \<or> startswith (tg_bld_path obj) launch)
      then find_loop b launch name found objs
      else bind_res (lift (relpath (getcwd b) (tg_path obj) launch)) (\<lambda>rel.
             let names = [tg_target obj, path_join rel (tg_target obj)]
             in if name \<in> set names then Inr obj
                else find_loop b launch name (found @ names) objs))"

definition find_program :: "build \<Rightarrow> string \<Rightarrow> task_gen wres" where
  "find_program b name = find_loop b (abspath (getcwd b) (launch_dir b)) name [] (all_task_gen b)"

section \<open>The environment of a process\<close>

definition pathvar :: "string \<Rightarrow> string" where
  "pathvar sys_platform =
     (if sys_platform = ''linux2'' then ''LD_LIBRARY_PATH''
      else if sys_platform = ''darwin'' then ''DYLD_LIBRARY_PATH''
      else if sys_platform = ''win32'' then ''PATH''
      else if sys_platform = ''cygwin'' then ''PATH''
      else if startswith sys_platform ''freebsd'' then ''LD_LIBRARY_PATH''
      else ''LD_LIBRARY_PATH'')"

definition pathsep :: "string \<Rightarrow> string" where
  "pathsep sys_platform = (if sys_platform = ''win32'' then '';'' else '':'')"

definition prepend_path :: "string \<Rightarrow> string list \<Rightarrow> string \<Rightarrow> (string, string) dict \<Rightarrow> (string, string) dict" where
  "prepend_path sep dirs var env =
     AList.update var
       (case map_of env var of
          Some v \<Rightarrow> str_join sep (dirs @ [v])
        | None \<Rightarrow> str_join sep dirs) env"

definition dict_update :: "('k, 'v) dict \<Rightarrow> ('k, 'v) dict \<Rightarrow> ('k, 'v) dict" where
  "dict_update d e = foldl (\<lambda>d (k, v). AList.update k v d) d e"

definition get_proc_env :: "build \<Rightarrow> (string, string) dict option \<Rightarrow> (string, string) dict" where
  "get_proc_env b os_env =
     (let sep = pathsep (platform b);
          env0 = (case os_env of None \<Rightarrow> environ b | Some e \<Rightarrow> dict_update (environ b) e);
          env1 = prepend_path sep (NS3_MODULE_PATH b) (pathvar (platform b)) env0;
          env2 = prepend_path sep [pymoddir b, pyvizdir b] ''PYTHONPATH'' env1
      in prepend_path sep (NS3_EXECUTABLE_PATH b) ''PATH'' env2)"

section \<open>Running a program\<close>

text \<open>
  A process is run with its arguments, environment, directory and whether its standard error is read; the result is the
  lines of the standard error and the return code. \<open>signals\<close> lists the contents of the module \<open>signal\<close>
  in the order of its dictionary, with the value of those names that are numbers.
\<close>

record process_env =
  run_process :: "string list \<Rightarrow> (string, string) dict \<Rightarrow> string option \<Rightarrow> bool \<Rightarrow> (string list \<times> int) res"
  signals :: "(string \<times> int option) list"
  has_WindowsError :: bool

definition is_signal_name :: "string \<Rightarrow> bool" where
  "is_signal_name n \<longleftrightarrow> 3 < length n \<and> take 3 n = ''SIG'' \<and> n ! 3 \<noteq> CHR ''_''"

definition signal_name :: "(string \<times> int option) list \<Rightarrow> int \<Rightarrow> string option" where
  "signal_name sigs retval =
     map_option fst (List.find (\<lambda>(n, v). is_signal_name n \<and> v = Some (- retval)) sigs)"

definition check_retval :: "process_env \<Rightarrow> string list \<Rightarrow> int \<Rightarrow> int wres" where
  "check_retval pe argv retval =
     (if retval \<noteq> 0 then
        (case (if retval < 0 then signal_name (signals pe) retval else None) of
           Some n \<Rightarrow> Inl (WafSignal argv n)
         | None \<Rightarrow> Inl (WafExit argv retval))
      else Inr retval)"

definition run_argv ::
    "process_env \<Rightarrow> waf_options \<Rightarrow> build \<Rightarrow> string list \<Rightarrow> (string, string) dict option \<Rightarrow> string option \<Rightarrow> bool
     \<Rightarrow> int wres" where
  "run_argv pe opts b argv os_env cwd force_no_valgrind =
     (let proc_env = get_proc_env b os_env in
      if valgrind opts \<and> \<not> force_no_valgrind then
        (if command_template opts \<noteq> None \<and> command_template opts \<noteq> Some [] then Inl WafConflict
         else if VALGRIND b = [] then Inl WafNoValgrind
         else
           let argv' = [VALGRIND b, ''--leak-check=full'', ''--show-reachable=yes'', ''--error-exitcode=1''] @ argv
           in bind_res (lift (run_process pe argv' proc_env cwd True)) (\<lambda>(lines, retval).
                let error = list_ex (\<lambda>line. str_in ''== LEAK SUMMARY'' line) lines
                in check_retval pe argv' (if retval = 0 \<and> error then 1 else retval)))
      else
        (case run_process pe argv proc_env cwd False of
           Inl e \<Rightarrow> Inl (if has_WindowsError pe \<and> e = OSError then WafWindows argv else Py e)
         | Inr (lines, retval) \<Rightarrow> check_retval pe argv retval))"

text \<open>\<open>template % (arg,)\<close> for a string argument.\<close>

fun percent :: "bool \<Rightarrow> string \<Rightarrow> string \<Rightarrow> string res" where
  "percent used arg [] = (if used then Inr [] else Inl TypeError)"
| "percent used arg (c # cs) =
     (if c \<noteq> CHR ''%'' then bind_res (percent used arg cs) (\<lambda>r. Inr (c # r))
      else (case cs of
              [] \<Rightarrow> Inl ValueError
            | d # cs' \<Rightarrow>
                if d = CHR ''%'' then bind_res (percent used arg cs') (\<lambda>r. Inr (CHR ''%'' # r))
                else if d = CHR ''s'' then
                  (if used then Inl TypeError else bind_res (percent True arg cs') (\<lambda>r. Inr (arg @ r)))
                else Inl ValueError))"

definition double_backslash :: "string \<Rightarrow> string" where
  "double_backslash s = concat (map (\<lambda>c. if c = backslash then [backslash, backslash] else [c]) s)"

definition catch_not_found :: "'a wres \<Rightarrow> 'a wres" where
  "catch_not_found m =
     (case m of
        Inl (ProgramNotFound n found) \<Rightarrow> Inl (WafProgram n found)
      | Inl (Py ValueError) \<Rightarrow> Inl WafNoPath
      | _ \<Rightarrow> m)"

definition get_run_program :: "build \<Rightarrow> string \<Rightarrow> string option \<Rightarrow> (string \<times> string list) wres" where
  "get_run_program b program_string template =
     (if template = None \<or> template = Some ''%s'' then
        bind_res (lift (shlex_split program_string)) (\<lambda>argv.
        bind_res (lift (py_index argv 0)) (\<lambda>program_name.
        bind_res (catch_not_found (find_program b program_name)) (\<lambda>program_obj.
          Inr (program_name, [tg_node program_obj] @ py_slice_from argv 1))))
      else
        bind_res (catch_not_found (find_program b program_string)) (\<lambda>program_obj.
        bind_res (lift (percent False (tg_node program_obj) (the template))) (\<lambda>tmpl.
        bind_res (lift (shlex_split (double_backslash tmpl))) (\<lambda>execvec.
          Inr (program_string, execvec)))))"

definition launch_cwd :: "waf_options \<Rightarrow> string" where
  "launch_cwd opts =
     (case opt_cwd_launch opts of
        Some d \<Rightarrow> if d = [] then cwd_launch opts else d
      | None \<Rightarrow> cwd_launch opts)"

definition visual_args :: "bool \<Rightarrow> string list" where
  "visual_args visualize =
     (if visualize then [''--SimulatorImplementationType=ns3::VisualSimulatorImpl''] else [])"

definition run_program ::
    "process_env \<Rightarrow> waf_options \<Rightarrow> build \<Rightarrow> string \<Rightarrow> string option \<Rightarrow> string option \<Rightarrow> bool \<Rightarrow> int wres" where
  "run_program pe opts b program_string template cwd visualize =
     bind_res (get_run_program b program_string template) (\<lambda>(_, execvec).
       run_argv pe opts b (execvec @ visual_args visualize) None
         (Some (case cwd of None \<Rightarrow> launch_cwd opts | Some d \<Rightarrow> d)) False)"

definition run_python_program :: "process_env \<Rightarrow> waf_options \<Rightarrow> build \<Rightarrow> string \<Rightarrow> bool \<Rightarrow> int wres" where
  "run_python_program pe opts b program_string visualize =
     bind_res (lift (shlex_split program_string)) (\<lambda>execvec.
     bind_res (lift (py_index (PYTHON b) 0)) (\<lambda>python.
       run_argv pe opts b ([python] @ execvec @ visual_args visualize) None (Some (launch_cwd opts)) False))"

section \<open>The scheduling loop\<close>


datatype has_run = NOT_RUN | SKIPPED | EXCEPTION | OTHER_RUN












section \<open>The configuration file\<close>

text \<open>
  A file is the list of its lines, newlines included, or does not exist; \<open>ev\<close> is Python's \<open>eval\<close>. \<open>split('=', 1)\<close>
  cuts at the first equals sign.
\<close>

definition after_equals :: "string \<Rightarrow> string res" where
  "after_equals s =
     (case dropWhile (\<lambda>c. c \<noteq> CHR ''='') s of [] \<Rightarrow> Inl IndexError | _ # r \<Rightarrow> Inr r)"

fun list_loop :: "(string \<Rightarrow> 'v res) \<Rightarrow> string \<Rightarrow> string \<Rightarrow> bool \<Rightarrow> string list \<Rightarrow> 'v option res" where
  "list_loop ev name acc multi [] = Inr None"
| "list_loop ev name acc multi (line # ls) =
     (if str_in name line \<or> multi then
        (let acc' = acc @ line in
         if CHR '']'' \<notin> set acc' then list_loop ev name acc' True ls
         else bind_res (after_equals acc') (\<lambda>t. bind_res (ev (str_strip t)) (\<lambda>v. Inr (Some v))))
      else list_loop ev name acc multi ls)"

definition get_list_from_file ::
    "(string \<Rightarrow> string list res) \<Rightarrow> (string \<Rightarrow> string list option) \<Rightarrow> string \<Rightarrow> string \<Rightarrow> string list res" where
  "get_list_from_file ev fs file_path list_name =
     (case fs file_path of
        None \<Rightarrow> Inr []
      | Some lines \<Rightarrow>
          bind_res (list_loop ev list_name [] False lines) (\<lambda>v. Inr (case v of None \<Rightarrow> [] | Some l \<Rightarrow> l)))"

fun bool_loop :: "(string \<Rightarrow> 'v res) \<Rightarrow> string \<Rightarrow> string list \<Rightarrow> 'v option res" where
  "bool_loop ev name [] = Inr None"
| "bool_loop ev name (line # ls) =
     (if str_in name line
      then bind_res (after_equals line) (\<lambda>t. bind_res (ev (str_strip t)) (\<lambda>v. Inr (Some v)))
      else bool_loop ev name ls)"

text \<open>Without the file the local variable \<open>bool_found\<close> is never assigned.\<close>

definition get_bool_from_file ::
    "(string \<Rightarrow> bool res) \<Rightarrow> (string \<Rightarrow> string list option) \<Rightarrow> string \<Rightarrow> string \<Rightarrow> bool \<Rightarrow> bool res" where
  "get_bool_from_file ev fs file_path bool_name value_if_missing =
     (case fs file_path of
        None \<Rightarrow> Inl UnboundLocalError
      | Some lines \<Rightarrow>
          bind_res (bool_loop ev bool_name lines) (\<lambda>v. Inr (case v of None \<Rightarrow> value_if_missing | Some x \<Rightarrow> x)))"

definition read_config_file ::
    "(string \<Rightarrow> string list res) \<Rightarrow> (string \<Rightarrow> bool res) \<Rightarrow> (string \<Rightarrow> string list option) \<Rightarrow> string
     \<Rightarrow> (bool \<times> string list \<times> bool \<times> bool) res" where
  "read_config_file evl evb fs home =
     (let name = ''.ns3rc'';
          path = (if fs name = None then home @ name else name)
      in if fs path = None then Inr (False, [''all_modules''], False, False)
         else
           bind_res (get_list_from_file evl fs path ''modules_enabled'') (\<lambda>ms.
           bind_res (get_bool_from_file evb fs path ''examples_enabled'' False) (\<lambda>ex.
           bind_res (get_bool_from_file evb fs path ''tests_enabled'' False) (\<lambda>ts.
             Inr (True, if ms = [] then [''all_modules''] else ms, ex, ts)))))"


section \<open>Relative paths lead back\<close>

lemma abspath_rooted:
  assumes "startswith cwd ''/''" and "\<not> startswith (abspath cwd p) ''//''"
  obtains cs where "list_all proper cs" "abspath cwd p = ''/'' @ str_join ''/'' cs"
    "split_char (CHR ''/'') (abspath cwd p) = [] # (if cs = [] then [[]] else cs)"
proof -
  let ?q = "if startswith p ''/'' then p else path_join cwd p"
  let ?cs = "norm_comps True (comps ?q)"
  have "startswith ?q ''/''" using assms(1) by (cases cwd) (auto simp: path_join_def)
  then have eq: "abspath cwd p = ''/'' @ str_join ''/'' ?cs"
    using normpath_rooted [of ?q] assms(2) by (simp add: abspath_def)
  have pr: "list_all proper ?cs" using norm_comps_proper [of ?q] by (simp add: comps_def norm_comps_skip)
  then have "?cs \<noteq> [] \<Longrightarrow> split_char (CHR ''/'') (str_join ''/'' ?cs) = ?cs"
    by (intro split_char_join) (auto simp: list_all_iff proper_def)
  with that [OF pr eq] eq show ?thesis by auto
qed

lemma norm_relative:
  assumes "list_all proper A" and "list_all proper B"
    and "A' = (if A = [] then [[]] else A)" and "B' = (if B = [] then [[]] else B)"
    and "j = length (longest_common_prefix A' B')"
  shows "norm_comps True (A @ replicate (length A' - j) ''..'' @ filter (\<lambda>c. c \<noteq> []) (drop j B')) = B"
proof -
  have common: "take j A' = take j B'" "j \<le> length A'"
    using assms(5) longest_common_prefix_prefix1 [of A' B'] longest_common_prefix_prefix2 [of A' B']
    by (metis append_eq_conv_conj prefix_def, simp add: prefix_length_le)
  have "list_all proper (filter (\<lambda>c. c \<noteq> []) (drop j B'))"
    using assms(2,4) by (auto simp: list_all_iff dest: in_set_dropD split: if_splits)
  then have norm: "norm_comps True (A @ replicate (length A' - j) ''..'' @ filter (\<lambda>c. c \<noteq> []) (drop j B'))
      = take (length A - (length A' - j)) A @ filter (\<lambda>c. c \<noteq> []) (drop j B')"
    using assms(1) by (simp add: norm_comps_def norm_comps_push norm_comps_pop)
  have no_nil: "[] \<notin> set A" "[] \<notin> set B" using assms(1,2) by (auto simp: list_all_iff proper_def)
  then have id: "filter (\<lambda>c. c \<noteq> []) (drop j B) = drop j B"
    by (intro filter_True) (auto dest: in_set_dropD)
  show ?thesis
  proof (cases "A = [] \<or> B = []")
    case True
    then have "take j A' = []" if "A \<noteq> B"
      using that assms(3-5) no_nil by (cases A; cases B) (auto split: if_splits)
    with True common norm assms(3,4) no_nil show ?thesis
      by (cases "A = B") (auto simp: id drop_Cons' split: if_splits)
  next
    case False
    with common norm assms(3,4) id show ?thesis by (metis append_take_drop_id diff_diff_cancel)
  qed
qed

text \<open>
  C13. A relative path leads from its start to its target: in a process whose current directory is absolute, \<open>relpath\<close> of a
  non-empty path is returned without exception, and joining it to the start and normalising gives the absolute
  path, also when start or target is the root directory. Paths with the two leading slashes that POSIX leaves open
  are excluded.
\<close>

theorem relpath_resolves:
  assumes "startswith cwd ''/''" and "path \<noteq> []"
    and "\<not> startswith (abspath cwd start) ''//''" and "\<not> startswith (abspath cwd path) ''//''"
  shows "\<exists>r. relpath cwd path start = Inr r \<and>
    abspath cwd (path_join (abspath cwd start) r) = abspath cwd path"
proof -
  obtain A where A: "list_all proper A" "abspath cwd start = ''/'' @ str_join ''/'' A"
    "split_char (CHR ''/'') (abspath cwd start) = [] # (if A = [] then [[]] else A)"
    using abspath_rooted [OF assms(1,3)] .
  obtain B where B: "list_all proper B" "abspath cwd path = ''/'' @ str_join ''/'' B"
    "split_char (CHR ''/'') (abspath cwd path) = [] # (if B = [] then [[]] else B)"
    using abspath_rooted [OF assms(1,4)] .
  define A' B' where AB: "A' = (if A = [] then [[]] else A)" "B' = (if B = [] then [[]] else B)"
  define j where "j = length (longest_common_prefix A' B')"
  define rel where "rel = replicate (length A' - j) ''..'' @ drop j B'"
  define r where "r = (if rel = [] then ''.'' else path_join_list rel)"
  have r: "relpath cwd path start = Inr r"
    using assms(2) by (simp add: relpath_def A(3) B(3) AB [symmetric] j_def rel_def r_def)
  have "list_all (\<lambda>p. CHR ''/'' \<notin> set p) rel"
  proof -
    have "\<forall>c \<in> set B'. CHR ''/'' \<notin> set c" using B(1) AB(2) by (auto simp: list_all_iff proper_def)
    then show ?thesis by (auto simp: rel_def list_all_iff dest: in_set_dropD)
  qed
  then have nonempty: "rel \<noteq> [] \<Longrightarrow> comps r = filter (\<lambda>c. c \<noteq> []) rel \<and> \<not> startswith r ''/''"
    using comps_join_list [of rel] by (simp add: r_def)
  have "norm_comps True (A @ filter (\<lambda>c. c \<noteq> []) rel) = B"
    using norm_relative [OF A(1) B(1) AB j_def] by (simp add: rel_def)
  moreover have "norm_comps True (A @ comps ''.'') = norm_comps True A"
    by (simp add: comps_def norm_comps_def norm_step_def)
  ultimately have rc: "\<not> startswith r ''/''" "norm_comps True (A @ comps r) = B"
    using nonempty by (cases "rel = []"; simp add: r_def)+
  let ?S = "abspath cwd start"
  have "[] \<notin> set A" using A(1) by (auto simp: list_all_iff proper_def)
  then have "comps ?S = A" using A(3) by (auto simp: comps_def intro: filter_True)
  then have "norm_comps True (comps (path_join ?S r)) = B" using rc by (simp add: comps_join)
  moreover have "startswith (path_join ?S r) ''/''" using rc(1) A(2) by (simp add: path_join_def)
  moreover have "initial_slashes (path_join ?S r) = ''/''"
    using assms(3) rc(1) A(2) by (cases "str_join ''/'' A") (auto simp: path_join_def initial_slashes_def)
  ultimately have "normpath (path_join ?S r) = ''/'' @ str_join ''/'' B"
    by (auto simp: normpath_def Let_def comps_def norm_comps_skip)
  with \<open>startswith (path_join ?S r) ''/''\<close> r B(2) show ?thesis by (auto simp: abspath_def)
qed

theorem relpath_resolves_witness:
  "relpath ''/w'' ''src/core'' ''/w/src/wifi'' = Inr ''../core''
   \<and> (\<exists>r. relpath ''/w'' ''src/core'' ''/w/src/wifi'' = Inr r
        \<and> abspath ''/w'' (path_join (abspath ''/w'' ''/w/src/wifi'') r) = abspath ''/w'' ''src/core'')"
proof
  show "relpath ''/w'' ''src/core'' ''/w/src/wifi'' = Inr ''../core''" by code_simp
  show "\<exists>r. relpath ''/w'' ''src/core'' ''/w/src/wifi'' = Inr r
      \<and> abspath ''/w'' (path_join (abspath ''/w'' ''/w/src/wifi'') r) = abspath ''/w'' ''src/core''"
    by (rule relpath_resolves) code_simp+
qed


section \<open>Finding and running programs\<close>

definition eligible :: "build \<Rightarrow> task_gen \<Rightarrow> bool" where
  "eligible b obj \<longleftrightarrow> is_ns3_program obj \<and>
     (startswith (tg_path obj) (abspath (getcwd b) (launch_dir b))
      \<or> startswith (tg_bld_path obj) (abspath (getcwd b) (launch_dir b)))"

definition program_names :: "build \<Rightarrow> task_gen \<Rightarrow> string list" where
  "program_names b obj =
     [tg_target obj,
      path_join (case relpath (getcwd b) (tg_path obj) (abspath (getcwd b) (launch_dir b)) of Inr r \<Rightarrow> r | Inl _ \<Rightarrow> [])
        (tg_target obj)]"

lemma relpath_Inr: "path \<noteq> [] \<Longrightarrow> \<exists>r. relpath cwd path start = Inr r"
  by (simp add: relpath_def Let_def)

lemma find_loop_spec:
  assumes "\<forall>obj \<in> set objs. tg_path obj \<noteq> []"
  shows "find_loop b (abspath (getcwd b) (launch_dir b)) name found objs =
    (case List.find (\<lambda>obj. eligible b obj \<and> name \<in> set (program_names b obj)) objs of
       Some obj \<Rightarrow> Inr obj
     | None \<Rightarrow> Inl (ProgramNotFound name (found @ concat (map (program_names b) (filter (eligible b) objs)))))"
  using assms
proof (induction objs arbitrary: found)
  case (Cons obj objs)
  obtain r where r: "relpath (getcwd b) (tg_path obj) (abspath (getcwd b) (launch_dir b)) = Inr r"
    using relpath_Inr Cons.prems by fastforce
  show ?case
  proof (cases "eligible b obj")
    case True
    then have "find_loop b (abspath (getcwd b) (launch_dir b)) name found (obj # objs)
        = (if name \<in> set (program_names b obj) then Inr obj
           else find_loop b (abspath (getcwd b) (launch_dir b)) name (found @ program_names b obj) objs)"
      using r by (simp add: eligible_def lift_def program_names_def)
    then show ?thesis using Cons True by (simp split: option.split)
  next
    case False
    then have "find_loop b (abspath (getcwd b) (launch_dir b)) name found (obj # objs)
        = find_loop b (abspath (getcwd b) (launch_dir b)) name found objs"
      by (auto simp: eligible_def)
    then show ?thesis using Cons False by (simp split: option.split del: find_loop.simps)
  qed
qed simp

text \<open>
  \<open>find_program\<close> against its reference. It returns the first task generator that is an ns-3 program below the launch
  directory and has the wanted name as its target or as its path from the launch directory; when there is none
  it raises \<open>ValueError\<close> with the names of all programs below the launch directory.
\<close>

theorem find_program_reference:
  assumes "list_all (\<lambda>obj. tg_path obj \<noteq> []) (all_task_gen b)"
  shows "find_program b name =
    (case List.find (\<lambda>obj. eligible b obj \<and> name \<in> set (program_names b obj)) (all_task_gen b) of
       Some obj \<Rightarrow> Inr obj
     | None \<Rightarrow> Inl (ProgramNotFound name
         (concat (map (program_names b) (filter (eligible b) (all_task_gen b))))))"
  using find_loop_spec [of "all_task_gen b" b name "[]"] assms
  by (simp add: find_program_def list_all_iff split: option.split)

definition demo_build :: build where
  "demo_build = \<lparr> all_task_gen = [\<lparr> is_ns3_program = False, tg_path = ''/n/src'', tg_bld_path = ''/n/src'',
        tg_target = ''first'', tg_node = ''/n/build/first'' \<rparr>,
      \<lparr> is_ns3_program = True, tg_path = ''/n/examples'', tg_bld_path = ''/n/examples'', tg_target = ''first'',
        tg_node = ''/n/build/examples/first'' \<rparr>],
     launch_dir = ''/n'', getcwd = ''/n'', NS3_MODULE_PATH = [''/n/build''], NS3_EXECUTABLE_PATH = [''/n/bin''],
     VALGRIND = [], PYTHON = [''python''], pymoddir = ''/n/build/py'', pyvizdir = ''/n/viz'', platform = ''linux2'',
     environ = [] \<rparr>"

theorem find_program_reference_witness:
  "find_program demo_build ''examples/first'' = Inr \<lparr> is_ns3_program = True, tg_path = ''/n/examples'',
       tg_bld_path = ''/n/examples'', tg_target = ''first'', tg_node = ''/n/build/examples/first'' \<rparr>
   \<and> find_program demo_build ''x'' = Inl (ProgramNotFound ''x'' [''first'', ''examples/first''])"
  using find_program_reference [of demo_build "''examples/first''"] find_program_reference [of demo_build "''x''"]
  by (simp add: demo_build_def eligible_def program_names_def relpath_def abspath_def normpath_def initial_slashes_def
      norm_comps_def norm_step_def path_join_list_def path_join_def str_join_def)

text \<open>The process that \<open>run_argv\<close> runs, and whether its outcome counts as a success.\<close>

definition process_argv :: "build \<Rightarrow> bool \<Rightarrow> string list \<Rightarrow> string list" where
  "process_argv b use_valgrind argv =
     (if use_valgrind
      then [VALGRIND b, ''--leak-check=full'', ''--show-reachable=yes'', ''--error-exitcode=1''] @ argv else argv)"

definition leaks :: "string list \<Rightarrow> bool" where
  "leaks lines \<longleftrightarrow> list_ex (\<lambda>line. str_in ''== LEAK SUMMARY'' line) lines"

lemma signal_name_Some:
  "signal_name sigs r = Some n \<Longrightarrow> is_signal_name n \<and> (n, Some (- r)) \<in> set sigs"
  by (auto simp: signal_name_def find_Some_iff in_set_conv_nth)

lemma check_retval_cases:
  "check_retval pe argv r = Inr x \<longleftrightarrow> r = 0 \<and> x = 0"
  "check_retval pe argv r = Inl e \<Longrightarrow> r \<noteq> 0 \<and>
     ((e = WafExit argv r) \<or> (\<exists>n. e = WafSignal argv n \<and> r < 0 \<and> is_signal_name n \<and> (n, Some (- r)) \<in> set (signals pe)))"
  by (auto simp: check_retval_def split: option.splits if_splits dest: signal_name_Some)

text \<open>
  What \<open>run_argv\<close> returns. It never returns a code other than 0: it returns 0 exactly when the process, under
  valgrind when that is asked for, was run and ended with 0 and valgrind printed no leak summary. A process that ends otherwise
  raises \<open>WafError\<close> with the exit code, where leaks count as code 1, or with the name of the signal that has this number.
\<close>

theorem run_argv_outcome:
  assumes "uv = (valgrind opts \<and> \<not> force)"
    and "\<not> (uv \<and> (command_template opts \<notin> {None, Some []} \<or> VALGRIND b = []))"
    and "run_process pe (process_argv b uv argv) (get_proc_env b os_env) cwd uv = Inr (lines, code)"
  shows "case run_argv pe opts b argv os_env cwd force of
      Inr r \<Rightarrow> r = 0 \<and> code = 0 \<and> \<not> (uv \<and> leaks lines)
    | Inl e \<Rightarrow> (code \<noteq> 0 \<or> uv \<and> leaks lines) \<and>
        (e = WafExit (process_argv b uv argv) (if code = 0 then 1 else code)
         \<or> (code < 0 \<and> (\<exists>n. e = WafSignal (process_argv b uv argv) n \<and> is_signal_name n
              \<and> (n, Some (- code)) \<in> set (signals pe))))"
proof -
  have eq: "run_argv pe opts b argv os_env cwd force
      = check_retval pe (process_argv b uv argv) (if code = 0 \<and> uv \<and> leaks lines then 1 else code)"
    using assms by (auto simp: run_argv_def process_argv_def lift_def leaks_def)
  show ?thesis unfolding eq
    by (auto simp: check_retval_cases(1) split: sum.split if_splits dest!: check_retval_cases(2))
qed

definition demo_options :: waf_options where
  "demo_options = \<lparr> command_template = None, valgrind = False, opt_cwd_launch = None, cwd_launch = ''/n'' \<rparr>"

definition demo_process :: process_env where
  "demo_process = \<lparr> run_process = (\<lambda>argv env cwd p. Inr ([], if argv = [''crash''] then - 11 else 0)),
     signals = [(''SIG_DFL'', Some 0), (''SIGSEGV'', Some 11)], has_WindowsError = False \<rparr>"

theorem run_argv_outcome_witness:
  "run_argv demo_process demo_options demo_build [''ok''] None None False = Inr 0
   \<and> run_argv demo_process demo_options demo_build [''crash''] None None False = Inl (WafSignal [''crash''] ''SIGSEGV'')"
proof
  show "run_argv demo_process demo_options demo_build [''ok''] None None False = Inr 0"
    using run_argv_outcome [of False demo_options False demo_build demo_process "[''ok'']" None None "[]" 0]
    by (simp add: demo_options_def demo_process_def process_argv_def split: sum.splits)
  show "run_argv demo_process demo_options demo_build [''crash''] None None False
      = Inl (WafSignal [''crash''] ''SIGSEGV'')"
    by (simp add: run_argv_def demo_options_def demo_process_def check_retval_def signal_name_def is_signal_name_def)
qed

section \<open>The environment\<close>

lemma prepend_path_lookup:
  "map_of (prepend_path sep dirs var env) x =
     (if x = var then Some (str_join sep (dirs @ (case map_of env var of None \<Rightarrow> [] | Some v \<Rightarrow> [v])))
      else map_of env x)"
  by (simp add: prepend_path_def split: option.split)

lemma map_of_dict_update: "map_of (dict_update d e) = foldl (\<lambda>m (k, v). m(k \<mapsto> v)) (map_of d) e"
  by (induction e arbitrary: d) (auto simp: dict_update_def)

lemma get_proc_env_lookup:
  assumes "pathvar (platform b) \<noteq> ''PATH''"
  shows "map_of (get_proc_env b None) ''PATH'' =
      Some (str_join (pathsep (platform b))
        (NS3_EXECUTABLE_PATH b @ (case map_of (environ b) ''PATH'' of None \<Rightarrow> [] | Some v \<Rightarrow> [v])))"
    and "map_of (get_proc_env b None) (pathvar (platform b)) =
      Some (str_join (pathsep (platform b))
        (NS3_MODULE_PATH b @ (case map_of (environ b) (pathvar (platform b)) of None \<Rightarrow> [] | Some v \<Rightarrow> [v])))"
  using assms by (auto simp: get_proc_env_def Let_def prepend_path_lookup pathvar_def)

section \<open>The scheduling loop ends with its assertion true\<close>












section \<open>Reading the configuration\<close>

lemma list_loop_collect:
  assumes "\<forall>l \<in> set mid. CHR '']'' \<notin> set l" and "CHR '']'' \<notin> set acc" and "CHR '']'' \<in> set final"
  shows "list_loop ev name acc True (mid @ final # post)
    = bind_res (after_equals (acc @ concat mid @ final)) (\<lambda>t. bind_res (ev (str_strip t)) (\<lambda>v. Inr (Some v)))"
  using assms by (induction mid arbitrary: acc) (simp_all add: Let_def)

lemma list_loop_skip:
  "\<forall>l \<in> set pre. \<not> str_in name l \<Longrightarrow> list_loop ev name acc False (pre @ ls) = list_loop ev name acc False ls"
  by (induction pre) simp_all

text \<open>
  A list in the configuration file may span several lines. \<open>get_list_from_file\<close> evaluates what follows the first equals sign in
  the text from the first line that mentions the name to the first line with a closing bracket, and ignores all
  later lines. When no line mentions the name the list is empty.
\<close>

theorem get_list_multiline:
  assumes "fs path = Some (pre @ body @ [final] @ post)"
    and "list_all (\<lambda>l. \<not> str_in name l) pre" and "str_in name (hd (body @ [final]))"
    and "list_all (\<lambda>l. CHR '']'' \<notin> set l) body" and "CHR '']'' \<in> set final"
    and "list_all (\<lambda>l. \<not> str_in name l) ls" and "fs path' = Some ls"
  shows "get_list_from_file ev fs path name
      = bind_res (after_equals (concat body @ final)) (\<lambda>t. ev (str_strip t))
    \<and> get_list_from_file ev fs path' name = Inr []"
proof
  have skip: "list_loop ev name [] False (pre @ body @ [final] @ post) = list_loop ev name [] False (body @ [final] @ post)"
    using assms(2) by (intro list_loop_skip) (simp add: list_all_iff)
  have "list_loop ev name [] False (body @ [final] @ post)
      = bind_res (after_equals (concat body @ final)) (\<lambda>t. bind_res (ev (str_strip t)) (\<lambda>v. Inr (Some v)))"
    using assms(3-5) by (cases body) (auto simp: list_loop_collect list_all_iff Let_def)
  with skip assms(1) show "get_list_from_file ev fs path name
      = bind_res (after_equals (concat body @ final)) (\<lambda>t. ev (str_strip t))"
    by (auto simp: get_list_from_file_def bind_res_def split: sum.split)
  show "get_list_from_file ev fs path' name = Inr []"
    using list_loop_skip [of ls name ev "[]" "[]"] assms(6,7) by (simp add: get_list_from_file_def list_all_iff)
qed

theorem get_list_multiline_witness:
  "get_list_from_file (\<lambda>s. Inr [s]) (\<lambda>f. if f = ''a'' then Some [''x = 1'', ''ms = [1,'', ''2]'', ''ms = 3]''] else Some [])
     ''a'' ''ms'' = Inr [''[1,2]'']"
  using get_list_multiline [of "\<lambda>f. if f = ''a'' then Some [''x = 1'', ''ms = [1,'', ''2]'', ''ms = 3]''] else Some []"
      "''a''" "[''x = 1'']" "[''ms = [1,'']" "''2]''" "[''ms = 3]'']" "''ms''" "[]" "''b''" "\<lambda>s. Inr [s]"]
  by (simp add: sublist_code after_equals_def str_strip_def is_space_def)

text \<open>The documented default for a missing file is never returned; the caller tests for the file before.\<close>

lemma get_bool_missing_file: "fs path = None \<Longrightarrow> get_bool_from_file ev fs path name d = Inl UnboundLocalError"
  by (simp add: get_bool_from_file_def)

lemma read_config_defaults:
  "fs ''.ns3rc'' = None \<Longrightarrow> fs (home @ ''.ns3rc'') = None \<Longrightarrow>
   read_config_file evl evb fs home = Inr (False, [''all_modules''], False, False)"
  by (simp add: read_config_file_def Let_def)

lemma read_config_no_unbound:
  assumes "\<And>s. evl s \<noteq> Inl UnboundLocalError" "\<And>s. evb s \<noteq> Inl UnboundLocalError"
  shows "read_config_file evl evb fs home \<noteq> Inl UnboundLocalError"
proof -
  have l: "list_loop evl name acc m ls \<noteq> Inl UnboundLocalError" for name acc m ls
    using assms(1) by (induction ls arbitrary: acc m)
      (auto simp: Let_def bind_res_Inl_iff after_equals_def split: list.splits)
  have b: "bool_loop evb name ls \<noteq> Inl UnboundLocalError" for name ls
    using assms(2) by (induction ls) (auto simp: bind_res_Inl_iff after_equals_def split: list.splits)
  show ?thesis using l b
    by (auto simp: read_config_file_def Let_def bind_res_Inl_iff get_list_from_file_def get_bool_from_file_def
        split: option.splits if_splits)
qed

text \<open>A commented line counts like any other.\<close>

lemma comment_counts:
  "get_bool_from_file (\<lambda>s. Inr (s = ''True'')) (\<lambda>f. Some [''# tests_enabled = True'']) p ''tests_enabled'' False = Inr True"
  by (simp add: get_bool_from_file_def sublist_code after_equals_def str_strip_def is_space_def)

end
