(* ===== verification/FlowMon.thy ===== *)
theory FlowMon
  imports PyXml PyNum
begin

text \<open>
  The report on the flows of a simulation, \<open>src/flow-monitor/examples/flowmon-parse-results.py\<close>: the statistics of a flow, the
  simulation with its flows, classifier and probes, and the report that the main program prints.

  Floats are exact rationals, so \<open>1e-9\<close> is the exact factor; \<open>float\<close> reads decimal notation, without infinities.
  The element tree is the input. Formatting with two digits is a parameter. A flow is shared between the list and
  the dictionary of the constructor: the dictionary maps an id to a position of the list.
\<close>

section \<open>Reading numbers\<close>

definition read_sign :: "string \<Rightarrow> int \<times> string" where
  "read_sign s = (case s of [] \<Rightarrow> (1, []) | c # r \<Rightarrow>
     if c = CHR ''-'' then (- 1, r) else if c = CHR ''+'' then (1, r) else (1, s))"

definition int_of_str :: "string \<Rightarrow> int res" where
  "int_of_str s =
     (case read_sign (str_strip s) of (sg, d) \<Rightarrow>
        if d \<noteq> [] \<and> list_all is_digit d then Inr (sg * int (nat_of_digits d)) else Inl ValueError)"

text \<open>\<open>long\<close> also takes a letter L at the end.\<close>

definition long_of_str :: "string \<Rightarrow> int res" where
  "long_of_str s =
     (let t = str_strip s in
      if t \<noteq> [] \<and> (last t = CHR ''L'' \<or> last t = CHR ''l'') \<and> 1 < length t \<and> is_digit (last (butlast t))
      then int_of_str (butlast t) else int_of_str s)"

definition scaled_digits :: "string \<Rightarrow> string \<Rightarrow> int \<Rightarrow> rat" where
  "scaled_digits i f e =
     of_nat (nat_of_digits (i @ f)) * (if int (length f) \<le> e then 10 ^ nat (e - int (length f))
                                       else 1 / 10 ^ nat (int (length f) - e))"

definition float_of_str :: "string \<Rightarrow> rat res" where
  "float_of_str s =
     (case read_sign (str_strip s) of (sg, t) \<Rightarrow>
        let i = takeWhile is_digit t; t1 = dropWhile is_digit t;
            (f, t2) = (case t1 of c # r \<Rightarrow> if c = CHR ''.'' then (takeWhile is_digit r, dropWhile is_digit r) else ([], t1)
                                 | [] \<Rightarrow> ([], []))
        in if i @ f = [] then Inl ValueError
           else (case t2 of
                   [] \<Rightarrow> Inr (of_int sg * scaled_digits i f 0)
                 | c # r \<Rightarrow>
                     if c = CHR ''e'' \<or> c = CHR ''E'' then
                       (case read_sign r of (es, d) \<Rightarrow>
                          if d \<noteq> [] \<and> list_all is_digit d
                          then Inr (of_int sg * scaled_digits i f (es * int (nat_of_digits d)))
                          else Inl ValueError)
                     else Inl ValueError))"

text \<open>\<open>int(None)\<close>, \<open>float(None)\<close> and \<open>None[:-2]\<close> raise \<open>TypeError\<close>.\<close>

definition required :: "string option \<Rightarrow> string res" where
  "required s = (case s of None \<Rightarrow> Inl TypeError | Some x \<Rightarrow> Inr x)"

definition attr_int :: "string \<Rightarrow> xml \<Rightarrow> int res" where
  "attr_int a e = bind_res (required (xget a e)) int_of_str"

definition attr_long :: "string \<Rightarrow> xml \<Rightarrow> int res" where
  "attr_long a e = bind_res (required (xget a e)) long_of_str"

definition attr_float :: "string \<Rightarrow> xml \<Rightarrow> rat res" where
  "attr_float a e = bind_res (required (xget a e)) float_of_str"

definition attr_unit_long :: "string \<Rightarrow> xml \<Rightarrow> int res" where
  "attr_unit_long a e = bind_res (required (xget a e)) (\<lambda>s. long_of_str (py_slice_to s (- 2)))"

definition attr_unit_float :: "string \<Rightarrow> xml \<Rightarrow> rat res" where
  "attr_unit_float a e = bind_res (required (xget a e)) (\<lambda>s. float_of_str (py_slice_to s (- 2)))"

definition parse_time_ns :: "string option \<Rightarrow> int res" where
  "parse_time_ns tm =
     (case tm of
        None \<Rightarrow> Inl AttributeError
      | Some s \<Rightarrow> if suffix ''ns'' s then long_of_str (py_slice_to s (- 2)) else Inl ValueError)"

section \<open>Flows\<close>

record five_tuple =
  sourceAddress :: "string option"
  destinationAddress :: "string option"
  protocol :: int
  sourcePort :: int
  destinationPort :: int

definition FiveTuple :: "xml \<Rightarrow> five_tuple res" where
  "FiveTuple el =
     bind_res (attr_int ''sourcePort'' el) (\<lambda>sp.
     bind_res (attr_int ''destinationPort'' el) (\<lambda>dp.
     bind_res (attr_int ''protocol'' el) (\<lambda>pr.
       Inr \<lparr> sourceAddress = xget ''sourceAddress'' el, destinationAddress = xget ''destinationAddress'' el,
             protocol = pr, sourcePort = sp, destinationPort = dp \<rparr>)))"

type_synonym histogram = "(rat \<times> rat \<times> int) list"

definition read_bin :: "xml \<Rightarrow> (rat \<times> rat \<times> int) res" where
  "read_bin b =
     bind_res (attr_float ''start'' b) (\<lambda>s.
     bind_res (attr_float ''width'' b) (\<lambda>w.
     bind_res (attr_int ''count'' b) (\<lambda>c. Inr (s, w, c))))"

definition Histogram :: "xml option \<Rightarrow> histogram res" where
  "Histogram el = (case el of None \<Rightarrow> Inr [] | Some e \<Rightarrow> map_res read_bin (findall ''bin'' e))"

record probe_flow_stats =
  probeId :: int
  packets :: int
  pbytes :: int
  delayFromFirstProbe :: rat

record flow =
  flowId :: int
  delayMean :: "rat option"
  packetLossRatio :: "rat option"
  rxBitrate :: "rat option"
  txBitrate :: "rat option"
  fiveTuple :: "five_tuple option"
  packetSizeMean :: "rat option"
  probe_stats_unsorted :: "probe_flow_stats list"
  hopCount :: rat
  flowInterruptionsHistogram :: "histogram option"
  rx_duration :: rat

text \<open>A duration in seconds from two times in nanoseconds.\<close>

definition duration :: "string \<Rightarrow> string \<Rightarrow> xml \<Rightarrow> rat res" where
  "duration l f el =
     bind_res (attr_unit_long l el) (\<lambda>b.
     bind_res (attr_unit_long f el) (\<lambda>a. Inr (of_int (b - a) / 10 ^ 9)))"

definition bitrate :: "string \<Rightarrow> rat \<Rightarrow> xml \<Rightarrow> rat option res" where
  "bitrate a d el =
     (if d > 0 then bind_res (attr_long a el) (\<lambda>n. Inr (Some (of_int (n * 8) / d))) else Inr None)"

definition hop_count :: "int \<Rightarrow> xml \<Rightarrow> rat res" where
  "hop_count rxPackets el =
     (if rxPackets \<noteq> 0 then bind_res (attr_float ''timesForwarded'' el) (\<lambda>t. Inr (t / of_int rxPackets + 1))
      else Inr (- 1000))"

definition delay_and_size :: "int \<Rightarrow> xml \<Rightarrow> (rat option \<times> rat option) res" where
  "delay_and_size rxPackets el =
     (if rxPackets \<noteq> 0 then
        bind_res (attr_unit_float ''delaySum'' el) (\<lambda>d.
        bind_res (attr_float ''rxBytes'' el) (\<lambda>n.
          Inr (Some (d / of_int rxPackets / 10 ^ 9), Some (n / of_int rxPackets))))
      else Inr (None, None))"

definition loss_ratio :: "int \<Rightarrow> rat \<Rightarrow> rat option res" where
  "loss_ratio rxPackets lost =
     (if rxPackets = 0 then Inr None
      else if of_int rxPackets + lost = 0 then Inl ZeroDivisionError
      else Inr (Some (lost / (of_int rxPackets + lost))))"

definition Flow :: "xml \<Rightarrow> flow res" where
  "Flow el =
     bind_res (attr_int ''flowId'' el) (\<lambda>fid.
     bind_res (attr_long ''rxPackets'' el) (\<lambda>rxPackets.
     bind_res (attr_long ''txPackets'' el) (\<lambda>txPackets.
     bind_res (duration ''timeLastTxPacket'' ''timeFirstTxPacket'' el) (\<lambda>tx_dur.
     bind_res (duration ''timeLastRxPacket'' ''timeFirstRxPacket'' el) (\<lambda>rx_dur.
     bind_res (hop_count rxPackets el) (\<lambda>hops.
     bind_res (delay_and_size rxPackets el) (\<lambda>(delay, size).
     bind_res (bitrate ''rxBytes'' rx_dur el) (\<lambda>rxb.
     bind_res (bitrate ''txBytes'' tx_dur el) (\<lambda>txb.
     bind_res (attr_float ''lostPackets'' el) (\<lambda>lost.
     bind_res (loss_ratio rxPackets lost) (\<lambda>plr.
     bind_res (case xfind ''flowInterruptionsHistogram'' el of
                 None \<Rightarrow> Inr None
               | Some h \<Rightarrow> bind_res (Histogram (Some h)) (\<lambda>x. Inr (Some x))) (\<lambda>hist.
       Inr \<lparr> flowId = fid, delayMean = delay, packetLossRatio = plr, rxBitrate = rxb, txBitrate = txb,
             fiveTuple = None, packetSizeMean = size, probe_stats_unsorted = [], hopCount = hops,
             flowInterruptionsHistogram = hist, rx_duration = rx_dur \<rparr>))))))))))))"

section \<open>The simulation\<close>

record sim_state =
  flows :: "flow list"
  flow_map :: "(int, nat) dict"

definition on_flow :: "int \<Rightarrow> (flow \<Rightarrow> flow) \<Rightarrow> sim_state \<Rightarrow> sim_state res" where
  "on_flow fid f s =
     (case map_of (flow_map s) fid of
        None \<Rightarrow> Inl KeyError
      | Some i \<Rightarrow> Inr (s\<lparr> flows := (flows s)[i := f (flows s ! i)] \<rparr>))"

definition add_flow :: "xml \<Rightarrow> sim_state \<Rightarrow> sim_state res" where
  "add_flow el s =
     bind_res (Flow el) (\<lambda>fl.
       Inr (s\<lparr> flow_map := AList.update (flowId fl) (length (flows s)) (flow_map s), flows := flows s @ [fl] \<rparr>))"

definition classify_flow :: "xml \<Rightarrow> sim_state \<Rightarrow> sim_state res" where
  "classify_flow el s =
     bind_res (attr_int ''flowId'' el) (\<lambda>fid.
     bind_res (FiveTuple el) (\<lambda>t. on_flow fid (\<lambda>fl. fl\<lparr> fiveTuple := Some t \<rparr>) s))"

definition read_stats :: "int \<Rightarrow> xml \<Rightarrow> (int \<times> probe_flow_stats) res" where
  "read_stats pid st =
     bind_res (attr_int ''flowId'' st) (\<lambda>fid.
     bind_res (attr_int ''packets'' st) (\<lambda>np.
     bind_res (attr_long ''bytes'' st) (\<lambda>nb.
     bind_res (if np > 0 then bind_res (parse_time_ns (xget ''delayFromFirstProbeSum'' st)) (\<lambda>d.
                 Inr (of_int d / of_int np))
               else Inr 0) (\<lambda>delay.
       Inr (fid, \<lparr> probeId = pid, packets = np, pbytes = nb, delayFromFirstProbe = delay \<rparr>)))))"

definition add_stats :: "int \<Rightarrow> xml \<Rightarrow> sim_state \<Rightarrow> sim_state res" where
  "add_stats pid st s =
     bind_res (read_stats pid st) (\<lambda>(fid, x).
       on_flow fid (\<lambda>fl. fl\<lparr> probe_stats_unsorted := probe_stats_unsorted fl @ [x] \<rparr>) s)"

definition add_probe :: "xml \<Rightarrow> sim_state \<Rightarrow> sim_state res" where
  "add_probe el s =
     bind_res (attr_int ''index'' el) (\<lambda>pid. fold_res (add_stats pid) (findall ''FlowStats'' el) s)"

definition Simulation :: "xml \<Rightarrow> flow list res" where
  "Simulation el =
     (case findall ''Ipv4FlowClassifier'' el of
        [cls] \<Rightarrow>
          bind_res (fold_res add_flow (findall_path ''FlowStats'' ''Flow'' el) \<lparr> flows = [], flow_map = [] \<rparr>) (\<lambda>s1.
          bind_res (fold_res classify_flow (findall ''Flow'' cls) s1) (\<lambda>s2.
          bind_res (fold_res add_probe (findall_path ''FlowProbes'' ''FlowProbe'' el) s2) (\<lambda>s3.
            Inr (flows s3))))
      | _ \<Rightarrow> Inl ValueError)"

section \<open>The report\<close>

fun read_events :: "(xml_event \<times> xml) list \<Rightarrow> int \<Rightarrow> flow list list \<Rightarrow> flow list list res" where
  "read_events [] level sim_list = Inr sim_list"
| "read_events ((ev, elem) # evs) level sim_list =
     (case ev of
        StartEv \<Rightarrow> read_events evs (level + 1) sim_list
      | EndEv \<Rightarrow>
          if level - 1 = 0 \<and> xtag elem = ''FlowMonitor''
          then bind_res (Simulation elem) (\<lambda>sim. read_events evs (level - 1) (sim_list @ [sim]))
          else read_events evs (level - 1) sim_list)"

definition proto_name :: "int \<Rightarrow> string res" where
  "proto_name p = (if p = 6 then Inr ''TCP'' else if p = 17 then Inr ''UDP'' else Inl KeyError)"

definition str_or_None :: "string option \<Rightarrow> string" where
  "str_or_None s = (case s of None \<Rightarrow> ''None'' | Some x \<Rightarrow> x)"

text \<open>A missing \<open>fiveTuple\<close> slot raises \<open>AttributeError\<close>; a product with \<open>None\<close> raises \<open>TypeError\<close>.\<close>

definition times :: "rat option \<Rightarrow> rat \<Rightarrow> rat res" where
  "times x k = (case x of None \<Rightarrow> Inl TypeError | Some r \<Rightarrow> Inr (r * k))"

definition report_flow :: "(rat \<Rightarrow> string) \<Rightarrow> flow \<Rightarrow> string list res" where
  "report_flow fmt fl =
     (case fiveTuple fl of
        None \<Rightarrow> Inl AttributeError
      | Some t \<Rightarrow>
          bind_res (proto_name (protocol t)) (\<lambda>proto.
          bind_res (times (txBitrate fl) (1 / 1000)) (\<lambda>tx.
          bind_res (times (rxBitrate fl) (1 / 1000)) (\<lambda>rx.
          bind_res (times (delayMean fl) 1000) (\<lambda>d.
          bind_res (times (packetLossRatio fl) 100) (\<lambda>l.
            Inr [''FlowID: '' @ int_str (flowId fl) @ '' ('' @ proto @ '' '' @ str_or_None (sourceAddress t) @ ''/''
                   @ int_str (sourcePort t) @ '' --> '' @ str_or_None (destinationAddress t) @ ''/''
                   @ int_str (destinationPort t) @ '')'',
                 CHR 0x09 # ''TX bitrate: '' @ fmt tx @ '' kbit/s'',
                 CHR 0x09 # ''RX bitrate: '' @ fmt rx @ '' kbit/s'',
                 CHR 0x09 # ''Mean Delay: '' @ fmt d @ '' ms'',
                 CHR 0x09 # ''Packet Loss Ratio: '' @ fmt l @ '' %'']))))))"

definition flowmon_main :: "(rat \<Rightarrow> string) \<Rightarrow> xml \<Rightarrow> string list res" where
  "flowmon_main fmt document =
     bind_res (read_events (xml_events document) 0 []) (\<lambda>sims.
     bind_res (map_res (report_flow fmt) (concat sims)) (\<lambda>out. Inr (concat out)))"


section \<open>The document\<close>

lemma read_events_inner:
  "0 < level \<Longrightarrow> read_events (xml_events e @ evs) level sims = read_events evs level sims"
proof (induction e arbitrary: level evs sims)
  case (Elem t a x ks)
  have "read_events (concat (map xml_events ks') @ evs') (level + 1) sims = read_events evs' (level + 1) sims"
    if "set ks' \<subseteq> set ks" for ks' evs'
    using that by (induction ks') (use Elem in simp_all)
  then show ?case using Elem.prems by simp
qed

lemma read_document:
  "read_events (xml_events d) 0 [] =
     (if xtag d = ''FlowMonitor'' then bind_res (Simulation d) (\<lambda>sim. Inr [sim]) else Inr [])"
proof (cases d)
  case (Elem t a x ks)
  have "read_events (concat (map xml_events ks') @ evs') 1 [] = read_events evs' 1 []" for ks' evs'
    by (induction ks') (simp_all add: read_events_inner)
  then show ?thesis using Elem by simp
qed

section \<open>Flows of a simulation\<close>

text \<open>What the classifier and the probes may change of a flow.\<close>

definition same_statistics :: "flow \<Rightarrow> flow \<Rightarrow> bool" where
  "same_statistics base fl \<longleftrightarrow>
     flowId fl = flowId base \<and> delayMean fl = delayMean base \<and> packetLossRatio fl = packetLossRatio base
     \<and> rxBitrate fl = rxBitrate base \<and> txBitrate fl = txBitrate base \<and> packetSizeMean fl = packetSizeMean base
     \<and> hopCount fl = hopCount base \<and> rx_duration fl = rx_duration base
     \<and> flowInterruptionsHistogram fl = flowInterruptionsHistogram base"

definition map_in_range :: "sim_state \<Rightarrow> bool" where
  "map_in_range s \<longleftrightarrow> (\<forall>i \<in> set (map snd (flow_map s)). i < length (flows s))"

definition n_stats :: "sim_state \<Rightarrow> nat" where
  "n_stats s = sum_list (map (\<lambda>fl. length (probe_stats_unsorted fl)) (flows s))"

definition all_Flow :: "xml list \<Rightarrow> flow list \<Rightarrow> bool" where
  "all_Flow els fs = list_all2 (\<lambda>el fl. \<exists>base. Flow el = Inr base \<and> same_statistics base fl) els fs"

lemma map_in_rangeD: "map_in_range s \<Longrightarrow> map_of (flow_map s) fid = Some i \<Longrightarrow> i < length (flows s)"
  by (force simp: map_in_range_def dest: map_of_SomeD)

lemma FlowE:
  assumes "Flow el = Inr fl"
  obtains rx txd lost where "attr_long ''rxPackets'' el = Inr rx"
    "duration ''timeLastTxPacket'' ''timeFirstTxPacket'' el = Inr txd" "hop_count rx el = Inr (hopCount fl)"
    "delay_and_size rx el = Inr (delayMean fl, packetSizeMean fl)"
    "bitrate ''rxBytes'' (rx_duration fl) el = Inr (rxBitrate fl)" "bitrate ''txBytes'' txd el = Inr (txBitrate fl)"
    "attr_float ''lostPackets'' el = Inr lost" "loss_ratio rx lost = Inr (packetLossRatio fl)"
    "probe_stats_unsorted fl = []"
  using assms unfolding Flow_def bind_res_Inr_iff by (auto simp: bind_res_Inr_iff)

lemma Flow_fresh: "Flow el = Inr fl \<Longrightarrow> probe_stats_unsorted fl = []"
  by (erule FlowE)

lemma add_flow_keeps:
  assumes "add_flow el s = Inr s'" and "map_in_range s" and "all_Flow els (flows s)"
  shows "map_in_range s' \<and> all_Flow (els @ [el]) (flows s') \<and> n_stats s' = n_stats s"
proof -
  obtain fl where fl: "Flow el = Inr fl"
    and s': "s' = s\<lparr> flow_map := AList.update (flowId fl) (length (flows s)) (flow_map s), flows := flows s @ [fl] \<rparr>"
    using assms(1) by (auto simp: add_flow_def bind_res_Inr_iff)
  have "snd ` set (AList.update k v d) \<subseteq> insert v (snd ` set d)" for k :: int and v :: nat and d
    by (induction d) auto
  then have "map_in_range s'" using assms(2) by (fastforce simp: s' map_in_range_def)
  moreover have "all_Flow (els @ [el]) (flows s')"
    using assms(3) fl by (auto simp: s' all_Flow_def same_statistics_def intro!: list_all2_appendI)
  moreover have "n_stats s' = n_stats s" using Flow_fresh [OF fl] by (simp add: s' n_stats_def)
  ultimately show ?thesis by simp
qed

lemma sum_list_update_add:
  "i < length xs \<Longrightarrow> f x = f (xs ! i) + (k :: nat) \<Longrightarrow> sum_list (map f (xs[i := x])) = sum_list (map f xs) + k"
  by (induction xs arbitrary: i) (auto split: nat.split)

lemma on_flow_keeps:
  assumes "on_flow fid f s = Inr s'" and "map_in_range s" and "all_Flow els (flows s)"
    and "\<And>base fl. same_statistics base fl \<Longrightarrow> same_statistics base (f fl)"
    and "\<And>fl. length (probe_stats_unsorted (f fl)) = length (probe_stats_unsorted fl) + k"
  shows "map_in_range s' \<and> all_Flow els (flows s') \<and> n_stats s' = n_stats s + k"
proof -
  obtain i where i: "map_of (flow_map s) fid = Some i" and s': "s' = s\<lparr> flows := (flows s)[i := f (flows s ! i)] \<rparr>"
    using assms(1) by (auto simp: on_flow_def split: option.splits)
  have lt: "i < length (flows s)" using map_in_rangeD [OF assms(2) i] .
  then have "n_stats s' = n_stats s + k"
    using assms(5) by (simp add: n_stats_def s' sum_list_update_add)
  moreover have "all_Flow els (flows s')"
    using assms(3,4) lt by (fastforce simp: all_Flow_def s' list_all2_conv_all_nth nth_list_update)
  ultimately show ?thesis using assms(2) by (simp add: map_in_range_def s')
qed

lemma classify_flow_keeps:
  assumes "classify_flow el s = Inr s'" and "map_in_range s" and "all_Flow els (flows s)"
  shows "map_in_range s' \<and> all_Flow els (flows s') \<and> n_stats s' = n_stats s"
proof -
  obtain fid t where "on_flow fid (\<lambda>fl. fl\<lparr> fiveTuple := Some t \<rparr>) s = Inr s'"
    using assms(1) by (auto simp: classify_flow_def bind_res_Inr_iff)
  from on_flow_keeps [OF this assms(2,3), of 0] show ?thesis by (auto simp: same_statistics_def)
qed

lemma add_stats_keeps:
  assumes "add_stats pid st s = Inr s'" and "map_in_range s" and "all_Flow els (flows s)"
  shows "map_in_range s' \<and> all_Flow els (flows s') \<and> n_stats s' = n_stats s + 1"
proof -
  obtain fid x where "on_flow fid (\<lambda>fl. fl\<lparr> probe_stats_unsorted := probe_stats_unsorted fl @ [x] \<rparr>) s = Inr s'"
    using assms(1) by (auto simp: add_stats_def bind_res_Inr_iff)
  from on_flow_keeps [OF this assms(2,3), of 1] show ?thesis by (auto simp: same_statistics_def)
qed

text \<open>A fold in which every step keeps the relation and adds a number.\<close>

lemma fold_res_adds:
  assumes "fold_res f xs s = Inr t" and "R s"
    and "\<And>x s s'. x \<in> set xs \<Longrightarrow> f x s = Inr s' \<Longrightarrow> R s \<Longrightarrow> R s' \<and> m s' = m s + (k x :: nat)"
  shows "R t \<and> m t = m s + sum_list (map k xs)"
  using assms
proof (induction xs arbitrary: s)
  case (Cons x xs)
  then obtain s' where "f x s = Inr s'" "fold_res f xs s' = Inr t" by (auto simp: bind_res_Inr_iff)
  with Cons show ?case by fastforce
qed simp

lemma add_probe_keeps:
  assumes "add_probe el s = Inr s'" and "map_in_range s \<and> all_Flow els (flows s)"
  shows "(map_in_range s' \<and> all_Flow els (flows s')) \<and> n_stats s' = n_stats s + length (findall ''FlowStats'' el)"
proof -
  obtain pid where "fold_res (add_stats pid) (findall ''FlowStats'' el) s = Inr s'"
    using assms(1) by (auto simp: add_probe_def bind_res_Inr_iff)
  from fold_res_adds [OF this, of "\<lambda>s. map_in_range s \<and> all_Flow els (flows s)" n_stats "\<lambda>_. 1"] assms(2)
  show ?thesis using add_stats_keeps by (fastforce simp: sum_list_triv)
qed

lemma add_flows_keep:
  assumes "fold_res add_flow els s = Inr s'" and "map_in_range s" and "all_Flow pre (flows s)"
  shows "map_in_range s' \<and> all_Flow (pre @ els) (flows s') \<and> n_stats s' = n_stats s"
  using assms
proof (induction els arbitrary: s pre)
  case (Cons el els)
  then obtain s1 where "add_flow el s = Inr s1" "fold_res add_flow els s1 = Inr s'" by (auto simp: bind_res_Inr_iff)
  with Cons add_flow_keeps [of el s s1 pre] show ?case by fastforce
qed simp

lemma simulation_flows:
  assumes "Simulation el = Inr fs"
  shows "all_Flow (findall_path ''FlowStats'' ''Flow'' el) fs
    \<and> sum_list (map (\<lambda>fl. length (probe_stats_unsorted fl)) fs)
      = sum_list (map (\<lambda>p. length (findall ''FlowStats'' p)) (findall_path ''FlowProbes'' ''FlowProbe'' el))"
proof -
  let ?els = "findall_path ''FlowStats'' ''Flow'' el"
  let ?R = "\<lambda>s. map_in_range s \<and> all_Flow ?els (flows s)"
  obtain cls s1 s2 s3 where run:
    "fold_res add_flow ?els \<lparr> flows = [], flow_map = [] \<rparr> = Inr s1"
    "fold_res classify_flow (findall ''Flow'' cls) s1 = Inr s2"
    "fold_res add_probe (findall_path ''FlowProbes'' ''FlowProbe'' el) s2 = Inr s3" "fs = flows s3"
    using assms by (auto simp: Simulation_def bind_res_Inr_iff split: list.splits)
  have 1: "?R s1 \<and> n_stats s1 = 0"
    using add_flows_keep [OF run(1), of "[]"] by (simp add: map_in_range_def all_Flow_def n_stats_def)
  then have 2: "?R s2 \<and> n_stats s2 = n_stats s1"
    using fold_res_adds [OF run(2), of ?R n_stats "\<lambda>_. 0"] classify_flow_keeps by (fastforce simp: sum_list_0)
  then have "?R s3 \<and> n_stats s3 = n_stats s2
      + sum_list (map (\<lambda>p. length (findall ''FlowStats'' p)) (findall_path ''FlowProbes'' ''FlowProbe'' el))"
    by (intro fold_res_adds [OF run(3)]) (simp, rule add_probe_keeps)
  with 1 2 run(4) show ?thesis by (simp add: n_stats_def)
qed


section \<open>Statistics and report\<close>

lemma bitrate_Inr:
  "bitrate a d el = Inr x \<Longrightarrow> x \<noteq> None \<longleftrightarrow> 0 < d"
  "bitrate a d el = Inr x \<Longrightarrow> attr_long a el = Inr n \<Longrightarrow> x = (if 0 < d then Some (of_int (n * 8) / d) else None)"
  by (auto simp: bitrate_def bind_res_Inr_iff split: if_splits)

lemma received_Inr:
  "delay_and_size rx el = Inr (x, y) \<Longrightarrow> x \<noteq> None \<longleftrightarrow> rx \<noteq> 0"
  "loss_ratio rx lost = Inr z \<Longrightarrow> z \<noteq> None \<longleftrightarrow> rx \<noteq> 0"
  by (auto simp: delay_and_size_def loss_ratio_def bind_res_Inr_iff split: if_splits)

text \<open>
  Bounds of the statistics. For a flow with received packets and no negative counts, the ratio of lost packets lies in the
  interval from 0 to 1, excluding 1, the hop count is at least 1, and a bit rate is not negative.
\<close>

theorem flow_statistics_bounds:
  assumes "Flow el = Inr fl" and "attr_long ''rxPackets'' el = Inr rx" and "0 < rx"
    and "attr_float ''lostPackets'' el = Inr lost" and "0 \<le> lost"
    and "attr_float ''timesForwarded'' el = Inr fwd" and "0 \<le> fwd"
    and "attr_long ''rxBytes'' el = Inr nb" and "0 \<le> nb"
  shows "(\<exists>q. packetLossRatio fl = Some q \<and> 0 \<le> q \<and> q < 1) \<and> 1 \<le> hopCount fl
    \<and> (case rxBitrate fl of None \<Rightarrow> rx_duration fl \<le> 0 | Some b \<Rightarrow> 0 \<le> b \<and> 0 < rx_duration fl)"
proof -
  have pos: "0 < (of_int rx :: rat)" using assms(3) by simp
  then have q: "0 \<le> lost / (of_int rx + lost)" "lost / (of_int rx + lost) < 1" using assms(5) by (simp_all add: field_simps)
  from assms(1) have "hop_count rx el = Inr (hopCount fl)" "loss_ratio rx lost = Inr (packetLossRatio fl)"
    and b: "bitrate ''rxBytes'' (rx_duration fl) el = Inr (rxBitrate fl)"
    using assms(2,4) by (auto elim!: FlowE)
  then have "packetLossRatio fl = Some (lost / (of_int rx + lost))" "hopCount fl = fwd / of_int rx + 1"
    using assms(3,5,6) pos by (auto simp: loss_ratio_def hop_count_def split: if_splits)
  moreover have "case rxBitrate fl of None \<Rightarrow> rx_duration fl \<le> 0 | Some b \<Rightarrow> 0 \<le> b \<and> 0 < rx_duration fl"
    using bitrate_Inr(2) [OF b assms(8)] assms(9) by simp
  ultimately show ?thesis using q pos assms(7) by simp
qed

lemma report_flow_total:
  "(\<exists>out. report_flow fmt fl = Inr out) \<longleftrightarrow>
     (\<exists>t. fiveTuple fl = Some t \<and> protocol t \<in> {6, 17}) \<and> txBitrate fl \<noteq> None \<and> rxBitrate fl \<noteq> None
     \<and> delayMean fl \<noteq> None \<and> packetLossRatio fl \<noteq> None"
  by (cases "fiveTuple fl"; cases "txBitrate fl"; cases "rxBitrate fl"; cases "delayMean fl"; cases "packetLossRatio fl")
    (simp_all add: report_flow_def times_def proto_name_def)

lemma map_res_total: "(\<exists>ys. map_res f xs = Inr ys) \<longleftrightarrow> (\<forall>x \<in> set xs. \<exists>y. f x = Inr y)"
  by (induction xs) (auto simp: bind_res_Inr_iff)

definition reportable :: "xml \<Rightarrow> flow \<Rightarrow> bool" where
  "reportable el fl \<longleftrightarrow>
     (\<exists>t. fiveTuple fl = Some t \<and> protocol t \<in> {6, 17}) \<and> attr_long ''rxPackets'' el \<noteq> Inr 0
     \<and> 0 < rx_duration fl \<and> (\<exists>d. duration ''timeLastTxPacket'' ''timeFirstTxPacket'' el = Inr d \<and> 0 < d)"

lemma Flow_reported:
  assumes "Flow el = Inr base" and "same_statistics base fl"
  shows "(\<exists>out. report_flow fmt fl = Inr out) \<longleftrightarrow> reportable el fl"
proof -
  have "txBitrate fl = txBitrate base" "rxBitrate fl = rxBitrate base" "delayMean fl = delayMean base"
    "packetLossRatio fl = packetLossRatio base" "rx_duration fl = rx_duration base"
    using assms(2) by (simp_all add: same_statistics_def)
  moreover from assms(1) have
    "txBitrate base \<noteq> None \<longleftrightarrow> (\<exists>d. duration ''timeLastTxPacket'' ''timeFirstTxPacket'' el = Inr d \<and> 0 < d)"
    by (rule FlowE) (use bitrate_Inr(1) in auto)
  moreover from assms(1) have "rxBitrate base \<noteq> None \<longleftrightarrow> 0 < rx_duration base"
    by (rule FlowE) (rule bitrate_Inr(1))
  moreover from assms(1) have "delayMean base \<noteq> None \<longleftrightarrow> attr_long ''rxPackets'' el \<noteq> Inr 0"
    by (rule FlowE) (use received_Inr(1) in auto)
  moreover from assms(1) have "packetLossRatio base \<noteq> None \<longleftrightarrow> attr_long ''rxPackets'' el \<noteq> Inr 0"
    by (rule FlowE) (use received_Inr(2) in auto)
  ultimately show ?thesis by (auto simp: report_flow_total reportable_def)
qed

text \<open>
  C38. When the report is printed. For a document whose simulation is read, the program prints the report exactly when every flow
  is classified as TCP or UDP, has received a packet, and has sent and received over more than a moment: a single
  flow without received packets, or with only one, makes it raise an exception.
\<close>

theorem flowmon_report_total:
  assumes "xtag d = ''FlowMonitor''" and "Simulation d = Inr fs"
  shows "(\<exists>out. flowmon_main fmt d = Inr out) \<longleftrightarrow>
    list_all2 reportable (findall_path ''FlowStats'' ''Flow'' d) fs"
proof -
  have all: "all_Flow (findall_path ''FlowStats'' ''Flow'' d) fs"
    using simulation_flows [OF assms(2)] by simp
  have "(\<exists>out. flowmon_main fmt d = Inr out) \<longleftrightarrow> (\<forall>fl \<in> set fs. \<exists>out. report_flow fmt fl = Inr out)"
    using assms map_res_total [of "report_flow fmt" fs] by (auto simp: flowmon_main_def read_document bind_res_Inr_iff)
  also have "\<dots> \<longleftrightarrow> list_all2 reportable (findall_path ''FlowStats'' ''Flow'' d) fs"
  proof -
    let ?els = "findall_path ''FlowStats'' ''Flow'' d"
    have len: "length ?els = length fs" using all by (simp add: all_Flow_def list_all2_lengthD)
    have "(\<exists>out. report_flow fmt (fs ! i) = Inr out) \<longleftrightarrow> reportable (?els ! i) (fs ! i)" if "i < length fs" for i
    proof -
      have "\<exists>base. Flow (?els ! i) = Inr base \<and> same_statistics base (fs ! i)"
        using all that unfolding all_Flow_def list_all2_conv_all_nth by simp
      then show ?thesis using Flow_reported by blast
    qed
    then show ?thesis by (simp add: all_set_conv_all_nth list_all2_conv_all_nth len)
  qed
  finally show ?thesis .
qed


section \<open>A document\<close>

definition demo_flow :: xml where
  "demo_flow = Elem ''Flow'' [(''flowId'', ''1''), (''rxPackets'', ''4''), (''txPackets'', ''5''),
     (''timeLastTxPacket'', ''+2000000000ns''), (''timeFirstTxPacket'', ''0ns''),
     (''timeLastRxPacket'', ''3000000000ns''), (''timeFirstRxPacket'', ''1000000000ns''),
     (''timesForwarded'', ''8''), (''delaySum'', ''4e9ns''), (''rxBytes'', ''500''), (''txBytes'', ''1000''),
     (''lostPackets'', ''1'')] None []"

definition demo_class :: xml where
  "demo_class = Elem ''Flow'' [(''flowId'', ''1''), (''sourceAddress'', ''10.1.1.1''), (''destinationAddress'', ''10.1.1.2''),
     (''sourcePort'', ''9''), (''destinationPort'', ''80''), (''protocol'', ''6'')] None []"

definition demo_doc :: xml where
  "demo_doc = Elem ''FlowMonitor'' [] None [Elem ''FlowStats'' [] None [demo_flow],
     Elem ''Ipv4FlowClassifier'' [] None [demo_class],
     Elem ''FlowProbes'' [] None [Elem ''FlowProbe'' [(''index'', ''0'')] None
       [Elem ''FlowStats'' [(''flowId'', ''1''), (''packets'', ''0''), (''bytes'', ''0'')] None []]]]"

definition demo_flow_value :: flow where
  "demo_flow_value = \<lparr> flowId = 1, delayMean = Some 1, packetLossRatio = Some (1 / 5), rxBitrate = Some 2000,
     txBitrate = Some 4000, fiveTuple = None, packetSizeMean = Some 125, probe_stats_unsorted = [], hopCount = 3,
     flowInterruptionsHistogram = None, rx_duration = 2 \<rparr>"

definition demo_sim :: "flow list" where
  "demo_sim = [demo_flow_value\<lparr> fiveTuple := Some \<lparr> sourceAddress = Some ''10.1.1.1'', destinationAddress = Some ''10.1.1.2'',
       protocol = 6, sourcePort = 9, destinationPort = 80 \<rparr>,
     probe_stats_unsorted := [\<lparr> probeId = 0, packets = 0, pbytes = 0, delayFromFirstProbe = 0 \<rparr>] \<rparr>]"

lemmas number_defs = attr_int_def attr_long_def attr_float_def attr_unit_long_def attr_unit_float_def required_def xget_def
  int_of_str_def long_of_str_def float_of_str_def read_sign_def str_strip_def is_space_def is_digit_def digit_val_def
  nat_of_digits_def scaled_digits_def py_slice_to_def slice_bound_def

lemma demo_attrs:
  "attr_int ''flowId'' demo_flow = Inr 1" "attr_long ''rxPackets'' demo_flow = Inr 4"
  "attr_long ''txPackets'' demo_flow = Inr 5" "attr_unit_long ''timeLastTxPacket'' demo_flow = Inr 2000000000"
  "attr_unit_long ''timeFirstTxPacket'' demo_flow = Inr 0" "attr_unit_long ''timeLastRxPacket'' demo_flow = Inr 3000000000"
  "attr_unit_long ''timeFirstRxPacket'' demo_flow = Inr 1000000000" "attr_float ''timesForwarded'' demo_flow = Inr 8"
  "attr_unit_float ''delaySum'' demo_flow = Inr 4000000000" "attr_float ''rxBytes'' demo_flow = Inr 500"
  "attr_long ''rxBytes'' demo_flow = Inr 500" "attr_long ''txBytes'' demo_flow = Inr 1000"
  "attr_float ''lostPackets'' demo_flow = Inr 1"
  by (simp_all add: demo_flow_def number_defs)

lemma demo_flow_read: "Flow demo_flow = Inr demo_flow_value"
  by (simp add: Flow_def demo_attrs duration_def hop_count_def delay_and_size_def bitrate_def loss_ratio_def
      demo_flow_value_def) (simp add: demo_flow_def xfind_def)

lemma demo_tag: "xtag demo_flow = ''Flow''"
  by (simp add: demo_flow_def)

lemma demo_simulation: "Simulation demo_doc = Inr demo_sim"
  by (simp add: Simulation_def demo_doc_def findall_def findall_path_def demo_tag add_flow_def demo_flow_read
      demo_flow_value_def classify_flow_def demo_class_def FiveTuple_def on_flow_def add_probe_def add_stats_def
      read_stats_def number_defs demo_sim_def)


theorem flow_statistics_bounds_witness:
  "\<exists>q. packetLossRatio demo_flow_value = Some q \<and> 0 \<le> q \<and> q < 1"
  using flow_statistics_bounds [OF demo_flow_read demo_attrs(2) _ demo_attrs(13) _ demo_attrs(8) _ demo_attrs(11)] by simp

theorem flowmon_report_total_witness:
  "\<exists>out. flowmon_main (\<lambda>x. ''0.00'') demo_doc = Inr out"
proof -
  have "findall_path ''FlowStats'' ''Flow'' demo_doc = [demo_flow]"
    by (simp add: demo_doc_def findall_path_def findall_def demo_flow_def)
  moreover have "xtag demo_doc = ''FlowMonitor''" by (simp add: demo_doc_def)
  moreover have "reportable demo_flow (hd demo_sim)"
    by (simp add: reportable_def demo_attrs duration_def demo_sim_def demo_flow_value_def)
  ultimately show ?thesis
    using flowmon_report_total [OF _ demo_simulation, of "\<lambda>x. ''0.00''"] by (simp add: demo_sim_def)
qed

end
