(* ===== verification/VizSvg.thy ===== *)
theory VizSvg
  imports PyBase Complex_Main
begin

text \<open>
  The scaled images of the visualizer, \<open>src/visualizer/visualizer/svgitem.py\<close>: an image with a natural size, a position, and a scale that
  follows the sizes that are asked for. The library that loads and renders images is the argument \<open>load\<close>, with
  the natural size of each file.
\<close>

record svg_item =
  svg_x :: rat
  svg_y :: rat
  svg_sx :: rat
  svg_sy :: rat
  svg_natural :: "rat \<times> rat"
  svg_width :: rat
  svg_height :: rat
  custom_width :: "rat option"
  custom_height :: "rat option"

definition SvgItem_init :: "rat \<Rightarrow> rat \<Rightarrow> rat \<times> rat \<Rightarrow> svg_item" where
  "SvgItem_init x y natural = \<lparr> svg_x = x, svg_y = y, svg_sx = 1, svg_sy = 1, svg_natural = natural,
     svg_width = fst natural, svg_height = snd natural, custom_width = None, custom_height = None \<rparr>"

definition svg_ratio :: "rat \<Rightarrow> rat \<Rightarrow> rat res" where
  "svg_ratio a b = (if b = 0 then Inl ZeroDivisionError else Inr (a / b))"

text \<open>\<open>_size_changed\<close>: without a custom height the height follows the width, and the other way round.\<close>

definition svg_size_changed :: "svg_item \<Rightarrow> svg_item res" where
  "svg_size_changed s =
     (let (nw, nh) = svg_natural s in
      case (custom_width s, custom_height s) of
        (None, None) \<Rightarrow> Inr (s\<lparr> svg_width := nw, svg_height := nh, svg_sx := 1, svg_sy := 1 \<rparr>)
      | (Some w, None) \<Rightarrow>
          bind_res (svg_ratio w nw) (\<lambda>r. Inr (s\<lparr> svg_width := w, svg_sx := r, svg_sy := r, svg_height := nh * r \<rparr>))
      | (None, Some h) \<Rightarrow>
          bind_res (svg_ratio h nh) (\<lambda>r. Inr (s\<lparr> svg_height := h, svg_sy := r, svg_sx := r, svg_width := nw * r \<rparr>))
      | (Some w, Some h) \<Rightarrow>
          bind_res (svg_ratio w nw) (\<lambda>rx. bind_res (svg_ratio h nh) (\<lambda>ry.
            Inr (s\<lparr> svg_width := w, svg_height := h, svg_sx := rx, svg_sy := ry \<rparr>))))"

definition do_set_property :: "string \<Rightarrow> rat \<Rightarrow> svg_item \<Rightarrow> svg_item res" where
  "do_set_property name value s =
     (if name = ''x'' then Inr (s\<lparr> svg_x := value \<rparr>)
      else if name = ''y'' then Inr (s\<lparr> svg_y := value \<rparr>)
      else if name = ''width'' then svg_size_changed (s\<lparr> custom_width := Some value \<rparr>)
      else if name = ''height'' then svg_size_changed (s\<lparr> custom_height := Some value \<rparr>)
      else Inl AttributeError)"

definition do_get_property :: "string \<Rightarrow> svg_item \<Rightarrow> (rat \<times> svg_item) res" where
  "do_get_property name s =
     (if name = ''x'' then Inr (svg_x s, s)
      else if name = ''y'' then Inr (svg_y s, s)
      else if name = ''width'' then
        let s' = s\<lparr> svg_width := fst (svg_natural s), svg_height := snd (svg_natural s) \<rparr> in Inr (svg_width s', s')
      else if name = ''height'' then Inr (svg_height s, s)
      else Inl AttributeError)"

text \<open>The rectangle that is painted, the natural one moved and scaled; the bounds; and the test for the pointer.\<close>

definition do_simple_paint :: "svg_item \<Rightarrow> (rat \<times> rat) \<times> (rat \<times> rat)" where
  "do_simple_paint s =
     ((svg_x s, svg_y s), (svg_x s + svg_sx s * fst (svg_natural s), svg_y s + svg_sy s * snd (svg_natural s)))"

definition do_simple_update :: "svg_item \<Rightarrow> (rat \<times> rat) \<times> (rat \<times> rat)" where
  "do_simple_update s = ((svg_x s, svg_y s), (svg_x s + svg_width s, svg_y s + svg_height s))"

definition do_simple_is_item_at :: "rat \<Rightarrow> rat \<Rightarrow> svg_item \<Rightarrow> bool" where
  "do_simple_is_item_at x y s \<longleftrightarrow>
     \<not> ((x < svg_x s \<or> svg_x s + svg_width s < x) \<or> (y < svg_y s \<or> svg_y s + svg_height s < y))"

text \<open>\<open>rsvg_handle_factory\<close> with its cache; the second result says whether the file was loaded.\<close>

definition rsvg_handle_factory ::
    "(string \<Rightarrow> rat \<times> rat) \<Rightarrow> string \<Rightarrow> (string, rat \<times> rat) dict \<Rightarrow> (rat \<times> rat) \<times> bool \<times> (string, rat \<times> rat) dict" where
  "rsvg_handle_factory load f cache =
     (case map_of cache f of
        Some h \<Rightarrow> (h, False, cache)
      | None \<Rightarrow> (load f, True, AList.update f (load f) cache))"

section \<open>What is painted\<close>

text \<open>The bounds of an item are those of what is painted.\<close>

definition svg_fits :: "svg_item \<Rightarrow> bool" where
  "svg_fits s \<longleftrightarrow> svg_width s = svg_sx s * fst (svg_natural s) \<and> svg_height s = svg_sy s * snd (svg_natural s)"

lemma SvgItem_init_fits: "svg_fits (SvgItem_init x y natural)"
  by (simp add: svg_fits_def SvgItem_init_def)

lemma size_changed_fits: "svg_size_changed s = Inr s' \<Longrightarrow> svg_fits s'"
  by (cases "svg_natural s")
    (auto simp: svg_size_changed_def svg_fits_def svg_ratio_def bind_res_Inr_iff split: option.splits if_splits)

lemma set_property_fits: "do_set_property name value s = Inr s' \<Longrightarrow> svg_fits s \<Longrightarrow> svg_fits s'"
  by (auto simp: do_set_property_def split: if_splits dest: size_changed_fits) (simp_all add: svg_fits_def)

definition svg_step :: "svg_item \<Rightarrow> svg_item \<Rightarrow> bool" where
  "svg_step s s' \<longleftrightarrow> (\<exists>name value. do_set_property name value s = Inr s')"

interpretation painted: step_invariant svg_step svg_fits
  by unfold_locales (auto simp: svg_step_def intro: set_property_fits)

lemma fits_bounds: "svg_fits s \<Longrightarrow> do_simple_update s = do_simple_paint s"
  by (simp add: svg_fits_def do_simple_update_def do_simple_paint_def)

text \<open>
  Any sequence of settings: the rectangle that is painted is the one of the bounds, and the pointer is on the item exactly when it is
  in this rectangle; with one size given the proportions of the image are kept.
\<close>

lemma bounds_are_painted:
  assumes "svg_step\<^sup>*\<^sup>* (SvgItem_init x y natural) s"
  shows "do_simple_update s = do_simple_paint s
    \<and> (do_simple_is_item_at px py s \<longleftrightarrow> (case do_simple_paint s of ((x1, y1), (x2, y2)) \<Rightarrow> x1 \<le> px \<and> px \<le> x2 \<and> y1 \<le> py \<and> py \<le> y2))"
proof -
  from fits_bounds [OF painted.steps_keep [OF assms SvgItem_init_fits]]
  have e: "do_simple_update s = do_simple_paint s" .
  then show ?thesis unfolding e [symmetric] by (auto simp: do_simple_is_item_at_def do_simple_update_def)
qed

text \<open>Reading the width sets it back to the natural one, although the image is still painted with its scale.\<close>

lemma reading_width_breaks:
  "do_set_property ''width'' 6 (SvgItem_init 0 0 (3, 4)) = Inr s \<Longrightarrow>
   \<exists>s'. do_get_property ''width'' s = Inr (3, s') \<and> do_simple_paint s' = ((0, 0), (6, 8)) \<and> do_simple_update s' = ((0, 0), (3, 4))"
  by (auto simp: do_set_property_def svg_size_changed_def svg_ratio_def SvgItem_init_def do_get_property_def
      do_simple_paint_def do_simple_update_def)

end
