(* ===== verification/VizCore.thy ===== *)
theory VizCore
  imports VizSvg
begin

text \<open>
  The visualizer, \<open>src/visualizer/visualizer/core.py\<close> and \<open>base.py\<close>, first part: the objects on the canvas and the operations on
  them. Nodes, channels and links are kept in the state of the visualizer; a reference to a node is its
  index, a reference to a link its position in the list of links. Canvas items are the properties that the
  code sets.

  The simulator is the field \<open>mobility\<close>, the position of each node that has a mobility model, together with the
  arguments of the topology scan. What the code uses of the canvas library (conversion between pixels and canvas coordinates at a
  zoom level, the limits of the scroll bars, line clipping), the layout of the graph, the logarithm and the formatting
  of numbers are the fields of the record \<open>api\<close>. Floats are exact rationals. The order of the keys of a dictionary
  is a field too.
\<close>

section \<open>base.py\<close>

definition PIXELS_PER_METER :: rat where
  "PIXELS_PER_METER = 3"

definition transform_distance_simulation_to_canvas :: "rat \<Rightarrow> rat" where
  "transform_distance_simulation_to_canvas d = d * PIXELS_PER_METER"

definition transform_point_simulation_to_canvas :: "rat \<times> rat \<Rightarrow> rat \<times> rat" where
  "transform_point_simulation_to_canvas = (\<lambda>(x, y). (x * PIXELS_PER_METER, y * PIXELS_PER_METER))"

definition transform_distance_canvas_to_simulation :: "rat \<Rightarrow> rat" where
  "transform_distance_canvas_to_simulation d = d / PIXELS_PER_METER"

definition transform_point_canvas_to_simulation :: "rat \<times> rat \<Rightarrow> rat \<times> rat" where
  "transform_point_canvas_to_simulation = (\<lambda>(x, y). (x / PIXELS_PER_METER, y / PIXELS_PER_METER))"

record netdevice_traits =
  is_wireless :: "bool option"
  is_virtual :: bool

definition NetDeviceTraits :: "bool option \<Rightarrow> bool \<Rightarrow> netdevice_traits res" where
  "NetDeviceTraits w v =
     (if v \<or> w \<noteq> None then Inr \<lparr> is_wireless = w, is_virtual = v \<rparr> else Inl AssertionError)"

definition netdevice_traits_table :: "(string, netdevice_traits) dict" where
  "netdevice_traits_table =
     [(''PointToPointNetDevice'', \<lparr> is_wireless = Some False, is_virtual = False \<rparr>),
      (''CsmaNetDevice'', \<lparr> is_wireless = Some False, is_virtual = False \<rparr>),
      (''WifiNetDevice'', \<lparr> is_wireless = Some True, is_virtual = False \<rparr>),
      (''BridgeNetDevice'', \<lparr> is_wireless = None, is_virtual = True \<rparr>),
      (''LoopbackNetDevice'', \<lparr> is_wireless = Some False, is_virtual = True \<rparr>),
      (''MeshPointDevice'', \<lparr> is_wireless = None, is_virtual = True \<rparr>),
      (''SubscriberStationNetDevice'', \<lparr> is_wireless = Some True, is_virtual = False \<rparr>),
      (''BaseStationNetDevice'', \<lparr> is_wireless = Some True, is_virtual = False \<rparr>)]"

text \<open>An unknown type is entered into the table as a wireless device.\<close>

definition lookup_netdevice_traits ::
    "string \<Rightarrow> (string, netdevice_traits) dict \<Rightarrow> netdevice_traits \<times> (string, netdevice_traits) dict" where
  "lookup_netdevice_traits ty d =
     (case map_of d ty of
        Some t \<Rightarrow> (t, d)
      | None \<Rightarrow> let t = \<lparr> is_wireless = Some True, is_virtual = False \<rparr> in (t, AList.update ty t d))"

section \<open>Objects\<close>

record ellipse =
  center_x :: rat
  center_y :: rat
  radius :: rat
  fill_color :: int
  line_width :: rat
  stroke_color :: string

record vnode =
  item :: ellipse
  links :: "nat list"
  has_mobility_cache :: "bool option"
  selected :: bool
  highlighted :: bool
  color :: int
  nsize :: rat
  svg :: "svg_item option"
  svg_align :: "rat \<times> rat"
  label :: "string option"
  label_item :: "(string \<times> rat \<times> rat) option"

record vchannel =
  ch_x :: rat
  ch_y :: rat
  ch_links :: "nat list"

datatype endpoint = NodeEnd int | ChannelEnd int

record wired_link =
  node1 :: int
  node2 :: endpoint
  path_data :: "((rat \<times> rat) \<times> (rat \<times> rat)) option"

datatype show_mode = ShowAll | ShowNone | ShowSelected

record panning_state =
  initial_mouse_pos :: "rat \<times> rat"
  initial_canvas_pos :: "rat \<times> rat"

record drag_state =
  canvas0 :: "rat \<times> rat"
  sim0 :: "rat \<times> rat"

record transmission =
  transmitter :: int
  receiver :: int
  tbytes :: int

record arrow =
  arrow_visible :: bool
  arrow_width :: rat
  arrow_points :: "(rat \<times> rat) \<times> (rat \<times> rat)"
  label_visible :: bool
  label_text :: string
  label_font :: int
  label_at :: "rat \<times> rat"
  label_dy :: rat
  label_flipped :: bool

record viz =
  nodes :: "(int, vnode) dict"
  channels :: "(int, vchannel) dict"
  wlinks :: "wired_link list"
  selected_node :: "int option"
  mode :: show_mode
  nodes_of_interest :: "int list"
  n_nodes :: nat
  mobility :: "int \<Rightarrow> (rat \<times> rat) option"
  zoom :: rat
  hvalue :: rat
  vvalue :: rat
  hpage :: rat
  vpage :: rat
  panning :: "panning_state option"
  node_drag_state :: "drag_state option"
  follow_node :: "int option"
  node_size :: rat
  smoothing :: rat
  sample_period :: rat
  last_transmissions :: "transmission list list"
  last_drops :: "transmission list list"
  transmission_arrows :: "arrow list"
  drop_arrows :: "arrow list"

record api =
  from_pixels :: "rat \<Rightarrow> rat \<times> rat \<Rightarrow> rat \<times> rat"
  to_pixels :: "rat \<Rightarrow> rat \<times> rat \<Rightarrow> rat \<times> rat"
  clamp_h :: "rat \<Rightarrow> rat"
  clamp_v :: "rat \<Rightarrow> rat"
  line_clipping :: "rat \<times> rat \<Rightarrow> rat \<times> rat \<Rightarrow> (rat \<times> rat) \<times> (rat \<times> rat) \<Rightarrow> (rat \<times> rat) \<times> (rat \<times> rat)"
  log_api :: "rat \<Rightarrow> rat"
  format2 :: "rat \<Rightarrow> string"
  scroll_position :: "rat \<Rightarrow> rat \<times> rat \<Rightarrow> rat \<times> rat"
  node_order :: "int list \<Rightarrow> int list"
  pair_order :: "(int \<times> int) list \<Rightarrow> (int \<times> int) list"

section \<open>Positions and links\<close>

definition on_node :: "int \<Rightarrow> (vnode \<Rightarrow> vnode) \<Rightarrow> viz \<Rightarrow> viz" where
  "on_node i f v = v\<lparr> nodes := map (\<lambda>(k, n). (k, if k = i then f n else n)) (nodes v) \<rparr>"

definition on_channel :: "int \<Rightarrow> (vchannel \<Rightarrow> vchannel) \<Rightarrow> viz \<Rightarrow> viz" where
  "on_channel i f v = v\<lparr> channels := map (\<lambda>(k, c). (k, if k = i then f c else c)) (channels v) \<rparr>"

definition node_position :: "viz \<Rightarrow> int \<Rightarrow> rat \<times> rat" where
  "node_position v i =
     (case map_of (nodes v) i of Some n \<Rightarrow> (center_x (item n), center_y (item n)) | None \<Rightarrow> (0, 0))"

definition channel_position :: "viz \<Rightarrow> int \<Rightarrow> rat \<times> rat" where
  "channel_position v i = (case map_of (channels v) i of Some c \<Rightarrow> (ch_x c, ch_y c) | None \<Rightarrow> (0, 0))"

definition end_position :: "viz \<Rightarrow> endpoint \<Rightarrow> rat \<times> rat" where
  "end_position v e = (case e of NodeEnd i \<Rightarrow> node_position v i | ChannelEnd i \<Rightarrow> channel_position v i)"

text \<open>\<open>WiredLink.update_points\<close>.\<close>

definition update_points :: "nat \<Rightarrow> viz \<Rightarrow> viz" where
  "update_points l v =
     v\<lparr> wlinks := (wlinks v)[l := (wlinks v ! l)
          \<lparr> path_data := Some (node_position v (node1 (wlinks v ! l)), end_position v (node2 (wlinks v ! l))) \<rparr>] \<rparr>"

definition update_svg_position :: "rat \<times> rat \<Rightarrow> rat \<Rightarrow> rat \<Rightarrow> svg_item \<Rightarrow> svg_item" where
  "update_svg_position align x y s =
     s\<lparr> svg_x := x - (1 - fst align) * svg_width s, svg_y := y - (1 - snd align) * svg_height s \<rparr>"

definition move_item :: "rat \<Rightarrow> rat \<Rightarrow> vnode \<Rightarrow> vnode" where
  "move_item x y n =
     n\<lparr> item := (item n)\<lparr> center_x := x, center_y := y \<rparr>, svg := map_option (update_svg_position (svg_align n) x y) (svg n) \<rparr>"

definition move_label :: "rat \<Rightarrow> rat \<Rightarrow> vnode \<Rightarrow> vnode" where
  "move_label x y n = n\<lparr> label_item := map_option (\<lambda>(t, _, _). (t, x, y + nsize n * 3)) (label_item n) \<rparr>"

definition node_links :: "viz \<Rightarrow> int \<Rightarrow> nat list" where
  "node_links v i = (case map_of (nodes v) i of Some n \<Rightarrow> links n | None \<Rightarrow> [])"

text \<open>\<open>Node.set_position\<close> and \<open>Channel.set_position\<close>.\<close>

definition set_position :: "int \<Rightarrow> rat \<times> rat \<Rightarrow> viz \<Rightarrow> viz" where
  "set_position i = (\<lambda>(x, y) v.
     let v1 = on_node i (move_item x y) v
     in on_node i (move_label x y) (fold update_points (node_links v1 i) v1))"

definition set_channel_position :: "int \<Rightarrow> rat \<times> rat \<Rightarrow> viz \<Rightarrow> viz" where
  "set_channel_position i = (\<lambda>(x, y) v.
     let v1 = on_channel i (\<lambda>c. c\<lparr> ch_x := x, ch_y := y \<rparr>) v
     in fold update_points (case map_of (channels v1) i of Some c \<Rightarrow> ch_links c | None \<Rightarrow> []) v1)"

section \<open>Nodes\<close>

text \<open>\<open>Node._update_appearance\<close>: the item, then the label and, with a label, the position.\<close>

definition appearance :: "vnode \<Rightarrow> vnode" where
  "appearance n =
     (let sz = transform_distance_simulation_to_canvas (nsize n);
          alpha = (if svg n \<noteq> None then 0x80 else 0xff);
          it = (item n)\<lparr> radius := sz, fill_color := color n mod 2 ^ 32 - color n mod 256 + alpha,
                 line_width := (if selected n then sz * 3 / 10 else sz * 15 / 100),
                 stroke_color := (if highlighted n then ''yellow'' else ''black'') \<rparr>
      in n\<lparr> item := it,
             label_item := (case label n of
                              None \<Rightarrow> label_item n
                            | Some t \<Rightarrow> Some (t, case label_item n of Some (_, x, y) \<Rightarrow> (x, y) | None \<Rightarrow> (0, 0))) \<rparr>)"

definition update_appearance :: "int \<Rightarrow> viz \<Rightarrow> viz" where
  "update_appearance i v =
     (let v1 = on_node i appearance v in
      case map_of (nodes v1) i of
        Some n \<Rightarrow> if label n \<noteq> None then set_position i (node_position v1 i) v1 else v1
      | None \<Rightarrow> v1)"

definition change_node :: "int \<Rightarrow> (vnode \<Rightarrow> vnode) \<Rightarrow> viz \<Rightarrow> viz" where
  "change_node i f v = update_appearance i (on_node i f v)"

definition set_label :: "int \<Rightarrow> string \<Rightarrow> viz \<Rightarrow> viz" where
  "set_label i s = change_node i (\<lambda>n. n\<lparr> label := Some s \<rparr>)"

definition set_selected :: "int \<Rightarrow> bool \<Rightarrow> viz \<Rightarrow> viz" where
  "set_selected i b = change_node i (\<lambda>n. n\<lparr> selected := b \<rparr>)"

definition set_highlighted :: "int \<Rightarrow> bool \<Rightarrow> viz \<Rightarrow> viz" where
  "set_highlighted i b = change_node i (\<lambda>n. n\<lparr> highlighted := b \<rparr>)"

definition set_size :: "int \<Rightarrow> rat \<Rightarrow> viz \<Rightarrow> viz" where
  "set_size i r = change_node i (\<lambda>n. n\<lparr> nsize := r \<rparr>)"

definition set_color :: "int \<Rightarrow> int \<Rightarrow> viz \<Rightarrow> viz" where
  "set_color i c = change_node i (\<lambda>n. n\<lparr> color := c \<rparr>)"

text \<open>A colour of sixteen bits per channel, as \<open>color_parse\<close> returns it, with an opaque alpha channel.\<close>

definition pack_color :: "int \<Rightarrow> int \<Rightarrow> int \<Rightarrow> int" where
  "pack_color red green blue =
     red div 2 ^ 8 * 2 ^ 24 + green div 2 ^ 8 * 2 ^ 16 + blue div 2 ^ 8 * 2 ^ 8 + 0xff"

definition set_svg_size :: "string \<Rightarrow> rat option \<Rightarrow> svg_item \<Rightarrow> svg_item res" where
  "set_svg_size name d s =
     (case d of None \<Rightarrow> Inr s | Some d \<Rightarrow> do_set_property name (transform_distance_simulation_to_canvas d) s)"

definition set_svg_icon ::
    "int \<Rightarrow> rat \<times> rat \<Rightarrow> rat option \<Rightarrow> rat option \<Rightarrow> rat \<Rightarrow> rat \<Rightarrow> viz \<Rightarrow> viz res" where
  "set_svg_icon i natural width height align_x align_y v =
     (if width = None \<and> height = None then Inl ValueError
      else
        let (x, y) = node_position v i
        in bind_res (set_svg_size ''width'' width (SvgItem_init x y natural)) (\<lambda>s1.
           bind_res (set_svg_size ''height'' height s1) (\<lambda>s2.
             Inr (change_node i (\<lambda>n. n\<lparr> svg := Some (update_svg_position (align_x, align_y) x y s2),
                    svg_align := (align_x, align_y) \<rparr>) v))))"

definition DEFAULT_NODE_SIZE :: rat where
  "DEFAULT_NODE_SIZE = 3"

definition Node_init :: vnode where
  "Node_init = appearance \<lparr> item = \<lparr> center_x = 0, center_y = 0, radius = 0, fill_color = 0, line_width = 0,
       stroke_color = ''black'' \<rparr>, links = [], has_mobility_cache = None, selected = False, highlighted = False,
     color = 0x808080ff, nsize = DEFAULT_NODE_SIZE, svg = None, svg_align = (0, 0), label = None, label_item = None \<rparr>"

definition Channel_init :: vchannel where
  "Channel_init = \<lparr> ch_x = 0, ch_y = 0, ch_links = [] \<rparr>"

definition has_mobility :: "int \<Rightarrow> viz \<Rightarrow> bool \<times> viz" where
  "has_mobility i v =
     (case map_of (nodes v) i of
        None \<Rightarrow> (False, v)
      | Some n \<Rightarrow>
          (case has_mobility_cache n of
             Some b \<Rightarrow> (b, v)
           | None \<Rightarrow> let b = (mobility v i \<noteq> None) in (b, on_node i (\<lambda>n. n\<lparr> has_mobility_cache := Some b \<rparr>) v)))"

section \<open>Creating objects\<close>

definition get_node :: "int \<Rightarrow> viz \<Rightarrow> viz" where
  "get_node i v = (if i \<in> set (keys (nodes v)) then v else v\<lparr> nodes := nodes v @ [(i, Node_init)] \<rparr>)"

definition get_channel :: "int \<Rightarrow> viz \<Rightarrow> viz" where
  "get_channel i v =
     (if i \<in> set (keys (channels v)) then v else v\<lparr> channels := channels v @ [(i, Channel_init)] \<rparr>)"

text \<open>\<open>WiredLink.__init__\<close> appends the link to both of its ends.\<close>

definition attach :: "nat \<Rightarrow> endpoint \<Rightarrow> viz \<Rightarrow> viz" where
  "attach l e v =
     (case e of
        NodeEnd i \<Rightarrow> on_node i (\<lambda>n. n\<lparr> links := links n @ [l] \<rparr>) v
      | ChannelEnd i \<Rightarrow> on_channel i (\<lambda>c. c\<lparr> ch_links := ch_links c @ [l] \<rparr>) v)"

definition create_link :: "int \<Rightarrow> endpoint \<Rightarrow> viz \<Rightarrow> viz" where
  "create_link a e v =
     (let l = length (wlinks v)
      in attach l e (attach l (NodeEnd a)
           (v\<lparr> wlinks := wlinks v @ [\<lparr> node1 = a, node2 = e, path_data = None \<rparr>] \<rparr>)))"


section \<open>Scanning the topology\<close>

datatype graph_name = GNode int | GChannel int

record graph =
  gnodes :: "graph_name list"
  gedges :: "(graph_name \<times> graph_name) list"

definition add_gnode :: "graph_name \<Rightarrow> graph \<Rightarrow> graph" where
  "add_gnode a g = (if a \<in> set (gnodes g) then g else g\<lparr> gnodes := gnodes g @ [a] \<rparr>)"

text \<open>Edges are undirected and are kept once.\<close>

definition add_gedge :: "graph_name \<Rightarrow> graph_name \<Rightarrow> graph \<Rightarrow> graph" where
  "add_gedge a b g =
     (let g1 = add_gnode b (add_gnode a g)
      in if (a, b) \<in> set (gedges g1) \<or> (b, a) \<in> set (gedges g1) then g1 else g1\<lparr> gedges := gedges g1 @ [(a, b)] \<rparr>)"

text \<open>
  The network: for each node the type and the channel of its devices, and for each channel the nodes of its
  devices.
\<close>

record network =
  devices :: "int \<Rightarrow> (string \<times> int) list"
  channel_nodes :: "int \<Rightarrow> int list"

record scan =
  sviz :: viz
  traits :: "(string, netdevice_traits) dict"
  sgraph :: graph

definition scan_other :: "int \<Rightarrow> int \<Rightarrow> scan \<Rightarrow> scan" where
  "scan_other i other s =
     (let v1 = get_node other (sviz s) in
      if other = i then s\<lparr> sviz := v1 \<rparr>
      else
        let fixed = (mobility v1 i = None);
            (om, v2) = (if fixed then has_mobility other v1 else (False, v1));
            g = (if fixed \<and> \<not> om then add_gedge (GNode i) (GNode other) (sgraph s) else sgraph s)
        in s\<lparr> sviz := create_link i (NodeEnd other) (get_node i v2), sgraph := g \<rparr>)"

definition scan_device :: "network \<Rightarrow> int \<Rightarrow> string \<times> int \<Rightarrow> scan \<Rightarrow> scan" where
  "scan_device net i = (\<lambda>(ty, ch) s.
     let (t, ts) = lookup_netdevice_traits ty (traits s); s1 = s\<lparr> traits := ts \<rparr> in
     if is_wireless t = Some True then s1
     else if is_virtual t then s1
     else if length (channel_nodes net ch) > 2 then
       s1\<lparr> sgraph := (if mobility (sviz s1) i = None then add_gedge (GNode i) (GChannel ch) (sgraph s1) else sgraph s1),
           sviz := create_link i (ChannelEnd ch) (get_node i (get_channel ch (sviz s1))) \<rparr>
     else fold (scan_other i) (channel_nodes net ch) s1)"

definition scan_node :: "network \<Rightarrow> int \<Rightarrow> scan \<Rightarrow> scan" where
  "scan_node net i s =
     (let v1 = get_node i (sviz s);
          s1 = (case mobility v1 i of
                  Some p \<Rightarrow> s\<lparr> sviz := set_position i (transform_point_simulation_to_canvas p)
                                       (set_color i (pack_color 65535 0 0) v1) \<rparr>
                | None \<Rightarrow> s\<lparr> sviz := v1, sgraph := add_gnode (GNode i) (sgraph s) \<rparr>)
      in fold (scan_device net i) (devices net i) s1)"

definition place :: "graph_name \<times> rat \<times> rat \<Rightarrow> viz \<Rightarrow> viz res" where
  "place = (\<lambda>(name, p) v.
     case name of
       GNode i \<Rightarrow> if i \<in> set (keys (nodes v)) then Inr (set_position i p v) else Inl KeyError
     | GChannel i \<Rightarrow> if i \<in> set (keys (channels v)) then Inr (set_channel_position i p v) else Inl KeyError)"

definition scan_topology ::
    "(graph \<Rightarrow> (graph_name \<times> rat \<times> rat) list) \<Rightarrow> network \<Rightarrow> scan \<Rightarrow> scan res" where
  "scan_topology layout net s =
     (let s1 = fold (scan_node net) (map int [0..<n_nodes (sviz s)]) (s\<lparr> sgraph := \<lparr> gnodes = [], gedges = [] \<rparr> \<rparr>)
      in bind_res (fold_res place (layout (sgraph s1)) (sviz s1)) (\<lambda>v. Inr (s1\<lparr> sviz := v \<rparr>)))"

section \<open>Selection\<close>

definition set_show_transmissions_mode :: "show_mode \<Rightarrow> viz \<Rightarrow> viz" where
  "set_show_transmissions_mode m v =
     v\<lparr> mode := m,
        nodes_of_interest := (case m of
            ShowAll \<Rightarrow> map int [0..<n_nodes v]
          | ShowNone \<Rightarrow> []
          | ShowSelected \<Rightarrow> (case selected_node v of None \<Rightarrow> [] | Some i \<Rightarrow> [i])) \<rparr>"

text \<open>The argument of \<open>select_node\<close>: a node of the simulator, an index, a node of the view, nothing, or anything else.\<close>

datatype node_arg = NsNode int | Index int | VizNode int | Nothing | OtherArg

definition resolve_node :: "node_arg \<Rightarrow> viz \<Rightarrow> int option res" where
  "resolve_node a v =
     (case a of
        NsNode i \<Rightarrow> if i \<in> set (keys (nodes v)) then Inr (Some i) else Inl KeyError
      | Index i \<Rightarrow> if i \<in> set (keys (nodes v)) then Inr (Some i) else Inl KeyError
      | VizNode i \<Rightarrow> Inr (Some i)
      | Nothing \<Rightarrow> Inr None
      | OtherArg \<Rightarrow> Inl TypeError)"

definition select_resolved :: "int option \<Rightarrow> viz \<Rightarrow> viz" where
  "select_resolved node v =
     (if node = selected_node v then v
      else
        let v1 = (case selected_node v of None \<Rightarrow> v | Some i \<Rightarrow> set_selected i False v);
            v2 = v1\<lparr> selected_node := node \<rparr>;
            v3 = (case node of None \<Rightarrow> v2 | Some i \<Rightarrow> set_selected i True v2)
        in if mode v3 = ShowSelected
           then v3\<lparr> nodes_of_interest := (case node of None \<Rightarrow> [] | Some i \<Rightarrow> [i]) \<rparr>
           else v3)"

definition select_node :: "node_arg \<Rightarrow> viz \<Rightarrow> viz res" where
  "select_node a v = bind_res (resolve_node a v) (\<lambda>node. Inr (select_resolved node v))"

section \<open>Panning, zooming, dragging\<close>

definition begin_panning :: "rat \<times> rat \<Rightarrow> viz \<Rightarrow> viz" where
  "begin_panning pointer v =
     v\<lparr> panning := Some \<lparr> initial_mouse_pos = pointer, initial_canvas_pos = (hvalue v, vvalue v) \<rparr> \<rparr>"

definition end_panning :: "viz \<Rightarrow> viz" where
  "end_panning v = v\<lparr> panning := None \<rparr>"

definition panning_motion :: "api \<Rightarrow> rat \<times> rat \<Rightarrow> viz \<Rightarrow> viz res" where
  "panning_motion a pos v =
     (case panning v of
        None \<Rightarrow> Inl AssertionError
      | Some st \<Rightarrow>
          let dx = fst pos - fst (initial_mouse_pos st); dy = snd pos - snd (initial_mouse_pos st)
          in Inr (v\<lparr> hvalue := clamp_h a (fst (initial_canvas_pos st) - dx),
                     vvalue := clamp_v a (snd (initial_canvas_pos st) - dy) \<rparr>))"

definition canvas_button_press :: "nat \<Rightarrow> rat \<times> rat \<Rightarrow> viz \<Rightarrow> bool \<times> viz" where
  "canvas_button_press button pointer v = (if button = 2 then (True, begin_panning pointer v) else (False, v))"

definition canvas_button_release :: "nat \<Rightarrow> viz \<Rightarrow> bool \<times> viz" where
  "canvas_button_release button v = (if button = 2 then (True, end_panning v) else (False, v))"

datatype scroll = SCROLL_UP | SCROLL_DOWN | SCROLL_OTHER

text \<open>The adjustment of the zoom keeps its value between 0.01 and 10.\<close>

definition set_zoom :: "rat \<Rightarrow> viz \<Rightarrow> viz" where
  "set_zoom z v = v\<lparr> zoom := max (1 / 100) (min 10 z) \<rparr>"

definition canvas_scroll_event :: "scroll \<Rightarrow> viz \<Rightarrow> bool \<times> viz" where
  "canvas_scroll_event d v =
     (case d of
        SCROLL_UP \<Rightarrow> (True, set_zoom (zoom v * (5 / 4)) v)
      | SCROLL_DOWN \<Rightarrow> (True, set_zoom (zoom v / (5 / 4)) v)
      | SCROLL_OTHER \<Rightarrow> (False, v))"

definition begin_node_drag :: "api \<Rightarrow> int \<Rightarrow> rat \<times> rat \<Rightarrow> viz \<Rightarrow> viz" where
  "begin_node_drag a i pointer v =
     (case mobility v i of
        None \<Rightarrow> v
      | Some pos \<Rightarrow>
          if node_drag_state v \<noteq> None then v
          else v\<lparr> node_drag_state := Some \<lparr> canvas0 = from_pixels a (zoom v) pointer, sim0 = pos \<rparr> \<rparr>)"

definition node_drag_motion :: "api \<Rightarrow> int \<Rightarrow> rat \<times> rat \<Rightarrow> viz \<Rightarrow> bool \<times> viz" where
  "node_drag_motion a i pointer v =
     (case mobility v i of
        None \<Rightarrow> (False, v)
      | Some pos \<Rightarrow>
          (case node_drag_state v of
             None \<Rightarrow> (False, v)
           | Some st \<Rightarrow>
               let (cx, cy) = from_pixels a (zoom v) pointer;
                   dx = cx - fst (canvas0 st); dy = cy - snd (canvas0 st);
                   pos' = (fst (sim0 st) + transform_distance_canvas_to_simulation dx,
                           snd (sim0 st) + transform_distance_canvas_to_simulation dy)
               in (True, set_position i (transform_point_simulation_to_canvas pos')
                           (v\<lparr> mobility := (mobility v)(i \<mapsto> pos') \<rparr>))))"

definition end_node_drag :: "viz \<Rightarrow> viz" where
  "end_node_drag v = v\<lparr> node_drag_state := None \<rparr>"

definition on_root_button_press_event :: "nat \<Rightarrow> viz \<Rightarrow> viz res" where
  "on_root_button_press_event button v = (if button = 1 then select_node Nothing v else Inr v)"

text \<open>Button 3 opens a menu, which is not part of the state.\<close>

definition on_node_button_press_event :: "api \<Rightarrow> nat \<Rightarrow> int \<Rightarrow> rat \<times> rat \<Rightarrow> viz \<Rightarrow> (bool \<times> viz) res" where
  "on_node_button_press_event a button i pointer v =
     (if button = 1 then bind_res (select_node (VizNode i) v) (\<lambda>v'. Inr (True, v'))
      else if button = 3 then Inr (True, v)
      else if button = 2 then Inr (True, begin_node_drag a i pointer v)
      else Inr (False, v))"

definition on_node_button_release_event :: "nat \<Rightarrow> viz \<Rightarrow> bool \<times> viz" where
  "on_node_button_release_event button v = (if button = 2 then (True, end_node_drag v) else (False, v))"

section \<open>Following the simulation\<close>

definition scroll_on :: "api \<Rightarrow> rat \<times> rat \<Rightarrow> viz \<Rightarrow> viz" where
  "scroll_on a p v =
     (let (px, py) = to_pixels a (zoom v) p
      in v\<lparr> hvalue := clamp_h a (px - hpage v / 2), vvalue := clamp_v a (py - vpage v / 2) \<rparr>)"

definition update_one_position :: "api \<Rightarrow> int \<Rightarrow> viz \<Rightarrow> viz" where
  "update_one_position a i v =
     (let (hm, v1) = has_mobility i v in
      if hm then
        (case mobility v1 i of
           None \<Rightarrow> v1
         | Some pos \<Rightarrow>
             let p = transform_point_simulation_to_canvas pos; v2 = set_position i p v1
             in if follow_node v2 = Some i then scroll_on a p v2 else v2)
      else v1)"

definition update_node_positions :: "api \<Rightarrow> viz \<Rightarrow> viz" where
  "update_node_positions a v = fold (update_one_position a) (node_order a (keys (nodes v))) v"

definition center_on_node :: "api \<Rightarrow> node_arg \<Rightarrow> viz \<Rightarrow> viz res" where
  "center_on_node a arg v =
     bind_res (resolve_node arg v) (\<lambda>node.
       case node of None \<Rightarrow> Inl TypeError | Some i \<Rightarrow> Inr (scroll_on a (node_position v i) v))"

definition set_follow_node :: "node_arg \<Rightarrow> viz \<Rightarrow> viz res" where
  "set_follow_node arg v =
     (case arg of
        NsNode i \<Rightarrow> if i \<in> set (keys (nodes v)) then Inr (v\<lparr> follow_node := Some i \<rparr>) else Inl KeyError
      | VizNode i \<Rightarrow> Inr (v\<lparr> follow_node := Some i \<rparr>)
      | _ \<Rightarrow> Inr (v\<lparr> follow_node := None \<rparr>))"

definition node_size_changed :: "api \<Rightarrow> rat \<Rightarrow> viz \<Rightarrow> viz" where
  "node_size_changed a r v = fold (\<lambda>i. set_size i r) (node_order a (keys (nodes v))) (v\<lparr> node_size := r \<rparr>)"

definition autoscale_view :: "api \<Rightarrow> viz \<Rightarrow> viz" where
  "autoscale_view a v =
     (if nodes v = [] then v
      else
        let v1 = update_node_positions a v;
            xs = map (\<lambda>i. fst (node_position v1 i)) (keys (nodes v1));
            ys = map (\<lambda>i. snd (node_position v1 i)) (keys (nodes v1));
            min_x = Min (set xs); max_x = Max (set xs); min_y = Min (set ys); max_y = Max (set ys);
            (min_x_px, min_y_px) = to_pixels a (zoom v1) (min_x, min_y);
            (max_x_px, max_y_px) = to_pixels a (zoom v1) (max_x, max_y);
            new_dx = 3 / 2 * (max_x_px - min_x_px); new_dy = 3 / 2 * (max_y_px - min_y_px)
        in if new_dx = 0 \<or> new_dy = 0 then v1
           else
             let v2 = set_zoom (min (hpage v1 / new_dx) (vpage v1 / new_dy)) v1;
                 (x1, y1) = from_pixels a (zoom v2) (hvalue v2, vvalue v2);
                 (x2, y2) = from_pixels a (zoom v2) (hvalue v2 + hpage v2, vvalue v2 + vpage v2);
                 (h, w) = scroll_position a (zoom v2)
                    ((min_x + max_x) / 2 - (x2 - x1) / 2, (min_y + max_y) / 2 - (y2 - y1) / 2)
             in v2\<lparr> hvalue := h, vvalue := w \<rparr>)"


section \<open>The visualizer and its events\<close>

definition SAMPLE_PERIOD :: rat where
  "SAMPLE_PERIOD = 1 / 10"

definition Visualizer_init :: "nat \<Rightarrow> (int \<Rightarrow> (rat \<times> rat) option) \<Rightarrow> rat \<Rightarrow> rat \<Rightarrow> viz" where
  "Visualizer_init n mob hp vp = set_show_transmissions_mode ShowAll
     \<lparr> nodes = [], channels = [], wlinks = [], selected_node = None, mode = ShowAll, nodes_of_interest = [],
       n_nodes = n, mobility = mob, zoom = 1, hvalue = 0, vvalue = 0, hpage = hp, vpage = vp, panning = None,
       node_drag_state = None, follow_node = None, node_size = DEFAULT_NODE_SIZE, smoothing = 1 / 2,
       sample_period = SAMPLE_PERIOD, last_transmissions = [], last_drops = [], transmission_arrows = [],
       drop_arrows = [] \<rparr>"

definition start_scan :: "(graph \<Rightarrow> (graph_name \<times> rat \<times> rat) list) \<Rightarrow> network \<Rightarrow> viz \<Rightarrow> viz res" where
  "start_scan layout net v =
     bind_res (scan_topology layout net
         \<lparr> sviz = v, traits = netdevice_traits_table, sgraph = \<lparr> gnodes = [], gedges = [] \<rparr> \<rparr>)
       (\<lambda>s. Inr (sviz s))"

text \<open>
  The handlers that the main loop runs after the start, each for any pointer position. The handlers of a node are run
  for a node of the view. The simulator moves nodes on its own; the display of transmissions and drops enters nodes that are
  new and changes the samples and the arrows.
\<close>

inductive viz_step :: "api \<Rightarrow> viz \<Rightarrow> viz \<Rightarrow> bool" for a :: api where
  node_press: "i \<in> set (keys (nodes v)) \<Longrightarrow> on_node_button_press_event a button i p v = Inr (handled, v') \<Longrightarrow> viz_step a v v'"
| node_release: "viz_step a v (snd (on_node_button_release_event button v))"
| node_motion: "i \<in> set (keys (nodes v)) \<Longrightarrow> viz_step a v (snd (node_drag_motion a i p v))"
| node_enter: "viz_step a v (set_highlighted i b v)"
| node_labelled: "viz_step a v (set_label i s v)"
| node_icon: "set_svg_icon i nat_size w h ax ay v = Inr v' \<Longrightarrow> viz_step a v v'"
| root_press: "on_root_button_press_event button v = Inr v' \<Longrightarrow> viz_step a v v'"
| api_select: "\<forall>k. arg \<noteq> VizNode k \<Longrightarrow> select_node arg v = Inr v' \<Longrightarrow> viz_step a v v'"
| mode_toggled: "viz_step a v (set_show_transmissions_mode m v)"
| canvas_press: "viz_step a v (snd (canvas_button_press button p v))"
| canvas_release: "viz_step a v (snd (canvas_button_release button v))"
| canvas_motion: "panning_motion a p v = Inr v' \<Longrightarrow> viz_step a v v'"
| scrolled: "viz_step a v (snd (canvas_scroll_event d v))"
| size_changed: "viz_step a v (node_size_changed a r v)"
| positions: "viz_step a v (update_node_positions a v)"
| centred: "center_on_node a arg v = Inr v' \<Longrightarrow> viz_step a v v'"
| followed: "set_follow_node arg v = Inr v' \<Longrightarrow> viz_step a v v'"
| autoscaled: "viz_step a v (autoscale_view a v)"
| simulated: "viz_step a v (v\<lparr> mobility := mob \<rparr>)"
| node_needed: "viz_step a v (get_node i v)"
| samples: "viz_step a v (v\<lparr> last_transmissions := ts, last_drops := ds \<rparr>)"
| arrows: "viz_step a v (v\<lparr> transmission_arrows := ta, drop_arrows := da \<rparr>)"

section \<open>Lookups after an update\<close>

lemma map_of_on_node [simp]:
  "map_of (nodes (on_node i f v)) k = (if k = i then map_option f (map_of (nodes v) k) else map_of (nodes v) k)"
proof -
  have "map_of (map (\<lambda>(k, n). (k, if k = i then f n else n)) d) k
      = (if k = i then map_option f (map_of d k) else map_of d k)" for d :: "(int, vnode) dict"
    by (induction d) auto
  then show ?thesis by (simp add: on_node_def)
qed

lemma map_of_on_channel [simp]:
  "map_of (channels (on_channel i f v)) k = (if k = i then map_option f (map_of (channels v) k) else map_of (channels v) k)"
proof -
  have "map_of (map (\<lambda>(k, n). (k, if k = i then f n else n)) d) k
      = (if k = i then map_option f (map_of d k) else map_of d k)" for d :: "(int, vchannel) dict"
    by (induction d) auto
  then show ?thesis by (simp add: on_channel_def)
qed

lemma on_node_fields [simp]:
  "channels (on_node i f v) = channels v" "wlinks (on_node i f v) = wlinks v"
  "selected_node (on_node i f v) = selected_node v" "mode (on_node i f v) = mode v"
  "nodes_of_interest (on_node i f v) = nodes_of_interest v" "n_nodes (on_node i f v) = n_nodes v"
  "mobility (on_node i f v) = mobility v" "keys (nodes (on_node i f v)) = keys (nodes v)"
  by (simp_all add: on_node_def) (induction "nodes v", auto)

lemma on_channel_fields [simp]:
  "nodes (on_channel i f v) = nodes v" "wlinks (on_channel i f v) = wlinks v"
  "selected_node (on_channel i f v) = selected_node v" "mode (on_channel i f v) = mode v"
  "nodes_of_interest (on_channel i f v) = nodes_of_interest v" "n_nodes (on_channel i f v) = n_nodes v"
  "mobility (on_channel i f v) = mobility v" "keys (channels (on_channel i f v)) = keys (channels v)"
  by (simp_all add: on_channel_def) (induction "channels v", auto)

lemma update_points_fields [simp]:
  "nodes (update_points l v) = nodes v" "channels (update_points l v) = channels v"
  "selected_node (update_points l v) = selected_node v" "mode (update_points l v) = mode v"
  "nodes_of_interest (update_points l v) = nodes_of_interest v" "n_nodes (update_points l v) = n_nodes v"
  "length (wlinks (update_points l v)) = length (wlinks v)"
  by (simp_all add: update_points_def)

lemma fold_points_fields [simp]:
  "nodes (fold update_points ls v) = nodes v" "channels (fold update_points ls v) = channels v"
  "selected_node (fold update_points ls v) = selected_node v" "mode (fold update_points ls v) = mode v"
  "nodes_of_interest (fold update_points ls v) = nodes_of_interest v" "n_nodes (fold update_points ls v) = n_nodes v"
  "length (wlinks (fold update_points ls v)) = length (wlinks v)"
  by (induction ls arbitrary: v) simp_all

definition link_ends :: "viz \<Rightarrow> wired_link \<Rightarrow> (rat \<times> rat) \<times> (rat \<times> rat)" where
  "link_ends v lk = (node_position v (node1 lk), end_position v (node2 lk))"

lemma link_ends_points [simp]: "link_ends (update_points l v) = link_ends v"
  by (simp add: link_ends_def fun_eq_iff node_position_def end_position_def channel_position_def split: endpoint.split)

lemma fold_points_links:
  "l < length (wlinks v) \<Longrightarrow> wlinks (fold update_points ls v) ! l =
     (if l \<in> set ls then (wlinks v ! l)\<lparr> path_data := Some (link_ends v (wlinks v ! l)) \<rparr> else wlinks v ! l)"
proof (induction ls arbitrary: v)
  case (Cons k ls)
  have "link_ends w (lk\<lparr> path_data := p \<rparr>) = link_ends w lk" for w lk p by (simp add: link_ends_def)
  moreover have "wlinks (update_points k v) ! l
      = (if l = k then (wlinks v ! l)\<lparr> path_data := Some (link_ends v (wlinks v ! l)) \<rparr> else wlinks v ! l)"
    using Cons.prems by (auto simp: update_points_def link_ends_def nth_list_update)
  ultimately show ?case using Cons by (cases "l = k") simp_all
qed simp

section \<open>Links follow their ends\<close>

definition channel_links :: "viz \<Rightarrow> int \<Rightarrow> nat list" where
  "channel_links v i = (case map_of (channels v) i of Some c \<Rightarrow> ch_links c | None \<Rightarrow> [])"

definition end_links :: "viz \<Rightarrow> endpoint \<Rightarrow> nat list" where
  "end_links v e = (case e of NodeEnd i \<Rightarrow> node_links v i | ChannelEnd i \<Rightarrow> channel_links v i)"

definition link_ok :: "viz \<Rightarrow> nat \<Rightarrow> wired_link \<Rightarrow> bool" where
  "link_ok v l lk \<longleftrightarrow> l \<in> set (node_links v (node1 lk)) \<and> l \<in> set (end_links v (node2 lk))
     \<and> (path_data lk = None \<or> path_data lk = Some (link_ends v lk))"

definition links_ok :: "viz \<Rightarrow> bool" where
  "links_ok v \<longleftrightarrow> (\<forall>l < length (wlinks v). link_ok v l (wlinks v ! l))"

text \<open>States that agree on places and lists of links.\<close>

definition same_places :: "viz \<Rightarrow> viz \<Rightarrow> bool" where
  "same_places v v' \<longleftrightarrow> wlinks v' = wlinks v \<and> node_position v' = node_position v \<and> node_links v' = node_links v
     \<and> channel_position v' = channel_position v \<and> channel_links v' = channel_links v"

lemma same_places_ok:
  assumes "same_places v v'" and "links_ok v"
  shows "links_ok v'"
proof -
  have "link_ends v' = link_ends v" "end_links v' = end_links v"
    using assms(1) by (simp_all add: same_places_def link_ends_def end_links_def end_position_def fun_eq_iff
        split: endpoint.split)
  with assms show ?thesis by (simp add: same_places_def links_ok_def link_ok_def)
qed

lemma same_places_trans: "same_places v v' \<Longrightarrow> same_places v' v'' \<Longrightarrow> same_places v v''"
  by (simp add: same_places_def)

definition keeps_place :: "(vnode \<Rightarrow> vnode) \<Rightarrow> bool" where
  "keeps_place f \<longleftrightarrow> (\<forall>n. links (f n) = links n \<and> center_x (item (f n)) = center_x (item n)
     \<and> center_y (item (f n)) = center_y (item n))"

lemma on_node_same_places: "keeps_place f \<Longrightarrow> same_places v (on_node i f v)"
  by (auto simp: same_places_def keeps_place_def fun_eq_iff node_position_def node_links_def channel_position_def
      channel_links_def split: option.split)

lemma move_item_places [simp]:
  "node_position (on_node i (move_item x y) v) k =
     (if k = i \<and> map_of (nodes v) i \<noteq> None then (x, y) else node_position v k)"
  "node_links (on_node i (move_item x y) v) = node_links v"
  "channel_links (on_node i f v) = channel_links v" "channel_position (on_node i f v) = channel_position v"
  by (auto simp: node_position_def node_links_def channel_links_def channel_position_def move_item_def fun_eq_iff
      split: option.split)

lemma points_same:
  "node_position (fold update_points ls v) = node_position v" "node_links (fold update_points ls v) = node_links v"
  "channel_position (fold update_points ls v) = channel_position v"
  "channel_links (fold update_points ls v) = channel_links v"
  "link_ends (fold update_points ls v) = link_ends v" "end_links (fold update_points ls v) = end_links v"
  by (simp_all add: node_position_def node_links_def channel_position_def channel_links_def link_ends_def end_links_def
      end_position_def fun_eq_iff split: endpoint.split)

text \<open>
  Moving an object: when only links that are updated afterwards touch what moved, all links are drawn right
  again.
\<close>

lemma fold_points_ok:
  assumes "\<And>l. l < length (wlinks v) \<Longrightarrow> l \<in> set (node_links v (node1 (wlinks v ! l)))
      \<and> l \<in> set (end_links v (node2 (wlinks v ! l)))"
    and "\<And>l. l < length (wlinks v) \<Longrightarrow> l \<notin> set ls \<Longrightarrow>
      path_data (wlinks v ! l) = None \<or> path_data (wlinks v ! l) = Some (link_ends v (wlinks v ! l))"
  shows "links_ok (fold update_points ls v)"
proof -
  have "link_ends v (lk\<lparr> path_data := p \<rparr>) = link_ends v lk" for lk p by (simp add: link_ends_def)
  then show ?thesis using assms by (auto simp: links_ok_def link_ok_def fold_points_links points_same)
qed

lemma set_position_links_ok:
  assumes "links_ok v"
  shows "links_ok (set_position i p v)"
proof -
  obtain x y where p: "p = (x, y)" by (cases p)
  let ?v = "on_node i (move_item x y) v"
  have "keeps_place (move_label x y)" by (simp add: keeps_place_def move_label_def)
  moreover have "links_ok (fold update_points (node_links ?v i) ?v)"
  proof (rule fold_points_ok)
    fix l assume l: "l < length (wlinks ?v)"
    with assms have ok: "link_ok v l (wlinks v ! l)" by (simp add: links_ok_def)
    then show "l \<in> set (node_links ?v (node1 (wlinks ?v ! l))) \<and> l \<in> set (end_links ?v (node2 (wlinks ?v ! l)))"
      by (auto simp: link_ok_def end_links_def split: endpoint.splits)
    assume "l \<notin> set (node_links ?v i)"
    then have "node1 (wlinks v ! l) \<noteq> i" "node2 (wlinks v ! l) \<noteq> NodeEnd i"
      using ok by (auto simp: link_ok_def end_links_def)
    then have "link_ends ?v (wlinks v ! l) = link_ends v (wlinks v ! l)"
      by (auto simp: link_ends_def end_position_def split: endpoint.split)
    then show "path_data (wlinks ?v ! l) = None \<or> path_data (wlinks ?v ! l) = Some (link_ends ?v (wlinks ?v ! l))"
      using ok by (simp add: link_ok_def)
  qed
  ultimately show ?thesis
    using on_node_same_places same_places_ok by (simp add: set_position_def p Let_def) blast
qed


lemma set_channel_position_links_ok:
  assumes "links_ok v"
  shows "links_ok (set_channel_position i p v)"
proof -
  obtain x y where p: "p = (x, y)" by (cases p)
  let ?v = "on_channel i (\<lambda>c. c\<lparr> ch_x := x, ch_y := y \<rparr>) v"
  have same: "node_position ?v = node_position v" "node_links ?v = node_links v" "channel_links ?v = channel_links v"
    by (auto simp: node_position_def node_links_def channel_links_def fun_eq_iff split: option.split)
  have moved: "channel_position ?v k = channel_position v k" if "k \<noteq> i" for k
    using that by (simp add: channel_position_def)
  have "links_ok (fold update_points (channel_links ?v i) ?v)"
  proof (rule fold_points_ok)
    fix l assume l: "l < length (wlinks ?v)"
    with assms have ok: "link_ok v l (wlinks v ! l)" by (simp add: links_ok_def)
    then show "l \<in> set (node_links ?v (node1 (wlinks ?v ! l))) \<and> l \<in> set (end_links ?v (node2 (wlinks ?v ! l)))"
      using same by (auto simp: link_ok_def end_links_def split: endpoint.splits)
    assume "l \<notin> set (channel_links ?v i)"
    then have "node2 (wlinks v ! l) \<noteq> ChannelEnd i" using ok same by (auto simp: link_ok_def end_links_def)
    then have "link_ends ?v (wlinks v ! l) = link_ends v (wlinks v ! l)"
      using same moved by (auto simp: link_ends_def end_position_def split: endpoint.split)
    then show "path_data (wlinks ?v ! l) = None \<or> path_data (wlinks ?v ! l) = Some (link_ends ?v (wlinks ?v ! l))"
      using ok by (simp add: link_ok_def)
  qed
  then show ?thesis by (simp add: set_channel_position_def p Let_def channel_links_def)
qed

lemma appearance_keeps: "keeps_place appearance"
  by (simp add: keeps_place_def appearance_def Let_def)

lemma update_appearance_links_ok: "links_ok v \<Longrightarrow> links_ok (update_appearance i v)"
  using same_places_ok [OF on_node_same_places [OF appearance_keeps]] set_position_links_ok
  by (auto simp: update_appearance_def Let_def split: option.split)

lemma change_node_links_ok: "keeps_place f \<Longrightarrow> links_ok v \<Longrightarrow> links_ok (change_node i f v)"
  unfolding change_node_def by (intro update_appearance_links_ok) (rule same_places_ok [OF on_node_same_places])

section \<open>Selection\<close>

definition interest :: "viz \<Rightarrow> int list" where
  "interest v =
     (case mode v of
        ShowAll \<Rightarrow> map int [0..<n_nodes v]
      | ShowNone \<Rightarrow> []
      | ShowSelected \<Rightarrow> (case selected_node v of None \<Rightarrow> [] | Some i \<Rightarrow> [i]))"

definition flag :: "viz \<Rightarrow> int \<Rightarrow> bool option" where
  "flag v i = map_option selected (map_of (nodes v) i)"

text \<open>The selected node exists and is the only one that is drawn as selected; the simulation reports what the mode says.\<close>

definition sel_ok :: "viz \<Rightarrow> bool" where
  "sel_ok v \<longleftrightarrow> (\<forall>i b. flag v i = Some b \<longrightarrow> (b \<longleftrightarrow> selected_node v = Some i))
     \<and> (\<forall>i. selected_node v = Some i \<longrightarrow> flag v i \<noteq> None) \<and> nodes_of_interest v = interest v"

definition same_sel :: "viz \<Rightarrow> viz \<Rightarrow> bool" where
  "same_sel v v' \<longleftrightarrow> flag v' = flag v \<and> selected_node v' = selected_node v \<and> mode v' = mode v
     \<and> nodes_of_interest v' = nodes_of_interest v \<and> n_nodes v' = n_nodes v"

lemma same_sel_ok: "same_sel v v' \<Longrightarrow> sel_ok v \<Longrightarrow> sel_ok v'"
  by (auto simp: same_sel_def sel_ok_def interest_def split: show_mode.split option.split)

lemma same_sel_refl [simp]: "same_sel v v"
  by (simp add: same_sel_def)

lemma same_sel_trans: "same_sel v v' \<Longrightarrow> same_sel v' v'' \<Longrightarrow> same_sel v v''"
  by (simp add: same_sel_def)

lemma on_node_same_sel: "(\<And>n. selected (f n) = selected n) \<Longrightarrow> same_sel v (on_node i f v)"
  by (auto simp: same_sel_def flag_def fun_eq_iff option.map_comp comp_def)

lemma fold_points_same_sel: "same_sel v (fold update_points ls v)"
  by (simp add: same_sel_def flag_def fun_eq_iff)

lemma set_position_same_sel: "same_sel v (set_position i p v)"
proof -
  obtain x y where p: "p = (x, y)" by (cases p)
  let ?v = "on_node i (move_item x y) v"
  have "same_sel v ?v" by (rule on_node_same_sel) (simp add: move_item_def)
  moreover have "same_sel w (on_node i (move_label x y) w)" for w
    by (rule on_node_same_sel) (simp add: move_label_def)
  ultimately show ?thesis
    using fold_points_same_sel same_sel_trans by (simp add: set_position_def p Let_def) blast
qed

lemma set_channel_position_same_sel: "same_sel v (set_channel_position i p v)"
proof -
  have "same_sel v (on_channel i f v)" for f by (simp add: same_sel_def flag_def fun_eq_iff)
  then show ?thesis using fold_points_same_sel same_sel_trans
    by (cases p) (simp add: set_channel_position_def Let_def, blast)
qed

lemma update_appearance_same_sel: "same_sel v (update_appearance i v)"
proof -
  have "same_sel v (on_node i appearance v)" by (rule on_node_same_sel) (simp add: appearance_def Let_def)
  then show ?thesis using set_position_same_sel same_sel_trans
    by (auto simp: update_appearance_def Let_def split: option.split)
qed

lemma change_node_same_sel: "(\<And>n. selected (f n) = selected n) \<Longrightarrow> same_sel v (change_node i f v)"
  unfolding change_node_def by (rule same_sel_trans [OF on_node_same_sel update_appearance_same_sel])

text \<open>The invariant of the view, and the operations that keep it without changing the selection.\<close>

definition viz_ok :: "viz \<Rightarrow> bool" where
  "viz_ok v \<longleftrightarrow> links_ok v \<and> sel_ok v"

lemma viz_okI: "links_ok v' \<Longrightarrow> same_sel v v' \<Longrightarrow> viz_ok v \<Longrightarrow> viz_ok v'"
  by (simp add: viz_ok_def same_sel_ok)

lemma set_position_ok: "viz_ok v \<Longrightarrow> viz_ok (set_position i p v)"
  by (rule viz_okI) (simp_all add: set_position_same_sel set_position_links_ok viz_ok_def)

lemma set_channel_position_ok: "viz_ok v \<Longrightarrow> viz_ok (set_channel_position i p v)"
  by (rule viz_okI) (simp_all add: set_channel_position_same_sel set_channel_position_links_ok viz_ok_def)

lemma change_node_ok:
  "keeps_place f \<Longrightarrow> (\<And>n. selected (f n) = selected n) \<Longrightarrow> viz_ok v \<Longrightarrow> viz_ok (change_node i f v)"
  by (rule viz_okI [OF change_node_links_ok change_node_same_sel]) (simp_all add: viz_ok_def)

lemma set_svg_size_fits: "set_svg_size name d s = Inr s' \<Longrightarrow> svg_fits s \<Longrightarrow> svg_fits s'"
  by (auto simp: set_svg_size_def intro: set_property_fits split: option.splits)

lemma set_svg_icon_Inr:
  assumes "set_svg_icon i ns w h ax ay v = Inr v'"
  shows "\<exists>s. svg_fits s \<and> v' = change_node i (\<lambda>n. n\<lparr> svg := Some (update_svg_position (ax, ay)
     (fst (node_position v i)) (snd (node_position v i)) s), svg_align := (ax, ay) \<rparr>) v"
proof -
  obtain x y where p: "node_position v i = (x, y)" by force
  from assms obtain s1 s2 where "set_svg_size ''width'' w (SvgItem_init x y ns) = Inr s1" "set_svg_size ''height'' h s1 = Inr s2"
    and v: "v' = change_node i (\<lambda>n. n\<lparr> svg := Some (update_svg_position (ax, ay) x y s2), svg_align := (ax, ay) \<rparr>) v"
    by (auto simp: set_svg_icon_def p bind_res_Inr_iff split: if_splits)
  then have "svg_fits s2" using set_svg_size_fits SvgItem_init_fits by blast
  with v p show ?thesis by auto
qed

lemma node_setters_ok:
  assumes "viz_ok v"
  shows "viz_ok (set_label i s v)" "viz_ok (set_highlighted i b v)" "viz_ok (set_size i r v)" "viz_ok (set_color i c v)"
    "set_svg_icon i ns w h ax ay v = Inr v' \<Longrightarrow> viz_ok v'"
  using assms by (auto simp: set_label_def set_highlighted_def set_size_def set_color_def keeps_place_def
      intro!: change_node_ok dest!: set_svg_icon_Inr)

lemma links_ok_cong: "nodes v' = nodes v \<Longrightarrow> channels v' = channels v \<Longrightarrow> wlinks v' = wlinks v \<Longrightarrow> links_ok v' = links_ok v"
proof -
  assume "nodes v' = nodes v" "channels v' = channels v" "wlinks v' = wlinks v"
  then have "same_places v v'" "same_places v' v"
    by (auto simp: same_places_def node_position_def node_links_def channel_position_def channel_links_def fun_eq_iff)
  then show ?thesis by (blast intro: same_places_ok)
qed

lemma same_view_ok:
  assumes "viz_ok v" and "nodes v' = nodes v" "channels v' = channels v" "wlinks v' = wlinks v"
    "selected_node v' = selected_node v" "mode v' = mode v" "nodes_of_interest v' = nodes_of_interest v"
    "n_nodes v' = n_nodes v"
  shows "viz_ok v'"
proof (rule viz_okI [OF _ _ assms(1)])
  show "links_ok v'" using assms links_ok_cong [of v' v] by (simp add: viz_ok_def)
  show "same_sel v v'" by (simp add: same_sel_def flag_def assms fun_eq_iff)
qed

lemma has_mobility_ok: "viz_ok v \<Longrightarrow> viz_ok (snd (has_mobility i v))"
proof -
  assume ok: "viz_ok v"
  have "viz_ok (on_node i (\<lambda>n. n\<lparr> has_mobility_cache := c \<rparr>) v)" for c
    using ok by (intro viz_okI [OF same_places_ok [OF on_node_same_places] on_node_same_sel])
      (auto simp: keeps_place_def viz_ok_def)
  then show ?thesis using ok by (simp add: has_mobility_def Let_def split: option.split)
qed

lemma set_selected_flag: "flag (set_selected i b v) k = (if k = i \<and> flag v i \<noteq> None then Some b else flag v k)"
proof -
  have "flag (set_selected i b v) = flag (on_node i (\<lambda>n. n\<lparr> selected := b \<rparr>) v)"
    using update_appearance_same_sel by (simp add: set_selected_def change_node_def same_sel_def)
  then show ?thesis by (auto simp: flag_def)
qed

lemma set_selected_keeps:
  "selected_node (set_selected i b v) = selected_node v \<and> mode (set_selected i b v) = mode v
   \<and> nodes_of_interest (set_selected i b v) = nodes_of_interest v \<and> n_nodes (set_selected i b v) = n_nodes v
   \<and> (links_ok v \<longrightarrow> links_ok (set_selected i b v))"
proof -
  have "same_sel (on_node i f v) (change_node i f v)" for f
    by (simp add: change_node_def update_appearance_same_sel)
  from this [of "\<lambda>n. n\<lparr> selected := b \<rparr>"] show ?thesis
    by (auto simp: set_selected_def same_sel_def keeps_place_def intro: change_node_links_ok)
qed

lemma select_resolved_ok:
  assumes "viz_ok v" and "\<And>i. node = Some i \<Longrightarrow> flag v i \<noteq> None"
  shows "viz_ok (select_resolved node v)"
proof -
  have links: "links_ok (w\<lparr> selected_node := n \<rparr>) = links_ok w" "links_ok (w\<lparr> nodes_of_interest := x \<rparr>) = links_ok w" for w n x
    by (simp_all cong: links_ok_cong)
  have flags: "flag (w\<lparr> selected_node := n \<rparr>) = flag w" "flag (w\<lparr> nodes_of_interest := x \<rparr>) = flag w" for w n x
    by (simp_all add: flag_def fun_eq_iff)
  show ?thesis
    using assms set_selected_keeps
    by (auto simp: viz_ok_def select_resolved_def Let_def sel_ok_def interest_def links flags set_selected_flag
        split: option.splits show_mode.splits if_splits)
qed

section \<open>Building the view\<close>

lemma map_of_known:
  "map_of d k = Some x \<Longrightarrow> k \<in> fst ` set d" "Some x = map_of d k \<Longrightarrow> k \<in> fst ` set d"
proof -
  show "map_of d k = Some x \<Longrightarrow> k \<in> fst ` set d" by (force dest: map_of_SomeD)
  then show "Some x = map_of d k \<Longrightarrow> k \<in> fst ` set d" by simp
qed

lemma known_map_of: "k \<in> set (keys d) \<Longrightarrow> \<exists>x. Some x = map_of d k"
  by (cases "map_of d k") (auto simp: map_of_eq_None_iff)

lemma get_node_keys [simp]:
  "fst ` set (nodes (get_node i v)) = insert i (fst ` set (nodes v))" "channels (get_node i v) = channels v"
  "wlinks (get_node i v) = wlinks v" "mobility (get_node i v) = mobility v" "n_nodes (get_node i v) = n_nodes v"
  by (auto simp: get_node_def)

lemma get_channel_keys [simp]:
  "fst ` set (channels (get_channel i v)) = insert i (fst ` set (channels v))" "nodes (get_channel i v) = nodes v"
  "wlinks (get_channel i v) = wlinks v" "mobility (get_channel i v) = mobility v" "n_nodes (get_channel i v) = n_nodes v"
  by (auto simp: get_channel_def)

lemma get_node_places: "same_places v (get_node i v)"
  by (auto simp: same_places_def get_node_def node_position_def node_links_def channel_position_def channel_links_def
      fun_eq_iff map_add_def Node_init_def appearance_def Let_def dest: map_of_known split: option.splits)

lemma get_channel_places: "same_places v (get_channel i v)"
  by (auto simp: same_places_def get_channel_def node_position_def node_links_def channel_position_def channel_links_def
      fun_eq_iff map_add_def Channel_init_def dest: map_of_known split: option.splits)

lemma get_node_ok:
  assumes "viz_ok v"
  shows "viz_ok (get_node i v)"
proof (cases "i \<in> set (keys (nodes v))")
  case False
  have "flag (get_node i v) k = (if k = i then Some False else flag v k)" for k
    using False by (auto simp: get_node_def flag_def map_add_def Node_init_def appearance_def Let_def
        dest: map_of_known split: option.split)
  moreover have "flag v i = None" using False by (simp add: flag_def map_of_eq_None_iff)
  moreover have "selected_node (get_node i v) = selected_node v" "mode (get_node i v) = mode v"
    "nodes_of_interest (get_node i v) = nodes_of_interest v" "n_nodes (get_node i v) = n_nodes v"
    by (simp_all add: get_node_def)
  ultimately have "sel_ok (get_node i v)" using assms
    by (auto simp: viz_ok_def sel_ok_def interest_def split: show_mode.splits option.splits)
  with assms show ?thesis using same_places_ok [OF get_node_places] by (simp add: viz_ok_def)
qed (simp add: get_node_def assms)

lemma get_channel_ok: "viz_ok v \<Longrightarrow> viz_ok (get_channel i v)"
  by (rule viz_okI [OF same_places_ok [OF get_channel_places]])
    (auto simp: viz_ok_def same_sel_def flag_def get_channel_def fun_eq_iff)

definition end_exists :: "viz \<Rightarrow> endpoint \<Rightarrow> bool" where
  "end_exists v e = (case e of NodeEnd i \<Rightarrow> i \<in> set (keys (nodes v)) | ChannelEnd i \<Rightarrow> i \<in> set (keys (channels v)))"

lemma attach_props:
  "wlinks (attach l e v) = wlinks v" "same_sel v (attach l e v)" "link_ends (attach l e v) = link_ends v"
  "end_exists (attach l e v) = end_exists v"
  "end_exists v f \<Longrightarrow> set (end_links (attach l e v) f) = set (end_links v f) \<union> (if f = e then {l} else {})"
  by (auto simp: attach_def same_sel_def flag_def link_ends_def end_position_def node_position_def channel_position_def
      fun_eq_iff end_exists_def end_links_def node_links_def channel_links_def option.map_comp comp_def map_of_eq_None_iff
      dest: map_of_known known_map_of simp del: set_map split: endpoint.split option.split)

lemma create_link_ok:
  assumes "viz_ok v" "end_exists v (NodeEnd i)" "end_exists v e"
  shows "viz_ok (create_link i e v)"
proof (rule viz_okI [OF _ _ assms(1)])
  let ?l = "length (wlinks v)" and ?lk = "\<lparr> node1 = i, node2 = e, path_data = None \<rparr>"
  let ?w = "v\<lparr> wlinks := wlinks v @ [?lk] \<rparr>"
  let ?v = "create_link i e v"
  have base: "link_ends ?w = link_ends v" "end_links ?w = end_links v" "end_exists ?w = end_exists v" "same_sel v ?w"
    by (auto simp: link_ends_def end_position_def node_position_def channel_position_def end_links_def node_links_def
        channel_links_def end_exists_def same_sel_def flag_def fun_eq_iff split: endpoint.split)
  show "same_sel v ?v"
    using same_sel_trans [OF same_sel_trans [OF base(4) attach_props(2)] attach_props(2)]
    by (simp add: create_link_def Let_def)
  have wl: "wlinks ?v = wlinks v @ [?lk]" and ends: "link_ends ?v = link_ends v"
    by (simp_all add: create_link_def Let_def attach_props base)
  have ls: "set (end_links ?v f) = set (end_links v f) \<union> (if f = NodeEnd i \<or> f = e then {?l} else {})"
    if "end_exists v f" for f
    using that by (simp add: create_link_def Let_def attach_props base)
  have ex: "end_exists v f" if "l \<in> set (end_links v f)" for l f
    using that by (auto simp: end_exists_def end_links_def node_links_def channel_links_def dest: map_of_known
        split: endpoint.splits option.splits)
  have nl: "node_links u k = end_links u (NodeEnd k)" for u k by (simp add: end_links_def)
  show "links_ok ?v"
    unfolding links_ok_def
  proof (intro allI impI)
    fix l assume l: "l < length (wlinks ?v)"
    show "link_ok ?v l (wlinks ?v ! l)"
    proof (cases "l < ?l")
      case True
      with assms(1) have "link_ok v l (wlinks v ! l)" by (simp add: viz_ok_def links_ok_def)
      moreover from this have "end_exists v (NodeEnd (node1 (wlinks v ! l)))" "end_exists v (node2 (wlinks v ! l))"
        using ex by (auto simp: link_ok_def nl)
      ultimately show ?thesis using True by (simp add: link_ok_def wl nth_append ends nl ls)
    next
      case False
      with l have "l = ?l" by (simp add: wl)
      with assms(2,3) show ?thesis using ls by (simp add: link_ok_def wl nl)
    qed
  qed
qed

lemma has_mobility_fields [simp]:
  "keys (nodes (snd (has_mobility i v))) = keys (nodes v)" "channels (snd (has_mobility i v)) = channels v"
  "wlinks (snd (has_mobility i v)) = wlinks v" "mobility (snd (has_mobility i v)) = mobility v"
  by (simp_all add: has_mobility_def Let_def split: option.split)

lemma has_mobility_keys [simp]: "fst ` set (nodes (snd (has_mobility i v))) = fst ` set (nodes v)"
  by (metis has_mobility_fields(1) set_map)

lemma scan_other_ok: "viz_ok (sviz s) \<Longrightarrow> viz_ok (sviz (scan_other i k s))"
  by (auto simp: scan_other_def Let_def case_prod_beta end_exists_def
      intro!: create_link_ok get_node_ok has_mobility_ok)

lemma scan_others_ok: "viz_ok (sviz s) \<Longrightarrow> viz_ok (sviz (fold (scan_other i) ks s))"
  by (induction ks arbitrary: s) (simp_all add: scan_other_ok)

lemma scan_device_ok: "viz_ok (sviz s) \<Longrightarrow> viz_ok (sviz (scan_device net i d s))"
  by (auto simp: scan_device_def Let_def case_prod_beta end_exists_def
      intro!: create_link_ok get_node_ok get_channel_ok scan_others_ok)

lemma scan_devices_ok: "viz_ok (sviz s) \<Longrightarrow> viz_ok (sviz (fold (scan_device net i) ds s))"
  by (induction ds arbitrary: s) (simp_all add: scan_device_ok)

lemma scan_node_ok: "viz_ok (sviz s) \<Longrightarrow> viz_ok (sviz (scan_node net i s))"
  by (auto simp: scan_node_def Let_def intro!: scan_devices_ok set_position_ok node_setters_ok(4) get_node_ok
      split: option.split)

lemma scan_nodes_ok: "viz_ok (sviz s) \<Longrightarrow> viz_ok (sviz (fold (scan_node net) ks s))"
  by (induction ks arbitrary: s) (simp_all add: scan_node_ok)

lemma place_ok: "place gp v = Inr v' \<Longrightarrow> viz_ok v \<Longrightarrow> viz_ok v'"
  by (auto simp: place_def case_prod_beta set_position_ok set_channel_position_ok split: graph_name.splits if_splits)

lemma start_scan_ok:
  assumes "start_scan layout net v = Inr v'" and "viz_ok v"
  shows "viz_ok v'"
proof -
  let ?s = "fold (scan_node net) (map int [0..<n_nodes v])
     \<lparr> sviz = v, traits = netdevice_traits_table, sgraph = \<lparr> gnodes = [], gedges = [] \<rparr> \<rparr>"
  have "viz_ok (sviz ?s)" using assms(2) by (intro scan_nodes_ok) simp
  moreover have "fold_res place (layout (sgraph ?s)) (sviz ?s) = Inr v'"
    using assms(1) by (auto simp: start_scan_def scan_topology_def Let_def bind_res_Inr_iff)
  ultimately show ?thesis using fold_res_invariant [of place _ _ v' viz_ok] place_ok by blast
qed

lemma Visualizer_init_ok: "viz_ok (Visualizer_init n mob hp vp)"
  by (simp add: Visualizer_init_def set_show_transmissions_mode_def viz_ok_def links_ok_def sel_ok_def flag_def interest_def)

section \<open>Every event keeps the view consistent\<close>

lemma set_show_transmissions_mode_ok: "viz_ok v \<Longrightarrow> viz_ok (set_show_transmissions_mode m v)"
  by (auto simp: viz_ok_def set_show_transmissions_mode_def sel_ok_def interest_def flag_def cong: links_ok_cong
      split: show_mode.splits option.splits)

lemma select_node_ok:
  assumes "viz_ok v" "select_node arg v = Inr v'" "\<And>i. arg = VizNode i \<Longrightarrow> i \<in> set (keys (nodes v))"
  shows "viz_ok v'"
proof -
  obtain node where n: "resolve_node arg v = Inr node" and v': "v' = select_resolved node v"
    using assms(2) by (auto simp: select_node_def bind_res_Inr_iff)
  have "flag v i \<noteq> None" if "node = Some i" for i
    using n assms(3) that by (auto simp: resolve_node_def flag_def map_of_eq_None_iff split: node_arg.splits if_splits)
  then show ?thesis unfolding v' using assms(1) by (rule select_resolved_ok [rotated])
qed

lemma scroll_ok: "viz_ok v \<Longrightarrow> viz_ok (v\<lparr> hvalue := h, vvalue := w \<rparr>)"
  by (rule same_view_ok) simp_all

lemma scroll_on_ok: "viz_ok v \<Longrightarrow> viz_ok (scroll_on a p v)"
  by (simp add: scroll_on_def case_prod_beta Let_def scroll_ok)

lemma update_one_position_ok: "viz_ok v \<Longrightarrow> viz_ok (update_one_position a i v)"
  by (auto simp: update_one_position_def case_prod_beta Let_def intro!: scroll_on_ok set_position_ok has_mobility_ok
      split: option.split)

lemma update_node_positions_ok: "viz_ok v \<Longrightarrow> viz_ok (update_node_positions a v)"
proof -
  have "viz_ok v \<Longrightarrow> viz_ok (fold (update_one_position a) ks v)" for ks
    by (induction ks arbitrary: v) (simp_all add: update_one_position_ok)
  then show "viz_ok v \<Longrightarrow> viz_ok (update_node_positions a v)" by (simp add: update_node_positions_def)
qed

lemma node_size_changed_ok:
  assumes "viz_ok v"
  shows "viz_ok (node_size_changed a r v)"
proof -
  have "viz_ok w \<Longrightarrow> viz_ok (fold (\<lambda>i. set_size i r) ks w)" for ks w
    by (induction ks arbitrary: w) (simp_all add: node_setters_ok)
  moreover have "viz_ok (v\<lparr> node_size := r \<rparr>)" using assms by (rule same_view_ok) simp_all
  ultimately show ?thesis by (simp add: node_size_changed_def)
qed

lemma set_zoom_ok: "viz_ok v \<Longrightarrow> viz_ok (set_zoom z v)"
  by (rule same_view_ok) (simp_all add: set_zoom_def)

lemma autoscale_view_ok: "viz_ok v \<Longrightarrow> viz_ok (autoscale_view a v)"
  by (auto simp: autoscale_view_def Let_def case_prod_beta intro!: scroll_ok set_zoom_ok update_node_positions_ok)

lemma node_drag_motion_ok: "viz_ok v \<Longrightarrow> viz_ok (snd (node_drag_motion a i p v))"
proof -
  assume "viz_ok v"
  then have "viz_ok (v\<lparr> mobility := m \<rparr>)" for m by (rule same_view_ok) simp_all
  then show ?thesis using \<open>viz_ok v\<close>
    by (auto simp: node_drag_motion_def Let_def case_prod_beta intro!: set_position_ok split: option.split)
qed

lemma viz_step_ok: "viz_step a v v' \<Longrightarrow> viz_ok v \<Longrightarrow> viz_ok v'"
proof (induction rule: viz_step.induct)
  case (node_press i v button p handled v')
  have "viz_ok (begin_node_drag a i p v)"
    using node_press.prems by (rule same_view_ok) (simp_all add: begin_node_drag_def split: option.split)
  moreover have "viz_ok w" if "select_node (VizNode i) v = Inr w" for w
    using node_press.hyps(1) by (intro select_node_ok [OF node_press.prems that]) simp
  ultimately show ?case using node_press
    by (auto simp: on_node_button_press_event_def bind_res_Inr_iff split: if_splits)
next
  case (root_press button v v')
  then show ?case by (auto simp: on_root_button_press_event_def split: if_splits intro: select_node_ok)
next
  case (api_select arg v v')
  then show ?case by (blast intro: select_node_ok)
next
  case (node_icon i nat_size w h ax ay v v')
  then show ?case using node_setters_ok(5) by blast
next
  case (centred arg v v')
  then show ?case by (auto simp: center_on_node_def bind_res_Inr_iff scroll_on_ok split: option.splits)
next
  case (followed arg v v')
  have "viz_ok (v\<lparr> follow_node := f \<rparr>)" for f using followed.prems by (rule same_view_ok) simp_all
  with followed show ?case by (auto simp: set_follow_node_def split: node_arg.splits if_splits)
next
  case (canvas_motion p v v')
  then show ?case by (auto simp: panning_motion_def Let_def scroll_ok split: option.splits)
next
  case (node_release v button)
  then show ?case by (rule same_view_ok) (simp_all add: on_node_button_release_event_def end_node_drag_def)
next
  case (canvas_press v button p)
  then show ?case by (rule same_view_ok) (simp_all add: canvas_button_press_def begin_panning_def)
next
  case (canvas_release v button)
  then show ?case by (rule same_view_ok) (simp_all add: canvas_button_release_def end_panning_def)
next
  case (scrolled v d)
  then show ?case by (simp add: canvas_scroll_event_def set_zoom_ok split: scroll.split)
next
  case (simulated v mob)
  then show ?case by (rule same_view_ok) simp_all
next
  case (samples v ts ds)
  then show ?case by (rule same_view_ok) simp_all
next
  case (arrows v ta da)
  then show ?case by (rule same_view_ok) simp_all
qed (simp_all add: get_node_ok node_drag_motion_ok node_setters_ok set_show_transmissions_mode_ok node_size_changed_ok
    update_node_positions_ok autoscale_view_ok)

section \<open>Which links are drawn\<close>

definition cache_ok :: "viz \<Rightarrow> bool" where
  "cache_ok v \<longleftrightarrow> (\<forall>i n. map_of (nodes v) i = Some n \<longrightarrow>
     has_mobility_cache n = None \<or> has_mobility_cache n = Some (mobility v i \<noteq> None))"

text \<open>What redrawing keeps: the links and their starts, what is drawn, the simulator and the nodes.\<close>

definition redraw :: "viz \<Rightarrow> viz \<Rightarrow> bool" where
  "redraw v v' \<longleftrightarrow> length (wlinks v') = length (wlinks v) \<and> mobility v' = mobility v
     \<and> fst ` set (nodes v') = fst ` set (nodes v) \<and> (cache_ok v \<longrightarrow> cache_ok v')
     \<and> (\<forall>l < length (wlinks v). node1 (wlinks v' ! l) = node1 (wlinks v ! l)
          \<and> (path_data (wlinks v ! l) \<noteq> None \<longrightarrow> path_data (wlinks v' ! l) \<noteq> None))"

lemma redraw_refl [simp]: "redraw v v"
  by (simp add: redraw_def)

lemma redraw_trans: "redraw v v' \<Longrightarrow> redraw v' v'' \<Longrightarrow> redraw v v''"
  by (auto simp: redraw_def)

lemma fold_redraw: "(\<And>x v. redraw v (f x v)) \<Longrightarrow> redraw v (fold f xs v)"
  by (induction xs arbitrary: v) (auto intro: redraw_trans)

lemma on_node_image [simp]: "fst ` set (nodes (on_node i f v)) = fst ` set (nodes v)"
  by (metis on_node_fields(8) set_map)

lemma redraw_on_node: "(\<And>n. has_mobility_cache (f n) = has_mobility_cache n) \<Longrightarrow> redraw v (on_node i f v)"
  by (simp add: redraw_def cache_ok_def del: not_None_eq) fastforce

lemma redraw_points: "redraw v (fold update_points ls v)"
proof (rule fold_redraw)
  fix l v
  have "node1 (wlinks (update_points l v) ! k) = node1 (wlinks v ! k)
      \<and> (path_data (wlinks v ! k) \<noteq> None \<longrightarrow> path_data (wlinks (update_points l v) ! k) \<noteq> None)" for k
    by (cases "l < length (wlinks v)"; cases "k = l") (simp_all add: update_points_def list_update_beyond)
  then show "redraw v (update_points l v)"
    by (simp add: redraw_def cache_ok_def del: not_None_eq) (simp add: update_points_def)
qed

lemma redraw_set_position: "redraw v (set_position i p v)"
proof -
  obtain x y where p: "p = (x, y)" by (cases p)
  have "redraw w (on_node i (move_item x y) w)" and label: "redraw w (on_node i (move_label x y) w)" for w
    by (rule redraw_on_node, simp add: move_item_def move_label_def)+
  from redraw_trans [OF redraw_trans [OF this(1) redraw_points] label] show ?thesis
    by (simp add: set_position_def p Let_def)
qed

lemma redraw_set_channel_position: "redraw v (set_channel_position i p v)"
proof -
  have "redraw v (on_channel i f v)" for f by (auto simp: redraw_def cache_ok_def on_channel_def)
  from redraw_trans [OF this redraw_points] show ?thesis
    by (simp add: set_channel_position_def Let_def case_prod_beta)
qed

lemma redraw_set_color: "redraw v (set_color i c v)"
proof -
  have look: "redraw w (on_node i appearance w)" and "redraw w (on_node i (\<lambda>n. n\<lparr> color := c \<rparr>) w)" for w
    by (rule redraw_on_node, simp add: appearance_def Let_def)+
  from redraw_trans [OF this(2) look]
  have "redraw w (on_node i appearance (on_node i (\<lambda>n. n\<lparr> color := c \<rparr>) w))" for w .
  moreover from this have "redraw w (set_position i q (on_node i appearance (on_node i (\<lambda>n. n\<lparr> color := c \<rparr>) w)))" for w q
    using redraw_set_position by (rule redraw_trans)
  ultimately show ?thesis
    by (simp add: set_color_def change_node_def update_appearance_def Let_def split: option.split)
qed

lemma redraw_has_mobility: "redraw v (snd (has_mobility i v))"
  by (auto simp: redraw_def cache_ok_def has_mobility_def Let_def split: option.split if_splits)

lemma redraw_scroll_on: "redraw v (scroll_on a p v)"
  by (auto simp: redraw_def cache_ok_def scroll_on_def Let_def case_prod_beta)

lemma redraw_update_one_position: "redraw v (update_one_position a i v)"
proof -
  note moved = redraw_trans [OF redraw_has_mobility redraw_set_position]
  show ?thesis
    by (simp add: update_one_position_def Let_def case_prod_beta redraw_has_mobility moved
        redraw_trans [OF moved redraw_scroll_on] split: option.split)
qed

text \<open>Every link that starts at the node has been drawn.\<close>

definition drawn_from :: "viz \<Rightarrow> int \<Rightarrow> bool" where
  "drawn_from v i \<longleftrightarrow> (\<forall>l < length (wlinks v). node1 (wlinks v ! l) = i \<longrightarrow> path_data (wlinks v ! l) \<noteq> None)"

lemma redraw_drawn_from: "redraw v v' \<Longrightarrow> drawn_from v i \<Longrightarrow> drawn_from v' i"
  by (auto simp: redraw_def drawn_from_def)

lemma set_position_drawn_from:
  assumes "links_ok v"
  shows "drawn_from (set_position i p v) i"
proof -
  obtain x y where p: "p = (x, y)" by (cases p)
  let ?v = "on_node i (move_item x y) v"
  have "drawn_from (fold update_points (node_links ?v i) ?v) i"
    using assms by (auto simp: drawn_from_def fold_points_links links_ok_def link_ok_def simp del: not_None_eq)
  then show ?thesis by (simp add: set_position_def p Let_def drawn_from_def)
qed

text \<open>
  The scan: a link starts at a node that the scan has visited, and a visited node without a mobility model is in the
  graph that is laid out.
\<close>

definition sourced :: "scan \<Rightarrow> int \<Rightarrow> bool" where
  "sourced s i \<longleftrightarrow> mobility (sviz s) i = None \<longrightarrow> GNode i \<in> set (gnodes (sgraph s))"

definition scan_ok :: "scan \<Rightarrow> bool" where
  "scan_ok s \<longleftrightarrow> viz_ok (sviz s) \<and> cache_ok (sviz s) \<and> (\<forall>lk \<in> set (wlinks (sviz s)). sourced s (node1 lk))"

definition scan_le :: "scan \<Rightarrow> scan \<Rightarrow> bool" where
  "scan_le s s' \<longleftrightarrow> mobility (sviz s') = mobility (sviz s) \<and> set (gnodes (sgraph s)) \<subseteq> set (gnodes (sgraph s'))"

lemma scan_le_sourced: "scan_le s s' \<Longrightarrow> sourced s i \<Longrightarrow> sourced s' i"
  by (auto simp: scan_le_def sourced_def)

lemma scan_le_refl [simp]: "scan_le s s"
  by (simp add: scan_le_def)

lemma scan_le_trans: "scan_le s s' \<Longrightarrow> scan_le s' s'' \<Longrightarrow> scan_le s s''"
  by (auto simp: scan_le_def)

lemma add_gedge_nodes: "set (gnodes g) \<subseteq> set (gnodes (add_gedge x y g))"
  by (auto simp: add_gedge_def add_gnode_def Let_def)

lemma get_node_cache_ok: "cache_ok v \<Longrightarrow> cache_ok (get_node i v)"
  by (auto simp: cache_ok_def get_node_def map_add_def Node_init_def appearance_def Let_def split: option.splits)

lemma get_channel_cache_ok: "cache_ok v \<Longrightarrow> cache_ok (get_channel i v)"
  by (simp add: cache_ok_def)

lemma has_mobility_cache_ok: "cache_ok v \<Longrightarrow> cache_ok (snd (has_mobility i v))"
  using redraw_has_mobility by (auto simp: redraw_def)

lemma attach_keeps:
  "mobility (attach l e v) = mobility v" "cache_ok v \<Longrightarrow> cache_ok (attach l e v)"
proof -
  have "cache_ok v \<Longrightarrow> cache_ok (on_node i (\<lambda>n. n\<lparr> links := links n @ [l] \<rparr>) v)" for i
    using redraw_on_node [of "\<lambda>n. n\<lparr> links := links n @ [l] \<rparr>"] by (simp add: redraw_def)
  moreover have "cache_ok v \<Longrightarrow> cache_ok (on_channel i f v)" for i f by (simp add: cache_ok_def)
  ultimately show "mobility (attach l e v) = mobility v" "cache_ok v \<Longrightarrow> cache_ok (attach l e v)"
    by (simp_all add: attach_def split: endpoint.split)
qed

lemma create_link_keeps:
  "mobility (create_link i e v) = mobility v"
  "map node1 (wlinks (create_link i e v)) = map node1 (wlinks v) @ [i]"
  "cache_ok v \<Longrightarrow> cache_ok (create_link i e v)"
proof -
  have "cache_ok v \<Longrightarrow> cache_ok (v\<lparr> wlinks := ls \<rparr>)" for ls by (simp add: cache_ok_def)
  then show "mobility (create_link i e v) = mobility v"
    "map node1 (wlinks (create_link i e v)) = map node1 (wlinks v) @ [i]"
    "cache_ok v \<Longrightarrow> cache_ok (create_link i e v)"
    by (simp_all add: create_link_def Let_def attach_keeps attach_props)
qed

lemma create_link_starts: "node1 ` set (wlinks (create_link i e v)) = insert i (node1 ` set (wlinks v))"
  using arg_cong [OF create_link_keeps(2) [of i e v], of set] by simp

lemma scan_okI:
  assumes "scan_le s s'" "viz_ok (sviz s')" "cache_ok (sviz s')" "scan_ok s" "sourced s i"
    "node1 ` set (wlinks (sviz s')) \<subseteq> insert i (node1 ` set (wlinks (sviz s)))"
  shows "scan_ok s'"
  using assms scan_le_sourced [OF assms(1)] by (fastforce simp: scan_ok_def)

lemma scan_other_scan_ok:
  assumes "scan_ok s" "sourced s i"
  shows "scan_ok (scan_other i k s)" "scan_le s (scan_other i k s)"
proof -
  show le: "scan_le s (scan_other i k s)"
    using add_gedge_nodes by (auto simp: scan_le_def scan_other_def Let_def case_prod_beta create_link_keeps)
  show "scan_ok (scan_other i k s)"
  proof (rule scan_okI [OF le _ _ assms])
    show "viz_ok (sviz (scan_other i k s))" using assms(1) by (simp add: scan_ok_def scan_other_ok)
    show "cache_ok (sviz (scan_other i k s))" using assms(1)
      by (auto simp: scan_ok_def scan_other_def Let_def case_prod_beta
          intro!: create_link_keeps get_node_cache_ok has_mobility_cache_ok)
    show "node1 ` set (wlinks (sviz (scan_other i k s))) \<subseteq> insert i (node1 ` set (wlinks (sviz s)))"
      by (auto simp: scan_other_def Let_def case_prod_beta create_link_starts)
  qed
qed

lemma fold_scan_ok:
  assumes "\<And>x s. scan_ok s \<Longrightarrow> sourced s i \<Longrightarrow> scan_ok (f x s) \<and> scan_le s (f x s)" "scan_ok s" "sourced s i"
  shows "scan_ok (fold f xs s) \<and> scan_le s (fold f xs s)"
  using assms(2,3)
proof (induction xs arbitrary: s)
  case (Cons x xs)
  then show ?case using assms(1) [OF Cons.prems] scan_le_sourced scan_le_trans by (metis fold_simps(2))
qed simp

lemma scan_device_scan_ok:
  assumes "scan_ok s" "sourced s i"
  shows "scan_ok (scan_device net i d s) \<and> scan_le s (scan_device net i d s)"
proof -
  obtain ty ch where d: "d = (ty, ch)" by (cases d)
  define s1 where "s1 = s\<lparr> traits := snd (lookup_netdevice_traits ty (traits s)) \<rparr>"
  have s1: "scan_ok s1" "sourced s1 i" "scan_le s s1"
    using assms by (simp_all add: s1_def scan_ok_def sourced_def scan_le_def)
  define g where "g = (if mobility (sviz s1) i = None then add_gedge (GNode i) (GChannel ch) (sgraph s1) else sgraph s1)"
  define s2 where "s2 = s1\<lparr> sgraph := g, sviz := create_link i (ChannelEnd ch) (get_node i (get_channel ch (sviz s1))) \<rparr>"
  have le: "scan_le s1 s2" using add_gedge_nodes by (auto simp: s2_def g_def scan_le_def create_link_keeps)
  have "scan_ok s2"
  proof (rule scan_okI [OF le _ _ s1(1,2)])
    show "viz_ok (sviz s2)" "cache_ok (sviz s2)" using s1(1)
      by (auto simp: s2_def scan_ok_def end_exists_def
          intro!: create_link_ok get_node_ok get_channel_ok create_link_keeps get_node_cache_ok get_channel_cache_ok)
    show "node1 ` set (wlinks (sviz s2)) \<subseteq> insert i (node1 ` set (wlinks (sviz s1)))"
      by (simp add: s2_def create_link_starts)
  qed
  moreover have "scan_ok (fold (scan_other i) ks s1) \<and> scan_le s1 (fold (scan_other i) ks s1)" for ks
    by (rule fold_scan_ok [OF _ s1(1,2)]) (simp add: scan_other_scan_ok)
  moreover have "scan_device net i d s =
      (if is_wireless (fst (lookup_netdevice_traits ty (traits s))) = Some True then s1
       else if is_virtual (fst (lookup_netdevice_traits ty (traits s))) then s1
       else if length (channel_nodes net ch) > 2 then s2 else fold (scan_other i) (channel_nodes net ch) s1)"
    by (simp add: scan_device_def d Let_def case_prod_beta s1_def s2_def g_def)
  ultimately show ?thesis using s1 le scan_le_trans by auto
qed

lemma scan_node_scan_ok:
  assumes "scan_ok s"
  shows "scan_ok (scan_node net i s)"
proof -
  define s1 where "s1 = (case mobility (get_node i (sviz s)) i of
      Some p \<Rightarrow> s\<lparr> sviz := set_position i (transform_point_simulation_to_canvas p)
                   (set_color i (pack_color 65535 0 0) (get_node i (sviz s))) \<rparr>
    | None \<Rightarrow> s\<lparr> sviz := get_node i (sviz s), sgraph := add_gnode (GNode i) (sgraph s) \<rparr>)"
  have re: "redraw (get_node i (sviz s)) (sviz s1)"
    using redraw_trans [OF redraw_set_color redraw_set_position] by (simp add: s1_def split: option.split)
  then have mob: "mobility (sviz s1) = mobility (sviz s)" by (simp add: redraw_def)
  then have "sourced s1 i" by (auto simp: sourced_def s1_def add_gnode_def split: option.split)
  moreover have "scan_le s s1" unfolding scan_le_def mob by (simp add: s1_def add_gnode_def split: option.split) auto
  moreover have "viz_ok (sviz s1)" using assms
    by (auto simp: s1_def scan_ok_def intro!: set_position_ok node_setters_ok(4) get_node_ok split: option.split)
  moreover have "cache_ok (sviz s1)" using assms re get_node_cache_ok by (auto simp: scan_ok_def redraw_def)
  moreover have "\<exists>lk' \<in> set (wlinks (sviz s)). node1 lk' = node1 lk" if "lk \<in> set (wlinks (sviz s1))" for lk
    using that re unfolding in_set_conv_nth [of lk] by (auto simp: redraw_def intro: bexI [OF _ nth_mem])
  ultimately have "scan_ok s1" using assms scan_le_sourced by (fastforce simp: scan_ok_def)
  moreover have "scan_node net i s = fold (scan_device net i) (devices net i) s1"
    by (simp add: scan_node_def Let_def s1_def)
  ultimately show ?thesis
    using fold_scan_ok [of i "scan_device net i" s1] scan_device_scan_ok \<open>sourced s1 i\<close> by auto
qed

lemma scan_nodes_scan_ok: "scan_ok s \<Longrightarrow> scan_ok (fold (scan_node net) ks s)"
  by (induction ks arbitrary: s) (simp_all add: scan_node_scan_ok)

lemma place_drawn:
  assumes "place gp v = Inr v'" "viz_ok v"
  shows "redraw v v'" "fst gp = GNode i \<Longrightarrow> drawn_from v' i"
  using assms redraw_set_position redraw_set_channel_position set_position_drawn_from
  by (cases gp; cases "fst gp"; auto simp: place_def viz_ok_def split: if_splits)+

lemma places_drawn:
  assumes "fold_res place ps v = Inr v'" "viz_ok v"
  shows "redraw v v' \<and> (\<forall>i. GNode i \<in> fst ` set ps \<longrightarrow> drawn_from v' i)"
  using assms
proof (induction ps arbitrary: v)
  case (Cons gp ps)
  then obtain w where w: "place gp v = Inr w" "fold_res place ps w = Inr v'" by (auto simp: bind_res_Inr_iff)
  with Cons have "redraw w v' \<and> (\<forall>i. GNode i \<in> fst ` set ps \<longrightarrow> drawn_from v' i)" using place_ok by blast
  moreover have re: "redraw v w" and "fst gp = GNode i \<Longrightarrow> drawn_from w i" for i
    using place_drawn [OF w(1) Cons.prems(2)] by auto
  ultimately have "redraw v v'" "fst gp = GNode i \<or> GNode i \<in> fst ` set ps \<Longrightarrow> drawn_from v' i" for i
    using redraw_trans redraw_drawn_from by metis+
  then show ?case by (metis image_insert insert_iff list.simps(15))
qed simp

lemma update_one_position_drawn:
  assumes "viz_ok v" "cache_ok v" "i \<in> fst ` set (nodes v)" "mobility v i \<noteq> None"
  shows "drawn_from (update_one_position a i v) i"
proof -
  obtain n where "map_of (nodes v) i = Some n" using assms(3) known_map_of [of i "nodes v"] by (metis set_map)
  with assms(2,4) have hm: "fst (has_mobility i v)"
    by (fastforce simp: has_mobility_def cache_ok_def Let_def split: option.split)
  have "drawn_from (set_position i p (snd (has_mobility i v))) i" for p
    using has_mobility_ok [OF assms(1)] by (intro set_position_drawn_from) (simp add: viz_ok_def)
  moreover from redraw_drawn_from [OF redraw_scroll_on this]
  have "drawn_from (scroll_on a q (set_position i p (snd (has_mobility i v)))) i" for p q .
  moreover obtain pos where "mobility v i = Some pos" using assms(4) by blast
  ultimately show ?thesis using hm by (simp add: update_one_position_def Let_def case_prod_beta)
qed

lemma update_positions_drawn:
  assumes "viz_ok v" "cache_ok v" "set ks \<subseteq> fst ` set (nodes v)"
  shows "redraw v (fold (update_one_position a) ks v)
    \<and> (\<forall>i \<in> set ks. mobility v i \<noteq> None \<longrightarrow> drawn_from (fold (update_one_position a) ks v) i)"
  using assms
proof (induction ks arbitrary: v)
  case (Cons k ks)
  let ?w = "update_one_position a k v"
  have re: "redraw v ?w" by (rule redraw_update_one_position)
  then have "cache_ok ?w" "fst ` set (nodes ?w) = fst ` set (nodes v)" "mobility ?w = mobility v"
    using Cons.prems(2) by (simp_all add: redraw_def)
  with Cons.IH [of ?w] Cons.prems update_one_position_ok
  have IH: "redraw ?w (fold (update_one_position a) ks ?w)"
    "\<forall>i \<in> set ks. mobility v i \<noteq> None \<longrightarrow> drawn_from (fold (update_one_position a) ks ?w) i"
    by auto
  moreover have "drawn_from (fold (update_one_position a) ks ?w) k" if "mobility v k \<noteq> None"
    using update_one_position_drawn [OF Cons.prems(1,2) _ that] Cons.prems(3) redraw_drawn_from [OF IH(1)] by simp
  ultimately show ?case using redraw_trans [OF re IH(1)] by simp
qed simp

lemma link_start_known:
  assumes "viz_ok v" "l < length (wlinks v)"
  shows "node1 (wlinks v ! l) \<in> fst ` set (nodes v)"
  using assms by (auto simp: viz_ok_def links_ok_def link_ok_def node_links_def dest!: map_of_known split: option.splits)

text \<open>No event removes a link or erases one.\<close>

definition keeps_drawn :: "viz \<Rightarrow> viz \<Rightarrow> bool" where
  "keeps_drawn v v' \<longleftrightarrow> length (wlinks v') = length (wlinks v)
     \<and> (\<forall>l < length (wlinks v). path_data (wlinks v ! l) \<noteq> None \<longrightarrow> path_data (wlinks v' ! l) \<noteq> None)"

lemma keeps_drawn_trans: "keeps_drawn v v' \<Longrightarrow> keeps_drawn v' v'' \<Longrightarrow> keeps_drawn v v''"
  by (simp add: keeps_drawn_def)

lemma keeps_drawn_same: "wlinks v' = wlinks v \<Longrightarrow> keeps_drawn v v'"
  by (simp add: keeps_drawn_def)

lemma redraw_keeps_drawn: "redraw v v' \<Longrightarrow> keeps_drawn v v'"
  by (simp add: redraw_def keeps_drawn_def)

lemma fold_keeps_drawn: "(\<And>x v. keeps_drawn v (f x v)) \<Longrightarrow> keeps_drawn v (fold f xs v)"
proof (induction xs arbitrary: v)
  case (Cons x xs)
  then show ?case using keeps_drawn_trans by (metis fold_simps(2))
qed (simp add: keeps_drawn_def)

lemma change_node_keeps_drawn: "keeps_drawn v (change_node i f v)"
proof -
  have "keeps_drawn v (on_node i appearance (on_node i f v))" by (simp add: keeps_drawn_same)
  moreover have "keeps_drawn w (set_position i q w)" for w q by (simp add: redraw_keeps_drawn redraw_set_position)
  ultimately show ?thesis using keeps_drawn_trans
    by (auto simp: change_node_def update_appearance_def Let_def split: option.split)
qed

lemma select_resolved_keeps_drawn: "keeps_drawn v (select_resolved node v)"
proof -
  have sel: "keeps_drawn w (set_selected i b w)" for w i b by (simp add: set_selected_def change_node_keeps_drawn)
  define v1 where "v1 = (case selected_node v of None \<Rightarrow> v | Some i \<Rightarrow> set_selected i False v)"
  define v3 where "v3 = (case node of None \<Rightarrow> v1\<lparr> selected_node := node \<rparr>
                         | Some i \<Rightarrow> set_selected i True (v1\<lparr> selected_node := node \<rparr>))"
  have "keeps_drawn v v1" by (simp add: v1_def sel keeps_drawn_same split: option.split)
  moreover have "keeps_drawn (v1\<lparr> selected_node := node \<rparr>) v3"
    by (simp add: v3_def sel keeps_drawn_same split: option.split)
  ultimately have "keeps_drawn v v3" by (simp add: keeps_drawn_def)
  moreover have "wlinks (select_resolved node v) = (if node = selected_node v then wlinks v else wlinks v3)"
    unfolding select_resolved_def Let_def v1_def [symmetric] v3_def [symmetric] by simp
  ultimately show ?thesis by (simp add: keeps_drawn_def)
qed

lemma select_node_keeps_drawn: "select_node arg v = Inr v' \<Longrightarrow> keeps_drawn v v'"
  by (auto simp: select_node_def bind_res_Inr_iff select_resolved_keeps_drawn)

lemma update_node_positions_keeps_drawn: "keeps_drawn v (update_node_positions a v)"
  by (simp add: update_node_positions_def fold_keeps_drawn redraw_keeps_drawn redraw_update_one_position)

lemma autoscale_view_keeps_drawn: "keeps_drawn v (autoscale_view a v)"
proof -
  have view: "keeps_drawn v w \<Longrightarrow> keeps_drawn v (w\<lparr> hvalue := h, vvalue := y \<rparr>)"
    "keeps_drawn v w \<Longrightarrow> keeps_drawn v (set_zoom z w)" for w h y z
    by (simp_all add: keeps_drawn_def set_zoom_def)
  show ?thesis
    by (auto simp: autoscale_view_def Let_def case_prod_beta keeps_drawn_same
        intro!: view update_node_positions_keeps_drawn)
qed

lemma node_drag_motion_keeps_drawn: "keeps_drawn v (snd (node_drag_motion a i p v))"
proof -
  have "keeps_drawn v (set_position i q (v\<lparr> mobility := m \<rparr>))" for q m
    using redraw_keeps_drawn [OF redraw_set_position [of "v\<lparr> mobility := m \<rparr>" i q]] by (simp add: keeps_drawn_def)
  then show ?thesis by (auto simp: node_drag_motion_def Let_def case_prod_beta keeps_drawn_same split: option.split)
qed

lemma viz_step_keeps_drawn: "viz_step a v v' \<Longrightarrow> keeps_drawn v v'"
proof (induction rule: viz_step.induct)
  case (node_press i v button p handled v')
  then show ?case by (auto simp: on_node_button_press_event_def bind_res_Inr_iff begin_node_drag_def keeps_drawn_same
        dest: select_node_keeps_drawn split: if_splits option.splits)
next
  case (size_changed v r)
  have "keeps_drawn (v\<lparr> node_size := r \<rparr>) (node_size_changed a r v)"
    unfolding node_size_changed_def by (rule fold_keeps_drawn) (simp add: set_size_def change_node_keeps_drawn)
  then show ?case by (simp add: keeps_drawn_def)
next
  case (node_icon i nat_size w h ax ay v v')
  then show ?case
    by (auto simp: change_node_keeps_drawn dest!: set_svg_icon_Inr)
qed (auto simp: on_node_button_release_event_def end_node_drag_def node_drag_motion_keeps_drawn set_highlighted_def
    set_label_def change_node_keeps_drawn on_root_button_press_event_def set_show_transmissions_mode_def
    canvas_button_press_def begin_panning_def canvas_button_release_def end_panning_def panning_motion_def Let_def
    canvas_scroll_event_def set_zoom_def center_on_node_def bind_res_Inr_iff scroll_on_def case_prod_beta
    set_follow_node_def update_node_positions_keeps_drawn autoscale_view_keeps_drawn keeps_drawn_same
    dest: select_node_keeps_drawn split: if_splits option.splits scroll.split node_arg.splits)

text \<open>A drag: the position of the node and the state of the drag after a movement.\<close>

lemma set_position_fields [simp]:
  "zoom (set_position i p v) = zoom v" "node_drag_state (set_position i p v) = node_drag_state v"
  "mobility (set_position i p v) = mobility v" "fst ` set (nodes (set_position i p v)) = fst ` set (nodes v)"
proof -
  have pts: "zoom (fold update_points ls w) = zoom w \<and> node_drag_state (fold update_points ls w) = node_drag_state w" for ls w
    by (induction ls arbitrary: w) (simp_all add: update_points_def)
  have on: "zoom (on_node j f w) = zoom w" "node_drag_state (on_node j f w) = node_drag_state w" for j f w
    by (simp_all add: on_node_def)
  show "zoom (set_position i p v) = zoom v" "node_drag_state (set_position i p v) = node_drag_state v"
    by (simp_all add: set_position_def case_prod_beta Let_def pts on)
  show "mobility (set_position i p v) = mobility v" "fst ` set (nodes (set_position i p v)) = fst ` set (nodes v)"
    using redraw_set_position by (auto simp: redraw_def)
qed

lemma set_position_at:
  assumes "i \<in> fst ` set (nodes v)"
  shows "node_position (set_position i p v) i = p"
proof -
  obtain x y where p: "p = (x, y)" by (cases p)
  have "same_places w (on_node i (move_label x y) w)" for w
    by (rule on_node_same_places) (simp add: keeps_place_def move_label_def)
  then have "node_position (set_position i p v) = node_position (on_node i (move_item x y) v)"
    by (simp add: set_position_def p Let_def same_places_def points_same)
  then show ?thesis using assms p by (auto simp: map_of_eq_None_iff)
qed

section \<open>Properties\<close>

lemmas viz_reachable_ok = start_scan_ok [OF _ Visualizer_init_ok]

lemma viz_steps_ok: "(viz_step a)\<^sup>*\<^sup>* v v' \<Longrightarrow> viz_ok v \<Longrightarrow> viz_ok v' \<and> keeps_drawn v v'"
proof (induction rule: rtranclp_induct)
  case base
  then show ?case by (simp add: keeps_drawn_def)
next
  case (step y z)
  then show ?case using viz_step_ok viz_step_keeps_drawn keeps_drawn_trans by blast
qed

lemma scan_all_drawn:
  assumes "start_scan layout net (Visualizer_init n mob hp vp) = Inr v"
    and layout: "\<And>g. set (gnodes g) \<subseteq> fst ` set (layout g)"
    and order: "\<And>ks. set (node_order a ks) = set ks"
  shows "\<forall>l < length (wlinks (update_node_positions a v)). path_data (wlinks (update_node_positions a v) ! l) \<noteq> None"
proof -
  let ?s0 = "\<lparr> sviz = Visualizer_init n mob hp vp, traits = netdevice_traits_table,
     sgraph = \<lparr> gnodes = [], gedges = [] \<rparr> \<rparr>"
  define s where "s = fold (scan_node net) (map int [0..<n]) ?s0"
  have "scan_ok ?s0" using Visualizer_init_ok
    by (simp add: scan_ok_def) (simp add: Visualizer_init_def set_show_transmissions_mode_def cache_ok_def)
  then have ok: "scan_ok s" by (simp add: s_def scan_nodes_scan_ok)
  have "fold_res place (layout (sgraph s)) (sviz s) = Inr v"
    using assms(1) by (auto simp: start_scan_def scan_topology_def Let_def bind_res_Inr_iff s_def Visualizer_init_def
        set_show_transmissions_mode_def)
  from places_drawn [OF this] ok
  have re: "redraw (sviz s) v" and fixed: "GNode i \<in> set (gnodes (sgraph s)) \<Longrightarrow> drawn_from v i" for i
    using layout by (auto simp: scan_ok_def)
  have v: "viz_ok v" "cache_ok v" using viz_reachable_ok [OF assms(1)] ok re by (auto simp: scan_ok_def redraw_def)
  let ?w = "update_node_positions a v"
  have up: "redraw v ?w" "i \<in> fst ` set (nodes v) \<Longrightarrow> mobility v i \<noteq> None \<Longrightarrow> drawn_from ?w i" for i
    using update_positions_drawn [OF v, of "node_order a (keys (nodes v))" a] order
    by (auto simp: update_node_positions_def)
  have "drawn_from ?w (node1 (wlinks v ! l))" if l: "l < length (wlinks v)" for l
  proof (cases "mobility v (node1 (wlinks v ! l)) = None")
    case True
    then have "sourced s (node1 (wlinks (sviz s) ! l))" "mobility (sviz s) (node1 (wlinks (sviz s) ! l)) = None"
      using ok re l by (auto simp: scan_ok_def redraw_def)
    then have "drawn_from v (node1 (wlinks v ! l))" using fixed re l by (auto simp: sourced_def redraw_def)
    then show ?thesis by (rule redraw_drawn_from [OF up(1)])
  next
    case False
    then show ?thesis using up(2) link_start_known [OF v(1) l] by blast
  qed
  then show ?thesis using up(1) by (simp add: drawn_from_def redraw_def)
qed

text \<open>
  C17. Drawn links follow their ends: once the topology has been scanned and the positions have been updated once, in
  every later state, whatever events the main loop has run, each link is drawn as the line between the current
  positions of its two ends. The layout gives every node of the graph a position, and the iteration over the nodes
  visits each of them.
\<close>

theorem links_follow_ends:
  assumes "start_scan layout net (Visualizer_init n mob hp vp) = Inr v"
    and "\<And>g. set (gnodes g) \<subseteq> fst ` set (layout g)"
    and "\<And>ks. set (node_order a ks) = set ks"
    and "(viz_step a)\<^sup>*\<^sup>* (update_node_positions a v) v'"
    and "l < length (wlinks v')"
  shows "path_data (wlinks v' ! l)
    = Some (node_position v' (node1 (wlinks v' ! l)), end_position v' (node2 (wlinks v' ! l)))"
proof -
  have "viz_ok v'" "keeps_drawn (update_node_positions a v) v'"
    using viz_steps_ok [OF assms(4)] update_node_positions_ok [OF viz_reachable_ok [OF assms(1)]] by auto
  then have "path_data (wlinks v' ! l) \<noteq> None" "link_ok v' l (wlinks v' ! l)"
    using scan_all_drawn [OF assms(1-3)] assms(5) by (auto simp: keeps_drawn_def viz_ok_def links_ok_def)
  then show ?thesis unfolding link_ok_def link_ends_def by metis
qed

text \<open>
  A network for the examples: node 0 has a mobility model and is at (1, 2), node 1 has none; they share the point-to-point
  channel 7. At zoom level 1 pixels are canvas units.
\<close>

definition plain_api :: api where
  "plain_api = \<lparr> from_pixels = (\<lambda>z (x, y). (x / z, y / z)), to_pixels = (\<lambda>z (x, y). (x * z, y * z)), clamp_h = max 0,
     clamp_v = max 0, line_clipping = (\<lambda>_ _ l. l), log_api = (\<lambda>x. x), format2 = (\<lambda>_. []),
     scroll_position = (\<lambda>z (x, y). (x * z, y * z)), node_order = (\<lambda>ks. ks), pair_order = (\<lambda>ks. ks) \<rparr>"

definition two_nodes :: network where
  "two_nodes = \<lparr> devices = (\<lambda>_. [(''PointToPointNetDevice'', 7)]), channel_nodes = (\<lambda>_. [0, 1]) \<rparr>"

definition one_mobile :: "int \<Rightarrow> (rat \<times> rat) option" where
  "one_mobile i = (if i = 0 then Some (1, 2) else None)"

definition corner_layout :: "graph \<Rightarrow> (graph_name \<times> rat \<times> rat) list" where
  "corner_layout g = map (\<lambda>x. (x, 5, 5)) (gnodes g)"

definition scanned :: viz where
  "scanned = (case start_scan corner_layout two_nodes (Visualizer_init 2 one_mobile 100 100) of Inr v \<Rightarrow> v)"

lemmas scan_eval = start_scan_def scan_topology_def scan_node_def scan_device_def scan_other_def two_nodes_def
  one_mobile_def corner_layout_def Visualizer_init_def set_show_transmissions_mode_def get_node_def
  lookup_netdevice_traits_def netdevice_traits_table_def add_gnode_def add_gedge_def create_link_def attach_def
  set_position_def set_color_def change_node_def update_appearance_def on_node_def move_item_def move_label_def
  Node_init_def appearance_def node_links_def node_position_def update_points_def place_def has_mobility_def
  transform_point_simulation_to_canvas_def PIXELS_PER_METER_def

lemma scanned_eq:
  "start_scan corner_layout two_nodes (Visualizer_init 2 one_mobile 100 100) = Inr scanned"
  "length (wlinks scanned) = 2" "keys (nodes scanned) = [0, 1]" "mobility scanned = one_mobile"
  "selected_node scanned = None" "node_drag_state scanned = None" "zoom scanned = 1"
  "mode scanned = ShowAll" "n_nodes scanned = 2" "sample_period scanned = 1 / 10" "transmission_arrows scanned = []"
  "smoothing scanned = 1 / 2" "last_transmissions scanned = []"
  by (simp_all add: scanned_def scan_eval Let_def upt_rec numeral_2_eq_2 SAMPLE_PERIOD_def)

theorem links_follow_ends_witness:
  "\<exists>v'. (viz_step plain_api)\<^sup>*\<^sup>* (update_node_positions plain_api scanned) v' \<and> length (wlinks v') = 2
     \<and> path_data (wlinks v' ! 1) = Some (node_position v' (node1 (wlinks v' ! 1)), end_position v' (node2 (wlinks v' ! 1)))"
proof (intro exI conjI)
  let ?w = "update_node_positions plain_api scanned"
  let ?v = "snd (canvas_scroll_event SCROLL_UP ?w)"
  have w: "redraw scanned ?w"
    unfolding update_node_positions_def by (rule fold_redraw) (rule redraw_update_one_position)
  show step: "(viz_step plain_api)\<^sup>*\<^sup>* ?w ?v" by (rule r_into_rtranclp) (rule viz_step.scrolled)
  show two: "length (wlinks ?v) = 2"
    using w by (simp add: redraw_def canvas_scroll_event_def set_zoom_def scanned_eq)
  then have "1 < length (wlinks ?v)" by simp
  then show "path_data (wlinks ?v ! 1) = Some (node_position ?v (node1 (wlinks ?v ! 1)), end_position ?v (node2 (wlinks ?v ! 1)))"
    by (rule links_follow_ends [OF scanned_eq(1) _ _ step, rotated 2]) (auto simp: corner_layout_def plain_api_def image_image)
qed



text \<open>
  Dragging is exact: however many movements are reported between the press and the last one, the node is drawn
  where it was in the simulation, moved by the way that the pointer has gone on the canvas, and the simulation
  has it at the same place.
\<close>

theorem drag_follows_pointer:
  assumes "i \<in> set (keys (nodes v))" "mobility v i = Some pos" "node_drag_state v = None"
  shows "let w = snd (node_drag_motion a i q
           (fold (\<lambda>r u. snd (node_drag_motion a i r u)) rs (begin_node_drag a i p v)));
             (x0, y0) = transform_point_simulation_to_canvas pos;
             (px, py) = from_pixels a (zoom v) p; (qx, qy) = from_pixels a (zoom v) q
         in node_position w i = (x0 + (qx - px), y0 + (qy - py))
            \<and> mobility w i = Some (transform_point_canvas_to_simulation (node_position w i))"
proof -
  let ?st = "\<lparr> canvas0 = from_pixels a (zoom v) p, sim0 = pos \<rparr>"
  define inv where "inv u \<longleftrightarrow> i \<in> fst ` set (nodes u) \<and> zoom u = zoom v \<and> node_drag_state u = Some ?st
     \<and> mobility u i \<noteq> None" for u :: viz
  have move: "inv (snd (node_drag_motion a i r u))" if "inv u" for r u
    using that by (simp add: inv_def node_drag_motion_def Let_def case_prod_beta split: option.split)
  have "inv (fold (\<lambda>r u. snd (node_drag_motion a i r u)) rs u)" if "inv u" for u
    using that by (induction rs arbitrary: u) (simp_all add: move)
  moreover have "inv (begin_node_drag a i p v)" using assms by (simp add: inv_def begin_node_drag_def)
  moreover define u where "u = fold (\<lambda>r u. snd (node_drag_motion a i r u)) rs (begin_node_drag a i p v)"
  ultimately have inv: "inv u" by simp
  have "node_position (set_position i z (w\<lparr> mobility := m \<rparr>)) i = z" if "inv w" for z w m
    using that by (intro set_position_at) (simp add: inv_def)
  from this [OF inv] show ?thesis using inv unfolding u_def [symmetric]
    by (auto simp: Let_def node_drag_motion_def case_prod_beta inv_def transform_point_simulation_to_canvas_def
        transform_point_canvas_to_simulation_def transform_distance_canvas_to_simulation_def PIXELS_PER_METER_def
        field_simps)
qed

theorem drag_follows_pointer_witness:
  "let w = snd (node_drag_motion plain_api 0 (30, 40)
         (fold (\<lambda>r u. snd (node_drag_motion plain_api 0 r u)) [(12, 1), (20, 35)] (begin_node_drag plain_api 0 (10, 10) scanned)))
   in node_position w 0 = (23, 36)"
  using drag_follows_pointer [of 0 scanned "(1, 2)" plain_api "(30, 40)" "[(12, 1), (20, 35)]" "(10, 10)"]
  by (simp add: scanned_eq one_mobile_def plain_api_def Let_def transform_point_simulation_to_canvas_def
      PIXELS_PER_METER_def)

text \<open>
  The conversions between simulation and canvas coordinates are inverse to each other, and distances convert
  like differences of coordinates.
\<close>

theorem coordinate_round_trip:
  "transform_point_canvas_to_simulation (transform_point_simulation_to_canvas p) = p
   \<and> transform_point_simulation_to_canvas (transform_point_canvas_to_simulation q) = q
   \<and> transform_distance_simulation_to_canvas (fst p - fst q)
      = fst (transform_point_simulation_to_canvas p) - fst (transform_point_simulation_to_canvas q)"
  by (simp add: transform_point_canvas_to_simulation_def transform_point_simulation_to_canvas_def case_prod_beta
      transform_distance_simulation_to_canvas_def PIXELS_PER_METER_def field_simps)

end
