(* ===== verification/VizView.thy ===== *)
theory VizView
  imports VizCore PyNum
begin

text \<open>
  The visualizer, second part: the samples that the simulation delivers and the arrows that show them
  (\<open>do_simulation_periodic_update\<close>, \<open>_update_transmissions_view\<close>, \<open>_update_drops_view\<close> and \<open>update_view\<close> of
  \<open>core.py\<close>). A label is the part of the record of its arrow; the angle of a label is that of its arrow, so that it
  is turned around exactly when the arrow points to the left.
\<close>

section \<open>Samples\<close>

text \<open>\<open>while len(l) > n: l.pop(0)\<close>.\<close>

fun drop_oldest :: "nat \<Rightarrow> 'a list \<Rightarrow> 'a list" where
  "drop_oldest n xs = (if length xs > n then drop_oldest n (tl xs) else xs)"

declare drop_oldest.simps [simp del]

definition smooth_factor :: "viz \<Rightarrow> nat" where
  "smooth_factor v = nat (trunc_rat (smoothing v * 10))"

definition do_simulation_periodic_update :: "transmission list \<Rightarrow> transmission list \<Rightarrow> viz \<Rightarrow> viz" where
  "do_simulation_periodic_update transmissions drops v =
     v\<lparr> last_transmissions := drop_oldest (smooth_factor v) (last_transmissions v @ [transmissions]),
        last_drops := drop_oldest (smooth_factor v) (last_drops v @ [drops]) \<rparr>"

definition add_sample :: "'k \<Rightarrow> int \<Rightarrow> ('k, int \<times> int) dict \<Rightarrow> ('k, int \<times> int) dict" where
  "add_sample key n d =
     (let (b, c) = (case map_of d key of Some x \<Rightarrow> x | None \<Rightarrow> (0, 0)) in AList.update key (b + n, c + 1) d)"

definition averages :: "(transmission \<Rightarrow> 'k) \<Rightarrow> transmission list list \<Rightarrow> ('k, int \<times> int) dict" where
  "averages key sets = fold (fold (\<lambda>t. add_sample (key t) (tbytes t))) sets []"

definition link_key :: "transmission \<Rightarrow> int \<times> int" where
  "link_key t = (transmitter t, receiver t)"

section \<open>Arrows\<close>

definition hide :: "arrow \<Rightarrow> arrow" where
  "hide w = w\<lparr> arrow_visible := False, label_visible := False \<rparr>"

definition new_arrow :: arrow where
  "new_arrow = \<lparr> arrow_visible = True, arrow_width = 2, arrow_points = ((0, 0), (0, 0)), label_visible = True,
     label_text = [], label_font = 0, label_at = (0, 0), label_dy = 0, label_flipped = False \<rparr>"

definition pop_arrow :: "arrow list \<Rightarrow> arrow \<times> arrow list" where
  "pop_arrow pool = (if pool = [] then (new_arrow, []) else (last pool, butlast pool))"

text \<open>\<open>max(0.1, math.log(float(n)/count/self.sample_period)*k)\<close>.\<close>

definition log_width :: "api \<Rightarrow> rat \<Rightarrow> rat \<Rightarrow> int \<Rightarrow> int \<Rightarrow> rat res" where
  "log_width a k period n c =
     (if period = 0 then Inl ZeroDivisionError
      else let x = of_int n / of_int c / period
           in if x \<le> 0 then Inl ValueError else Inr (max (1 / 10) (log_api a x * k)))"

definition kbps :: "rat \<Rightarrow> int \<Rightarrow> int \<Rightarrow> rat" where
  "kbps period n c = of_int (n * 8) / 1000 / of_int c / period"

definition BITRATE_FONT_SIZE :: rat where
  "BITRATE_FONT_SIZE = 10"

definition font_size :: "rat \<Rightarrow> int" where
  "font_size k = trunc_rat (1 + BITRATE_FONT_SIZE * k)"

definition get_label_over_line_position :: "api \<Rightarrow> viz \<Rightarrow> (rat \<times> rat) \<times> (rat \<times> rat) \<Rightarrow> rat \<times> rat" where
  "get_label_over_line_position a v line =
     (let b1 = from_pixels a (zoom v) (hvalue v, vvalue v);
          b2 = from_pixels a (zoom v) (hvalue v + hpage v, vvalue v + vpage v);
          ((x1, y1), (x2, y2)) = line_clipping a b1 b2 line
      in ((x1 + x2) / 2, (y1 + y2) / 2))"

definition to_left :: "(rat \<times> rat) \<times> (rat \<times> rat) \<Rightarrow> bool" where
  "to_left = (\<lambda>((x1, _), (x2, _)). x2 < x1)"

text \<open>The arrows of the labels are the characters U+2192 and U+2190 in UTF-8.\<close>

definition transmission_text :: "api \<Rightarrow> bool \<Rightarrow> rat \<Rightarrow> string" where
  "transmission_text a left r =
     (if left then [CHR 0xE2, CHR 0x86, CHR 0x90] @ '' '' @ format2 a r @ '' kbit/s''
      else format2 a r @ '' kbit/s '' @ [CHR 0xE2, CHR 0x86, CHR 0x92])"

type_synonym arrow_state = "viz \<times> arrow list \<times> arrow list"

definition show_transmission :: "api \<Rightarrow> rat \<Rightarrow> (int \<times> int) \<times> int \<times> int \<Rightarrow> arrow_state \<Rightarrow> arrow_state res" where
  "show_transmission a k = (\<lambda>((tx, rx), n, c) (v, old, new).
     let v1 = get_node rx (get_node tx v);
         (w, old') = pop_arrow old
     in bind_res (log_width a k (sample_period v) n c) (\<lambda>line_width.
          let line = (node_position v1 tx, node_position v1 rx);
              left = to_left line
          in Inr (v1, old', new @
               [w\<lparr> arrow_visible := True, arrow_width := line_width, arrow_points := line, label_visible := True,
                  label_text := transmission_text a left (kbps (sample_period v) n c), label_font := font_size k,
                  label_at := get_label_over_line_position a v1 line,
                  label_dy := (if left then line_width / 2 else - line_width / 2), label_flipped := left \<rparr>])))"

definition update_transmissions_view :: "api \<Rightarrow> viz \<Rightarrow> viz res" where
  "update_transmissions_view a v =
     (let avg = averages link_key (last_transmissions v);
          k = node_size v / 5
      in bind_res (fold_res (show_transmission a k) (map (\<lambda>key. (key, the (map_of avg key))) (pair_order a (keys avg)))
                     (v, map hide (transmission_arrows v), []))
           (\<lambda>(v1, old, new). Inr (v1\<lparr> transmission_arrows := new @ old \<rparr>)))"




section \<open>Lemmas on samples\<close>

lemma drop_oldest_eq: "drop_oldest n xs = drop (length xs - n) xs"
proof (induction n xs rule: drop_oldest.induct)
  case (1 n xs)
  then show ?case by (subst drop_oldest.simps, cases xs) (auto simp: Suc_diff_le)
qed

text \<open>Trimming in between does not change what is trimmed at the end.\<close>

lemma drop_oldest_append: "drop_oldest n (drop_oldest n xs @ ys) = drop_oldest n (xs @ ys)"
proof (cases "length xs \<le> n")
  case False
  define k where "k = length xs - n"
  with False have "length xs = n + k" by simp
  then show ?thesis unfolding drop_oldest_eq by (simp add: add.commute)
qed (simp add: drop_oldest_eq)

lemma add_sample_lookup:
  "map_of (add_sample key n d) k =
     (if k = key then Some (case map_of d key of Some (b, c) \<Rightarrow> (b + n, c + 1) | None \<Rightarrow> (n, 1)) else map_of d k)"
  by (auto simp: add_sample_def Let_def case_prod_beta update_conv' split: option.split)

lemma add_sample_keys: "keys (add_sample key n d) = (if key \<in> set (keys d) then keys d else keys d @ [key])"
  by (auto simp: add_sample_def Let_def case_prod_beta update_keys)

text \<open>The averages, computed from the samples directly.\<close>

definition sampled :: "(transmission \<Rightarrow> 'k) \<Rightarrow> transmission list \<Rightarrow> 'k \<Rightarrow> (int \<times> int) option" where
  "sampled key ts k =
     (let us = filter (\<lambda>t. key t = k) ts
      in if us = [] then None else Some (sum_list (map tbytes us), int (length us)))"

lemma averages_fold: "averages key sets = fold (\<lambda>t. add_sample (key t) (tbytes t)) (concat sets) []"
proof -
  have "fold (fold f) sets d = fold f (concat sets) d" for f :: "transmission \<Rightarrow> 'd \<Rightarrow> 'd" and d
    by (induction sets arbitrary: d) simp_all
  then show ?thesis by (simp add: averages_def)
qed

lemma averages_props:
  "map_of (averages key sets) = sampled key (concat sets) \<and> distinct (keys (averages key sets))"
proof -
  have "map_of (fold (\<lambda>t. add_sample (key t) (tbytes t)) ts []) = sampled key ts
      \<and> distinct (keys (fold (\<lambda>t. add_sample (key t) (tbytes t)) ts []))" for ts
  proof (induction ts rule: rev_induct)
    case (snoc t ts)
    then show ?case
      by (auto simp: fun_eq_iff add_sample_lookup sampled_def Let_def add_sample_keys filter_empty_conv)
  qed (simp add: sampled_def fun_eq_iff)
  then show ?thesis by (simp add: averages_fold)
qed

lemma sampled_None: "sampled key ts k = None \<longleftrightarrow> k \<notin> key ` set ts"
  by (auto simp: sampled_def Let_def filter_empty_conv)

lemma sampled_pos:
  assumes "\<forall>t \<in> set ts. 0 < tbytes t" "sampled key ts k = Some (n, c)"
  shows "0 < n" "0 < c"
proof -
  let ?us = "filter (\<lambda>t. key t = k) ts"
  have us: "?us \<noteq> []" "n = sum_list (map tbytes ?us)" "c = int (length ?us)"
    using assms(2) by (auto simp: sampled_def Let_def split: if_splits)
  have "us \<noteq> [] \<Longrightarrow> \<forall>t \<in> set us. 0 < tbytes t \<Longrightarrow> 0 < sum_list (map tbytes us)" for us
    by (induction us rule: list_nonempty_induct) (auto intro: add_pos_pos)
  from this [OF us(1)] us(2) assms(1) show "0 < n" by simp
  show "0 < c" using us by simp
qed

section \<open>Lemmas on arrows\<close>

lemma log_width_total: "0 < p \<Longrightarrow> 0 < n \<Longrightarrow> 0 < c \<Longrightarrow> \<exists>w. log_width a k p n c = Inr w"
  by (auto simp: log_width_def Let_def not_le)

lemma get_node_fields [simp]:
  "sample_period (get_node i v) = sample_period v" "transmission_arrows (get_node i v) = transmission_arrows v"
  "node_position (get_node i v) = node_position v"
  using get_node_places by (auto simp: get_node_def same_places_def)

lemma pop_arrow_length: "pop_arrow pool = (w, pool') \<Longrightarrow> length pool' = length pool - 1"
  by (auto simp: pop_arrow_def split: if_splits)

lemma pop_arrow_hidden:
  "pop_arrow pool = (w, pool') \<Longrightarrow> \<forall>x \<in> set pool. \<not> arrow_visible x \<Longrightarrow> \<forall>x \<in> set pool'. \<not> arrow_visible x"
  by (auto simp: pop_arrow_def dest: in_set_butlastD split: if_splits)

lemma show_transmissions:
  assumes "0 < sample_period v" "\<forall>(key, n, c) \<in> set items. 0 < n \<and> 0 < c" "\<forall>x \<in> set old. \<not> arrow_visible x"
  shows "\<exists>v' old' shown. fold_res (show_transmission a k) items (v, old, new) = Inr (v', old', new @ shown)
    \<and> (viz_step a)\<^sup>*\<^sup>* v v' \<and> node_position v' = node_position v
    \<and> map arrow_points shown = map (\<lambda>((tx, rx), _). (node_position v tx, node_position v rx)) items
    \<and> map label_text shown = map (\<lambda>((tx, rx), n, c).
         transmission_text a (to_left (node_position v tx, node_position v rx)) (kbps (sample_period v) n c)) items
    \<and> (\<forall>x \<in> set shown. arrow_visible x) \<and> (\<forall>x \<in> set old'. \<not> arrow_visible x)
    \<and> length old' = length old - length items"
  using assms
proof (induction items arbitrary: v old new)
  case (Cons it items)
  obtain tx rx n c where it: "it = ((tx, rx), n, c)" by (metis prod.exhaust)
  let ?v = "get_node rx (get_node tx v)"
  obtain w old1 where pop: "pop_arrow old = (w, old1)" by (cases "pop_arrow old")
  obtain lw where lw: "log_width a k (sample_period v) n c = Inr lw"
    using Cons.prems log_width_total [of "sample_period v" n c a k] by (auto simp: it)
  let ?line = "(node_position v tx, node_position v rx)"
  define x where "x = w\<lparr> arrow_visible := True, arrow_width := lw, arrow_points := ?line, label_visible := True,
     label_text := transmission_text a (to_left ?line) (kbps (sample_period v) n c), label_font := font_size k,
     label_at := get_label_over_line_position a ?v ?line,
     label_dy := (if to_left ?line then lw / 2 else - lw / 2), label_flipped := to_left ?line \<rparr>"
  have one: "show_transmission a k it (v, old, new) = Inr (?v, old1, new @ [x])"
    by (simp add: show_transmission_def it pop lw x_def Let_def)
  have steps: "(viz_step a)\<^sup>*\<^sup>* v ?v"
    by (meson viz_step.node_needed rtranclp.rtrancl_refl rtranclp.rtrancl_into_rtrancl)
  from Cons.IH [of ?v old1 "new @ [x]"] Cons.prems pop_arrow_hidden [OF pop]
  obtain v' old' shown where IH: "fold_res (show_transmission a k) items (?v, old1, new @ [x]) = Inr (v', old', new @ [x] @ shown)"
    "(viz_step a)\<^sup>*\<^sup>* ?v v'" "node_position v' = node_position v"
    "map arrow_points shown = map (\<lambda>((tx, rx), _). (node_position v tx, node_position v rx)) items"
    "map label_text shown = map (\<lambda>((tx, rx), n, c).
         transmission_text a (to_left (node_position v tx, node_position v rx)) (kbps (sample_period v) n c)) items"
    "\<forall>x \<in> set shown. arrow_visible x" "\<forall>x \<in> set old'. \<not> arrow_visible x" "length old' = length old1 - length items"
    by auto
  then show ?case using one rtranclp_trans [OF steps IH(2)] pop_arrow_length [OF pop]
    by (intro exI [of _ v'] exI [of _ old'] exI [of _ "x # shown"]) (simp add: it x_def)
qed auto







section \<open>Properties\<close>




text \<open>
  The memory of the display: after any sequence of samples it holds the most recent ones, as many as the smoothing
  factor says.
\<close>

theorem smoothing_window:
  assumes "length (last_transmissions v) \<le> smooth_factor v"
  shows "last_transmissions (fold (\<lambda>(t, d). do_simulation_periodic_update t d) samples v)
    = drop (length (last_transmissions v) + length samples - smooth_factor v) (last_transmissions v @ map fst samples)"
proof -
  have sf: "smooth_factor (do_simulation_periodic_update t d u) = smooth_factor u" for t d u
    by (simp add: do_simulation_periodic_update_def smooth_factor_def)
  have "drop_oldest (smooth_factor v) (last_transmissions (fold (\<lambda>(t, d). do_simulation_periodic_update t d) samples v))
      = drop_oldest (smooth_factor v) (last_transmissions v @ map fst samples)
    \<and> (length (last_transmissions v) \<le> smooth_factor v \<longrightarrow>
        length (last_transmissions (fold (\<lambda>(t, d). do_simulation_periodic_update t d) samples v)) \<le> smooth_factor v)"
  proof (induction samples arbitrary: v)
    case (Cons s samples)
    let ?u = "do_simulation_periodic_update (fst s) (snd s) v"
    have u: "last_transmissions ?u = drop_oldest (smooth_factor v) (last_transmissions v @ [fst s])"
      by (simp add: do_simulation_periodic_update_def)
    then have "length (last_transmissions ?u) \<le> smooth_factor v" by (simp add: drop_oldest_eq)
    with Cons.IH [of ?u] show ?case by (simp add: sf u drop_oldest_append case_prod_beta)
  qed simp
  then show ?thesis using assms by (auto simp: drop_oldest_eq)
qed

theorem smoothing_window_witness:
  "last_transmissions (fold (\<lambda>(t, d). do_simulation_periodic_update t d)
       (replicate 6 ([\<lparr> transmitter = 0, receiver = 1, tbytes = 5 \<rparr>], [])) scanned)
    = replicate 5 [\<lparr> transmitter = 0, receiver = 1, tbytes = 5 \<rparr>]"
  by (subst smoothing_window)
    (simp_all add: scanned_eq smooth_factor_def trunc_rat_def numeral_eq_Suc)

text \<open>The averages in the order in which the links are visited.\<close>

lemma averages_visited:
  fixes key_of :: "transmission \<Rightarrow> 'k" and bs :: "transmission list list" and ord :: "'k list \<Rightarrow> 'k list"
  assumes "\<forall>t \<in> set (concat bs). 0 < tbytes t" and "\<And>ks. set (ord ks) = set ks \<and> length (ord ks) = length ks"
  defines "avg \<equiv> averages key_of bs" and "visited \<equiv> ord (keys (averages key_of bs))"
  shows "set visited = key_of ` set (concat bs)" and "distinct visited"
    and "p \<in> set visited \<Longrightarrow> the (map_of avg p) = (let us = filter (\<lambda>t. key_of t = p) (concat bs) in (sum_list (map tbytes us), int (length us)))"
    and "\<forall>(key, n, c) \<in> set (map (\<lambda>key. (key, the (map_of avg key))) visited). 0 < n \<and> 0 < c"
proof -
  have avg: "map_of avg = sampled key_of (concat bs)" "distinct (keys avg)" using averages_props by (auto simp: avg_def)
  have keys: "set (keys avg) = key_of ` set (concat bs)"
  proof (rule set_eqI)
    fix k show "k \<in> set (keys avg) \<longleftrightarrow> k \<in> key_of ` set (concat bs)"
      using sampled_None [of key_of "concat bs" k] map_of_eq_None_iff [of avg k] avg(1) by simp
  qed
  show visited: "set visited = key_of ` set (concat bs)" and "distinct visited"
    using assms(2) [of "keys avg"] keys distinct_card [OF avg(2)] by (simp_all add: visited_def avg_def card_distinct)
  show "the (map_of avg p) = (let us = filter (\<lambda>t. key_of t = p) (concat bs) in (sum_list (map tbytes us), int (length us)))"
    if "p \<in> set visited" for p
    using that visited by (auto simp: avg(1) sampled_def Let_def filter_empty_conv)
  have "0 < n \<and> 0 < c" if "key \<in> set visited" "the (map_of avg key) = (n, c)" for key n c
  proof -
    have "sampled key_of (concat bs) key \<noteq> None" using that(1) visited by (simp add: sampled_None)
    then have "sampled key_of (concat bs) key = Some (n, c)" using that(2) avg(1) by auto
    from sampled_pos [OF assms(1) this] show ?thesis ..
  qed
  then show "\<forall>(key, n, c) \<in> set (map (\<lambda>key. (key, the (map_of avg key))) visited). 0 < n \<and> 0 < c" by auto
qed

text \<open>
  C22. Transmissions on the screen: when every sample has bytes, the display succeeds; it shows exactly one
  arrow for each pair of nodes with a sample in the memory, from the transmitter to the receiver, labelled with the bytes of
  the samples of the pair averaged over their number; all other arrows are hidden and kept for later.
\<close>

theorem transmissions_shown:
  assumes "0 < sample_period v" "\<forall>t \<in> set (concat (last_transmissions v)). 0 < tbytes t"
    and "\<And>ks. set (pair_order a ks) = set ks \<and> length (pair_order a ks) = length ks"
  shows "\<exists>v' pairs. update_transmissions_view a v = Inr v'
    \<and> set pairs = link_key ` set (concat (last_transmissions v)) \<and> distinct pairs
    \<and> map arrow_points (filter arrow_visible (transmission_arrows v'))
        = map (\<lambda>(tx, rx). (node_position v tx, node_position v rx)) pairs
    \<and> map label_text (filter arrow_visible (transmission_arrows v'))
        = map (\<lambda>(tx, rx). let us = filter (\<lambda>t. link_key t = (tx, rx)) (concat (last_transmissions v))
             in transmission_text a (to_left (node_position v tx, node_position v rx))
                  (kbps (sample_period v) (sum_list (map tbytes us)) (int (length us)))) pairs
    \<and> length (transmission_arrows v') = max (length (transmission_arrows v)) (length pairs)"
proof -
  let ?ts = "concat (last_transmissions v)"
  define avg where "avg = averages link_key (last_transmissions v)"
  define pairs where "pairs = pair_order a (keys avg)"
  define items where "items = map (\<lambda>key. (key, the (map_of avg key))) pairs"
  note facts = averages_visited [where key_of = link_key and ord = "pair_order a", OF assms(2,3), folded avg_def, folded pairs_def]
  have pos: "\<forall>(key, n, c) \<in> set items. 0 < n \<and> 0 < c" using facts(4) by (simp add: items_def)
  have hidden: "\<forall>x \<in> set (map hide (transmission_arrows v)). \<not> arrow_visible x" by (simp add: hide_def)
  obtain v1 old shown where run:
    "fold_res (show_transmission a (node_size v / 5)) items (v, map hide (transmission_arrows v), [])
       = Inr (v1, old, shown)"
    "map arrow_points shown = map (\<lambda>((tx, rx), _). (node_position v tx, node_position v rx)) items"
    "map label_text shown = map (\<lambda>((tx, rx), n, c).
         transmission_text a (to_left (node_position v tx, node_position v rx)) (kbps (sample_period v) n c)) items"
    "\<forall>x \<in> set shown. arrow_visible x" "\<forall>x \<in> set old. \<not> arrow_visible x"
    "length old = length (transmission_arrows v) - length items"
    using show_transmissions [OF assms(1) pos hidden, of a "node_size v / 5" "[]"]
    unfolding append_Nil length_map by blast
  have vis: "filter arrow_visible (shown @ old) = shown" using run(4,5) by (simp add: filter_empty_conv)
  have u1: "update_transmissions_view a v = Inr (v1\<lparr> transmission_arrows := shown @ old \<rparr>)"
    using run(1) by (simp add: update_transmissions_view_def Let_def avg_def [symmetric] pairs_def [symmetric]
        items_def [symmetric])
  have u2: "length (shown @ old) = max (length (transmission_arrows v)) (length pairs)"
    using arg_cong [OF run(2), of length] run(6) by (simp add: items_def)
  have u3: "map arrow_points shown = map (\<lambda>(tx, rx). (node_position v tx, node_position v rx)) pairs"
    unfolding run(2) items_def by (simp add: case_prod_beta)
  have u4: "map label_text shown = map (\<lambda>(tx, rx). let us = filter (\<lambda>t. link_key t = (tx, rx)) ?ts
      in transmission_text a (to_left (node_position v tx, node_position v rx))
           (kbps (sample_period v) (sum_list (map tbytes us)) (int (length us)))) pairs"
    unfolding run(3) items_def map_map
  proof (rule list.map_cong0)
    fix p assume p: "p \<in> set pairs"
    show "((\<lambda>((tx, rx), n, c). transmission_text a (to_left (node_position v tx, node_position v rx))
        (kbps (sample_period v) n c)) \<circ> (\<lambda>key. (key, the (map_of avg key)))) p
      = (case p of (tx, rx) \<Rightarrow> let us = filter (\<lambda>t. link_key t = (tx, rx)) ?ts
         in transmission_text a (to_left (node_position v tx, node_position v rx))
              (kbps (sample_period v) (sum_list (map tbytes us)) (int (length us))))"
      using facts(3) [OF p] by (cases p) (simp add: Let_def)
  qed
  let ?w = "v1\<lparr> transmission_arrows := shown @ old \<rparr>"
  have w: "transmission_arrows ?w = shown @ old" by simp
  show ?thesis by (rule exI [of _ ?w], rule exI [of _ pairs]) (unfold w vis, intro conjI, (fact u1 u2 u3 u4 facts(1,2))+)
qed

theorem transmissions_shown_witness:
  "\<exists>v' pairs. update_transmissions_view plain_api (scanned\<lparr> last_transmissions :=
       [[\<lparr> transmitter = 0, receiver = 1, tbytes = 500 \<rparr>, \<lparr> transmitter = 0, receiver = 1, tbytes = 700 \<rparr>]] \<rparr>) = Inr v'
     \<and> set pairs = {(0 :: int, 1 :: int)} \<and> distinct pairs \<and> length (transmission_arrows v') = length pairs"
proof -
  let ?v = "scanned\<lparr> last_transmissions :=
       [[\<lparr> transmitter = 0, receiver = 1, tbytes = 500 \<rparr>, \<lparr> transmitter = 0, receiver = 1, tbytes = 700 \<rparr>]] \<rparr>"
  have pos: "0 < sample_period ?v" "\<forall>t \<in> set (concat (last_transmissions ?v)). 0 < tbytes t" by (simp_all add: scanned_eq)
  have ord: "\<And>ks. set (pair_order plain_api ks) = set ks \<and> length (pair_order plain_api ks) = length ks"
    by (simp add: plain_api_def)
  from transmissions_shown [OF pos ord] obtain v' pairs where "update_transmissions_view plain_api ?v = Inr v'"
    "set pairs = link_key ` set (concat (last_transmissions ?v))" "distinct pairs"
    "length (transmission_arrows v') = max (length (transmission_arrows ?v)) (length pairs)"
    by blast
  then show ?thesis
    by (intro exI [of _ v'] exI [of _ pairs]) (simp add: scanned_eq link_key_def)
qed

end
