(* ===== verification/VizSim.thy ===== *)
theory VizSim
  imports VizCore
begin

text \<open>
  The visualizer, third part: its two threads. The simulation thread (\<open>SimulationThread.run\<close> of \<open>core.py\<close>) runs the simulator up to
  a target time each time the view gives it the signal; the view thread runs the handlers of the main loop, which show the
  state of the simulator, set the next target and give the signal. They share a lock, the event \<open>go\<close>, the flag \<open>quit\<close> and the
  list of pause messages. A statement that touches shared state is one step; the program counter of the view is
  the stack of its handlers, because \<open>update_view_timeout\<close> runs the main loop while it waits for the lock.

  The time that the simulator reaches and its pause messages are chosen freely at each run, within what
  \<open>SimulatorRunUntil\<close> guarantees: it does not pass the target and does nothing when the target is not ahead. The drawing that a
  handler does is the matter of \<open>VizCore\<close> and \<open>VizView\<close>; here it is a step that holds the lock.
\<close>

section \<open>State\<close>

datatype sim_pc =
    SimTest | SimWait | SimClear | SimCheck | SimAcquire | SimRun | SimMessages | SimIdle | SimRelease | SimDone

datatype owner = BySim | ByView

text \<open>Handlers that take the lock, do their work and release it; the last one is code typed into IPython.\<close>

datatype handler = SetNodesOfInterest | UpdateModel | BeginNodeDrag | NodeDragMotion | AddInformationWindow | RunCode

text \<open>
  Where a handler of the view stands: the places of \<open>update_view_timeout\<close>, called for a source of the main loop and with the pause
  messages that it has taken, of a handler with the lock, and of \<open>_quit\<close>.
\<close>

datatype frame =
    Try nat | Spin nat | TakeMessages nat | UpdateView nat "string list" | SetTarget nat "string list"
  | ReleaseView nat "string list" | ShowMessages nat "string list" | TestPlay nat | SetGo nat
  | Acquire handler | Body handler | Release handler
  | QuitTimer | QuitFlag | QuitGo | QuitJoin | QuitMain

record threads =
  lock :: "owner option"
  go :: bool
  quit :: bool
  target_time :: rat
  now :: rat
  pause_messages :: "string list"
  sim :: sim_pc
  frames :: "frame list"
  idles :: nat
  play_active :: bool
  update_timeout_id :: "nat option"
  sources :: "nat list"
  next_source :: nat
  speed :: rat
  sample_period :: rat
  shown_time :: rat
  dialogs :: "string list list"
  reported :: "string list"
  main_running :: bool

section \<open>The simulation thread\<close>

text \<open>
  One step of \<open>run\<close>, with the time \<open>t\<close> that the simulator reaches and the messages \<open>ms\<close> of the run. No result: the thread waits,
  or has ended. \<open>reported\<close> records all messages that the simulator has given.
\<close>

definition sim_step :: "rat \<Rightarrow> string list \<Rightarrow> threads \<Rightarrow> threads option" where
  "sim_step t ms s =
     (case sim s of
        SimTest \<Rightarrow> Some (s\<lparr> sim := (if quit s then SimDone else SimWait) \<rparr>)
      | SimWait \<Rightarrow> if go s then Some (s\<lparr> sim := SimClear \<rparr>) else None
      | SimClear \<Rightarrow> Some (s\<lparr> go := False, sim := SimCheck \<rparr>)
      | SimCheck \<Rightarrow> Some (s\<lparr> sim := (if quit s then SimDone else SimAcquire) \<rparr>)
      | SimAcquire \<Rightarrow> if lock s = None then Some (s\<lparr> lock := Some BySim, sim := SimRun \<rparr>) else None
      | SimRun \<Rightarrow> Some (s\<lparr> now := (if now s \<ge> target_time s then now s else max (now s) (min t (target_time s))),
                          sim := SimMessages \<rparr>)
      | SimMessages \<Rightarrow> Some (s\<lparr> pause_messages := pause_messages s @ ms, reported := reported s @ ms, sim := SimIdle \<rparr>)
      | SimIdle \<Rightarrow> Some (s\<lparr> idles := idles s + 1, sim := SimRelease \<rparr>)
      | SimRelease \<Rightarrow> Some (s\<lparr> lock := None, sim := SimTest \<rparr>)
      | SimDone \<Rightarrow> None)"

section \<open>The view thread\<close>

definition source_remove :: "nat option \<Rightarrow> threads \<Rightarrow> threads" where
  "source_remove i s = (case i of None \<Rightarrow> s | Some k \<Rightarrow> s\<lparr> sources := filter (\<lambda>x. x \<noteq> k) (sources s) \<rparr>)"

definition start_update_timer :: "threads \<Rightarrow> threads" where
  "start_update_timer s =
     (let s1 = source_remove (update_timeout_id s) s
      in s1\<lparr> update_timeout_id := Some (next_source s1), sources := sources s1 @ [next_source s1],
             next_source := next_source s1 + 1 \<rparr>)"

definition on_play_button_toggled :: "threads \<Rightarrow> threads" where
  "on_play_button_toggled s = (if play_active s then start_update_timer s else source_remove (update_timeout_id s) s)"

text \<open>\<open>set_active\<close> and a click; the button calls its handler when its state changes.\<close>

definition set_active :: "bool \<Rightarrow> threads \<Rightarrow> threads" where
  "set_active b s = (if play_active s = b then s else on_play_button_toggled (s\<lparr> play_active := b \<rparr>))"

text \<open>The adjustment of the speed keeps its value between 0.01 and 10.\<close>

definition speed_changed :: "rat \<Rightarrow> threads \<Rightarrow> threads" where
  "speed_changed x s =
     (let v = max (1 / 100) (min 10 x)
      in start_update_timer (s\<lparr> speed := v, sample_period := SAMPLE_PERIOD * v \<rparr>))"

definition go_to :: "frame \<Rightarrow> threads \<Rightarrow> threads" where
  "go_to f s = s\<lparr> frames := f # tl (frames s) \<rparr>"

definition return :: "threads \<Rightarrow> threads" where
  "return s = s\<lparr> frames := tl (frames s) \<rparr>"

text \<open>A step of the handler on top of the stack. No result: it waits for the lock, or for the end of the other thread.\<close>

definition view_step :: "threads \<Rightarrow> threads option" where
  "view_step s =
     (case frames s of
        [] \<Rightarrow> None
      | f # _ \<Rightarrow>
          (case f of
             Try k \<Rightarrow> Some (if lock s = None then go_to (TakeMessages k) (s\<lparr> lock := Some ByView \<rparr>) else go_to (Spin k) s)
           | Spin k \<Rightarrow> Some (go_to (Try k) s)
           | TakeMessages k \<Rightarrow> Some (go_to (UpdateView k (pause_messages s)) (s\<lparr> pause_messages := [] \<rparr>))
           | UpdateView k ms \<Rightarrow> Some (go_to (SetTarget k ms) (s\<lparr> shown_time := now s \<rparr>))
           | SetTarget k ms \<Rightarrow> Some (go_to (ReleaseView k ms) (s\<lparr> target_time := now s + sample_period s \<rparr>))
           | ReleaseView k ms \<Rightarrow> Some (go_to (ShowMessages k ms) (s\<lparr> lock := None \<rparr>))
           | ShowMessages k ms \<Rightarrow>
               Some (go_to (TestPlay k) (if ms = [] then s else set_active False (s\<lparr> dialogs := dialogs s @ [ms] \<rparr>)))
           | TestPlay k \<Rightarrow>
               Some (if play_active s then go_to (SetGo k) s
                     else return (source_remove (Some k) (s\<lparr> update_timeout_id := None \<rparr>)))
           | SetGo k \<Rightarrow> Some (return (s\<lparr> go := True \<rparr>))
           | Acquire h \<Rightarrow> if lock s = None then Some (go_to (Body h) (s\<lparr> lock := Some ByView \<rparr>)) else None
           | Body h \<Rightarrow> Some (go_to (Release h) s)
           | Release h \<Rightarrow> Some (return (s\<lparr> lock := None \<rparr>))
           | QuitTimer \<Rightarrow>
               Some (go_to QuitFlag (if update_timeout_id s = None then s
                                  else (source_remove (update_timeout_id s) s)\<lparr> update_timeout_id := None \<rparr>))
           | QuitFlag \<Rightarrow> Some (go_to QuitGo (s\<lparr> quit := True \<rparr>))
           | QuitGo \<Rightarrow> Some (go_to QuitJoin (s\<lparr> go := True \<rparr>))
           | QuitJoin \<Rightarrow> if sim s = SimDone then Some (go_to QuitMain s) else None
           | QuitMain \<Rightarrow> Some (return (s\<lparr> main_running := False \<rparr>))))"

section \<open>Events\<close>

datatype gui_event = Fires nat | IdleUpdate | PlayClicked | SpeedChanged rat | Calls handler | WindowClosed

definition call_handler :: "frame \<Rightarrow> threads \<Rightarrow> threads" where
  "call_handler f s = s\<lparr> frames := f # frames s \<rparr>"

fun frame_source :: "frame \<Rightarrow> nat option" where
  "frame_source (Try k) = Some k"
| "frame_source (Spin k) = Some k"
| "frame_source (TakeMessages k) = Some k"
| "frame_source (UpdateView k _) = Some k"
| "frame_source (SetTarget k _) = Some k"
| "frame_source (ReleaseView k _) = Some k"
| "frame_source (ShowMessages k _) = Some k"
| "frame_source (TestPlay k) = Some k"
| "frame_source (SetGo k) = Some k"
| "frame_source _ = None"

text \<open>
  What the main loop does with an event. A source is not called again while its callback runs. \<open>update_model\<close> was queued by the
  simulation thread.
\<close>

definition dispatch :: "gui_event \<Rightarrow> threads \<Rightarrow> threads option" where
  "dispatch e s =
     (case e of
        Fires k \<Rightarrow> if k \<in> set (sources s) \<and> Some k \<notin> frame_source ` set (frames s) then Some (call_handler (Try k) s) else None
      | IdleUpdate \<Rightarrow> if idles s = 0 then None else Some (call_handler (Acquire UpdateModel) (s\<lparr> idles := idles s - 1 \<rparr>))
      | PlayClicked \<Rightarrow> Some (set_active (\<not> play_active s) s)
      | SpeedChanged x \<Rightarrow> Some (speed_changed x s)
      | Calls h \<Rightarrow> Some (call_handler (Acquire h) s)
      | WindowClosed \<Rightarrow> Some (call_handler QuitTimer s))"

text \<open>The main loop runs at the bottom of the stack, and inside an \<open>update_view_timeout\<close> that waits.\<close>

definition dispatching :: "threads \<Rightarrow> bool" where
  "dispatching s = (case frames s of [] \<Rightarrow> main_running s | f # _ \<Rightarrow> (case f of Spin _ \<Rightarrow> True | _ \<Rightarrow> False))"

text \<open>
  The steps of the program. Only under IPython does the user run code, and that code may call functions of the
  visualizer.
\<close>

inductive thr_step :: "bool \<Rightarrow> threads \<Rightarrow> threads \<Rightarrow> bool" for ipython :: bool where
  simulation: "sim_step t ms s = Some s' \<Longrightarrow> thr_step ipython s s'"
| view: "view_step s = Some s' \<Longrightarrow> thr_step ipython s s'"
| event: "dispatching s \<Longrightarrow> e \<noteq> Calls RunCode \<or> ipython \<Longrightarrow> dispatch e s = Some s' \<Longrightarrow> thr_step ipython s s'"
| user_code: "ipython \<Longrightarrow> frames s = Body RunCode # fs \<Longrightarrow> thr_step ipython s (call_handler (Acquire h) s)"

text \<open>The state when the main loop starts: \<open>create_gui\<close> has set the speed to 1 and with that started a timer.\<close>

definition started :: threads where
  "started = speed_changed 1
     \<lparr> lock = None, go = False, quit = False, target_time = 0, now = 0, pause_messages = [], sim = SimTest, frames = [],
       idles = 0, play_active = False, update_timeout_id = None, sources = [], next_source = 1, speed = 1,
       sample_period = SAMPLE_PERIOD, shown_time = 0, dialogs = [], reported = [], main_running = True \<rparr>"

definition reachable :: "bool \<Rightarrow> threads \<Rightarrow> bool" where
  "reachable ipython s \<longleftrightarrow> (thr_step ipython)\<^sup>*\<^sup>* started s"

section \<open>Invariants\<close>

fun view_holds :: "frame \<Rightarrow> bool" where
  "view_holds (TakeMessages _) = True"
| "view_holds (UpdateView _ _) = True"
| "view_holds (SetTarget _ _) = True"
| "view_holds (ReleaseView _ _) = True"
| "view_holds (Body _) = True"
| "view_holds (Release _) = True"
| "view_holds _ = False"

fun is_spin :: "frame \<Rightarrow> bool" where
  "is_spin (Spin _) = True"
| "is_spin _ = False"

fun is_set_target :: "frame \<Rightarrow> bool" where
  "is_set_target (SetTarget _ _) = True"
| "is_set_target _ = False"

fun taken :: "frame \<Rightarrow> string list" where
  "taken (UpdateView _ ms) = ms"
| "taken (SetTarget _ ms) = ms"
| "taken (ReleaseView _ ms) = ms"
| "taken (ShowMessages _ ms) = ms"
| "taken _ = []"

definition sim_holds :: "sim_pc \<Rightarrow> bool" where
  "sim_holds p \<longleftrightarrow> p = SimRun \<or> p = SimMessages \<or> p = SimIdle \<or> p = SimRelease"

definition on_top :: "(frame \<Rightarrow> bool) \<Rightarrow> threads \<Rightarrow> bool" where
  "on_top P s \<longleftrightarrow> (case frames s of [] \<Rightarrow> False | f # _ \<Rightarrow> P f)"

definition lock_ok :: "threads \<Rightarrow> bool" where
  "lock_ok s \<longleftrightarrow> (lock s = Some BySim \<longleftrightarrow> sim_holds (sim s)) \<and> (lock s = Some ByView \<longleftrightarrow> on_top view_holds s)
     \<and> (\<forall>f \<in> set (tl (frames s)). is_spin f)"

definition quit_ok :: "threads \<Rightarrow> bool" where
  "quit_ok s \<longleftrightarrow> (quit s \<and> sim s = SimWait \<and> \<not> go s \<longrightarrow> on_top (\<lambda>f. f = QuitGo) s)
     \<and> (on_top (\<lambda>f. f = QuitGo \<or> f = QuitJoin \<or> f = QuitMain) s \<longrightarrow> quit s)"

definition time_ok :: "threads \<Rightarrow> bool" where
  "time_ok s \<longleftrightarrow> shown_time s \<le> now s \<and> now s \<le> target_time s \<and> target_time s \<le> shown_time s + 1
     \<and> 0 < sample_period s \<and> sample_period s \<le> 1
     \<and> (on_top is_set_target s \<longrightarrow> shown_time s = now s)"

definition messages_ok :: "threads \<Rightarrow> bool" where
  "messages_ok s \<longleftrightarrow> reported s = concat (dialogs s) @ (case frames s of [] \<Rightarrow> [] | f # _ \<Rightarrow> taken f) @ pause_messages s"

definition threads_ok :: "threads \<Rightarrow> bool" where
  "threads_ok s \<longleftrightarrow> lock_ok s \<and> quit_ok s \<and> time_ok s \<and> messages_ok s"

lemma started_ok: "threads_ok started"
  by (simp add: threads_ok_def lock_ok_def quit_ok_def time_ok_def messages_ok_def started_def speed_changed_def Let_def
      start_update_timer_def source_remove_def SAMPLE_PERIOD_def on_top_def sim_holds_def)

text \<open>The parts of the invariant depend on few fields.\<close>

lemma on_top_cong: "frames s' = frames s \<Longrightarrow> on_top P s' = on_top P s"
  by (simp add: on_top_def)

lemma sim_step_frames: "sim_step t ms s = Some s' \<Longrightarrow> frames s' = frames s"
  by (auto simp: sim_step_def split: sim_pc.splits if_splits)

lemma sim_step_lock: "sim_step t ms s = Some s' \<Longrightarrow> lock_ok s \<Longrightarrow> lock_ok s'"
  by (cases "sim s") (auto simp: sim_step_def lock_ok_def sim_holds_def on_top_def split: if_splits)

lemma sim_step_quit: "sim_step t ms s = Some s' \<Longrightarrow> quit_ok s \<Longrightarrow> quit_ok s'"
  by (cases "sim s") (auto simp: sim_step_def quit_ok_def on_top_def split: if_splits)

lemma sim_step_messages: "sim_step t ms s = Some s' \<Longrightarrow> messages_ok s \<Longrightarrow> messages_ok s'"
  by (cases "sim s") (auto simp: sim_step_def messages_ok_def split: if_splits)

lemma sim_step_time:
  assumes "sim_step t ms s = Some s'" "time_ok s" "lock_ok s"
  shows "time_ok s'"
proof (cases "sim s = SimRun")
  case True
  have "\<not> on_top is_set_target s"
  proof
    assume "on_top is_set_target s"
    then have "on_top view_holds s" by (auto simp: on_top_def elim: is_set_target.elims split: list.splits)
    with True assms(3) show False by (auto simp: lock_ok_def sim_holds_def)
  qed
  then have "\<not> on_top is_set_target s'" using sim_step_frames [OF assms(1)] on_top_cong by blast
  moreover have "s' = s\<lparr> now := (if now s \<ge> target_time s then now s else max (now s) (min t (target_time s))),
      sim := SimMessages \<rparr>" using assms(1) True by (simp add: sim_step_def)
  ultimately show ?thesis using assms(2) by (auto simp: time_ok_def)
next
  case False
  then have "shown_time s' = shown_time s" "now s' = now s" "target_time s' = target_time s" "sample_period s' = sample_period s"
    using assms(1) by (auto simp: sim_step_def split: sim_pc.splits if_splits)
  then show ?thesis using assms(2) on_top_cong [OF sim_step_frames [OF assms(1)]] by (simp add: time_ok_def)
qed

lemma sim_step_ok: "sim_step t ms s = Some s' \<Longrightarrow> threads_ok s \<Longrightarrow> threads_ok s'"
  using sim_step_lock sim_step_quit sim_step_time sim_step_messages by (auto simp: threads_ok_def)

text \<open>The timer functions change only the sources.\<close>

definition same_core :: "threads \<Rightarrow> threads \<Rightarrow> bool" where
  "same_core s s' \<longleftrightarrow> lock s' = lock s \<and> go s' = go s \<and> quit s' = quit s \<and> target_time s' = target_time s
     \<and> now s' = now s \<and> pause_messages s' = pause_messages s \<and> sim s' = sim s \<and> frames s' = frames s
     \<and> shown_time s' = shown_time s \<and> dialogs s' = dialogs s \<and> reported s' = reported s \<and> main_running s' = main_running s"

lemma source_remove_core: "same_core s (source_remove i s)" "sample_period (source_remove i s) = sample_period s"
  by (auto simp: same_core_def source_remove_def split: option.split)

lemma start_update_timer_core: "same_core s (start_update_timer s)" "sample_period (start_update_timer s) = sample_period s"
  using source_remove_core [where s = s and i = "update_timeout_id s"] by (auto simp: same_core_def start_update_timer_def Let_def)

lemma set_active_core: "same_core s (set_active b s)" "sample_period (set_active b s) = sample_period s"
  using start_update_timer_core [of "s\<lparr> play_active := b \<rparr>"]
    source_remove_core [where s = "s\<lparr> play_active := b \<rparr>" and i = "update_timeout_id s"]
  by (auto simp: same_core_def set_active_def on_play_button_toggled_def)

lemma speed_changed_core:
  "same_core s (speed_changed x s)" "0 < sample_period (speed_changed x s)" "sample_period (speed_changed x s) \<le> 1"
  by (auto simp: speed_changed_def Let_def start_update_timer_core SAMPLE_PERIOD_def)
    (auto simp: same_core_def start_update_timer_def source_remove_def Let_def split: option.split)

lemma timer_simps [simp]:
  "lock (source_remove i s) = lock s"
  "go (source_remove i s) = go s"
  "quit (source_remove i s) = quit s"
  "target_time (source_remove i s) = target_time s"
  "now (source_remove i s) = now s"
  "pause_messages (source_remove i s) = pause_messages s"
  "sim (source_remove i s) = sim s"
  "frames (source_remove i s) = frames s"
  "shown_time (source_remove i s) = shown_time s"
  "dialogs (source_remove i s) = dialogs s"
  "reported (source_remove i s) = reported s"
  "main_running (source_remove i s) = main_running s"
  "sample_period (source_remove i s) = sample_period s"
  "lock (set_active b s) = lock s"
  "go (set_active b s) = go s"
  "quit (set_active b s) = quit s"
  "target_time (set_active b s) = target_time s"
  "now (set_active b s) = now s"
  "pause_messages (set_active b s) = pause_messages s"
  "sim (set_active b s) = sim s"
  "frames (set_active b s) = frames s"
  "shown_time (set_active b s) = shown_time s"
  "dialogs (set_active b s) = dialogs s"
  "reported (set_active b s) = reported s"
  "main_running (set_active b s) = main_running s"
  "sample_period (set_active b s) = sample_period s"
  using source_remove_core [where s = s and i = i] set_active_core [where s = s and b = b] by (simp_all add: same_core_def)

lemma same_core_ok:
  assumes "same_core s s'" "threads_ok s" "0 < sample_period s'" "sample_period s' \<le> 1"
  shows "threads_ok s'"
proof -
  have "on_top P s' = on_top P s" for P using assms(1) by (simp add: on_top_def same_core_def)
  with assms show ?thesis
    by (simp add: threads_ok_def lock_ok_def quit_ok_def time_ok_def messages_ok_def same_core_def)
qed

text \<open>The frame below the top is a waiting one, if there is one.\<close>

lemma spins_top:
  assumes "\<forall>g \<in> set fs. is_spin g"
  shows "\<not> (case fs of [] \<Rightarrow> False | f # _ \<Rightarrow> view_holds f)" "\<not> (case fs of [] \<Rightarrow> False | f # _ \<Rightarrow> is_set_target f)"
    "\<not> (case fs of [] \<Rightarrow> False | f # _ \<Rightarrow> f = QuitGo \<or> f = QuitJoin \<or> f = QuitMain)"
    "(case fs of [] \<Rightarrow> [] | f # _ \<Rightarrow> taken f) = []" "\<forall>g \<in> set (tl fs). is_spin g"
  using assms by (cases fs; cases "hd fs"; auto)+

lemma view_step_lock:
  assumes "view_step s = Some s'" "threads_ok s" "frames s = f # fs"
  shows "lock_ok s'"
proof -
  have spins: "\<forall>g \<in> set fs. is_spin g" using assms by (simp add: threads_ok_def lock_ok_def)
  have "lock_ok s" using assms(2) by (simp add: threads_ok_def)
  then show ?thesis
    using assms(1) spins spins_top [OF spins]
    by (cases f)
      (auto simp: view_step_def assms(3) lock_ok_def on_top_def go_to_def return_def split: if_splits)
qed

lemma view_step_quit:
  assumes "view_step s = Some s'" "threads_ok s" "frames s = f # fs"
  shows "quit_ok s'"
proof -
  have spins: "\<forall>g \<in> set fs. is_spin g" using assms by (simp add: threads_ok_def lock_ok_def)
  have "quit_ok s" using assms(2) by (simp add: threads_ok_def)
  then show ?thesis
    using assms(1) spins spins_top [OF spins]
    by (cases f)
      (auto simp: view_step_def assms(3) quit_ok_def on_top_def go_to_def return_def split: if_splits)
qed

lemma view_step_time:
  assumes "view_step s = Some s'" "threads_ok s" "frames s = f # fs"
  shows "time_ok s'"
proof -
  have spins: "\<forall>g \<in> set fs. is_spin g" using assms by (simp add: threads_ok_def lock_ok_def)
  have "time_ok s" using assms(2) by (simp add: threads_ok_def)
  then show ?thesis
    using assms(1) spins spins_top [OF spins]
    by (cases f)
      (auto simp: view_step_def assms(3) time_ok_def on_top_def go_to_def return_def split: if_splits)
qed

lemma view_step_messages:
  assumes "view_step s = Some s'" "threads_ok s" "frames s = f # fs"
  shows "messages_ok s'"
proof -
  have spins: "\<forall>g \<in> set fs. is_spin g" using assms by (simp add: threads_ok_def lock_ok_def)
  have "messages_ok s" using assms(2) by (simp add: threads_ok_def)
  then show ?thesis
    using assms(1) spins spins_top [OF spins]
    by (cases f)
      (auto simp: view_step_def assms(3) messages_ok_def on_top_def go_to_def return_def split: if_splits)
qed

lemma view_step_ok:
  assumes "view_step s = Some s'" "threads_ok s"
  shows "threads_ok s'"
proof -
  obtain f fs where "frames s = f # fs" using assms(1) by (auto simp: view_step_def split: list.splits)
  then show ?thesis
    using view_step_lock [OF assms] view_step_quit [OF assms] view_step_time [OF assms] view_step_messages [OF assms]
    by (simp add: threads_ok_def)
qed

lemma speed_changed_ok: "threads_ok s \<Longrightarrow> threads_ok (speed_changed x s)"
  by (rule same_core_ok [OF speed_changed_core(1) _ speed_changed_core(2,3)])

lemma set_active_ok:
  assumes "threads_ok s"
  shows "threads_ok (set_active b s)"
  by (rule same_core_ok [OF set_active_core(1) assms]) (use assms in \<open>simp_all add: threads_ok_def time_ok_def\<close>)

lemma call_handler_ok:
  assumes "threads_ok s" "dispatching s" "\<not> view_holds f" "\<not> is_set_target f" "taken f = []"
    "f \<noteq> QuitGo" "f \<noteq> QuitJoin" "f \<noteq> QuitMain"
  shows "threads_ok (call_handler f s)"
proof -
  have "frames s = [] \<or> (\<exists>k fs. frames s = Spin k # fs)"
    using assms(2) by (auto simp: dispatching_def split: list.splits frame.splits)
  with assms show ?thesis
    by (auto simp: threads_ok_def lock_ok_def quit_ok_def time_ok_def messages_ok_def on_top_def call_handler_def)
qed

lemma dispatch_ok: "dispatch e s = Some s' \<Longrightarrow> dispatching s \<Longrightarrow> threads_ok s \<Longrightarrow> threads_ok s'"
proof -
  assume *: "dispatch e s = Some s'" "dispatching s" "threads_ok s"
  then have "threads_ok (s\<lparr> idles := i \<rparr>)" for i
    by (simp add: threads_ok_def lock_ok_def quit_ok_def time_ok_def messages_ok_def on_top_def)
  moreover have "dispatching (s\<lparr> idles := i \<rparr>)" for i
    using *(2) by (auto simp: dispatching_def split: list.splits frame.splits)
  moreover note *
  ultimately show ?thesis
    by (cases e) (auto simp: dispatch_def intro!: call_handler_ok set_active_ok speed_changed_ok split: if_splits)
qed

lemma thr_step_ok: "thr_step False s s' \<Longrightarrow> threads_ok s \<Longrightarrow> threads_ok s'"
  by (erule thr_step.cases) (auto intro: sim_step_ok view_step_ok dispatch_ok)

lemma reachable_ok: "reachable False s \<Longrightarrow> threads_ok s"
  unfolding reachable_def by (induction rule: rtranclp_induct) (auto intro: started_ok thr_step_ok)

section \<open>Runs\<close>

datatype action = Sim rat "string list" | View | Event gui_event

fun act :: "action \<Rightarrow> threads \<Rightarrow> threads option" where
  "act (Sim t ms) s = sim_step t ms s"
| "act View s = view_step s"
| "act (Event e) s = (if dispatching s \<and> e \<noteq> Calls RunCode then dispatch e s else None)"

fun run :: "action list \<Rightarrow> threads \<Rightarrow> threads option" where
  "run [] s = Some s"
| "run (a # as) s = (case act a s of None \<Rightarrow> None | Some s' \<Rightarrow> run as s')"

lemma run_reachable:
  assumes "run as started = Some s"
  shows "reachable ipython s"
proof -
  have step: "act a u = Some u' \<Longrightarrow> thr_step ipython u u'" for a u u'
    by (cases a) (auto intro: thr_step.intros split: if_splits)
  have "run as u = Some s \<Longrightarrow> (thr_step ipython)\<^sup>*\<^sup>* u s" for u
    by (induction as arbitrary: u)
      (auto split: option.splits intro: converse_rtranclp_into_rtranclp [of "thr_step ipython", OF step])
  with assms show ?thesis by (simp add: reachable_def)
qed

lemma run_result: "run as started \<noteq> None \<Longrightarrow> reachable ipython (case run as started of Some s \<Rightarrow> s)"
  by (auto intro: run_reachable)

section \<open>Properties\<close>

text \<open>
  C8. Mutual exclusion: the simulator never runs while a handler of the view reads or changes it, whatever the
  order of the steps of the two threads and of the events.
\<close>

theorem view_and_simulator_exclude:
  assumes "reachable False s"
  shows "\<not> (sim_holds (sim s) \<and> (\<exists>f \<in> set (frames s). view_holds f))"
proof -
  have ok: "lock_ok s" using reachable_ok [OF assms] by (simp add: threads_ok_def)
  have "\<not> view_holds f" if "f \<in> set (tl (frames s))" for f
    using ok that by (cases f) (auto simp: lock_ok_def)
  then show ?thesis using ok by (cases "frames s") (auto simp: lock_ok_def on_top_def)
qed

text \<open>
  C19. The display is never far behind: the simulation is always between the time on the display and one
  second after it, and never past the target that the view has set.
\<close>

theorem simulation_close_to_display:
  assumes "reachable False s"
  shows "shown_time s \<le> now s \<and> now s \<le> target_time s \<and> target_time s \<le> shown_time s + 1"
  using reachable_ok [OF assms] by (simp add: threads_ok_def time_ok_def)

text \<open>
  C20. No pause message is lost or shown twice: all messages of the simulator, in their order, are those of the dialogs, then those
  that the running handler has taken, then those that wait.
\<close>

theorem pause_messages_delivered:
  assumes "reachable False s"
  shows "reported s = concat (dialogs s) @ (case frames s of [] \<Rightarrow> [] | f # _ \<Rightarrow> taken f) @ pause_messages s"
  using reachable_ok [OF assms] by (simp add: threads_ok_def messages_ok_def)


text \<open>The number of steps that the simulation thread has left once it is told to quit.\<close>

definition sim_left :: "sim_pc \<Rightarrow> nat" where
  "sim_left p = (case p of SimTest \<Rightarrow> 1 | SimWait \<Rightarrow> 3 | SimClear \<Rightarrow> 2 | SimCheck \<Rightarrow> 1 | SimAcquire \<Rightarrow> 6 | SimRun \<Rightarrow> 5
     | SimMessages \<Rightarrow> 4 | SimIdle \<Rightarrow> 3 | SimRelease \<Rightarrow> 2 | SimDone \<Rightarrow> 0)"

lemma sim_step_left:
  assumes "threads_ok s" "on_top (\<lambda>f. f = QuitJoin) s" "sim_step t ms s = Some s'"
  shows "sim_left (sim s') < sim_left (sim s) \<and> threads_ok s' \<and> on_top (\<lambda>f. f = QuitJoin) s'"
proof -
  have "quit_ok s" using assms(1) by (simp add: threads_ok_def)
  moreover obtain fs where "frames s = QuitJoin # fs"
    using assms(2) unfolding on_top_def by (cases "frames s") simp_all
  ultimately have "quit s" by (simp add: quit_ok_def on_top_def)
  then have "sim_left (sim s') < sim_left (sim s)"
    using assms(3) by (cases "sim s") (auto simp: sim_step_def sim_left_def split: if_splits)
  moreover have "on_top (\<lambda>f. f = QuitJoin) s'"
    using on_top_cong [OF sim_step_frames [OF assms(3)]] assms(2) by blast
  ultimately show ?thesis using sim_step_ok [OF assms(3,1)] by blast
qed

text \<open>
  C7. Closing the window ends: from the moment the view waits for the simulation thread, that thread takes at most six
  more steps; as long as it has not ended it can take the next one, and when it has, the view goes on.
\<close>

theorem quit_ends_simulation:
  assumes "reachable False s" "frames s = QuitJoin # fs"
    and "((\<lambda>u u'. \<exists>t ms. sim_step t ms u = Some u') ^^ n) s s'"
  shows "n \<le> 6 \<and> (if sim s' = SimDone then view_step s' \<noteq> None else \<forall>t ms. sim_step t ms s' \<noteq> None)"
proof -
  have "threads_ok u \<and> on_top (\<lambda>f. f = QuitJoin) u \<and> sim_left (sim u) + n \<le> sim_left (sim s)
      \<and> (frames u = frames s)" if "((\<lambda>u u'. \<exists>t ms. sim_step t ms u = Some u') ^^ n) s u" for n u
    using that
  proof (induction n arbitrary: u)
    case 0
    then show ?case using assms(1,2) by (simp add: reachable_ok on_top_def)
  next
    case (Suc n)
    then obtain w t ms where w: "((\<lambda>u u'. \<exists>t ms. sim_step t ms u = Some u') ^^ n) s w" "sim_step t ms w = Some u" by auto
    from Suc.IH [OF w(1)] sim_step_left [OF _ _ w(2)] sim_step_frames [OF w(2)] show ?case by auto
  qed
  from this [OF assms(3)] have s': "threads_ok s'" "frames s' = QuitJoin # fs" "n \<le> sim_left (sim s)"
    using assms(2) by auto
  then have "lock_ok s'" "quit_ok s'" by (simp_all add: threads_ok_def)
  then have "quit s'" "sim s' = SimWait \<Longrightarrow> go s'" "lock s' \<noteq> Some ByView" "lock s' = Some BySim \<Longrightarrow> sim_holds (sim s')"
    using s'(2) by (auto simp: lock_ok_def quit_ok_def on_top_def)
  moreover have "sim_left (sim s) \<le> 6" by (cases "sim s") (simp_all add: sim_left_def)
  ultimately show ?thesis using s'
    by (cases "sim s'"; cases "lock s'"; cases "the (lock s')") (auto simp: sim_step_def view_step_def sim_holds_def)
qed

text \<open>A full turn: the button is pressed, the timer fires, the display is updated and the simulator runs and has a message.\<close>

definition one_turn :: "action list" where
  "one_turn = [Event PlayClicked, Event (Fires 2), View, View, View, View, View, View, View, View,
     Sim 0 [], Sim 0 [], Sim 0 [], Sim 0 [], Sim 0 [], Sim (1 / 20) [], Sim 0 [''stop'']]"

definition after_turn :: threads where
  "after_turn = (case run one_turn started of Some s \<Rightarrow> s)"

lemma after_turn:
  "run one_turn started = Some after_turn" "now after_turn = 1 / 20" "sim after_turn = SimIdle"
  "pause_messages after_turn = [''stop'']" "lock after_turn = Some BySim" "frames after_turn = []"
proof -
  have "run one_turn started \<noteq> None" by code_simp
  then show "run one_turn started = Some after_turn" by (auto simp: after_turn_def)
  show "now after_turn = 1 / 20" "sim after_turn = SimIdle" "pause_messages after_turn = [''stop'']"
    "lock after_turn = Some BySim" "frames after_turn = []"
    by code_simp+
qed

theorem view_and_simulator_exclude_witness:
  "sim_holds (sim after_turn) \<and> \<not> (\<exists>f \<in> set (frames after_turn). view_holds f)"
  using view_and_simulator_exclude [OF run_reachable [OF after_turn(1)]] by (simp add: after_turn sim_holds_def)

theorem simulation_close_to_display_witness:
  "1 / 20 \<le> target_time after_turn \<and> target_time after_turn \<le> shown_time after_turn + 1"
  using simulation_close_to_display [OF run_reachable [OF after_turn(1)]] by (simp add: after_turn)

theorem pause_messages_delivered_witness: "reported after_turn = concat (dialogs after_turn) @ [''stop'']"
  using pause_messages_delivered [OF run_reachable [OF after_turn(1)]] by (simp add: after_turn)


text \<open>The window is closed while the simulator runs.\<close>

definition closing :: threads where
  "closing = (case run (one_turn @ [Event WindowClosed, View, View, View]) started of Some s \<Rightarrow> s)"

theorem quit_ends_simulation_witness:
  "frames closing = [QuitJoin] \<and> (\<exists>s. sim_step 0 [] closing = Some s \<and> (\<forall>t ms. sim_step t ms s \<noteq> None))"
proof -
  have run: "run (one_turn @ [Event WindowClosed, View, View, View]) started \<noteq> None" by code_simp
  have r: "reachable False closing" using run unfolding closing_def by (rule run_result)
  have fr: "frames closing = [QuitJoin]" "sim closing = SimIdle" unfolding closing_def by code_simp+
  then obtain s where s: "sim_step 0 [] closing = Some s" "sim s = SimRelease" by (simp add: sim_step_def)
  then have "((\<lambda>u u'. \<exists>t ms. sim_step t ms u = Some u') ^^ 1) closing s" by auto
  from quit_ends_simulation [OF r fr(1) this] s fr show ?thesis by auto
qed

text \<open>The view waits for a lock that it holds itself.\<close>

definition blocked :: "threads \<Rightarrow> bool" where
  "blocked s \<longleftrightarrow> (\<exists>h fs. frames s = Acquire h # Body RunCode # fs) \<and> lock s = Some ByView \<and> \<not> sim_holds (sim s)"

lemma blocked_step: "thr_step True s s' \<Longrightarrow> blocked s \<Longrightarrow> blocked s'"
proof (induction rule: thr_step.induct)
  case (simulation t ms s s')
  then show ?case
    by (cases "sim s") (auto simp: blocked_def sim_step_def sim_holds_def split: if_splits)
qed (auto simp: blocked_def view_step_def dispatching_def)

text \<open>
  The shell can block the program for ever: under IPython, code typed by the user runs with the lock held; when it calls a
  function of the visualizer that takes the lock, such as the selection of a node in the mode for
  selected nodes, the view never makes a step again.
\<close>

theorem shell_blocks_view:
  "\<exists>s. reachable True s \<and> (\<forall>s'. (thr_step True)\<^sup>*\<^sup>* s s' \<longrightarrow> view_step s' = None \<and> \<not> dispatching s' \<and> frames s' = frames s)"
proof -
  let ?u = "started\<lparr> frames := [Body RunCode], lock := Some ByView \<rparr>"
  let ?s = "call_handler (Acquire SetNodesOfInterest) ?u"
  have fr: "frames started = []" "lock started = None" "main_running started" by code_simp+
  have "thr_step True started (call_handler (Acquire RunCode) started)"
    by (rule thr_step.event [where e = "Calls RunCode"]) (simp_all add: dispatching_def dispatch_def fr)
  moreover have "thr_step True (call_handler (Acquire RunCode) started) ?u"
    by (rule thr_step.view) (simp add: view_step_def call_handler_def go_to_def fr)
  moreover have "thr_step True ?u ?s" by (rule thr_step.user_code) simp_all
  ultimately have "reachable True ?s" unfolding reachable_def by (meson rtranclp.rtrancl_refl rtranclp.rtrancl_into_rtrancl)
  moreover have "blocked s' \<and> frames s' = frames ?s" if "(thr_step True)\<^sup>*\<^sup>* ?s s'" for s'
    using that
  proof (induction rule: rtranclp_induct)
    case base
    have "sim started = SimTest" by code_simp
    then show ?case by (simp add: blocked_def call_handler_def sim_holds_def)
  next
    case (step s' s'')
    then have "frames s'' = frames s'"
      by (auto elim!: thr_step.cases simp: blocked_def view_step_def dispatching_def dest: sim_step_frames)
    with step show ?case using blocked_step by metis
  qed
  moreover have "blocked s' \<Longrightarrow> view_step s' = None \<and> \<not> dispatching s'" for s'
    by (auto simp: blocked_def view_step_def dispatching_def)
  ultimately show ?thesis by blast
qed

definition two_timers_run :: "action list" where
  "two_timers_run = one_turn @ [Event PlayClicked, Event (SpeedChanged 1), Event (Fires 3), View, Event (SpeedChanged 2),
     Sim 0 [], Sim 0 [], View, View, View, View, View, View, View, View, Event PlayClicked]"

text \<open>
  Two update timers: a change of the speed while \<open>update_view_timeout\<close> waits for the lock starts a timer that the returning handler
  forgets, so that the play button starts a second one beside it.
\<close>

theorem two_update_timers:
  "\<exists>s. reachable False s \<and> play_active s \<and> sources s = [4, 5] \<and> frames s = []"
proof -
  define s where "s = (case run two_timers_run started of Some s \<Rightarrow> s)"
  have "run two_timers_run started \<noteq> None" by code_simp
  then have "reachable False s" unfolding s_def by (rule run_result)
  moreover have "play_active s" "sources s = [4, 5]" "frames s = []" unfolding s_def by code_simp+
  ultimately show ?thesis by blast
qed

text \<open>Stopping removes the source of the timer but keeps its number, which the next start removes again.\<close>

lemma stale_update_timeout_id:
  "\<exists>s. reachable False s \<and> update_timeout_id s = Some 2 \<and> 2 \<notin> set (sources s)"
proof -
  define s where "s = (case run [Event PlayClicked, Event PlayClicked] started of Some s \<Rightarrow> s)"
  have "run [Event PlayClicked, Event PlayClicked] started \<noteq> None" by code_simp
  then have "reachable False s" unfolding s_def by (rule run_result)
  moreover have "update_timeout_id s = Some 2" "sources s = []" unfolding s_def by code_simp+
  ultimately show ?thesis by auto
qed

end
