(* ===== verification/VizIcons.thy ===== *)
theory VizIcons
  imports VizCore
begin

text \<open>
  The icons of the nodes: \<open>set_svg_icon\<close> of \<open>core.py\<close> together with the items of \<open>svgitem.py\<close>. An icon stays aligned to its node and
  is painted within its bounds under all events of the main loop.
\<close>

definition icon_ok :: "vnode \<Rightarrow> bool" where
  "icon_ok n \<longleftrightarrow>
     (case svg n of
        None \<Rightarrow> True
      | Some s \<Rightarrow> svg_fits s \<and> svg_x s = center_x (item n) - (1 - fst (svg_align n)) * svg_width s
          \<and> svg_y s = center_y (item n) - (1 - snd (svg_align n)) * svg_height s)"

definition icons_ok :: "viz \<Rightarrow> bool" where
  "icons_ok v \<longleftrightarrow> (\<forall>i n. map_of (nodes v) i = Some n \<longrightarrow> icon_ok n)"

lemma icons_cong: "nodes v' = nodes v \<Longrightarrow> icons_ok v \<Longrightarrow> icons_ok v'"
  by (simp add: icons_ok_def)

lemma on_node_icons:
  "icons_ok v \<Longrightarrow> (\<And>n. map_of (nodes v) i = Some n \<Longrightarrow> icon_ok n \<Longrightarrow> icon_ok (f n)) \<Longrightarrow> icons_ok (on_node i f v)"
  by (auto simp: icons_ok_def)

lemma icon_ok_simps [simp]:
  "icon_ok (move_label x y n) = icon_ok n" "icon_ok (n\<lparr> links := ls \<rparr>) = icon_ok n"
  "icon_ok (n\<lparr> has_mobility_cache := c \<rparr>) = icon_ok n" "icon_ok (n\<lparr> selected := b \<rparr>) = icon_ok n"
  "icon_ok (n\<lparr> highlighted := b \<rparr>) = icon_ok n" "icon_ok (n\<lparr> color := k \<rparr>) = icon_ok n" "icon_ok (n\<lparr> nsize := r \<rparr>) = icon_ok n"
  "icon_ok (n\<lparr> label := l \<rparr>) = icon_ok n"
  by (cases "svg n"; simp add: icon_ok_def move_label_def)+

lemma appearance_icon [simp]: "icon_ok (appearance n) = icon_ok n"
  by (cases "svg n") (simp_all add: icon_ok_def appearance_def Let_def)

lemma move_item_icon: "icon_ok n \<Longrightarrow> icon_ok (move_item x y n)"
  by (auto simp: icon_ok_def move_item_def update_svg_position_def svg_fits_def split: option.splits)

lemma set_position_icons: "icons_ok v \<Longrightarrow> icons_ok (set_position i p v)"
proof -
  assume v: "icons_ok v"
  obtain x y where p: "p = (x, y)" by (cases p)
  have "icons_ok (on_node i (move_item x y) v)" using v by (rule on_node_icons) (rule move_item_icon)
  then show ?thesis
    by (simp add: set_position_def p Let_def) (rule on_node_icons, rule icons_cong, simp_all)
qed

lemma update_appearance_icons: "icons_ok v \<Longrightarrow> icons_ok (update_appearance i v)"
proof -
  assume "icons_ok v"
  then have "icons_ok (on_node i appearance v)" by (rule on_node_icons) simp
  then show ?thesis by (simp add: update_appearance_def Let_def set_position_icons split: option.split)
qed

lemma change_node_icons:
  "icons_ok v \<Longrightarrow> (\<And>n. map_of (nodes v) i = Some n \<Longrightarrow> icon_ok n \<Longrightarrow> icon_ok (f n)) \<Longrightarrow> icons_ok (change_node i f v)"
  by (simp add: change_node_def update_appearance_icons on_node_icons)

lemma set_svg_icon_icons:
  assumes "set_svg_icon i ns w h ax ay v = Inr v'" "icons_ok v"
  shows "icons_ok v'"
proof -
  from set_svg_icon_Inr [OF assms(1)] obtain s where s: "svg_fits s"
    "v' = change_node i (\<lambda>n. n\<lparr> svg := Some (update_svg_position (ax, ay)
       (fst (node_position v i)) (snd (node_position v i)) s), svg_align := (ax, ay) \<rparr>) v" by blast
  show ?thesis unfolding s(2) using assms(2)
    by (rule change_node_icons)
      (use s(1) in \<open>simp add: icon_ok_def update_svg_position_def svg_fits_def node_position_def\<close>)
qed

lemma select_resolved_icons: "icons_ok v \<Longrightarrow> icons_ok (select_resolved node v)"
proof -
  assume v: "icons_ok v"
  have sel: "icons_ok (set_selected i b w)" if "icons_ok w" for i b w
    using that unfolding set_selected_def by (rule change_node_icons) simp
  have c: "icons_ok (w\<lparr> selected_node := x \<rparr>) = icons_ok w" "icons_ok (w\<lparr> nodes_of_interest := ks \<rparr>) = icons_ok w" for w x ks
    by (simp_all add: icons_ok_def)
  show ?thesis using v by (simp add: select_resolved_def Let_def c sel split: option.split)
qed

lemma select_node_icons: "select_node arg v = Inr v' \<Longrightarrow> icons_ok v \<Longrightarrow> icons_ok v'"
  by (auto simp: select_node_def bind_res_Inr_iff select_resolved_icons)

lemma has_mobility_icons: "icons_ok v \<Longrightarrow> icons_ok (snd (has_mobility i v))"
  by (simp add: has_mobility_def Let_def on_node_icons split: option.split)

lemma update_positions_icons: "icons_ok v \<Longrightarrow> icons_ok (update_node_positions a v)"
proof -
  have one: "icons_ok (update_one_position a i w)" if "icons_ok w" for i w
  proof -
    have "icons_ok (snd (has_mobility i w))" using that by (rule has_mobility_icons)
    moreover have "icons_ok (scroll_on a p x) = icons_ok x" for p x
      by (cases "to_pixels a (zoom x) p") (simp add: scroll_on_def icons_ok_def)
    ultimately show ?thesis by (auto simp: update_one_position_def Let_def set_position_icons split: prod.split option.split)
  qed
  have "icons_ok (fold (update_one_position a) is w)" if "icons_ok w" for "is" w
    using that by (induction "is" arbitrary: w) (simp_all add: one)
  then show "icons_ok v \<Longrightarrow> icons_ok (update_node_positions a v)" by (simp add: update_node_positions_def)
qed

lemma get_node_icons: "icons_ok v \<Longrightarrow> icons_ok (get_node i v)"
proof -
  assume v: "icons_ok v"
  have "icon_ok Node_init" by (simp add: Node_init_def) (simp add: icon_ok_def)
  with v show ?thesis by (simp add: get_node_def icons_ok_def map_add_Some_iff)
qed

lemma autoscale_icons: "icons_ok v \<Longrightarrow> icons_ok (autoscale_view a v)"
proof -
  have view: "icons_ok w \<Longrightarrow> icons_ok (w\<lparr> hvalue := h, vvalue := y \<rparr>)" "icons_ok w \<Longrightarrow> icons_ok (set_zoom z w)" for w h y z
    by (simp_all add: icons_ok_def set_zoom_def)
  assume "icons_ok v"
  then show ?thesis
    by (auto simp: autoscale_view_def Let_def case_prod_beta intro!: view update_positions_icons)
qed

lemma node_size_icons: "icons_ok v \<Longrightarrow> icons_ok (node_size_changed a r v)"
proof -
  have one: "icons_ok (set_size i r w)" if "icons_ok w" for i w
    using that unfolding set_size_def by (rule change_node_icons) simp
  have "icons_ok (fold (\<lambda>i. set_size i r) is w)" if "icons_ok w" for "is" w
    using that by (induction "is" arbitrary: w) (simp_all add: one)
  moreover have "icons_ok v \<Longrightarrow> icons_ok (v\<lparr> node_size := r \<rparr>)" by (rule icons_cong) simp_all
  ultimately show "icons_ok v \<Longrightarrow> icons_ok (node_size_changed a r v)" by (simp add: node_size_changed_def)
qed

lemma drag_icons: "icons_ok v \<Longrightarrow> icons_ok (snd (node_drag_motion a i p v))"
  by (auto simp: node_drag_motion_def Let_def split: option.split prod.split intro!: set_position_icons)
    (simp_all add: icons_ok_def)

lemma viz_step_icons: "viz_step a v v' \<Longrightarrow> icons_ok v \<Longrightarrow> icons_ok v'"
proof (induction rule: viz_step.induct)
  case (node_enter i b v)
  then show ?case unfolding set_highlighted_def by (rule change_node_icons) simp
next
  case (node_labelled i s v)
  then show ?case unfolding set_label_def by (rule change_node_icons) simp
next
  case (node_press i v button p handled v')
  then show ?case
    by (auto simp: on_node_button_press_event_def bind_res_Inr_iff begin_node_drag_def
        intro: select_node_icons icons_cong split: if_splits option.splits)
qed (auto simp: on_node_button_release_event_def end_node_drag_def on_root_button_press_event_def
    set_show_transmissions_mode_def canvas_button_press_def begin_panning_def canvas_button_release_def end_panning_def
    panning_motion_def Let_def canvas_scroll_event_def set_zoom_def center_on_node_def bind_res_Inr_iff scroll_on_def
    case_prod_beta set_follow_node_def drag_icons set_svg_icon_icons node_size_icons update_positions_icons autoscale_icons
    get_node_icons intro: icons_cong
    dest: select_node_icons split: if_splits option.splits scroll.split node_arg.splits)

interpretation icons: step_invariant "viz_step a" icons_ok for a
  by unfold_locales (rule viz_step_icons)

section \<open>The scan\<close>

lemma attach_icons: "icons_ok v \<Longrightarrow> icons_ok (attach l e v)"
  by (auto simp: attach_def intro!: on_node_icons split: endpoint.split) (simp add: icons_ok_def)

lemma create_link_icons: "icons_ok v \<Longrightarrow> icons_ok (create_link i e v)"
proof -
  assume "icons_ok v"
  then have "icons_ok (v\<lparr> wlinks := ls \<rparr>)" for ls by (simp add: icons_ok_def)
  then show ?thesis by (simp add: create_link_def Let_def attach_icons)
qed

lemma get_channel_icons: "icons_ok v \<Longrightarrow> icons_ok (get_channel i v)"
  by (simp add: get_channel_def icons_ok_def)

lemma set_channel_position_icons: "icons_ok v \<Longrightarrow> icons_ok (set_channel_position i p v)"
  by (cases p) (simp add: set_channel_position_def Let_def icons_ok_def)

lemma scan_icons:
  "icons_ok (sviz s) \<Longrightarrow> icons_ok (sviz (scan_other i k s))"
  "icons_ok (sviz s) \<Longrightarrow> icons_ok (sviz (fold (scan_other i) ks s))"
proof -
  show one: "icons_ok (sviz s) \<Longrightarrow> icons_ok (sviz (scan_other i k s))" for s k
    by (auto simp: scan_other_def Let_def case_prod_beta intro!: create_link_icons get_node_icons has_mobility_icons)
  show "icons_ok (sviz s) \<Longrightarrow> icons_ok (sviz (fold (scan_other i) ks s))"
    by (induction ks arbitrary: s) (simp_all add: one)
qed

lemma scan_device_icons:
  "icons_ok (sviz s) \<Longrightarrow> icons_ok (sviz (scan_device net i d s))"
  "icons_ok (sviz s) \<Longrightarrow> icons_ok (sviz (fold (scan_device net i) ds s))"
proof -
  show one: "icons_ok (sviz s) \<Longrightarrow> icons_ok (sviz (scan_device net i d s))" for s d
    by (auto simp: scan_device_def Let_def case_prod_beta intro!: create_link_icons get_node_icons get_channel_icons scan_icons)
  show "icons_ok (sviz s) \<Longrightarrow> icons_ok (sviz (fold (scan_device net i) ds s))"
    by (induction ds arbitrary: s) (simp_all add: one)
qed

lemma scan_node_icons:
  "icons_ok (sviz s) \<Longrightarrow> icons_ok (sviz (scan_node net i s))"
  "icons_ok (sviz s) \<Longrightarrow> icons_ok (sviz (fold (scan_node net) ks s))"
proof -
  have col: "icons_ok v \<Longrightarrow> icons_ok (set_color i c v)" for i c v
    unfolding set_color_def by (rule change_node_icons) simp_all
  show one: "icons_ok (sviz s) \<Longrightarrow> icons_ok (sviz (scan_node net i s))" for s i
    by (auto simp: scan_node_def Let_def intro!: scan_device_icons set_position_icons col get_node_icons split: option.split)
  show "icons_ok (sviz s) \<Longrightarrow> icons_ok (sviz (fold (scan_node net) ks s))"
    by (induction ks arbitrary: s) (simp_all add: one)
qed

lemma place_icons: "place gp v = Inr v' \<Longrightarrow> icons_ok v \<Longrightarrow> icons_ok v'"
  by (auto simp: place_def case_prod_beta set_position_icons set_channel_position_icons split: graph_name.splits if_splits)

lemma start_scan_icons:
  assumes "start_scan layout net v = Inr v'" and "icons_ok v"
  shows "icons_ok v'"
proof -
  let ?s = "fold (scan_node net) (map int [0..<n_nodes v])
     \<lparr> sviz = v, traits = netdevice_traits_table, sgraph = \<lparr> gnodes = [], gedges = [] \<rparr> \<rparr>"
  have "icons_ok (sviz ?s)" using assms(2) by (intro scan_node_icons) simp
  moreover have "fold_res place (layout (sgraph ?s)) (sviz ?s) = Inr v'"
    using assms(1) by (auto simp: start_scan_def scan_topology_def Let_def bind_res_Inr_iff)
  ultimately show ?thesis using fold_res_invariant [of place _ _ v' icons_ok] place_icons by blast
qed

text \<open>
  C27. Icons: in every state that events reach from the scanned topology, an icon is aligned to the position of its node and
  is painted exactly within its bounds, whatever sizes were asked for.
\<close>

theorem icons_follow_nodes:
  assumes "start_scan layout net (Visualizer_init n mob hp vp) = Inr v" "(viz_step a)\<^sup>*\<^sup>* v v'"
    and "map_of (nodes v') i = Some node" "svg node = Some s"
  shows "do_simple_paint s = do_simple_update s
    \<and> (svg_x s + (1 - fst (svg_align node)) * svg_width s, svg_y s + (1 - snd (svg_align node)) * svg_height s) = node_position v' i"
proof -
  have "icons_ok (Visualizer_init n mob hp vp)"
    by (simp add: icons_ok_def Visualizer_init_def set_show_transmissions_mode_def)
  with assms(1) have "icons_ok v" by (rule start_scan_icons)
  with assms(2) have "icons_ok v'" by (rule icons.steps_keep)
  with assms(3) have "icon_ok node" by (simp add: icons_ok_def)
  with assms(3,4) show ?thesis by (simp add: icon_ok_def fits_bounds node_position_def)
qed

lemma appearance_fields: "svg (appearance n) = svg n" "svg_align (appearance n) = svg_align n" "label (appearance n) = label n"
  by (simp_all add: appearance_def Let_def)

lemma change_node_lookup:
  "map_of (nodes v) i = Some n \<Longrightarrow> label (f n) = None \<Longrightarrow> map_of (nodes (change_node i f v)) i = Some (appearance (f n))"
  by (simp add: change_node_def update_appearance_def Let_def appearance_fields)

theorem icons_follow_nodes_witness:
  "\<exists>v' node s. set_svg_icon 0 (3, 4) (Some 2) None (1 / 2) 1 scanned = Inr v' \<and> map_of (nodes v') 0 = Some node
     \<and> svg node = Some s \<and> svg_height s = 8
     \<and> (svg_x s + (1 - fst (svg_align node)) * svg_width s, svg_y s + (1 - snd (svg_align node)) * svg_height s) = node_position v' 0"
proof -
  let ?s = "\<lparr> svg_x = fst (node_position scanned 0), svg_y = snd (node_position scanned 0), svg_sx = 2, svg_sy = 2,
     svg_natural = (3, 4), svg_width = 6, svg_height = 8, custom_width = Some 6, custom_height = None \<rparr>"
  let ?f = "\<lambda>n. n\<lparr> svg := Some (update_svg_position (1 / 2, 1) (fst (node_position scanned 0)) (snd (node_position scanned 0)) ?s),
     svg_align := (1 / 2, 1) \<rparr>"
  have icon: "set_svg_icon 0 (3, 4) (Some 2) None (1 / 2) 1 scanned = Inr (change_node 0 ?f scanned)"
    by (simp add: set_svg_icon_def set_svg_size_def case_prod_beta SvgItem_init_def do_set_property_def svg_size_changed_def
        svg_ratio_def transform_distance_simulation_to_canvas_def PIXELS_PER_METER_def)
  have "\<exists>n. map_of (nodes scanned) 0 = Some n \<and> label n = None"
    by (simp add: scanned_def scan_eval Let_def upt_rec numeral_2_eq_2)
  then obtain n where n: "map_of (nodes scanned) 0 = Some n" "label n = None" by blast
  let ?v = "change_node 0 ?f scanned"
  have node: "map_of (nodes ?v) 0 = Some (appearance (?f n))" using n by (intro change_node_lookup) simp_all
  have s: "svg (appearance (?f n)) = Some (update_svg_position (1 / 2, 1) (fst (node_position scanned 0)) (snd (node_position scanned 0)) ?s)"
    by (simp add: appearance_fields)
  have "(viz_step plain_api)\<^sup>*\<^sup>* scanned ?v" by (rule r_into_rtranclp) (rule viz_step.node_icon [OF icon])
  from icons_follow_nodes [OF scanned_eq(1) this node s] icon node s show ?thesis
    by (intro exI [of _ ?v] exI [of _ "appearance (?f n)"] exI conjI) (auto simp: update_svg_position_def)
qed

end
