(* ===== verification/VizHud.thy ===== *)
theory VizHud
  imports VizCore
begin

text \<open>
  The axes of the visualizer, \<open>src/visualizer/visualizer/hud.py\<close>: the divisions of an axis, and the update of lines and
  labels when the view is scrolled or zoomed. Labels are taken from those of the last update; new ones are made
  when these are used up.
\<close>

section \<open>Divisions\<close>

text \<open>
  \<open>rint (math.log10 t)\<close>, the exponent of the power of ten next to \<open>t\<close>, computed with integers: the greatest \<open>k\<close> such that the
  square of \<open>10 ^ k\<close> is at most ten times the square of \<open>t\<close> (\<open>rint_log10_floor\<close> below).
\<close>

function log100_up :: "nat \<Rightarrow> nat \<Rightarrow> nat" where
  "log100_up q p = (if 0 < q \<and> q * 100 \<le> p then Suc (log100_up (q * 100) p) else 0)"
  by pat_completeness auto
termination by (relation "measure (\<lambda>(q, p). p - q)") auto

function log100_down :: "nat \<Rightarrow> nat \<Rightarrow> nat" where
  "log100_down q p = (if 0 < p \<and> p < q then Suc (log100_down q (p * 100)) else 0)"
  by pat_completeness auto
termination by (relation "measure (\<lambda>(q, p). q - p)") auto

definition rint_log10 :: "rat \<Rightarrow> int" where
  "rint_log10 t =
     (let (a, b) = quotient_of (10 * (t * t))
      in if b \<le> a then int (log100_up (nat b) (nat a)) else - int (log100_down (nat b) (nat a)))"

definition rint :: "rat \<Rightarrow> rat" where
  "rint x = of_int \<lfloor>x + 1 / 2\<rfloor>"

definition division_of :: "rat \<Rightarrow> rat" where
  "division_of t =
     (let d = 10 powi rint_log10 t
      in if \<bar>d / 2 - t\<bar> < \<bar>d - t\<bar> then d / 2
         else if \<bar>d * 2 - t\<bar> < \<bar>d - t\<bar> then d * 2 else d)"

text \<open>
  \<open>_compute_divisions\<close>: the loop runs five times over the number of divisions, the start and the division; the number is
  not used again.
\<close>

definition division_round :: "rat \<Rightarrow> rat \<Rightarrow> rat \<Rightarrow> rat \<Rightarrow> nat \<Rightarrow> rat \<times> rat \<times> rat \<Rightarrow> rat \<times> rat \<times> rat" where
  "division_round xi dx text_width dx_over_ndiv n = (\<lambda>(ndiv, _, _).
     let d = division_of dx_over_ndiv
     in (if 1 < n then rint (dx / text_width) else ndiv, d * of_int \<lceil>xi / d\<rceil> - d, d))"

definition compute_divisions :: "rat \<Rightarrow> rat \<Rightarrow> (rat \<times> rat) res" where
  "compute_divisions xi xf =
     (if \<not> xi < xf then Inl AssertionError
      else let dx = xf - xi; text_width = dx / 5 / 2;
               (_, x0, d) = fold (division_round xi dx text_width (dx / 5)) [0..<5] (5, 0, 0)
           in Inr (x0, d))"

text \<open>The loop over the marks of an axis, which ends only with a positive division.\<close>

partial_function (option) marks :: "rat \<Rightarrow> rat \<Rightarrow> rat \<Rightarrow> rat list option" where
  "marks x d e = (if x < e then Option.bind (marks (x + d) d e) (\<lambda>xs. Some (x # xs)) else Some [])"

section \<open>The axes\<close>

record axis_label =
  tick_visible :: bool
  tick_text :: string
  tick_font :: string
  tick_anchor :: string
  tick_at :: "rat \<times> rat"

record axes =
  axes_visible :: bool
  hline_visible :: bool
  vline_visible :: bool
  axis_width :: "rat option"
  hdata :: string
  vdata :: string
  axis_labels :: "axis_label list"

text \<open>The formats \<open>%r\<close>, \<open>%G\<close> and \<open>%f\<close> of the numbers.\<close>

record number_formats =
  format_r :: "rat \<Rightarrow> string"
  format_G :: "rat \<Rightarrow> string"
  format_f :: "rat \<Rightarrow> string"

definition segment :: "number_formats \<Rightarrow> rat \<times> rat \<Rightarrow> rat \<times> rat \<Rightarrow> string" where
  "segment fm p q = ''M '' @ format_r fm (fst p) @ '' '' @ format_r fm (snd p) @ '' L '' @ format_r fm (fst q) @ '' '' @ format_r fm (snd q)"

definition new_axis_label :: axis_label where
  "new_axis_label = \<lparr> tick_visible = True, tick_text = [], tick_font = [], tick_anchor = [], tick_at = (0, 0) \<rparr>"

text \<open>\<open>get_label\<close> on the unused labels.\<close>

definition get_axis_label :: "axis_label list \<Rightarrow> axis_label \<times> axis_label list" where
  "get_axis_label unused =
     (case unused of [] \<Rightarrow> (new_axis_label, []) | l # ls \<Rightarrow> (l\<lparr> tick_visible := True \<rparr>, ls))"

text \<open>The body of the loops: a mark at \<open>x\<close> is drawn from \<open>p\<close> to \<open>q\<close> and its label is at \<open>at\<close>.\<close>

definition put_mark ::
    "number_formats \<Rightarrow> string \<Rightarrow> string \<Rightarrow> (rat \<Rightarrow> (rat \<times> rat) \<times> (rat \<times> rat) \<times> (rat \<times> rat)) \<Rightarrow> rat
     \<Rightarrow> string list \<times> axis_label list \<times> axis_label list \<Rightarrow> string list \<times> axis_label list \<times> axis_label list" where
  "put_mark fm font anchor geo x = (\<lambda>(path, labels, unused).
     let (p, q, xy) = geo x; (l, unused') = get_axis_label unused
     in (path @ [segment fm p q],
         labels @ [l\<lparr> tick_text := format_G fm x, tick_font := font, tick_anchor := anchor, tick_at := xy \<rparr>], unused'))"

definition draw_axis ::
    "number_formats \<Rightarrow> string \<Rightarrow> string \<Rightarrow> (rat \<Rightarrow> (rat \<times> rat) \<times> (rat \<times> rat) \<times> (rat \<times> rat)) \<Rightarrow> string \<Rightarrow> rat \<Rightarrow> rat
     \<Rightarrow> axis_label list \<Rightarrow> axis_label list \<Rightarrow> (string \<times> axis_label list \<times> axis_label list) res option" where
  "draw_axis fm font anchor geo line lo hi labels unused =
     (case compute_divisions lo hi of
        Inl e \<Rightarrow> Some (Inl e)
      | Inr (x0, d) \<Rightarrow>
          map_option (\<lambda>xs. let (path, labels', unused') = fold (put_mark fm font anchor geo) xs ([line], labels, unused)
                           in Inr (str_join '' '' path, labels', unused'))
            (marks x0 d hi))"

definition bind_option_res :: "'a res option \<Rightarrow> ('a \<Rightarrow> 'b res option) \<Rightarrow> 'b res option" where
  "bind_option_res m f = (case m of None \<Rightarrow> None | Some (Inl e) \<Rightarrow> Some (Inl e) | Some (Inr x) \<Rightarrow> f x)"

text \<open>\<open>Axes.update_view\<close>, with the value of the zoom adjustment, which is None while the window is built.\<close>

definition axes_update_view :: "number_formats \<Rightarrow> api \<Rightarrow> rat option \<Rightarrow> viz \<Rightarrow> axes \<Rightarrow> axes res option" where
  "axes_update_view fm a zoom_value v ax =
     (case zoom_value of
        None \<Rightarrow> Some (Inr ax)
      | Some z \<Rightarrow>
          (let unused = map (\<lambda>l. l\<lparr> tick_visible := False \<rparr>) (axis_labels ax);
               offset = 10 / z;
               (x1, y1) = from_pixels a z (hvalue v, vvalue v);
               (x2, y2) = from_pixels a z (hvalue v + hpage v, vvalue v + vpage v);
               width = 5 / z;
               yc = y2 - width / 2;
               xc = x1 + width / 2;
               font = ''Sans Serif '' @ format_f fm (of_int \<lfloor>12 / z\<rfloor>)
           in bind_option_res
                (draw_axis fm font ''S'' (\<lambda>x. ((PIXELS_PER_METER * x, yc - offset), (PIXELS_PER_METER * x, yc), (PIXELS_PER_METER * x, yc - offset)))
                   (segment fm (x1, yc) (x2, yc)) (x1 / PIXELS_PER_METER) (x2 / PIXELS_PER_METER) [] unused)
                (\<lambda>(hd, labels, unused).
              bind_option_res
                (draw_axis fm font ''W'' (\<lambda>y. ((xc, PIXELS_PER_METER * y), (xc + offset, PIXELS_PER_METER * y), (xc + offset, PIXELS_PER_METER * y)))
                   (segment fm (xc, y1) (xc, y2)) (y1 / PIXELS_PER_METER) (y2 / PIXELS_PER_METER) labels unused)
                (\<lambda>(vd, labels, unused).
              Some (Inr (ax\<lparr> axis_width := Some width, hdata := hd, vdata := vd, axis_labels := labels @ unused \<rparr>))))))"

definition axes_set_visible :: "bool \<Rightarrow> axes \<Rightarrow> axes" where
  "axes_set_visible b ax =
     (if b then ax\<lparr> axes_visible := True, hline_visible := True, vline_visible := True \<rparr>
      else ax\<lparr> axes_visible := False, hline_visible := False, vline_visible := False,
               axis_labels := map (\<lambda>l. l\<lparr> tick_visible := False \<rparr>) (axis_labels ax) \<rparr>)"

text \<open>The handler of the scroll bars, and the axes at the start.\<close>

definition axes_scrolled :: "number_formats \<Rightarrow> api \<Rightarrow> rat option \<Rightarrow> viz \<Rightarrow> axes \<Rightarrow> axes res option" where
  "axes_scrolled fm a zoom_value v ax = (if axes_visible ax then axes_update_view fm a zoom_value v ax else Some (Inr ax))"

definition Axes_init :: axes where
  "Axes_init = \<lparr> axes_visible = True, hline_visible = True, vline_visible = True, axis_width = None, hdata = [], vdata = [],
     axis_labels = [] \<rparr>"

section \<open>Divisions: lemmas\<close>

lemma log100_up_spec: "0 < q \<Longrightarrow> q \<le> p \<Longrightarrow> q * 100 ^ log100_up q p \<le> p \<and> p < q * 100 ^ Suc (log100_up q p)"
proof (induction q p rule: log100_up.induct)
  case (1 q p)
  show ?case
  proof (cases "q * 100 \<le> p")
    case True
    with 1 have "q * 100 * 100 ^ log100_up (q * 100) p \<le> p \<and> p < q * 100 * 100 ^ Suc (log100_up (q * 100) p)" by simp
    with True 1(2) show ?thesis by (subst (1 2) log100_up.simps) (simp add: ac_simps)
  next
    case False
    with 1(2,3) show ?thesis by (subst (1 2) log100_up.simps) simp
  qed
qed

lemma log100_down_spec: "0 < p \<Longrightarrow> p < q \<Longrightarrow> q \<le> p * 100 ^ log100_down q p \<and> p * 100 ^ log100_down q p < q * 100"
proof (induction q p rule: log100_down.induct)
  case (1 q p)
  show ?case
  proof (cases "p * 100 < q")
    case True
    with 1 have "q \<le> p * 100 * 100 ^ log100_down q (p * 100) \<and> p * 100 * 100 ^ log100_down q (p * 100) < q * 100" by simp
    with True 1(2,3) show ?thesis by (subst (1 2) log100_down.simps) (simp add: ac_simps)
  next
    case False
    then have "log100_down q (p * 100) = 0" by (subst log100_down.simps) simp
    with False 1(2,3) show ?thesis by (subst (1 2) log100_down.simps) simp
  qed
qed

lemma rint_log10_bounds:
  assumes "0 < t"
  shows "(100 :: rat) powi rint_log10 t \<le> 10 * (t * t)" "10 * (t * t) < (100 :: rat) powi (rint_log10 t + 1)"
proof -
  obtain a b where q: "quotient_of (10 * (t * t)) = (a, b)" by force
  have b: "0 < b" using quotient_of_denom_pos [OF q] .
  have x: "10 * (t * t) = of_int a / of_int b" using quotient_of_div [OF q] .
  have "0 < 10 * (t * t)" using assms by simp
  with x b have a: "0 < a" by (simp add: zero_less_divide_iff)
  have "(100 :: rat) powi rint_log10 t \<le> of_int a / of_int b \<and> of_int a / of_int b < (100 :: rat) powi (rint_log10 t + 1)"
  proof (cases "b \<le> a")
    case True
    define k where "k = log100_up (nat b) (nat a)"
    have "nat b * 100 ^ k \<le> nat a \<and> nat a < nat b * 100 ^ Suc k"
      using log100_up_spec [of "nat b" "nat a"] True b by (simp add: k_def)
    then have "int (nat b * 100 ^ k) \<le> int (nat a) \<and> int (nat a) < int (nat b * 100 ^ Suc k)"
      by (metis of_nat_le_iff of_nat_less_iff)
    then have "b * 100 ^ k \<le> a \<and> a < b * 100 ^ Suc k" using a b by simp
    then have "(of_int (b * 100 ^ k) :: rat) \<le> of_int a \<and> (of_int a :: rat) < of_int (b * 100 ^ Suc k)"
      by (metis of_int_le_iff of_int_less_iff)
    moreover have "rint_log10 t = int k" using True q by (simp add: rint_log10_def k_def)
    moreover from this have "(100 :: rat) powi (rint_log10 t + 1) = 100 ^ Suc k" "(100 :: rat) powi rint_log10 t = 100 ^ k"
      by (simp_all add: power_int_add)
    ultimately show ?thesis using b by (simp add: field_simps)
  next
    case False
    define k where "k = log100_down (nat b) (nat a)"
    have "nat b \<le> nat a * 100 ^ k \<and> nat a * 100 ^ k < nat b * 100"
      using log100_down_spec [of "nat a" "nat b"] False a by (simp add: k_def)
    then have "int (nat b) \<le> int (nat a * 100 ^ k) \<and> int (nat a * 100 ^ k) < int (nat b * 100)"
      by (metis of_nat_le_iff of_nat_less_iff)
    then have "b \<le> a * 100 ^ k \<and> a * 100 ^ k < b * 100" using a b by simp
    then have "(of_int b :: rat) \<le> of_int (a * 100 ^ k) \<and> of_int (a * 100 ^ k) < (of_int (b * 100) :: rat)"
      by (metis of_int_le_iff of_int_less_iff)
    moreover have "rint_log10 t = - int k" using False q by (simp add: rint_log10_def k_def)
    then have low: "(100 :: rat) powi rint_log10 t = 1 / 100 ^ k" by (simp add: power_int_minus divide_inverse)
    have high: "(100 :: rat) powi (rint_log10 t + 1) = 100 / 100 ^ k"
      using power_int_add [of "100 :: rat" "rint_log10 t" 1] by (simp add: low)
    ultimately show ?thesis using b unfolding low high by (simp add: field_simps)
  qed
  with x show "(100 :: rat) powi rint_log10 t \<le> 10 * (t * t)" "10 * (t * t) < (100 :: rat) powi (rint_log10 t + 1)" by simp_all
qed

lemma rint_log10_unique:
  assumes "0 < t" "(100 :: rat) powi k \<le> 10 * (t * t)" "10 * (t * t) < (100 :: rat) powi (k + 1)"
  shows "rint_log10 t = k"
proof -
  have "(100 :: rat) powi k < 100 powi (rint_log10 t + 1)" "(100 :: rat) powi rint_log10 t < 100 powi (k + 1)"
    using rint_log10_bounds [OF assms(1)] assms(2,3) by linarith+
  then have "\<not> rint_log10 t + 1 \<le> k" "\<not> k + 1 \<le> rint_log10 t"
    using power_int_increasing [of "rint_log10 t + 1" k "100 :: rat"] power_int_increasing [of "k + 1" "rint_log10 t" "100 :: rat"]
    by auto
  then show ?thesis by linarith
qed

lemma of_rat_power_int: "of_rat (x powi i) = of_rat x powi i"
  by (simp add: power_int_def of_rat_power of_rat_inverse)

text \<open>The exponent is the rounded logarithm.\<close>

lemma rint_log10_floor:
  assumes "0 < t"
  shows "rint_log10 t = \<lfloor>log 10 (real_of_rat t) + 1 / 2\<rfloor>"
proof -
  let ?t = "real_of_rat t" and ?k = "rint_log10 t"
  have t: "0 < ?t" using assms by simp
  have p: "real_of_rat (100 powi i) = 100 powr real_of_int i" for i
    by (simp add: of_rat_power_int powr_real_of_int')
  have hundred: "log 10 (100 powr real_of_int i) = 2 * real_of_int i" for i
  proof -
    have "(10 :: real) powr 2 = 100" by simp
    then have "log 10 (100 :: real) = 2" using log_powr_cancel [of "10 :: real" 2] by simp
    then show ?thesis by (simp add: log_powr)
  qed
  have lt: "log 10 (10 * (?t * ?t)) = 1 + 2 * log 10 ?t" using t by (simp add: log_mult)
  have "100 powr real_of_int ?k \<le> 10 * (?t * ?t)" "10 * (?t * ?t) < 100 powr real_of_int (?k + 1)"
    using rint_log10_bounds [OF assms] unfolding p [symmetric]
    by (metis of_rat_less_eq of_rat_mult of_rat_numeral_eq, metis of_rat_less of_rat_mult of_rat_numeral_eq)
  then have "log 10 (100 powr real_of_int ?k) \<le> log 10 (10 * (?t * ?t))"
    "log 10 (10 * (?t * ?t)) < log 10 (100 powr real_of_int (?k + 1))"
    using t by (subst log_le_cancel_iff log_less_cancel_iff; simp)+
  then have "2 * real_of_int ?k \<le> 1 + 2 * log 10 ?t" "1 + 2 * log 10 ?t < 2 * real_of_int (?k + 1)"
    unfolding hundred lt .
  then have "real_of_int ?k \<le> log 10 ?t + 1 / 2" "log 10 ?t + 1 / 2 < real_of_int ?k + 1" by (simp_all add: field_simps)
  then show ?thesis by linarith
qed

lemma square_le: "0 \<le> (x :: rat) \<Longrightarrow> x \<le> y \<Longrightarrow> x * x \<le> y * y"
  by (simp add: mult_mono)

lemma division_bounds:
  assumes t: "0 < t"
  shows "0 < division_of t \<and> 2 * (t * t) \<le> 5 * (division_of t * division_of t) \<and> 2 * (division_of t * division_of t) \<le> 5 * (t * t)"
proof -
  define d where "d = (10 :: rat) powi rint_log10 t"
  have d: "0 < d" by (simp add: d_def)
  have "(100 :: rat) powi i = 10 powi i * 10 powi i" for i
  proof -
    have "(100 :: rat) = 10 * 10" by simp
    then show ?thesis by (simp only: power_int_mult_distrib)
  qed
  then have "d * d = 100 powi rint_log10 t" "100 * (d * d) = 100 powi (rint_log10 t + 1)"
    by (simp_all add: d_def power_int_add)
  with rint_log10_bounds [OF t] have b: "d * d \<le> 10 * (t * t)" "10 * (t * t) < 100 * (d * d)" by simp_all
  show ?thesis
  proof (cases "\<bar>d / 2 - t\<bar> < \<bar>d - t\<bar>")
    case True
    then have r: "division_of t = d / 2" by (simp add: division_of_def d_def Let_def)
    from True d have "4 * t \<le> 3 * d" by (auto simp: abs_if split: if_splits)
    with t have "(4 * t) * (4 * t) \<le> (3 * d) * (3 * d)" by (intro square_le) simp_all
    with b d show ?thesis by (simp add: r)
  next
    case n1: False
    then have l: "3 * d \<le> 4 * t" using d by (auto simp: abs_if split: if_splits)
    show ?thesis
    proof (cases "\<bar>d * 2 - t\<bar> < \<bar>d - t\<bar>")
      case True
      with n1 have r: "division_of t = d * 2" by (simp add: division_of_def d_def Let_def)
      from True d have "3 * d \<le> 2 * t" by (auto simp: abs_if split: if_splits)
      with d have "(3 * d) * (3 * d) \<le> (2 * t) * (2 * t)" by (intro square_le) simp_all
      with b d show ?thesis by (simp add: r)
    next
      case False
      with n1 have r: "division_of t = d" by (simp add: division_of_def d_def Let_def)
      from False d have "2 * t \<le> 3 * d" by (auto simp: abs_if split: if_splits)
      with t have "(2 * t) * (2 * t) \<le> (3 * d) * (3 * d)" by (intro square_le) simp_all
      moreover from l d have "(3 * d) * (3 * d) \<le> (4 * t) * (4 * t)" by (intro square_le) simp_all
      ultimately show ?thesis using d by (simp add: r)
    qed
  qed
qed

section \<open>Marks: lemmas\<close>

lemma marks_list:
  assumes "0 < d"
  shows "marks x d e = Some (map (\<lambda>i. x + d * of_nat i) [0..<nat \<lceil>(e - x) / d\<rceil>])"
proof (induction "nat \<lceil>(e - x) / d\<rceil>" arbitrary: x)
  case 0
  then have "(e - x) / d \<le> 0" by (simp add: ceiling_le_zero)
  with assms have "\<not> x < e" by (simp add: divide_le_0_iff)
  with 0 show ?case by (subst marks.simps) simp
next
  case (Suc n)
  then have pos: "0 < \<lceil>(e - x) / d\<rceil>" by linarith
  with assms have l: "x < e" by (simp add: zero_less_divide_iff)
  have "(e - (x + d)) / d = (e - x) / d - 1" using assms by (simp add: field_simps)
  then have c: "\<lceil>(e - (x + d)) / d\<rceil> = \<lceil>(e - x) / d\<rceil> - 1" by simp
  with Suc(2) pos have n: "n = nat \<lceil>(e - (x + d)) / d\<rceil>" "nat \<lceil>(e - x) / d\<rceil> = Suc (nat \<lceil>(e - (x + d)) / d\<rceil>)" by linarith+
  have u: "[0..<Suc m] = 0 # map Suc [0..<m]" for m by (metis map_Suc_upt upt_conv_Cons zero_less_Suc)
  have "marks x d e = Option.bind (marks (x + d) d e) (\<lambda>xs. Some (x # xs))" using l by (subst marks.simps) simp
  also have "\<dots> = Some (map (\<lambda>i. x + d * of_nat i) (0 # map Suc [0..<nat \<lceil>(e - (x + d)) / d\<rceil>]))"
    using Suc(1) [OF n(1)] by (simp add: algebra_simps)
  finally show ?case unfolding n(2) u .
qed

lemma compute_divisions_eq:
  "xi < xf \<Longrightarrow> compute_divisions xi xf =
     (let d = division_of ((xf - xi) / 5) in Inr (d * of_int \<lceil>xi / d\<rceil> - d, d))"
  by (simp add: compute_divisions_def division_round_def Let_def upt_conv_Cons eval_nat_numeral)

text \<open>What an axis from \<open>lo\<close> to \<open>hi\<close> shows: multiples of a division that cover the range, four to nine of them.\<close>

definition axis_marks :: "rat \<Rightarrow> rat \<Rightarrow> rat list \<Rightarrow> bool" where
  "axis_marks lo hi xs \<longleftrightarrow> 4 \<le> length xs \<and> length xs \<le> 9
     \<and> (\<exists>d > 0. \<exists>m :: int. xs = map (\<lambda>i. d * of_int (m + int i)) [0..<length xs]
          \<and> hd xs < lo \<and> lo \<le> hd xs + d \<and> last xs < hi \<and> hi \<le> last xs + d)"

lemma axis_marks_exist:
  assumes "xi < xf"
  shows "\<exists>x0 d xs. compute_divisions xi xf = Inr (x0, d) \<and> marks x0 d xf = Some xs \<and> axis_marks xi xf xs"
proof -
  define t where "t = (xf - xi) / 5"
  define d where "d = division_of t"
  define m where "m = \<lceil>xi / d\<rceil> - 1"
  define x0 where "x0 = d * of_int m"
  define n where "n = nat \<lceil>(xf - x0) / d\<rceil>"
  have t: "0 < t" "xf - xi = 5 * t" using assms by (simp_all add: t_def)
  have d: "0 < d" "2 * (t * t) \<le> 5 * (d * d)" "2 * (d * d) \<le> 5 * (t * t)"
    using division_bounds [OF t(1)] by (simp_all add: d_def)
  have "of_int m < xi / d" "xi / d \<le> of_int m + 1" unfolding m_def by linarith+
  with d(1) have x0: "x0 < xi" "xi \<le> x0 + d" by (simp_all add: x0_def field_simps)
  have "3 * d < 5 * t"
  proof (rule ccontr)
    assume "\<not> 3 * d < 5 * t"
    with t have "(5 * t) * (5 * t) \<le> (3 * d) * (3 * d)" by (intro square_le) simp_all
    with d mult_pos_pos [OF d(1) d(1)] show False by simp
  qed
  moreover have "5 * t < 8 * d"
  proof (rule ccontr)
    assume "\<not> 5 * t < 8 * d"
    with d(1) have "(8 * d) * (8 * d) \<le> (5 * t) * (5 * t)" by (intro square_le) simp_all
    with d mult_pos_pos [OF d(1) d(1)] show False by simp
  qed
  ultimately have "3 * d < xf - x0" "xf - x0 < 9 * d" using x0 t(2) by linarith+
  with d(1) have "3 < (xf - x0) / d" "(xf - x0) / d < 9" by (simp_all add: field_simps)
  then have n: "4 \<le> n" "n \<le> 9" unfolding n_def by linarith+
  have bounds: "of_nat (n - 1) < (xf - x0) / d" "(xf - x0) / d \<le> of_nat n"
    using n unfolding n_def by (simp_all add: of_nat_diff) linarith+
  let ?xs = "map (\<lambda>i. d * of_int (m + int i)) [0..<n]"
  have xs: "map (\<lambda>i. x0 + d * of_nat i) [0..<n] = ?xs" by (simp add: x0_def algebra_simps)
  have ends: "hd ?xs = x0" "last ?xs = x0 + d * of_nat (n - 1)"
    using n by (simp_all add: hd_map last_map x0_def algebra_simps)
  have "last ?xs < xf" "xf \<le> last ?xs + d"
    using bounds d(1) n unfolding ends by (simp_all add: field_simps of_nat_diff)
  with n x0 d(1) have "axis_marks xi xf ?xs" unfolding axis_marks_def ends
    by (intro conjI exI [of _ d] exI [of _ m]) simp_all
  moreover have "compute_divisions xi xf = Inr (x0, d)"
    by (simp add: compute_divisions_eq [OF assms] d_def t_def x0_def m_def Let_def algebra_simps)
  moreover have "marks x0 d xf = Some ?xs" using marks_list [OF d(1), of x0 xf] xs by (simp add: n_def)
  ultimately show ?thesis by blast
qed

lemma put_marks:
  "\<exists>ls. fold (put_mark fm font anchor geo) xs (path, labels, unused) =
       (path @ map (\<lambda>x. segment fm (fst (geo x)) (fst (snd (geo x)))) xs, labels @ ls, drop (length xs) unused)
     \<and> map tick_text ls = map (format_G fm) xs \<and> map tick_at ls = map (\<lambda>x. snd (snd (geo x))) xs \<and> list_all tick_visible ls"
proof (induction xs arbitrary: path labels unused)
  case (Cons x xs)
  obtain p q xy where g: "geo x = (p, q, xy)" by (metis prod.exhaust)
  obtain l where l: "get_axis_label unused = (l, drop 1 unused)" "tick_visible l"
    by (cases unused) (simp_all add: get_axis_label_def new_axis_label_def)
  let ?l = "l\<lparr> tick_text := format_G fm x, tick_font := font, tick_anchor := anchor, tick_at := xy \<rparr>"
  have "put_mark fm font anchor geo x (path, labels, unused) = (path @ [segment fm p q], labels @ [?l], drop 1 unused)"
    by (simp add: put_mark_def g l(1))
  moreover from Cons.IH [of "path @ [segment fm p q]" "labels @ [?l]" "drop 1 unused"] obtain ls where
    "fold (put_mark fm font anchor geo) xs (path @ [segment fm p q], labels @ [?l], drop 1 unused) =
       ((path @ [segment fm p q]) @ map (\<lambda>x. segment fm (fst (geo x)) (fst (snd (geo x)))) xs, (labels @ [?l]) @ ls,
        drop (length xs) (drop 1 unused))"
    "map tick_text ls = map (format_G fm) xs" "map tick_at ls = map (\<lambda>x. snd (snd (geo x))) xs" "list_all tick_visible ls"
    by blast
  ultimately show ?case using l(2) by (intro exI [of _ "?l # ls"]) (simp add: g)
qed simp

lemma draw_axis_marks:
  assumes "lo < hi"
  shows "\<exists>path ls xs. draw_axis fm font anchor geo line lo hi labels unused = Some (Inr (path, labels @ ls, drop (length xs) unused))
     \<and> axis_marks lo hi xs \<and> map tick_text ls = map (format_G fm) xs \<and> map tick_at ls = map (\<lambda>x. snd (snd (geo x))) xs
     \<and> list_all tick_visible ls"
proof -
  from axis_marks_exist [OF assms] obtain x0 d xs
    where xs: "compute_divisions lo hi = Inr (x0, d)" "marks x0 d hi = Some xs" "axis_marks lo hi xs" by blast
  from put_marks [of fm font anchor geo xs "[line]" labels unused] xs show ?thesis
    by (fastforce simp: draw_axis_def)
qed

lemma draw_axis_error: "\<not> lo < hi \<Longrightarrow> draw_axis fm font anchor geo line lo hi labels unused = Some (Inl AssertionError)"
  by (simp add: draw_axis_def compute_divisions_def)

lemma axes_update_marks:
  assumes "from_pixels a z (hvalue v, vvalue v) = (x1, y1)"
    and "from_pixels a z (hvalue v + hpage v, vvalue v + vpage v) = (x2, y2)" "x1 < x2" "y1 < y2"
  shows "\<exists>ax' xs ys. axes_update_view fm a (Some z) v ax = Some (Inr ax')
    \<and> axis_marks (x1 / PIXELS_PER_METER) (x2 / PIXELS_PER_METER) xs \<and> axis_marks (y1 / PIXELS_PER_METER) (y2 / PIXELS_PER_METER) ys
    \<and> map tick_text (filter tick_visible (axis_labels ax')) = map (format_G fm) (xs @ ys)
    \<and> map tick_at (filter tick_visible (axis_labels ax')) =
        map (\<lambda>x. (PIXELS_PER_METER * x, y2 - 5 / z / 2 - 10 / z)) xs @ map (\<lambda>y. (x1 + 5 / z / 2 + 10 / z, PIXELS_PER_METER * y)) ys
    \<and> length (axis_labels ax') = max (length xs + length ys) (length (axis_labels ax))"
proof -
  let ?u = "map (\<lambda>l. l\<lparr> tick_visible := False \<rparr>) (axis_labels ax)"
  let ?font = "''Sans Serif '' @ format_f fm (of_int \<lfloor>12 / z\<rfloor>)"
  let ?yc = "y2 - 5 / z / 2" and ?xc = "x1 + 5 / z / 2"
  have ppm: "x1 / PIXELS_PER_METER < x2 / PIXELS_PER_METER" "y1 / PIXELS_PER_METER < y2 / PIXELS_PER_METER"
    using assms(3,4) by (simp_all add: PIXELS_PER_METER_def)
  let ?gx = "\<lambda>x. ((PIXELS_PER_METER * x, ?yc - 10 / z), (PIXELS_PER_METER * x, ?yc), (PIXELS_PER_METER * x, ?yc - 10 / z))"
  let ?gy = "\<lambda>y. ((?xc, PIXELS_PER_METER * y), (?xc + 10 / z, PIXELS_PER_METER * y), (?xc + 10 / z, PIXELS_PER_METER * y))"
  from draw_axis_marks [OF ppm(1), of fm ?font "''S''" ?gx "segment fm (x1, ?yc) (x2, ?yc)" "[]" ?u]
  obtain hp ls xs where h: "draw_axis fm ?font ''S'' ?gx (segment fm (x1, ?yc) (x2, ?yc)) (x1 / PIXELS_PER_METER)
        (x2 / PIXELS_PER_METER) [] ?u = Some (Inr (hp, ls, drop (length xs) ?u))"
    and xs: "axis_marks (x1 / PIXELS_PER_METER) (x2 / PIXELS_PER_METER) xs" "map tick_text ls = map (format_G fm) xs"
      "map tick_at ls = map (\<lambda>x. snd (snd (?gx x))) xs" "list_all tick_visible ls" by auto
  from draw_axis_marks [OF ppm(2), of fm ?font "''W''" ?gy "segment fm (?xc, y1) (?xc, y2)" ls "drop (length xs) ?u"]
  obtain vp ms ys where w: "draw_axis fm ?font ''W'' ?gy (segment fm (?xc, y1) (?xc, y2)) (y1 / PIXELS_PER_METER)
        (y2 / PIXELS_PER_METER) ls (drop (length xs) ?u) = Some (Inr (vp, ls @ ms, drop (length ys) (drop (length xs) ?u)))"
    and ys: "axis_marks (y1 / PIXELS_PER_METER) (y2 / PIXELS_PER_METER) ys" "map tick_text ms = map (format_G fm) ys"
      "map tick_at ms = map (\<lambda>x. snd (snd (?gy x))) ys" "list_all tick_visible ms" by auto
  let ?ax = "ax\<lparr> axis_width := Some (5 / z), hdata := hp, vdata := vp,
     axis_labels := (ls @ ms) @ drop (length ys) (drop (length xs) ?u) \<rparr>"
  have upd: "axes_update_view fm a (Some z) v ax = Some (Inr ?ax)"
    using h w by (simp add: axes_update_view_def assms(1,2) bind_option_res_def Let_def)
  have len: "length ls = length xs" "length ms = length ys" using xs(2) ys(2) by (metis length_map)+
  have vis: "filter tick_visible (axis_labels ?ax) = ls @ ms"
    using xs(4) ys(4) by (auto simp: list_all_iff filter_empty_conv drop_map)
  show ?thesis
  proof (intro exI conjI)
    show "axes_update_view fm a (Some z) v ax = Some (Inr ?ax)" by (rule upd)
    show "axis_marks (x1 / PIXELS_PER_METER) (x2 / PIXELS_PER_METER) xs" by (rule xs(1))
    show "axis_marks (y1 / PIXELS_PER_METER) (y2 / PIXELS_PER_METER) ys" by (rule ys(1))
    show "map tick_text (filter tick_visible (axis_labels ?ax)) = map (format_G fm) (xs @ ys)"
      unfolding vis using xs(2) ys(2) by simp
    show "map tick_at (filter tick_visible (axis_labels ?ax)) =
        map (\<lambda>x. (PIXELS_PER_METER * x, y2 - 5 / z / 2 - 10 / z)) xs @ map (\<lambda>y. (x1 + 5 / z / 2 + 10 / z, PIXELS_PER_METER * y)) ys"
      unfolding vis using xs(3) ys(3) by simp
    show "length (axis_labels ?ax) = max (length xs + length ys) (length (axis_labels ax))" using len by simp
  qed
qed

lemma bind_twice_error: "\<exists>r. m = Some (Inr r) \<Longrightarrow> (\<And>r. f r = Some (Inl e)) \<Longrightarrow> bind_option_res m f = Some (Inl e)"
  by (auto simp: bind_option_res_def)

lemma axes_update_empty:
  assumes "from_pixels a z (hvalue v, vvalue v) = (x1, y1)"
    and "from_pixels a z (hvalue v + hpage v, vvalue v + vpage v) = (x2, y2)" "\<not> (x1 < x2 \<and> y1 < y2)"
  shows "axes_update_view fm a (Some z) v ax = Some (Inl AssertionError)"
proof (cases "x1 < x2")
  case True
  then have "x1 / PIXELS_PER_METER < x2 / PIXELS_PER_METER" by (simp add: PIXELS_PER_METER_def)
  moreover have "\<not> y1 / PIXELS_PER_METER < y2 / PIXELS_PER_METER" using True assms(3) by (simp add: PIXELS_PER_METER_def)
  moreover have "\<exists>r. draw_axis fm font anchor geo line (x1 / PIXELS_PER_METER) (x2 / PIXELS_PER_METER) labels unused = Some (Inr r)"
    for font anchor geo line labels unused
    using draw_axis_marks [OF calculation(1)] by blast
  ultimately show ?thesis
    by (simp add: axes_update_view_def assms(1,2) Let_def) (rule bind_twice_error, blast, simp add: draw_axis_error split_beta bind_option_res_def)
next
  case False
  then have "\<not> x1 / PIXELS_PER_METER < x2 / PIXELS_PER_METER" by (simp add: PIXELS_PER_METER_def)
  then show ?thesis by (simp add: axes_update_view_def assms(1,2) bind_option_res_def Let_def draw_axis_error)
qed

lemma axes_update_size:
  assumes "axes_update_view fm a zv v ax = Some (Inr ax')" "length (axis_labels ax) \<le> 18"
  shows "length (axis_labels ax') \<le> 18"
proof (cases zv)
  case None
  with assms show ?thesis by (simp add: axes_update_view_def)
next
  case (Some z)
  obtain x1 y1 where p: "from_pixels a z (hvalue v, vvalue v) = (x1, y1)" by force
  obtain x2 y2 where q: "from_pixels a z (hvalue v + hpage v, vvalue v + vpage v) = (x2, y2)" by force
  have "x1 < x2" "y1 < y2" using axes_update_empty [OF p q, of fm ax] assms(1) Some by auto
  from axes_update_marks [OF p q this, of fm ax] obtain xs ys where
    "axis_marks (x1 / PIXELS_PER_METER) (x2 / PIXELS_PER_METER) xs" "axis_marks (y1 / PIXELS_PER_METER) (y2 / PIXELS_PER_METER) ys"
    "length (axis_labels ax') = max (length xs + length ys) (length (axis_labels ax))"
    using assms(1) Some by auto
  with assms(2) show ?thesis unfolding axis_marks_def by linarith
qed

section \<open>Properties\<close>

text \<open>
  C26. The update of the axes on a window that is not empty returns: each axis has four to nine marks, at multiples of its
  division, that cover its range; the visible labels are those of the marks, horizontal ones first, and labels
  that are not used any more are kept but hidden. On an empty window it raises AssertionError.
\<close>

theorem axes_update_outcome:
  "case from_pixels a z (hvalue v, vvalue v) of (x1, y1) \<Rightarrow>
   case from_pixels a z (hvalue v + hpage v, vvalue v + vpage v) of (x2, y2) \<Rightarrow>
     if x1 < x2 \<and> y1 < y2 then
      (\<exists>ax' xs ys. axes_update_view fm a (Some z) v ax = Some (Inr ax')
        \<and> axis_marks (x1 / PIXELS_PER_METER) (x2 / PIXELS_PER_METER) xs \<and> axis_marks (y1 / PIXELS_PER_METER) (y2 / PIXELS_PER_METER) ys
        \<and> map tick_text (filter tick_visible (axis_labels ax')) = map (format_G fm) (xs @ ys)
        \<and> map tick_at (filter tick_visible (axis_labels ax')) =
            map (\<lambda>x. (PIXELS_PER_METER * x, y2 - 5 / z / 2 - 10 / z)) xs @ map (\<lambda>y. (x1 + 5 / z / 2 + 10 / z, PIXELS_PER_METER * y)) ys
        \<and> length (axis_labels ax') = max (length xs + length ys) (length (axis_labels ax)))
     else axes_update_view fm a (Some z) v ax = Some (Inl AssertionError)"
proof -
  obtain x1 y1 where p: "from_pixels a z (hvalue v, vvalue v) = (x1, y1)" by force
  obtain x2 y2 where q: "from_pixels a z (hvalue v + hpage v, vvalue v + vpage v) = (x2, y2)" by force
  show ?thesis using axes_update_marks [OF p q, of fm ax] axes_update_empty [OF p q, of fm ax] by (simp add: p q)
qed

text \<open>A view of a hundred by a hundred pixels at zoom level 1: the division is five metres.\<close>

lemma divisions_example: "compute_divisions 0 (100 / 3) = Inr (- 5, 5)"
proof -
  have "rint_log10 (20 / 3) = 1" by (rule rint_log10_unique) simp_all
  then have "division_of (20 / 3) = 5" by (simp add: division_of_def Let_def)
  then show ?thesis by (simp add: compute_divisions_eq Let_def)
qed

text \<open>
  The number of label items: after any sequence of updates and changes of the visibility there are at most eighteen, since an update
  uses at most nine for each axis and takes those of the update before first.
\<close>

datatype hud_event = HudScrolled "rat option" viz | HudVisible bool

fun hud_run :: "number_formats \<Rightarrow> api \<Rightarrow> hud_event list \<Rightarrow> axes \<Rightarrow> axes res option" where
  "hud_run fm a [] ax = Some (Inr ax)"
| "hud_run fm a (HudScrolled z v # es) ax = bind_option_res (axes_scrolled fm a z v ax) (hud_run fm a es)"
| "hud_run fm a (HudVisible b # es) ax = hud_run fm a es (axes_set_visible b ax)"


theorem hud_labels_bounded:
  assumes "hud_run fm a es Axes_init = Some (Inr ax)"
  shows "length (axis_labels ax) \<le> 18"
proof -
  have "length (axis_labels ax') \<le> 18"
    if "hud_run fm a es ax0 = Some (Inr ax')" "length (axis_labels ax0) \<le> 18" for ax0 ax'
    using that
  proof (induction fm a es ax0 rule: hud_run.induct)
    case (2 fm a z v es ax0)
    then obtain ax1 where ax1: "axes_scrolled fm a z v ax0 = Some (Inr ax1)" "hud_run fm a es ax1 = Some (Inr ax')"
      by (auto simp: bind_option_res_def split: option.splits sum.splits)
    with 2(3) axes_update_size [of fm a z v ax0 ax1] have "length (axis_labels ax1) \<le> 18"
      by (auto simp: axes_scrolled_def split: if_splits)
    with 2(1) ax1 show ?case by blast
  next
    case (3 fm a b es ax0)
    then show ?case by (cases b) (simp_all add: axes_set_visible_def)
  qed simp
  with assms show ?thesis by (force simp: Axes_init_def)
qed

definition plain_formats :: number_formats where
  "plain_formats = \<lparr> format_r = (\<lambda>_. ''1''), format_G = (\<lambda>_. ''1''), format_f = (\<lambda>_. ''1'') \<rparr>"

lemma scanned_window: "hvalue scanned = 0" "vvalue scanned = 0" "hpage scanned = 100" "vpage scanned = 100"
  by (simp_all add: scanned_def scan_eval Let_def upt_rec numeral_2_eq_2)

theorem hud_labels_bounded_witness:
  "\<exists>ax. hud_run plain_formats plain_api [HudScrolled (Some 1) scanned, HudVisible False] Axes_init = Some (Inr ax)
     \<and> length (axis_labels ax) \<le> 18"
proof -
  have p: "from_pixels plain_api 1 (hvalue scanned, vvalue scanned) = (0, 0)"
    "from_pixels plain_api 1 (hvalue scanned + hpage scanned, vvalue scanned + vpage scanned) = (100, 100)"
    by (simp_all add: plain_api_def scanned_window)
  from axes_update_marks [OF p, of plain_formats Axes_init]
  obtain ax where "axes_update_view plain_formats plain_api (Some 1) scanned Axes_init = Some (Inr ax)" by auto
  then have "hud_run plain_formats plain_api [HudScrolled (Some 1) scanned, HudVisible False] Axes_init
      = Some (Inr (axes_set_visible False ax))"
    by (simp add: axes_scrolled_def bind_option_res_def) (simp add: Axes_init_def)
  with hud_labels_bounded [OF this] show ?thesis by blast
qed

text \<open>Showing the axes again does not show the labels that hiding has hidden.\<close>

lemma shown_without_labels:
  "axes_visible (axes_set_visible True (axes_set_visible False ax))
   \<and> filter tick_visible (axis_labels (axes_set_visible True (axes_set_visible False ax))) = []"
  by (auto simp: axes_set_visible_def filter_empty_conv)

end
