(* ===== verification/VizPlugins.thy ===== *)
theory VizPlugins
  imports PyBase Complex_Main
begin

text \<open>
  The plugins of the visualizer, \<open>src/visualizer/visualizer/plugins\<close>: the statistics of the interfaces, the links between wireless stations
  and their access points, the filter of captured packets, and the tables of packets and routes. What the simulator
  reports is an argument of the operations: counters, the state of a wireless device, types and names.
\<close>

section \<open>interface_statistics.py\<close>

record if_stats =
  transmittedPackets :: int
  transmittedBytes :: int
  receivedPackets :: int
  receivedBytes :: int

record dev_stats =
  txPackets :: int
  txBytes :: int
  rxPackets :: int
  rxBytes :: int
  txPacketRate :: rat
  rxPacketRate :: rat
  txBitRate :: rat
  rxBitRate :: rat

definition NODE_STATISTICS_MEMORY :: nat where
  "NODE_STATISTICS_MEMORY = 10"

type_synonym node_statistics = "(int, if_stats list list) dict"

fun trim_samples :: "if_stats list list \<Rightarrow> if_stats list list" where
  "trim_samples [] = []"
| "trim_samples (x # xs) = (if NODE_STATISTICS_MEMORY < length (x # xs) then trim_samples xs else x # xs)"

definition add_statistics :: "int \<times> if_stats list \<Rightarrow> node_statistics \<Rightarrow> node_statistics" where
  "add_statistics = (\<lambda>(nodeId, st) d.
     let raw = (case map_of d nodeId of None \<Rightarrow> [] | Some l \<Rightarrow> l)
     in AList.update nodeId (trim_samples (raw @ [st])) d)"

definition statistics_periodic_update :: "(int \<times> if_stats list) list \<Rightarrow> node_statistics \<Rightarrow> node_statistics" where
  "statistics_periodic_update nodes_statistics d = fold add_statistics nodes_statistics d"

definition out_stat :: "rat \<Rightarrow> if_stats list \<Rightarrow> nat \<times> if_stats \<Rightarrow> dev_stats res" where
  "out_stat k first = (\<lambda>(iface, st).
     if length first \<le> iface then Inl IndexError
     else if k = 0 then Inl ZeroDivisionError
     else Inr \<lparr> txPackets = transmittedPackets st, txBytes = transmittedBytes st, rxPackets = receivedPackets st,
            rxBytes = receivedBytes st,
            txPacketRate = of_int (transmittedPackets st - transmittedPackets (first ! iface)) / k,
            rxPacketRate = of_int (receivedPackets st - receivedPackets (first ! iface)) / k,
            txBitRate = of_int ((transmittedBytes st - transmittedBytes (first ! iface)) * 8) / k,
            rxBitRate = of_int ((receivedBytes st - receivedBytes (first ! iface)) * 8) / k \<rparr>)"

definition get_interface_statistics :: "rat \<Rightarrow> node_statistics \<Rightarrow> int \<Rightarrow> dev_stats list res" where
  "get_interface_statistics sample_period d nodeId =
     (case map_of d nodeId of
        None \<Rightarrow> Inr []
      | Some raw \<Rightarrow>
          if length raw < NODE_STATISTICS_MEMORY then Inr []
          else if length raw \<noteq> NODE_STATISTICS_MEMORY then Inl AssertionError
          else map_res (out_stat (sample_period * (of_nat NODE_STATISTICS_MEMORY - 1)) (hd raw)) (enumerate 0 (last raw)))"

section \<open>wifi_intrastructure_link.py\<close>

record wifi_link =
  sta_node :: "int option"
  ap_node :: "int option"
  link_visible :: bool
  link_points :: "((rat \<times> rat) \<times> (rat \<times> rat)) option"
  link_exists :: bool

text \<open>
  The links that were made, the lists of links of the nodes as far as they are such links, the access points by their address,
  and the stations with device, node and link. A link is its position in the first list.
\<close>

record monitor =
  wifi_links :: "wifi_link list"
  node_link_list :: "int \<Rightarrow> nat list"
  access_points :: "(string, int) dict"
  stations :: "(int \<times> int \<times> nat) list"

definition WifiLink_init :: "int \<Rightarrow> wifi_link" where
  "WifiLink_init sta = \<lparr> sta_node = Some sta, ap_node = None, link_visible = True, link_points = None, link_exists = True \<rparr>"

definition on_link :: "nat \<Rightarrow> (wifi_link \<Rightarrow> wifi_link) \<Rightarrow> monitor \<Rightarrow> monitor" where
  "on_link l f m = m\<lparr> wifi_links := (wifi_links m)[l := f (wifi_links m ! l)] \<rparr>"

text \<open>\<open>update_points\<close>, with the positions of the nodes.\<close>

definition wifi_points :: "(int \<Rightarrow> rat \<times> rat) \<Rightarrow> wifi_link \<Rightarrow> wifi_link" where
  "wifi_points pos k =
     (case (ap_node k, sta_node k) of (Some n, Some s) \<Rightarrow> k\<lparr> link_points := Some (pos s, pos n) \<rparr> | _ \<Rightarrow> k)"

definition list_remove :: "'a \<Rightarrow> 'a list \<Rightarrow> 'a list res" where
  "list_remove x xs = (if x \<in> set xs then Inr (remove1 x xs) else Inl ValueError)"

definition set_ap :: "(int \<Rightarrow> rat \<times> rat) \<Rightarrow> nat \<Rightarrow> int option \<Rightarrow> monitor \<Rightarrow> monitor res" where
  "set_ap pos l ap m =
     (let old = ap_node (wifi_links m ! l) in
      if ap = old then Inr m
      else bind_res (case old of
               None \<Rightarrow> Inr m
             | Some n \<Rightarrow> bind_res (list_remove l (node_link_list m n)) (\<lambda>ls. Inr (m\<lparr> node_link_list := (node_link_list m)(n := ls) \<rparr>)))
             (\<lambda>m1. let m2 = on_link l (\<lambda>k. k\<lparr> ap_node := ap \<rparr>) m1;
                       m3 = (case ap of
                               None \<Rightarrow> on_link l (\<lambda>k. k\<lparr> link_visible := False \<rparr>) m2
                             | Some n \<Rightarrow> on_link l (\<lambda>k. k\<lparr> link_visible := True \<rparr>)
                                 (m2\<lparr> node_link_list := (node_link_list m2)(n := node_link_list m2 n @ [l]) \<rparr>))
                   in Inr (on_link l (wifi_points pos) m3)))"

definition destroy_link :: "nat \<Rightarrow> monitor \<Rightarrow> monitor" where
  "destroy_link l = on_link l (\<lambda>k. k\<lparr> link_exists := False, sta_node := None, ap_node := None \<rparr>)"

text \<open>The wireless devices of a node: a station with its device, an access point with its address.\<close>

datatype wifi_device = Station int | AccessPoint string | OtherDevice

definition scan_wifi_device :: "int \<Rightarrow> wifi_device \<Rightarrow> monitor \<Rightarrow> monitor" where
  "scan_wifi_device node d m =
     (case d of
        Station dev \<Rightarrow>
          m\<lparr> wifi_links := wifi_links m @ [WifiLink_init node],
             stations := stations m @ [(dev, node, length (wifi_links m))] \<rparr>
      | AccessPoint bssid \<Rightarrow> m\<lparr> access_points := AList.update bssid node (access_points m) \<rparr>
      | OtherDevice \<Rightarrow> m)"

definition scan_nodes :: "(int \<times> wifi_device list) list \<Rightarrow> monitor \<Rightarrow> monitor" where
  "scan_nodes nodes m =
     fold (\<lambda>(node, ds). fold (scan_wifi_device node) ds) nodes
       ((fold (\<lambda>(_, _, l). destroy_link l) (stations m) m)\<lparr> access_points := [], stations := [] \<rparr>)"

text \<open>The state of the devices: whether the link is up, and the address of the access point.\<close>

definition station_update :: "(int \<Rightarrow> rat \<times> rat) \<Rightarrow> (int \<Rightarrow> bool \<times> string) \<Rightarrow> int \<times> int \<times> nat \<Rightarrow> monitor \<Rightarrow> monitor res" where
  "station_update pos status = (\<lambda>(dev, _, l) m.
     if \<not> fst (status dev) then set_ap pos l None m
     else if snd (status dev) = ''00:00:00:00:00:00'' then set_ap pos l None m
     else (case map_of (access_points m) (snd (status dev)) of
             None \<Rightarrow> Inl KeyError
           | Some n \<Rightarrow> set_ap pos l (Some n) m))"

definition wifi_periodic_update :: "(int \<Rightarrow> rat \<times> rat) \<Rightarrow> (int \<Rightarrow> bool \<times> string) \<Rightarrow> monitor \<Rightarrow> monitor res" where
  "wifi_periodic_update pos status m = fold_res (station_update pos status) (stations m) m"

definition wifi_update_view :: "(int \<Rightarrow> rat \<times> rat) \<Rightarrow> monitor \<Rightarrow> monitor" where
  "wifi_update_view pos m = fold (\<lambda>(_, _, l). on_link l (wifi_points pos)) (stations m) m"

text \<open>A node that moves updates the links of its list.\<close>

definition node_moved :: "(int \<Rightarrow> rat \<times> rat) \<Rightarrow> int \<Rightarrow> monitor \<Rightarrow> monitor" where
  "node_moved pos n m = fold (\<lambda>l. on_link l (wifi_points pos)) (node_link_list m n) m"

definition WifiLinkMonitor_init :: monitor where
  "WifiLinkMonitor_init = \<lparr> wifi_links = [], node_link_list = (\<lambda>_. []), access_points = [], stations = [] \<rparr>"

inductive wifi_step :: "monitor \<Rightarrow> monitor \<Rightarrow> bool" where
  scanned: "wifi_step m (scan_nodes nodes m)"
| periodic: "wifi_periodic_update pos status m = Inr m' \<Longrightarrow> wifi_step m m'"
| viewed: "wifi_step m (wifi_update_view pos m)"
| moved: "wifi_step m (node_moved pos n m)"

section \<open>show_last_packets.py\<close>

text \<open>The types: the loop over the parents of a type, which are given by \<open>parent\<close>, and the types that are headers or trailers.\<close>

partial_function (option) is_packet_type :: "('t \<Rightarrow> 't option) \<Rightarrow> 't \<Rightarrow> 't \<Rightarrow> 't \<Rightarrow> bool option" where
  "is_packet_type parent hdr trl t =
     (if t = hdr \<or> t = trl then Some True
      else (case parent t of Some p \<Rightarrow> is_packet_type parent hdr trl p | None \<Rightarrow> Some False))"

record 't type_config =
  type_name :: string
  type_selected :: bool
  type_id :: 't

fun packet_filter_list :: "('t \<Rightarrow> 't option) \<Rightarrow> ('t \<Rightarrow> string) \<Rightarrow> 't \<Rightarrow> 't \<Rightarrow> 't list \<Rightarrow> 't type_config list option" where
  "packet_filter_list parent name hdr trl [] = Some []"
| "packet_filter_list parent name hdr trl (t # ts) =
     Option.bind (is_packet_type parent hdr trl t) (\<lambda>good.
       if good \<and> t \<noteq> hdr \<and> t \<noteq> trl
       then Option.bind (packet_filter_list parent name hdr trl ts) (\<lambda>cs.
              Some (\<lparr> type_name = name t, type_selected = True, type_id = t \<rparr> # cs))
       else packet_filter_list parent name hdr trl ts)"

datatype capture_mode = FILTER_HEADERS_AND | FILTER_HEADERS_OR

text \<open>The dialog: the list, the AND button, and the options that were last set at the simulator.\<close>

record 't capture =
  filter_list :: "'t type_config list"
  op_AND :: bool
  capture_options :: "(capture_mode \<times> nat \<times> 't list) option"

definition update_capture_options :: "'t capture \<Rightarrow> 't capture" where
  "update_capture_options c =
     c\<lparr> capture_options := Some (if op_AND c then FILTER_HEADERS_AND else FILTER_HEADERS_OR, 100,
          map type_id (filter type_selected (filter_list c))) \<rparr>"

definition select_types :: "bool \<Rightarrow> 't capture \<Rightarrow> 't capture" where
  "select_types b c =
     update_capture_options (c\<lparr> filter_list := map (\<lambda>t. t\<lparr> type_selected := b \<rparr>) (filter_list c) \<rparr>)"

definition cell_edited :: "nat \<Rightarrow> bool \<Rightarrow> 't capture \<Rightarrow> 't capture" where
  "cell_edited i b c =
     update_capture_options (c\<lparr> filter_list := (filter_list c)[i := (filter_list c ! i)\<lparr> type_selected := b \<rparr>] \<rparr>)"

definition op_toggled :: "bool \<Rightarrow> 't capture \<Rightarrow> 't capture" where
  "op_toggled b c = update_capture_options (c\<lparr> op_AND := b \<rparr>)"

definition ShowLastPackets_init :: "'t type_config list \<Rightarrow> 't capture" where
  "ShowLastPackets_init cs = update_capture_options \<lparr> filter_list = cs, op_AND = False, capture_options = None \<rparr>"

inductive capture_step :: "'t capture \<Rightarrow> 't capture \<Rightarrow> bool" where
  "capture_step c (select_types b c)"
| "i < length (filter_list c) \<Longrightarrow> capture_step c (cell_edited i b c)"
| "capture_step c (op_toggled b c)"

section \<open>Tables\<close>

text \<open>The name of an interface, with the names that were given to devices.\<close>

definition interface_name :: "('d \<Rightarrow> string) \<Rightarrow> (int \<Rightarrow> string) \<Rightarrow> 'd \<Rightarrow> int \<Rightarrow> string" where
  "interface_name find_name str d i = (if find_name d = [] then ''(interface '' @ str i @ '')'' else find_name d)"

record 'd packet_sample =
  sample_device :: "('d \<times> int) option"
  sample_time :: string
  sample_size :: string
  sample_text :: string

definition packet_row :: "('d \<Rightarrow> string) \<Rightarrow> (int \<Rightarrow> string) \<Rightarrow> 'd packet_sample \<Rightarrow> string list" where
  "packet_row find_name str s =
     [sample_time s,
      case sample_device s of None \<Rightarrow> ''(unknown)'' | Some (d, i) \<Rightarrow> interface_name find_name str d i,
      sample_size s, sample_text s]"

record route =
  route_dest :: string
  route_gateway :: string
  route_interface :: int

datatype routing = StaticRouting "route list" | GlobalRouting "route list" | ListRouting "(routing \<times> int) list" | OtherRouting

definition routing_protocols :: "routing \<Rightarrow> (route list \<times> string \<times> int) list" where
  "routing_protocols r =
     (case r of
        StaticRouting rs \<Rightarrow> [(rs, ''static'', 0)]
      | ListRouting ps \<Rightarrow>
          concat (map (\<lambda>(p, prio). case p of StaticRouting rs \<Rightarrow> [(rs, ''static'', prio)] | GlobalRouting rs \<Rightarrow> [(rs, ''global'', prio)] | _ \<Rightarrow> []) ps)
      | _ \<Rightarrow> [])"

text \<open>\<open>ShowIpv4RoutingTable.update\<close>: the new rows, or the old ones when there is no protocol that is shown.\<close>

definition routing_rows ::
    "('d \<Rightarrow> string) \<Rightarrow> (int \<Rightarrow> string) \<Rightarrow> (int \<Rightarrow> 'd option) \<Rightarrow> routing option \<Rightarrow> (string \<times> string \<times> string \<times> string \<times> int) list
     \<Rightarrow> (string \<times> string \<times> string \<times> string \<times> int) list" where
  "routing_rows find_name str net_device r old =
     (case r of
        None \<Rightarrow> old
      | Some p \<Rightarrow>
          if routing_protocols p = [] then old
          else concat (map (\<lambda>(rs, ty, prio). map (\<lambda>t. (route_dest t, route_gateway t,
                 case net_device (route_interface t) of None \<Rightarrow> ''lo'' | Some d \<Rightarrow> interface_name find_name str d (route_interface t),
                 ty, prio)) rs) (routing_protocols p)))"

section \<open>Statistics: lemmas\<close>

lemma trim_samples_drop: "trim_samples xs = drop (length xs - NODE_STATISTICS_MEMORY) xs"
proof (induction xs)
  case (Cons x xs)
  show ?case
  proof (cases "NODE_STATISTICS_MEMORY < length (x # xs)")
    case True
    then have "length (x # xs) - NODE_STATISTICS_MEMORY = Suc (length xs - NODE_STATISTICS_MEMORY)" by (simp add: Suc_diff_le)
    with True Cons show ?thesis by simp
  next
    case False
    then show ?thesis by simp
  qed
qed simp

text \<open>All samples of a node in a sequence of updates, and the window that is kept of them.\<close>

definition samples_of :: "int \<Rightarrow> (int \<times> if_stats list) list list \<Rightarrow> if_stats list list" where
  "samples_of i us = map snd (filter (\<lambda>(k, _). k = i) (concat us))"

definition last_window :: "'a list \<Rightarrow> 'a list" where
  "last_window xs = drop (length xs - NODE_STATISTICS_MEMORY) xs"

lemma trim_window: "trim_samples xs = last_window xs"
  by (simp add: trim_samples_drop last_window_def)

lemma last_window_snoc: "last_window (last_window xs @ [x]) = last_window (xs @ [x])"
proof (cases "length xs \<le> NODE_STATISTICS_MEMORY")
  case False
  then have "length (last_window xs) = NODE_STATISTICS_MEMORY" by (simp add: last_window_def)
  with False have "last_window (last_window xs @ [x]) = drop 1 (last_window xs) @ [x]"
    by (simp add: last_window_def NODE_STATISTICS_MEMORY_def)
  with False show ?thesis by (simp add: last_window_def Suc_diff_le)
qed (simp add: last_window_def)

lemma statistics_kept:
  "map_of (fold statistics_periodic_update us []) i =
     (if samples_of i us = [] then None else Some (last_window (samples_of i us)))"
proof -
  have one: "map_of (fold add_statistics ps d) i = (if new = [] then map_of d i else Some (last_window (old @ new)))"
    if "new = map snd (filter (\<lambda>(k, _). k = i) ps)" "map_of d i = (if old = [] then None else Some (last_window old))" for ps d old new
    using that
  proof (induction ps arbitrary: d old new)
    case (Cons p ps)
    obtain k st where p: "p = (k, st)" by (cases p)
    show ?case
    proof (cases "k = i")
      case False
      then have "map_of (add_statistics p d) i = map_of d i" by (simp add: add_statistics_def p Let_def)
      with Cons False show ?thesis by (simp add: p)
    next
      case True
      have raw: "(case map_of d i of None \<Rightarrow> [] | Some l \<Rightarrow> l) = last_window old" using Cons.prems(2) by (simp add: last_window_def)
      have "map_of (add_statistics p d) i = Some (trim_samples (last_window old @ [st]))"
        using True raw by (simp add: add_statistics_def p Let_def)
      also have "trim_samples (last_window old @ [st]) = last_window (old @ [st])"
        by (simp only: trim_window last_window_snoc)
      finally have "map_of (fold add_statistics ps (add_statistics p d)) i =
          (if map snd (filter (\<lambda>(k, _). k = i) ps) = [] then map_of (add_statistics p d) i
           else Some (last_window ((old @ [st]) @ map snd (filter (\<lambda>(k, _). k = i) ps))))"
        by (intro Cons.IH) simp_all
      with \<open>map_of (add_statistics p d) i = Some (trim_samples (last_window old @ [st]))\<close>
        \<open>trim_samples (last_window old @ [st]) = last_window (old @ [st])\<close> Cons.prems(1) True p
      show ?thesis by simp
    qed
  qed simp
  have "fold statistics_periodic_update us d = fold add_statistics (concat us) d" for d
    by (induction us arbitrary: d) (simp_all add: statistics_periodic_update_def)
  moreover have "map_of (fold add_statistics (concat us) []) i =
      (if samples_of i us = [] then map_of [] i else Some (last_window ([] @ samples_of i us)))"
    by (rule one) (simp_all add: samples_of_def)
  ultimately show ?thesis by simp
qed

lemma map_res_Inr: "(\<And>x. x \<in> set xs \<Longrightarrow> f x = Inr (g x)) \<Longrightarrow> map_res f xs = Inr (map g xs)"
  by (induction xs) simp_all

lemma map_res_stops: "map_res f xs = Inl e" if "x \<in> set xs" "f x = Inl e" "\<And>y e'. y \<in> set xs \<Longrightarrow> f y = Inl e' \<Longrightarrow> e' = e"
  using that
proof (induction xs)
  case (Cons y ys)
  show ?case
  proof (cases "f y")
    case (Inl e')
    with Cons.prems(3) [of y e'] show ?thesis by simp
  next
    case (Inr r)
    with Cons.prems(1,2) have "x \<in> set ys" by auto
    from Cons.IH [OF this Cons.prems(2)] Cons.prems(3) have "map_res f ys = Inl e" by (meson list.set_intros(2))
    with Inr show ?thesis by simp
  qed
qed simp

text \<open>The rates of an interface between two samples that are nine periods apart.\<close>

definition rates_between :: "rat \<Rightarrow> if_stats \<Rightarrow> if_stats \<Rightarrow> dev_stats" where
  "rates_between k a b = \<lparr> txPackets = transmittedPackets b, txBytes = transmittedBytes b, rxPackets = receivedPackets b,
     rxBytes = receivedBytes b,
     txPacketRate = of_int (transmittedPackets b - transmittedPackets a) / k,
     rxPacketRate = of_int (receivedPackets b - receivedPackets a) / k,
     txBitRate = of_int ((transmittedBytes b - transmittedBytes a) * 8) / k,
     rxBitRate = of_int ((receivedBytes b - receivedBytes a) * 8) / k \<rparr>"

lemma out_stat_ok: "k \<noteq> 0 \<Longrightarrow> j < length first \<Longrightarrow> out_stat k first (j, st) = Inr (rates_between k (first ! j) st)"
  by (simp add: out_stat_def rates_between_def)

section \<open>Wireless links: lemmas\<close>

definition station_links :: "monitor \<Rightarrow> nat list" where
  "station_links m = map (\<lambda>(_, _, l). l) (stations m)"

text \<open>A link that is seen.\<close>

definition shown :: "wifi_link \<Rightarrow> bool" where
  "shown k \<longleftrightarrow> link_exists k \<and> link_visible k \<and> link_points k \<noteq> None"

definition wifi_link_ok :: "monitor \<Rightarrow> nat \<Rightarrow> bool" where
  "wifi_link_ok m l \<longleftrightarrow>
     (let k = wifi_links m ! l in
        (link_exists k \<longleftrightarrow> l \<in> set (station_links m))
        \<and> (link_exists k \<longrightarrow> sta_node k \<noteq> None \<and> (\<forall>n. l \<in> set (node_link_list m n) \<longleftrightarrow> ap_node k = Some n))
        \<and> (\<not> link_exists k \<longrightarrow> ap_node k = None \<and> sta_node k = None)
        \<and> (shown k \<longleftrightarrow> ap_node k \<noteq> None))"

definition wifi_ok :: "monitor \<Rightarrow> bool" where
  "wifi_ok m \<longleftrightarrow> distinct (station_links m) \<and> (\<forall>l < length (wifi_links m). wifi_link_ok m l)
     \<and> (\<forall>(_, node, l) \<in> set (stations m). l < length (wifi_links m) \<and> sta_node (wifi_links m ! l) = Some node)
     \<and> (\<forall>n. distinct (node_link_list m n) \<and> (\<forall>l \<in> set (node_link_list m n). l < length (wifi_links m)))"

lemma on_link_fields [simp]:
  "node_link_list (on_link l f m) = node_link_list m" "access_points (on_link l f m) = access_points m"
  "stations (on_link l f m) = stations m" "station_links (on_link l f m) = station_links m"
  "length (wifi_links (on_link l f m)) = length (wifi_links m)"
  by (simp_all add: on_link_def station_links_def)

lemma nth_on_link:
  "l < length (wifi_links m) \<Longrightarrow> wifi_links (on_link l f m) ! j = (if j = l then f (wifi_links m ! l) else wifi_links m ! j)"
  by (simp add: on_link_def nth_list_update)

text \<open>The points of a link depend on nothing else.\<close>

lemma wifi_points_fields [simp]:
  "link_exists (wifi_points pos k) = link_exists k" "sta_node (wifi_points pos k) = sta_node k" "ap_node (wifi_points pos k) = ap_node k"
  "link_visible (wifi_points pos k) = link_visible k"
  by (simp_all add: wifi_points_def split: option.split)

lemma wifi_points_shown: "(shown k \<longleftrightarrow> ap_node k \<noteq> None) \<Longrightarrow> (shown (wifi_points pos k) \<longleftrightarrow> ap_node k \<noteq> None)"
  by (auto simp: shown_def wifi_points_def split: option.splits)

lemma wifi_points_ok:
  assumes ok: "wifi_ok m" and l: "l < length (wifi_links m)"
  shows "wifi_ok (on_link l (wifi_points pos) m)"
proof -
  let ?m = "on_link l (wifi_points pos) m"
  have at: "wifi_links ?m ! j = (if j = l then wifi_points pos (wifi_links m ! l) else wifi_links m ! j)" for j
    using l by (rule nth_on_link)
  have "wifi_link_ok ?m j" if "j < length (wifi_links m)" for j
  proof -
    from ok that have "wifi_link_ok m j" unfolding wifi_ok_def by blast
    then show ?thesis by (cases "j = l") (simp_all add: wifi_link_ok_def at Let_def wifi_points_shown)
  qed
  moreover have "sta_node (wifi_links ?m ! j) = sta_node (wifi_links m ! j)" for j by (simp add: at)
  ultimately show ?thesis using ok unfolding wifi_ok_def by simp
qed

lemma set_ap_spec:
  assumes ok: "wifi_ok m" and l: "l \<in> set (station_links m)"
  shows "\<exists>m'. set_ap pos l ap m = Inr m' \<and> wifi_ok m' \<and> ap_node (wifi_links m' ! l) = ap
     \<and> (\<forall>j. j \<noteq> l \<longrightarrow> wifi_links m' ! j = wifi_links m ! j) \<and> length (wifi_links m') = length (wifi_links m)
     \<and> stations m' = stations m \<and> access_points m' = access_points m"
proof -
  let ?k = "wifi_links m ! l"
  from l obtain dev node where st: "(dev, node, l) \<in> set (stations m)" by (auto simp: station_links_def)
  with ok have len: "l < length (wifi_links m)" unfolding wifi_ok_def by blast
  with ok l have k: "wifi_link_ok m l" "link_exists ?k" "\<And>n. l \<in> set (node_link_list m n) \<longleftrightarrow> ap_node ?k = Some n"
    unfolding wifi_ok_def wifi_link_ok_def Let_def by blast+
  show ?thesis
  proof (cases "ap = ap_node ?k")
    case True
    with ok show ?thesis by (simp add: set_ap_def)
  next
    case False
    let ?N = "node_link_list m"
    define N1 where "N1 = (case ap_node ?k of None \<Rightarrow> ?N | Some n \<Rightarrow> ?N(n := remove1 l (?N n)))"
    define N2 where "N2 = (case ap of None \<Rightarrow> N1 | Some n \<Rightarrow> N1(n := N1 n @ [l]))"
    define k' where "k' = wifi_points pos (?k\<lparr> ap_node := ap, link_visible := (ap \<noteq> None) \<rparr>)"
    define m' where "m' = m\<lparr> node_link_list := N2, wifi_links := (wifi_links m)[l := k'] \<rparr>"
    have dN: "distinct (?N n)" "j \<in> set (?N n) \<Longrightarrow> j < length (wifi_links m)" for n j using ok unfolding wifi_ok_def by blast+
    have N1: "distinct (N1 n)" "set (N1 n) = set (?N n) - {l}" for n
      using k(3) dN(1) by (auto simp: N1_def split: option.splits)
    have N2: "distinct (N2 n)" "set (N2 n) = (set (?N n) - {l}) \<union> (if ap = Some n then {l} else {})" for n
      using N1 by (auto simp: N2_def split: option.splits)
    have res: "set_ap pos l ap m = Inr m'"
      using False k(3) len
      by (cases "ap_node ?k"; cases ap)
        (simp_all add: set_ap_def list_remove_def on_link_def Let_def m'_def N1_def N2_def k'_def)
    have k': "ap_node k' = ap" "link_exists k'" "sta_node k' = sta_node ?k" using k(2) by (simp_all add: k'_def)
    have "sta_node ?k \<noteq> None" using k(1,2) unfolding wifi_link_ok_def Let_def by blast
    then have sh: "shown k' \<longleftrightarrow> ap \<noteq> None"
      using k(2) by (auto simp: k'_def shown_def wifi_points_def split: option.splits)
    have at: "wifi_links m' ! j = (if j = l then k' else wifi_links m ! j)" for j using len by (simp add: m'_def)
    have st': "station_links m' = station_links m" "stations m' = stations m" "length (wifi_links m') = length (wifi_links m)"
      "node_link_list m' = N2" "access_points m' = access_points m"
      by (simp_all add: m'_def station_links_def)
    have "wifi_link_ok m' j" if j: "j < length (wifi_links m)" for j
    proof (cases "j = l")
      case True
      with k' sh l \<open>sta_node ?k \<noteq> None\<close> show ?thesis by (auto simp: wifi_link_ok_def at st' N2)
    next
      case other: False
      from ok j have "wifi_link_ok m j" unfolding wifi_ok_def by blast
      with other show ?thesis by (simp add: wifi_link_ok_def at st' N2)
    qed
    moreover have "\<forall>(_, node, j) \<in> set (stations m'). j < length (wifi_links m') \<and> sta_node (wifi_links m' ! j) = Some node"
      using ok k' unfolding wifi_ok_def st' at by auto
    moreover have "distinct (station_links m')" using ok by (simp add: wifi_ok_def st')
    moreover have "\<forall>n. distinct (node_link_list m' n) \<and> (\<forall>j \<in> set (node_link_list m' n). j < length (wifi_links m'))"
      using N2 dN(2) len by (auto simp: st')
    ultimately have "wifi_ok m'" unfolding wifi_ok_def st' by blast
    with res k'(1) at st' show ?thesis by auto
  qed
qed

lemma fold_on_link:
  assumes "distinct (map (\<lambda>(_, _, l). l) xs)" "\<forall>(_, _, l) \<in> set xs. l < length (wifi_links m)"
  shows "wifi_links (fold (\<lambda>(_, _, l). on_link l f) xs m) ! j =
      (if j \<in> (\<lambda>(_, _, l). l) ` set xs then f (wifi_links m ! j) else wifi_links m ! j)
    \<and> length (wifi_links (fold (\<lambda>(_, _, l). on_link l f) xs m)) = length (wifi_links m)
    \<and> node_link_list (fold (\<lambda>(_, _, l). on_link l f) xs m) = node_link_list m
    \<and> stations (fold (\<lambda>(_, _, l). on_link l f) xs m) = stations m"
  using assms
proof (induction xs arbitrary: m)
  case (Cons x xs)
  obtain d n l where x: "x = (d, n, l)" by (cases x)
  let ?m = "on_link l f m"
  have l: "l < length (wifi_links m)" using Cons.prems(2) x by simp
  have "l \<notin> (\<lambda>(_, _, l). l) ` set xs" using Cons.prems(1) x by simp
  moreover have "\<forall>(_, _, l) \<in> set xs. l < length (wifi_links ?m)" using Cons.prems(2) by simp
  ultimately show ?case using Cons.IH [of ?m] Cons.prems(1) nth_on_link [OF l, of f j] by (auto simp: x)
qed simp

lemma station_known: "wifi_ok m \<Longrightarrow> \<forall>(_, _, l) \<in> set (stations m). l < length (wifi_links m)"
  unfolding wifi_ok_def by blast

lemma wifi_scan_device_ok: "wifi_ok m \<Longrightarrow> wifi_ok (scan_wifi_device node d m)"
proof (cases d)
  case (Station dev)
  assume ok: "wifi_ok m"
  let ?n = "length (wifi_links m)"
  let ?m = "scan_wifi_device node d m"
  have m: "wifi_links ?m = wifi_links m @ [WifiLink_init node]" "stations ?m = stations m @ [(dev, node, ?n)]"
    "station_links ?m = station_links m @ [?n]" "node_link_list ?m = node_link_list m"
    by (simp_all add: scan_wifi_device_def Station station_links_def)
  have below: "\<forall>l \<in> set (station_links m). l < ?n" "\<forall>n. \<forall>l \<in> set (node_link_list m n). l < ?n"
    using ok unfolding wifi_ok_def station_links_def by auto
  have "wifi_link_ok ?m l" if l: "l < Suc ?n" for l
  proof (cases "l = ?n")
    case True
    have "?n \<notin> set (node_link_list m n)" for n using below(2) by blast
    with True show ?thesis by (simp add: wifi_link_ok_def m WifiLink_init_def shown_def)
  next
    case False
    with l ok have "wifi_link_ok m l" unfolding wifi_ok_def by simp
    with False l show ?thesis by (simp add: wifi_link_ok_def m nth_append)
  qed
  moreover have "distinct (station_links ?m)" using ok below(1) unfolding wifi_ok_def m by auto
  moreover have "\<forall>(_, node, l) \<in> set (stations ?m). l < length (wifi_links ?m) \<and> sta_node (wifi_links ?m ! l) = Some node"
    using ok unfolding wifi_ok_def m by (auto simp: nth_append WifiLink_init_def)
  moreover have "\<forall>n. distinct (node_link_list ?m n) \<and> (\<forall>l \<in> set (node_link_list ?m n). l < length (wifi_links ?m))"
    using ok unfolding wifi_ok_def m by (auto intro: less_SucI)
  ultimately show ?thesis unfolding wifi_ok_def by (simp add: m(1))
next
  case (AccessPoint b)
  then show "wifi_ok m \<Longrightarrow> ?thesis"
    by (simp add: scan_wifi_device_def wifi_ok_def wifi_link_ok_def station_links_def)
next
  case OtherDevice
  then show "wifi_ok m \<Longrightarrow> ?thesis" by (simp add: scan_wifi_device_def)
qed

lemma wifi_scan_nodes_ok: "wifi_ok m \<Longrightarrow> wifi_ok (scan_nodes ns m)"
proof -
  assume ok: "wifi_ok m"
  let ?d = "fold (\<lambda>(_, _, l). destroy_link l) (stations m) m"
  let ?m = "?d\<lparr> access_points := [], stations := [] \<rparr>"
  have "distinct (map (\<lambda>(_, _, l). l) (stations m))" using ok by (simp add: wifi_ok_def station_links_def)
  from fold_on_link [OF this station_known [OF ok], of "\<lambda>k. k\<lparr> link_exists := False, sta_node := None, ap_node := None \<rparr>"]
  have d: "wifi_links ?d ! j = (if j \<in> set (station_links m)
        then (wifi_links m ! j)\<lparr> link_exists := False, sta_node := None, ap_node := None \<rparr> else wifi_links m ! j)"
    "length (wifi_links ?d) = length (wifi_links m)" "node_link_list ?d = node_link_list m" for j
    by (simp_all add: destroy_link_def station_links_def)
  have "wifi_link_ok ?m j" if "j < length (wifi_links m)" for j
  proof -
    from ok that have "wifi_link_ok m j" unfolding wifi_ok_def by blast
    then show ?thesis by (auto simp: wifi_link_ok_def Let_def d station_links_def shown_def)
  qed
  then have ok': "wifi_ok ?m" using ok by (simp add: wifi_ok_def d station_links_def)
  have devs: "wifi_ok (fold (scan_wifi_device node) ds w)" if "wifi_ok w" for node ds w
    using that by (induction ds arbitrary: w) (simp_all add: wifi_scan_device_ok)
  have "wifi_ok (fold (\<lambda>(node, ds). fold (scan_wifi_device node) ds) ns w)" if "wifi_ok w" for w
    using that by (induction ns arbitrary: w) (auto simp: devs)
  from this [OF ok'] show ?thesis by (simp add: scan_nodes_def)
qed

lemma wifi_fold_points_ok:
  "wifi_ok m \<Longrightarrow> \<forall>l \<in> set ls. l < length (wifi_links m) \<Longrightarrow> wifi_ok (fold (\<lambda>l. on_link l (wifi_points pos)) ls m)"
  by (induction ls arbitrary: m) (simp_all add: wifi_points_ok)

lemma wifi_update_view_ok: "wifi_ok m \<Longrightarrow> wifi_ok (wifi_update_view pos m)"
proof -
  assume ok: "wifi_ok m"
  have "fold (\<lambda>(_, _, l). on_link l f) xs w = fold (\<lambda>l. on_link l f) (map (\<lambda>(_, _, l). l) xs) w" for f w
    and xs :: "(int \<times> int \<times> nat) list"
    by (induction xs arbitrary: w) (simp_all add: case_prod_beta)
  moreover have "\<forall>l \<in> set (station_links m). l < length (wifi_links m)" using station_known [OF ok] by (auto simp: station_links_def)
  ultimately show ?thesis using wifi_fold_points_ok [OF ok, of "station_links m" pos]
    by (simp add: wifi_update_view_def station_links_def)
qed

lemma node_moved_ok: "wifi_ok m \<Longrightarrow> wifi_ok (node_moved pos n m)"
  unfolding node_moved_def by (rule wifi_fold_points_ok) (simp_all add: wifi_ok_def)

text \<open>The access point of a device in a given state.\<close>

definition station_target :: "(string, int) dict \<Rightarrow> bool \<times> string \<Rightarrow> int option res" where
  "station_target aps s =
     (if fst s \<and> snd s \<noteq> ''00:00:00:00:00:00''
      then (case map_of aps (snd s) of None \<Rightarrow> Inl KeyError | Some n \<Rightarrow> Inr (Some n)) else Inr None)"

lemma station_update_eq:
  "station_update pos status (dev, node, l) m = bind_res (station_target (access_points m) (status dev)) (\<lambda>ap. set_ap pos l ap m)"
  by (simp add: station_update_def station_target_def split: option.split)

lemma periodic_spec:
  assumes "wifi_ok m" "set xs \<subseteq> set (stations m)" "distinct (map (\<lambda>(_, _, l). l) xs)"
  shows "case fold_res (station_update pos status) xs m of
      Inl e \<Rightarrow> e = KeyError \<and> (\<exists>(dev, _, _) \<in> set xs. station_target (access_points m) (status dev) = Inl KeyError)
    | Inr m' \<Rightarrow> wifi_ok m' \<and> stations m' = stations m \<and> access_points m' = access_points m
        \<and> length (wifi_links m') = length (wifi_links m)
        \<and> (\<forall>(dev, _, l) \<in> set xs. station_target (access_points m) (status dev) = Inr (ap_node (wifi_links m' ! l)))
        \<and> (\<forall>j. j \<notin> (\<lambda>(_, _, l). l) ` set xs \<longrightarrow> wifi_links m' ! j = wifi_links m ! j)"
  using assms
proof (induction xs arbitrary: m)
  case (Cons x xs)
  obtain dev node l where x: "x = (dev, node, l)" by (cases x)
  show ?case
  proof (cases "station_target (access_points m) (status dev)")
    case (Inl e)
    then have "e = KeyError" by (auto simp: station_target_def split: if_splits option.splits)
    with Inl show ?thesis by (auto simp: x station_update_eq)
  next
    case (Inr ap)
    have "l \<in> set (station_links m)" using Cons.prems(2) x by (force simp: station_links_def)
    from set_ap_spec [OF Cons.prems(1) this, of pos ap] obtain m1 where m1: "set_ap pos l ap m = Inr m1" "wifi_ok m1"
      "ap_node (wifi_links m1 ! l) = ap" "\<forall>j. j \<noteq> l \<longrightarrow> wifi_links m1 ! j = wifi_links m ! j"
      "length (wifi_links m1) = length (wifi_links m)" "stations m1 = stations m" "access_points m1 = access_points m" by blast
    have step: "fold_res (station_update pos status) (x # xs) m = fold_res (station_update pos status) xs m1"
      by (simp add: x station_update_eq Inr m1(1))
    have l: "l \<notin> (\<lambda>(_, _, l). l) ` set xs" using Cons.prems(3) x by simp
    have IH: "case fold_res (station_update pos status) xs m1 of
      Inl e \<Rightarrow> e = KeyError \<and> (\<exists>(dev, _, _) \<in> set xs. station_target (access_points m1) (status dev) = Inl KeyError)
    | Inr m' \<Rightarrow> wifi_ok m' \<and> stations m' = stations m1 \<and> access_points m' = access_points m1
        \<and> length (wifi_links m') = length (wifi_links m1)
        \<and> (\<forall>(dev, _, l) \<in> set xs. station_target (access_points m1) (status dev) = Inr (ap_node (wifi_links m' ! l)))
        \<and> (\<forall>j. j \<notin> (\<lambda>(_, _, l). l) ` set xs \<longrightarrow> wifi_links m' ! j = wifi_links m1 ! j)"
      using Cons.prems m1(2,6) by (intro Cons.IH) simp_all
    show ?thesis
    proof (cases "fold_res (station_update pos status) xs m1")
      case (Inl e)
      with IH m1(7) show ?thesis unfolding step by auto
    next
      case r: (Inr m')
      have same: "wifi_ok m'" "stations m' = stations m" "access_points m' = access_points m"
        "length (wifi_links m') = length (wifi_links m)" using IH r m1(5,6,7) by simp_all
      have rest: "\<forall>(dev, _, l) \<in> set xs. station_target (access_points m) (status dev) = Inr (ap_node (wifi_links m' ! l))"
        using IH r m1(7) by simp
      have others: "\<forall>j. j \<notin> (\<lambda>(_, _, l). l) ` set xs \<longrightarrow> wifi_links m' ! j = wifi_links m1 ! j" using IH r by simp
      with l have "wifi_links m' ! l = wifi_links m1 ! l" by blast
      with m1(3) Inr have "station_target (access_points m) (status dev) = Inr (ap_node (wifi_links m' ! l))" by simp
      moreover have "\<forall>j. j \<notin> insert l ((\<lambda>(_, _, l). l) ` set xs) \<longrightarrow> wifi_links m' ! j = wifi_links m ! j"
        using others m1(4) by simp
      ultimately show ?thesis unfolding step r unfolding x using same rest by simp
    qed
  qed
qed simp

lemma periodic_update_spec:
  assumes "wifi_ok m"
  shows "case wifi_periodic_update pos status m of
      Inl e \<Rightarrow> e = KeyError \<and> (\<exists>(dev, _, _) \<in> set (stations m). station_target (access_points m) (status dev) = Inl KeyError)
    | Inr m' \<Rightarrow> wifi_ok m' \<and> stations m' = stations m
        \<and> (\<forall>(dev, _, l) \<in> set (stations m). station_target (access_points m) (status dev) = Inr (ap_node (wifi_links m' ! l)))"
proof -
  have "distinct (map (\<lambda>(_, _, l). l) (stations m))" using assms by (simp add: wifi_ok_def station_links_def)
  from periodic_spec [OF assms subset_refl this, of status pos] show ?thesis
    unfolding wifi_periodic_update_def by (auto split: sum.splits)
qed

interpretation wifi: step_invariant wifi_step wifi_ok
proof
  fix m m' assume "wifi_step m m'" "wifi_ok m"
  then show "wifi_ok m'"
  proof cases
    case (periodic pos status)
    with periodic_update_spec [OF \<open>wifi_ok m\<close>, of status pos] show ?thesis by simp
  qed (simp_all add: wifi_scan_nodes_ok wifi_update_view_ok node_moved_ok)
qed

lemma monitor_init_ok: "wifi_ok WifiLinkMonitor_init"
  by (simp add: wifi_ok_def WifiLinkMonitor_init_def station_links_def)

section \<open>Properties\<close>

text \<open>
  C29. The statistics of a node after any updates: none before ten samples; then for each interface of the last sample the counters and the
  rates against the sample nine periods before, or an IndexError when the node has got an interface in between. The assertion
  on the number of samples never fails.
\<close>

theorem interface_statistics_window:
  assumes "period \<noteq> 0" "all = samples_of i us"
  shows "get_interface_statistics period (fold statistics_periodic_update us []) i =
    (if length all < 10 then Inr []
     else let a = all ! (length all - 10); b = last all
          in if length b \<le> length a then Inr (map (\<lambda>j. rates_between (period * 9) (a ! j) (b ! j)) [0..<length b])
             else Inl IndexError)"
proof (cases "length all < 10")
  case True
  then show ?thesis using assms(2)
    by (simp add: get_interface_statistics_def statistics_kept last_window_def NODE_STATISTICS_MEMORY_def)
next
  case False
  let ?a = "all ! (length all - 10)" and ?b = "last all"
  have w: "length (last_window all) = 10" "hd (last_window all) = ?a" "last (last_window all) = ?b"
    using False by (simp_all add: last_window_def NODE_STATISTICS_MEMORY_def hd_drop_conv_nth)
  have "all \<noteq> []" using False by auto
  then have g: "get_interface_statistics period (fold statistics_periodic_update us []) i =
      map_res (out_stat (period * 9) ?a) (enumerate 0 ?b)"
    using assms(2) w by (simp add: get_interface_statistics_def statistics_kept NODE_STATISTICS_MEMORY_def)
  show ?thesis
  proof (cases "length ?b \<le> length ?a")
    case True
    have "out_stat (period * 9) ?a x = Inr (rates_between (period * 9) (?a ! fst x) (snd x))" if x: "x \<in> set (enumerate 0 ?b)" for x
    proof -
      from x True have "fst x < length ?a" by (simp add: in_set_enumerate_eq)
      with assms(1) out_stat_ok [of "period * 9" "fst x" ?a "snd x"] show ?thesis by simp
    qed
    then have "map_res (out_stat (period * 9) ?a) (enumerate 0 ?b) =
        Inr (map (\<lambda>x. rates_between (period * 9) (?a ! fst x) (snd x)) (enumerate 0 ?b))" by (rule map_res_Inr)
    also have "map (\<lambda>x. rates_between (period * 9) (?a ! fst x) (snd x)) (enumerate 0 ?b) =
        map (\<lambda>j. rates_between (period * 9) (?a ! j) (?b ! j)) [0..<length ?b]"
      by (rule nth_equalityI) (simp_all add: nth_enumerate_eq)
    finally show ?thesis using g False True by (simp add: Let_def)
  next
    case more: False
    let ?x = "(length ?a, ?b ! length ?a)"
    have "?x \<in> set (enumerate 0 ?b)" using more by (simp add: in_set_enumerate_eq)
    moreover have "out_stat (period * 9) ?a ?x = Inl IndexError" by (simp add: out_stat_def)
    moreover have "out_stat (period * 9) ?a y = Inl e' \<Longrightarrow> e' = IndexError" for y e'
      using assms(1) by (cases y) (auto simp: out_stat_def split: if_splits)
    ultimately have "map_res (out_stat (period * 9) ?a) (enumerate 0 ?b) = Inl IndexError" by (rule map_res_stops) blast
    with g False more show ?thesis by (simp add: Let_def)
  qed
qed


definition busy :: "nat \<Rightarrow> if_stats" where
  "busy j = \<lparr> transmittedPackets = 9 * int j, transmittedBytes = 900 * int j, receivedPackets = 0, receivedBytes = 0 \<rparr>"

theorem interface_statistics_window_witness:
  "get_interface_statistics (1 / 10) (fold statistics_periodic_update (map (\<lambda>j. [(1, [busy j])]) [0..<12]) []) 1 =
     Inr [\<lparr> txPackets = 99, txBytes = 9900, rxPackets = 0, rxBytes = 0, txPacketRate = 90, rxPacketRate = 0,
            txBitRate = 72000, rxBitRate = 0 \<rparr>]"
proof -
  let ?us = "map (\<lambda>j. [(1, [busy j])]) [0..<12]"
  have s: "samples_of 1 ?us = map (\<lambda>j. [busy j]) [0..<12]" by (simp add: samples_of_def comp_def)
  have "(1 / 10 :: rat) \<noteq> 0" by simp
  from interface_statistics_window [OF this refl, of ?us 1, unfolded s] show ?thesis
    by (simp add: Let_def last_map rates_between_def) (simp add: busy_def)
qed

text \<open>
  C28. Wireless links: after any scans, updates and movements, a periodic update fails only with a KeyError, for a device that is
  associated with an unknown access point; otherwise, after the view has been updated, the link of every device leads to the
  access point with its address, is shown exactly when the device is associated, and is drawn between the current
  positions of station and access point.
\<close>

theorem wifi_links_show_associations:
  assumes "wifi_step\<^sup>*\<^sup>* WifiLinkMonitor_init m"
  shows "case wifi_periodic_update pos status m of
      Inl e \<Rightarrow> e = KeyError \<and> (\<exists>(dev, _, _) \<in> set (stations m). fst (status dev) \<and> snd (status dev) \<noteq> ''00:00:00:00:00:00''
          \<and> map_of (access_points m) (snd (status dev)) = None)
    | Inr m' \<Rightarrow> \<forall>(dev, node, l) \<in> set (stations m). let k = wifi_links (wifi_update_view pos' m') ! l in
          ap_node k = (if fst (status dev) \<and> snd (status dev) \<noteq> ''00:00:00:00:00:00''
                       then map_of (access_points m) (snd (status dev)) else None)
          \<and> (shown k \<longleftrightarrow> ap_node k \<noteq> None)
          \<and> (\<forall>n. ap_node k = Some n \<longrightarrow> link_points k = Some (pos' node, pos' n))"
proof -
  from wifi.steps_keep [OF assms monitor_init_ok] have ok: "wifi_ok m" .
  show ?thesis
  proof (cases "wifi_periodic_update pos status m")
    case (Inl e)
    with periodic_update_spec [OF ok, of status pos] show ?thesis
      by (auto simp: station_target_def split: if_splits option.splits) force
  next
    case (Inr m')
    with periodic_update_spec [OF ok, of status pos] have ok': "wifi_ok m'" and st: "stations m' = stations m"
      and ap: "(dev, node, l) \<in> set (stations m) \<Longrightarrow> station_target (access_points m) (status dev) = Inr (ap_node (wifi_links m' ! l))" for dev node l
      by auto
    have d: "distinct (map (\<lambda>(_, _, l). l) (stations m'))" using ok' by (simp add: wifi_ok_def station_links_def)
    note view = fold_on_link [OF d station_known [OF ok'], of "wifi_points pos'", folded wifi_update_view_def]
    have "let k = wifi_links (wifi_update_view pos' m') ! l in
          ap_node k = (if fst (status dev) \<and> snd (status dev) \<noteq> ''00:00:00:00:00:00''
                       then map_of (access_points m) (snd (status dev)) else None)
          \<and> (shown k \<longleftrightarrow> ap_node k \<noteq> None) \<and> (\<forall>n. ap_node k = Some n \<longrightarrow> link_points k = Some (pos' node, pos' n))"
      if s: "(dev, node, l) \<in> set (stations m)" for dev node l
    proof -
      let ?k = "wifi_links m' ! l"
      have "l \<in> (\<lambda>(_, _, l). l) ` set (stations m')" using s st by force
      with view [of l] have k: "wifi_links (wifi_update_view pos' m') ! l = wifi_points pos' ?k" by simp
      have l: "l < length (wifi_links m')" "sta_node ?k = Some node" using s st ok' unfolding wifi_ok_def by auto
      with ok' have "shown ?k \<longleftrightarrow> ap_node ?k \<noteq> None" unfolding wifi_ok_def wifi_link_ok_def Let_def by blast
      then have "shown (wifi_points pos' ?k) \<longleftrightarrow> ap_node ?k \<noteq> None" by (rule wifi_points_shown)
      moreover have "ap_node ?k = Some n \<Longrightarrow> link_points (wifi_points pos' ?k) = Some (pos' node, pos' n)" for n
        using l(2) by (simp add: wifi_points_def)
      moreover from ap [OF s] have "ap_node ?k = (if fst (status dev) \<and> snd (status dev) \<noteq> ''00:00:00:00:00:00''
                       then map_of (access_points m) (snd (status dev)) else None)"
        by (auto simp: station_target_def split: if_splits option.splits)
      ultimately show ?thesis unfolding k by (simp add: Let_def)
    qed
    with Inr show ?thesis by auto
  qed
qed

definition one_station :: monitor where
  "one_station = scan_nodes [(0, [Station 5]), (1, [OtherDevice, AccessPoint ''00:00:00:00:00:01''])] WifiLinkMonitor_init"

theorem wifi_links_show_associations_witness:
  "\<exists>m'. wifi_periodic_update (\<lambda>i. (0, 0)) (\<lambda>_. (True, ''00:00:00:00:00:01'')) one_station = Inr m'
     \<and> (let k = wifi_links (wifi_update_view (\<lambda>i. (of_int i, 0)) m') ! 0 in shown k \<and> link_points k = Some ((0, 0), (1, 0)))"
proof -
  let ?s = "\<lambda>_ :: int. (True, ''00:00:00:00:00:01'')"
  have st: "stations one_station = [(5, 0, 0)]" "access_points one_station = [(''00:00:00:00:00:01'', 1)]"
    by (simp_all add: one_station_def scan_nodes_def WifiLinkMonitor_init_def scan_wifi_device_def)
  have r: "wifi_step\<^sup>*\<^sup>* WifiLinkMonitor_init one_station"
    unfolding one_station_def by (rule r_into_rtranclp) (rule wifi_step.scanned)
  note t = wifi_links_show_associations [OF r, of ?s "\<lambda>i. (of_int i, 0)" "\<lambda>i. (0, 0)"]
  show ?thesis
  proof (cases "wifi_periodic_update (\<lambda>i. (0, 0)) ?s one_station")
    case (Inl e)
    with t st show ?thesis by simp
  next
    case (Inr m')
    with t st show ?thesis by (auto simp: Let_def)
  qed
qed

section \<open>The filter of packets\<close>

definition options_current :: "'t capture \<Rightarrow> bool" where
  "options_current c \<longleftrightarrow> capture_options c = Some (if op_AND c then FILTER_HEADERS_AND else FILTER_HEADERS_OR, 100,
     map type_id (filter type_selected (filter_list c)))"

lemma update_current: "options_current (update_capture_options c)"
  by (cases c) (simp add: options_current_def update_capture_options_def)

interpretation capture: step_invariant capture_step options_current
proof
  fix c c' :: "'t capture" assume "capture_step c c'"
  then show "options_current c'"
    by cases (simp_all add: update_current select_types_def cell_edited_def op_toggled_def)
qed

text \<open>The simulator always has the options that the dialog shows.\<close>

lemma capture_options_current: "capture_step\<^sup>*\<^sup>* (ShowLastPackets_init cs) c \<Longrightarrow> options_current c"
  by (erule capture.steps_keep) (unfold ShowLastPackets_init_def, rule update_current)

text \<open>With parents that end, the loop ends, and finds the types that have one of the two as an ancestor.\<close>

lemma is_packet_type_ends:
  assumes "wf {(p, t). parent t = Some p}"
  shows "is_packet_type parent hdr trl t = Some (\<exists>x \<in> {hdr, trl}. (t, x) \<in> {(t, p). parent t = Some p}\<^sup>*)"
  using assms
proof (induction t rule: wf_induct_rule)
  case (less t)
  let ?R = "{(t, p). parent t = Some p}"
  have up: "(t, x) \<in> ?R\<^sup>* \<longleftrightarrow> t = x \<or> (\<exists>p. parent t = Some p \<and> (p, x) \<in> ?R\<^sup>*)" for x
    by (auto elim: converse_rtranclE intro: converse_rtrancl_into_rtrancl)
  show ?case
  proof (cases "t = hdr \<or> t = trl")
    case True
    then show ?thesis by (subst is_packet_type.simps) auto
  next
    case False
    show ?thesis
    proof (cases "parent t")
      case None
      with False up show ?thesis by (subst is_packet_type.simps) auto
    next
      case (Some p)
      with less [of p] False up show ?thesis by (subst is_packet_type.simps) auto
    qed
  qed
qed

end
