(* ===== verification/PyStr.thy ===== *)
theory PyStr
  imports PyBase
begin

text \<open>
  More of Python's strings: replacing, changing case, \<open>repr\<close>, and the operator \<open>%\<close> with a dictionary on its right, for the
  conversions \<open>s\<close> and \<open>r\<close> that the sources use.
\<close>

definition replace_char :: "char \<Rightarrow> string \<Rightarrow> string \<Rightarrow> string" where
  "replace_char c s = concat \<circ> map (\<lambda>x. if x = c then s else [x])"

definition identifier_char :: "char \<Rightarrow> bool" where
  "identifier_char c \<longleftrightarrow> (let n = of_char c :: nat in
     48 \<le> n \<and> n \<le> 57 \<or> 65 \<le> n \<and> n \<le> 90 \<or> n = 95 \<or> 97 \<le> n \<and> n \<le> 122)"

definition upper_char :: "char \<Rightarrow> char" where
  "upper_char c = (let n = of_char c :: nat in if 97 \<le> n \<and> n \<le> 122 then char_of (n - 32) else c)"

definition lower_char :: "char \<Rightarrow> char" where
  "lower_char c = (let n = of_char c :: nat in if 65 \<le> n \<and> n \<le> 90 then char_of (n + 32) else c)"

definition upper :: "string \<Rightarrow> string" where
  "upper = map upper_char"

definition capitalize :: "string \<Rightarrow> string" where
  "capitalize s = (case s of [] \<Rightarrow> [] | c # cs \<Rightarrow> upper_char c # map lower_char cs)"

text \<open>\<open>repr\<close> of a string: quoted with \<open>'\<close>, or with the other quote when only that avoids an escape.\<close>

definition py_hex_digit :: "nat \<Rightarrow> char" where
  "py_hex_digit d = char_of (if d < 10 then 48 + d else 87 + d)"

definition escape_char :: "char \<Rightarrow> char \<Rightarrow> string" where
  "escape_char q c = (let n = of_char c :: nat in
     if c = q \<or> n = 92 then [char_of (92 :: nat), c]
     else if n = 10 then [char_of (92 :: nat), CHR ''n'']
     else if n = 9 then [char_of (92 :: nat), CHR ''t'']
     else if n = 13 then [char_of (92 :: nat), CHR ''r'']
     else if n < 32 \<or> 127 \<le> n then [char_of (92 :: nat), CHR ''x'', py_hex_digit (n div 16), py_hex_digit (n mod 16)]
     else [c])"

definition py_repr :: "string \<Rightarrow> string" where
  "py_repr s =
     (let single = char_of (39 :: nat); double = char_of (34 :: nat);
          q = (if single \<in> set s \<and> double \<notin> set s then double else single)
      in q # concat (map (escape_char q) s) @ [q])"

lemma dropWhile_shorter: "dropWhile P xs = a # b # ys \<Longrightarrow> length ys < Suc (Suc (length xs))"
  using length_dropWhile_le [of P xs] by simp

lemma bind_res_Inr_id [simp]: "bind_res m Inr = m"
  by (cases m) simp_all

text \<open>\<open>template % dict\<close>. Any other conversion is an error here.\<close>

function py_format :: "(string \<Rightarrow> string option) \<Rightarrow> string \<Rightarrow> string res" where
  "py_format d [] = Inr []"
| "py_format d (c # cs) =
     (if c \<noteq> CHR ''%'' then bind_res (py_format d cs) (\<lambda>s. Inr (c # s))
      else (case cs of
        [] \<Rightarrow> Inl ValueError
      | x # xs \<Rightarrow>
          if x = CHR ''%'' then bind_res (py_format d xs) (\<lambda>s. Inr (CHR ''%'' # s))
          else if x = CHR ''('' then
            (case dropWhile (\<lambda>y. y \<noteq> CHR '')'') xs of
               _ # conv # rest \<Rightarrow>
                 (case d (takeWhile (\<lambda>y. y \<noteq> CHR '')'') xs) of
                    None \<Rightarrow> Inl KeyError
                  | Some v \<Rightarrow>
                      if conv = CHR ''s'' then bind_res (py_format d rest) (\<lambda>s. Inr (v @ s))
                      else if conv = CHR ''r'' then bind_res (py_format d rest) (\<lambda>s. Inr (py_repr v @ s))
                      else Inl ValueError)
             | _ \<Rightarrow> Inl ValueError)
          else Inl ValueError))"
  by pat_completeness auto
termination
  by (relation "measure (\<lambda>(d, s). length s)") (auto dest: dropWhile_shorter)

text \<open>Literal text is copied, and a reference is replaced.\<close>

lemma py_format_char: "c \<noteq> CHR ''%'' \<Longrightarrow> py_format d (c # s) = bind_res (py_format d s) (\<lambda>t. Inr (c # t))"
  by simp

lemma py_format_lit:
  "CHR ''%'' \<notin> set w \<Longrightarrow> py_format d (w @ s) = bind_res (py_format d s) (\<lambda>t. Inr (w @ t))"
  by (induction w) (auto simp: bind_res_assoc)

lemma py_format_var:
  assumes "CHR '')'' \<notin> set name"
  shows "py_format d (''%('' @ name @ '')s'' @ s) =
     (case d name of None \<Rightarrow> Inl KeyError | Some v \<Rightarrow> bind_res (py_format d s) (\<lambda>t. Inr (v @ t)))"
proof -
  have "takeWhile (\<lambda>y. y \<noteq> CHR '')'') (name @ CHR '')'' # CHR ''s'' # s) = name"
    "dropWhile (\<lambda>y. y \<noteq> CHR '')'') (name @ CHR '')'' # CHR ''s'' # s) = CHR '')'' # CHR ''s'' # s"
    using assms by (auto simp: takeWhile_tail dropWhile_append)
  then show ?thesis by (simp split: option.split)
qed

end
