(* ===== verification/ModScan.thy ===== *)
theory ModScan
  imports TopSort PyOs PyStr "HOL-Library.Char_ord" "HOL-Library.List_Lexorder"
begin

text \<open>
  The scanners of the Python bindings, \<open>bindings/python/ns3modulescan.py\<close> and \<open>ns3modulescan-modular.py\<close>: the annotations that the
  hooks give to a declaration, the sections of the generated module in the order of their dependencies,
  and the classification of declarations by header. The parsing of the headers is done by other programs: a
  declaration is a record of what the hooks read of it.
\<close>

section \<open>Header paths\<close>

text \<open>
  \<open>get_ns3_relative_path\<close>. The loop of the first scanner ends only when the head becomes empty, so it is a partial function;
  the one of the modular scanner also ends when the head does not change.
\<close>

partial_function (option) relative_loop :: "string \<Rightarrow> string list \<Rightarrow> string res option" where
  "relative_loop head l =
     (if head = [] then Some (Inl AssertionError)
      else if path_basename head = ''ns3''
      then Some (if l = [] then Inl TypeError else Inr (path_join_list l))
      else relative_loop (path_head head) (path_basename head # l))"

definition get_ns3_relative_path :: "string \<Rightarrow> string res option" where
  "get_ns3_relative_path path = relative_loop path []"

function modular_loop :: "string \<Rightarrow> string list \<Rightarrow> string res" where
  "modular_loop head l =
     (if head = [] then Inl AssertionError
      else if path_head head = head then Inl ValueError
      else if path_basename head = ''ns3'' then (if l = [] then Inl TypeError else Inr (path_join_list l))
      else modular_loop (path_head head) (path_basename head # l))"
  by pat_completeness auto

termination
  by (relation "measure (\<lambda>(head, l). length head)")
    (auto simp: prefix_length_less path_head_prefix strict_prefix_def)

definition get_ns3_relative_path_modular :: "string \<Rightarrow> string res" where
  "get_ns3_relative_path_modular path = modular_loop path []"

section \<open>Declarations and annotations\<close>

datatype decl_kind =
    Member_function | Constructor | Free_function | Other_calldef | Class_decl | Enumeration | Other_decl

text \<open>
  What the hooks read of a declaration: the name, the declaration string, the printed form, the name of the parent, the template
  arguments of the demangled name, the header, the default values of the arguments, and for a template
  instantiation the headers of the declarations of its arguments that have a location.
\<close>

record decl =
  kind :: decl_kind
  decl_name :: string
  decl_string :: string
  decl_text :: string
  parent_name :: string
  demangled_args :: "string list"
  location :: string
  is_instantiation :: bool
  parameter_locations :: "string list"

datatype annotation = ANone | ATrue | AStr string | AParams "(string \<times> (string \<times> string) list) list"

type_synonym annotations = "(string, annotation) dict"

record hook =
  global_annotations :: annotations
  parameter_annotations :: "(string, (string \<times> string) list) dict"
  default_values :: "string option list"
  table :: "(string, annotations) dict"

definition type_annotations :: "(string, annotations) dict" where
  "type_annotations =
     [(''::ns3::AttributeChecker'',
        [(''automatic_type_narrowing'', AStr ''true''), (''allow_subclassing'', AStr ''false'')]),
      (''::ns3::AttributeValue'',
        [(''automatic_type_narrowing'', AStr ''true''), (''allow_subclassing'', AStr ''false'')]),
      (''::ns3::CommandLine'',
        [(''allow_subclassing'', AStr ''true'')]),
      (''::ns3::NscTcpL4Protocol'',
        [(''ignore'', AStr ''true'')]),
      (''ns3::RandomVariable::RandomVariable(ns3::RandomVariableBase const & variable) [constructor]'',
        [(''ignore'', ANone)]),
      (''ns3::RandomVariableBase * ns3::RandomVariable::Peek() const [member function]'',
        [(''ignore'', ANone)]),
      (''void ns3::RandomVariable::GetSeed(uint32_t * seed) const [member function]'',
        [(''params'', AParams [(''seed'', [(''direction'', ''out''), (''array_length'', ''6'')])])]),
      (''bool ns3::TypeId::LookupAttributeByName(std::string name, ns3::TypeId::AttributeInfo * info) const [member function]'',
        [(''params'', AParams [(''info'', [(''transfer_ownership'', ''false'')])])]),
      (''static bool ns3::TypeId::LookupByNameFailSafe(std::string name, ns3::TypeId * tid) [member function]'',
        [(''ignore'', ANone)]),
      (''bool ns3::TraceSourceAccessor::ConnectWithoutContext(ns3::ObjectBase * obj, ns3::CallbackBase const & cb) const [member function]'',
        [(''params'', AParams [(''obj'', [(''transfer_ownership'', ''false'')])])]),
      (''bool ns3::TraceSourceAccessor::Connect(ns3::ObjectBase * obj, std::string context, ns3::CallbackBase const & cb) const [member function]'',
        [(''params'', AParams [(''obj'', [(''transfer_ownership'', ''false'')])])]),
      (''bool ns3::TraceSourceAccessor::DisconnectWithoutContext(ns3::ObjectBase * obj, ns3::CallbackBase const & cb) const [member function]'',
        [(''params'', AParams [(''obj'', [(''transfer_ownership'', ''false'')])])]),
      (''bool ns3::TraceSourceAccessor::Disconnect(ns3::ObjectBase * obj, std::string context, ns3::CallbackBase const & cb) const [member function]'',
        [(''params'', AParams [(''obj'', [(''transfer_ownership'', ''false'')])])]),
      (''bool ns3::AttributeAccessor::Set(ns3::ObjectBase * object, ns3::AttributeValue const & value) const [member function]'',
        [(''params'', AParams [(''object'', [(''transfer_ownership'', ''false'')])])]),
      (''ns3::EmpiricalVariable::EmpiricalVariable(ns3::RandomVariableBase const & variable) [constructor]'',
        [(''ignore'', ANone)]),
      (''static ns3::AttributeList * ns3::AttributeList::GetGlobal() [member function]'',
        [(''caller_owns_return'', AStr ''false'')]),
      (''void ns3::CommandLine::Parse(int argc, char * * argv) const [member function]'',
        [(''ignore'', ANone)]),
      (''extern void ns3::PythonCompleteConstruct(ns3::Ptr<ns3::Object> object, ns3::TypeId typeId, ns3::AttributeList const & attributes) [free function]'',
        [(''ignore'', ANone)]),
      (''ns3::Ptr<ns3::Ipv4RoutingProtocol> ns3::Ipv4ListRouting::GetRoutingProtocol(uint32_t index, int16_t & priority) const [member function]'',
        [(''params'', AParams [(''priority'', [(''direction'', ''out'')])])]),
      (''ns3::Ipv4RoutingTableEntry * ns3::GlobalRouter::GetInjectedRoute(uint32_t i) [member function]'',
        [(''params'', AParams [(''return'', [(''caller_owns_return'', ''false'')])])]),
      (''ns3::Ipv4RoutingTableEntry * ns3::Ipv4GlobalRouting::GetRoute(uint32_t i) const [member function]'',
        [(''params'', AParams [(''return'', [(''caller_owns_return'', ''false'')])])]),
      (''::ns3::TestCase'',
        [(''ignore'', AStr ''true'')]),
      (''::ns3::TestRunner'',
        [(''ignore'', AStr ''true'')]),
      (''::ns3::TestSuite'',
        [(''ignore'', AStr ''true'')])]"

definition annotate :: "string \<Rightarrow> annotation \<Rightarrow> hook \<Rightarrow> hook" where
  "annotate k v h = h\<lparr> global_annotations := AList.update k v (global_annotations h) \<rparr>"

definition update_all :: "annotations \<Rightarrow> hook \<Rightarrow> hook" where
  "update_all as h = fold (\<lambda>(k, v). annotate k v) as h"

text \<open>The annotations of methods that are wrapped by hand.\<close>

definition method_of :: "decl \<Rightarrow> string \<Rightarrow> bool" where
  "method_of d parent \<longleftrightarrow> kind d = Member_function \<and> parent_name d = parent"

definition annotate_methods :: "decl \<Rightarrow> hook \<Rightarrow> hook" where
  "annotate_methods d h =
     (let h1 = (if method_of d ''Object'' \<and> decl_name d = ''GetObject'' \<and> demangled_args d = [''ns3::Object'']
                then annotate ''template_instance_names'' (AStr ''ns3::Object=>GetObject'') h else h);
          h2 = (if method_of d ''Simulator'' \<and> startswith (decl_name d) ''Schedule''
                then annotate ''ignore'' ANone h1 else h1)
      in if method_of d ''Simulator'' \<and> decl_name d = ''Run'' then annotate ''ignore'' ATrue h2 else h2)"

definition is_calldef :: "decl \<Rightarrow> bool" where
  "is_calldef d \<longleftrightarrow> kind d \<in> {Member_function, Constructor, Free_function, Other_calldef}"

definition fix_default :: "string option \<Rightarrow> string option" where
  "fix_default v =
     (if v = Some ''ns3::MilliSeconds( )'' then Some ''ns3::MilliSeconds(0)''
      else if v = Some ''ns3::Seconds( )'' then Some ''ns3::Seconds(0)'' else v)"

definition fix_defaults :: "decl \<Rightarrow> hook \<Rightarrow> hook" where
  "fix_defaults d h = (if is_calldef d then h\<lparr> default_values := map fix_default (default_values h) \<rparr> else h)"

text \<open>Classes: the templates with a treatment of their own, then the table.\<close>

definition annotate_class :: "decl \<Rightarrow> hook \<Rightarrow> hook" where
  "annotate_class d h =
     (if startswith (decl_string d) ''::ns3::SimpleRefCount<'' then
        annotate ''automatic_type_narrowing'' (AStr ''true'') (annotate ''peekref_method'' (AStr ''GetReferenceCount'')
          (annotate ''decref_method'' (AStr ''Unref'') (annotate ''incref_method'' (AStr ''Ref'') h)))
      else if startswith (decl_string d) ''::ns3::Callback<'' \<or> startswith (decl_string d) ''::ns3::TracedCallback<''
        \<or> startswith (decl_string d) ''::ns3::Ptr<'' then annotate ''ignore'' ANone h
      else (case map_of (table h) (decl_string d) of None \<Rightarrow> h | Some as \<Rightarrow> update_all as h))"

text \<open>
  Functions and methods: the entry \<open>params\<close> of the table goes to the parameters and is deleted from the table, which all calls
  share.
\<close>

definition annotate_function :: "decl \<Rightarrow> hook \<Rightarrow> hook" where
  "annotate_function d h =
     (case map_of (table h) (decl_text d) of
        None \<Rightarrow> h
      | Some as \<Rightarrow>
          (case map_of as ''params'' of
             Some (AParams ps) \<Rightarrow>
               update_all (AList.delete ''params'' as)
                 (h\<lparr> parameter_annotations := fold (\<lambda>(k, v). AList.update k v) ps (parameter_annotations h),
                     table := AList.update (decl_text d) (AList.delete ''params'' as) (table h) \<rparr>)
           | _ \<Rightarrow> update_all as h))"

definition from_table :: "decl \<Rightarrow> bool" where
  "from_table d \<longleftrightarrow> kind d \<in> {Free_function, Member_function, Constructor}"

section \<open>The hooks\<close>

definition pre_scan_hook :: "decl \<Rightarrow> hook \<Rightarrow> hook res option" where
  "pre_scan_hook d h =
     map_option (\<lambda>r. bind_res r (\<lambda>ns3_header.
        let h1 = fix_defaults d (annotate_methods d
                   (annotate ''pygen_comment'' (AStr (ns3_header @ '': '' @ decl_text d)) h))
        in Inr (if kind d = Class_decl then annotate_class d h1
                else if kind d = Free_function \<and> decl_name d = ''PeekPointer'' then annotate ''ignore'' ANone h1
                else if from_table d then annotate_function d h1 else h1)))
       (get_ns3_relative_path (location d))"

text \<open>
  The modular scanner. The module of a template instantiation is the scanned one when an argument belongs to
  it. A header that is in no module is a KeyError.
\<close>

definition header_module :: "(string, string) dict \<Rightarrow> string \<Rightarrow> string res" where
  "header_module headers_map h = (case map_of headers_map h of None \<Rightarrow> Inl KeyError | Some m \<Rightarrow> Inr m)"

definition argument_module :: "(string, string) dict \<Rightarrow> string \<Rightarrow> string list res" where
  "argument_module headers_map file =
     (case get_ns3_relative_path_modular file of
        Inl e \<Rightarrow> if e = ValueError then Inr [] else Inl e
      | Inr h \<Rightarrow> bind_res (header_module headers_map h) (\<lambda>m. Inr [m]))"

definition class_module :: "(string, string) dict \<Rightarrow> string \<Rightarrow> decl \<Rightarrow> string \<Rightarrow> string res" where
  "class_module headers_map this_module d definition_module =
     (if kind d = Class_decl \<and> is_instantiation d
      then bind_res (map_res (argument_module headers_map) (parameter_locations d)) (\<lambda>ms.
             Inr (if this_module \<in> set (concat ms) then this_module else definition_module))
      else Inr definition_module)"

definition PreScanHook :: "(string, string) dict \<Rightarrow> string \<Rightarrow> decl \<Rightarrow> hook \<Rightarrow> hook res" where
  "PreScanHook headers_map this_module d h =
     (case get_ns3_relative_path_modular (location d) of
        Inl e \<Rightarrow> if e = ValueError then Inr h else Inl e
      | Inr ns3_header \<Rightarrow>
          bind_res (header_module headers_map ns3_header) (\<lambda>m0.
            let h1 = fix_defaults d (annotate_methods d (annotate ''pygen_comment''
                       (AStr (ns3_header @ '' (module '' @ py_repr m0 @ ''): '' @ decl_text d)) h))
            in bind_res (class_module headers_map this_module d m0) (\<lambda>m.
                 Inr (if kind d = Class_decl then
                        annotate_class d (if m \<noteq> this_module
                          then annotate ''import_from_module'' (AStr (''ns.'' @ replace_char (CHR ''-'') ''_'' m)) h1 else h1)
                      else if kind d = Enumeration then
                        (if m \<noteq> this_module then annotate ''import_from_module'' (AStr (''ns.'' @ m)) h1 else h1)
                      else if kind d = Free_function \<and> (m \<noteq> this_module \<or> decl_name d = ''PeekPointer'')
                      then annotate ''ignore'' ANone h1
                      else if from_table d then annotate_function d h1 else h1))))"

section \<open>Sections of the generated module\<close>

type_synonym modules = "(string, string list \<times> string list) dict"

definition module_graph :: "modules \<Rightarrow> (string \<times> string) list" where
  "module_graph ns3 =
     concat (map (\<lambda>m. map (\<lambda>dep. (dep, m)) (sort (fst (the (map_of ns3 m))))) (sort (keys ns3)))"

record sections =
  section_files :: "(string \<times> string \<times> string option) list"
  headers_map :: "(string, string) dict"
  section_precendences :: "(string, int) dict"

definition section_name :: "string \<Rightarrow> string" where
  "section_name m = ''ns3_module_'' @ replace_char (CHR ''-'') ''_'' m"

definition enter_module :: "string \<Rightarrow> modules \<Rightarrow> nat \<times> string \<Rightarrow> sections \<Rightarrow> sections res" where
  "enter_module pygen_file_name ns3 = (\<lambda>(prec, m) s.
     (case map_of ns3 m of
        None \<Rightarrow> Inl KeyError
      | Some (deps, headers) \<Rightarrow>
          Inr (s\<lparr> section_files := section_files s @
                    [(section_name m, path_join (path_head pygen_file_name) (section_name m @ ''.py''),
                      Some (section_name m @ ''__local''))],
                  headers_map := fold (\<lambda>h. AList.update h (section_name m)) headers (headers_map s),
                  section_precendences := AList.update (section_name m) (int prec) (section_precendences s) \<rparr>)))"

text \<open>The first part of \<open>ns3_module_scan\<close>, up to the creation of the parser.\<close>

definition plan_sections :: "(string list \<Rightarrow> string list) \<Rightarrow> string \<Rightarrow> modules \<Rightarrow> sections res" where
  "plan_sections ko pygen_file_name ns3 =
     (case topsort ko (module_graph ns3) of
        Inl (CycleError xs np ch) \<Rightarrow> Inl (PyException ''CycleError'')
      | Inl TopKeyError \<Rightarrow> Inl KeyError
      | Inr ms \<Rightarrow>
          fold_res (enter_module pygen_file_name ns3) (zip [0..<length ms] ms)
            \<lparr> section_files = [(''__main__'', pygen_file_name, None)], headers_map = [], section_precendences = [] \<rparr>)"

text \<open>\<open>MyPygenClassifier\<close>.\<close>

definition classify :: "sections \<Rightarrow> decl \<Rightarrow> string" where
  "classify s d =
     (case map_of (headers_map s) (path_basename (location d)) of Some n \<Rightarrow> n | None \<Rightarrow> ''__main__'')"


text \<open>\<open>scan_callback_classes\<close>: the lines of the file, with the printed template parameters of each class given.\<close>

definition scan_callback_classes :: "(decl \<times> string) list \<Rightarrow> string list res" where
  "scan_callback_classes cs =
     bind_res (map_res (\<lambda>(d, params).
          if \<not> startswith (decl_name d) ''Callback<'' then Inr []
          else if \<not> is_instantiation d then Inl AssertionError
          else Inr [''    '' @ params @ '','']) cs)
       (\<lambda>ls. Inr ([''callback_classes = [''] @ concat ls @ ['']'']))"

section \<open>Header paths: lemmas\<close>

definition header_comp :: "string \<Rightarrow> bool" where
  "header_comp c \<longleftrightarrow> CHR ''/'' \<notin> set c \<and> c \<noteq> [] \<and> c \<noteq> ''ns3''"

lemma join_snoc: "cs \<noteq> [] \<Longrightarrow> str_join ''/'' (cs @ [c]) = str_join ''/'' cs @ CHR ''/'' # c"
  by (cases cs) (simp_all add: str_join_def)

lemma join_last: "b \<noteq> [] \<Longrightarrow> last (str_join ''/'' (bs @ [b])) = last b \<and> str_join ''/'' (bs @ [b]) \<noteq> []"
proof (cases "bs = []")
  case True
  assume "b \<noteq> []"
  with True show ?thesis by (simp add: str_join_def)
next
  case False
  assume "b \<noteq> []"
  with False show ?thesis by (simp add: join_snoc)
qed

lemma loops_step:
  assumes "x \<noteq> []" "last x \<noteq> CHR ''/''" "header_comp c"
  shows "relative_loop (x @ CHR ''/'' # c) l = relative_loop x (c # l)"
    and "modular_loop (x @ CHR ''/'' # c) l = modular_loop x (c # l)"
proof -
  have c: "CHR ''/'' \<notin> set c" "c \<noteq> ''ns3''" using assms(3) by (auto simp: header_comp_def)
  show "relative_loop (x @ CHR ''/'' # c) l = relative_loop x (c # l)"
    by (subst relative_loop.simps) (simp add: path_split_last c assms)
  show "modular_loop (x @ CHR ''/'' # c) l = modular_loop x (c # l)"
    by (subst modular_loop.simps) (simp add: path_split_last c assms)
qed

lemma loops_prefix:
  assumes "x \<noteq> []" "last x \<noteq> CHR ''/''" "list_all header_comp cs" "cs \<noteq> []"
  shows "relative_loop (x @ CHR ''/'' # str_join ''/'' cs) l = relative_loop x (cs @ l)
    \<and> modular_loop (x @ CHR ''/'' # str_join ''/'' cs) l = modular_loop x (cs @ l)"
  using assms(3,4)
proof (induction cs arbitrary: l rule: rev_induct)
  case (snoc c cs)
  show ?case
  proof (cases "cs = []")
    case True
    with snoc loops_step [OF assms(1,2)] show ?thesis by (simp add: str_join_def)
  next
    case False
    let ?y = "x @ CHR ''/'' # str_join ''/'' cs"
    obtain bs b where cs: "cs = bs @ [b]" using False by (cases cs rule: rev_cases) auto
    have b: "b \<noteq> []" "CHR ''/'' \<notin> set b" using snoc.prems by (auto simp: cs header_comp_def)
    have "last ?y = last b" using join_last [OF b(1), of bs] by (simp add: cs)
    then have "last ?y \<noteq> CHR ''/''" using b last_in_set [of b] by metis
    from loops_step [OF _ this, of c l] snoc False show ?thesis by (simp add: join_snoc)
  qed
qed simp

lemma join_proper: "list_all header_comp cs \<Longrightarrow> cs \<noteq> [] \<Longrightarrow> path_join_list cs = str_join ''/'' cs"
proof (induction cs rule: rev_induct)
  case (snoc c cs)
  show ?case
  proof (cases "cs = []")
    case True
    then show ?thesis by (simp add: path_join_list_def str_join_def)
  next
    case False
    obtain bs b where cs: "cs = bs @ [b]" using False by (cases cs rule: rev_cases) auto
    have b: "b \<noteq> []" "CHR ''/'' \<notin> set b" using snoc.prems by (auto simp: cs header_comp_def)
    have "last (str_join ''/'' cs) = last b" using join_last [OF b(1), of bs] by (simp add: cs)
    then have l: "last (str_join ''/'' cs) \<noteq> CHR ''/''" using b last_in_set [of b] by metis
    have "str_join ''/'' cs \<noteq> []" using join_last [OF b(1), of bs] by (simp add: cs)
    moreover have "\<not> startswith c ''/''" using snoc.prems by (auto simp: header_comp_def prefix_def)
    moreover have "path_join_list (cs @ [c]) = path_join (path_join_list cs) c" using False by (simp add: path_join_list_def)
    ultimately show ?thesis using snoc False l by (simp add: path_join_def join_snoc)
  qed
qed simp

text \<open>An absolute path outside of every directory \<open>ns3\<close>.\<close>

definition outside :: "string \<Rightarrow> bool" where
  "outside p \<longleftrightarrow> startswith p ''/'' \<and> ''ns3'' \<notin> set (split_char (CHR ''/'') p)"

lemma outside_head: "outside p \<Longrightarrow> outside (path_head p)"
  using path_head_components [of p] by (auto simp: outside_def)

lemma outside_base: "outside p \<Longrightarrow> path_basename p \<noteq> ''ns3'' \<and> p \<noteq> []"
  using base_in_components [of p] by (auto simp: outside_def)

lemma relative_loop_outside: "relative_loop p l = Some r \<Longrightarrow> \<not> outside p"
proof (erule relative_loop.raw_induct [where P = "\<lambda>p l r. \<not> outside p", rotated])
  fix f p l r
  assume IH: "\<And>p l r. f p l = Some r \<Longrightarrow> \<not> outside p"
    and r: "(if p = [] then Some (Inl AssertionError)
      else if path_basename p = ''ns3'' then Some (if l = [] then Inl TypeError else Inr (path_join_list l))
      else f (path_head p) (path_basename p # l)) = Some r"
  show "\<not> outside p"
  proof
    assume o: "outside p"
    from r outside_base [OF o] have "f (path_head p) (path_basename p # l) = Some r" by simp
    with IH outside_head [OF o] show False by blast
  qed
qed

lemma modular_loop_outside: "outside p \<Longrightarrow> modular_loop p l = Inl ValueError"
proof (induction p l rule: modular_loop.induct)
  case (1 p l)
  then show ?case using outside_head outside_base by (subst modular_loop.simps) auto
qed

section \<open>Sections: lemmas\<close>

definition headers_of :: "modules \<Rightarrow> string \<Rightarrow> string set" where
  "headers_of ns3 m = (case map_of ns3 m of None \<Rightarrow> {} | Some (deps, hs) \<Rightarrow> set hs)"

lemma fold_headers: "map_of (fold (\<lambda>h. AList.update h n) hs d) x = (if x \<in> set hs then Some n else map_of d x)"
  by (induction hs arbitrary: d) auto

lemma enter_module_Inr:
  assumes "m \<in> set (keys ns3)"
  shows "\<exists>s'. enter_module f ns3 (n, m) s = Inr s'
    \<and> section_precendences s' = AList.update (section_name m) (int n) (section_precendences s)
    \<and> (\<forall>x. map_of (headers_map s') x = (if x \<in> headers_of ns3 m then Some (section_name m) else map_of (headers_map s) x))"
proof (cases "map_of ns3 m")
  case None
  with assms show ?thesis by (simp add: map_of_eq_None_iff)
next
  case (Some e)
  then show ?thesis by (cases e) (simp add: enter_module_def headers_of_def fold_headers)
qed

text \<open>What the loop over the sorted modules \<open>ms\<close>, counted from \<open>n\<close>, does to the maps.\<close>

definition entered :: "modules \<Rightarrow> string list \<Rightarrow> nat \<Rightarrow> sections \<Rightarrow> sections \<Rightarrow> bool" where
  "entered ns3 ms n s s' \<longleftrightarrow>
     (\<forall>i < length ms. map_of (section_precendences s') (section_name (ms ! i)) = Some (int (n + i)))
     \<and> (\<forall>x. x \<notin> section_name ` set ms \<longrightarrow> map_of (section_precendences s') x = map_of (section_precendences s) x)
     \<and> (\<forall>x. (\<forall>m \<in> set ms. x \<notin> headers_of ns3 m) \<longrightarrow> map_of (headers_map s') x = map_of (headers_map s) x)
     \<and> (\<forall>m \<in> set ms. \<forall>x \<in> headers_of ns3 m. (\<forall>k \<in> set ms. x \<in> headers_of ns3 k \<longrightarrow> k = m)
          \<longrightarrow> map_of (headers_map s') x = Some (section_name m))"

lemma entered_Cons:
  assumes e: "entered ns3 ms (Suc n) s1 s'"
    and p: "section_precendences s1 = AList.update (section_name m) (int n) (section_precendences s)"
    and h: "\<forall>x. map_of (headers_map s1) x = (if x \<in> headers_of ns3 m then Some (section_name m) else map_of (headers_map s) x)"
    and d: "section_name m \<notin> section_name ` set ms"
  shows "entered ns3 (m # ms) n s s'"
  unfolding entered_def
proof (intro conjI allI impI ballI)
  fix i assume i: "i < length (m # ms)"
  from e have later: "\<forall>i < length ms. map_of (section_precendences s') (section_name (ms ! i)) = Some (int (Suc n + i))"
    and same: "map_of (section_precendences s') (section_name m) = map_of (section_precendences s1) (section_name m)"
    using d unfolding entered_def by blast+
  show "map_of (section_precendences s') (section_name ((m # ms) ! i)) = Some (int (n + i))"
  proof (cases i)
    case 0
    with same p show ?thesis by simp
  next
    case (Suc j)
    with later i show ?thesis by simp
  qed
next
  fix x assume x: "x \<notin> section_name ` set (m # ms)"
  then have "x \<notin> section_name ` set ms" by simp
  with e have "map_of (section_precendences s') x = map_of (section_precendences s1) x" unfolding entered_def by blast
  with p x show "map_of (section_precendences s') x = map_of (section_precendences s) x" by simp
next
  fix x assume x: "\<forall>k \<in> set (m # ms). x \<notin> headers_of ns3 k"
  then have "\<forall>k \<in> set ms. x \<notin> headers_of ns3 k" by simp
  with e have "map_of (headers_map s') x = map_of (headers_map s1) x" unfolding entered_def by blast
  with h x show "map_of (headers_map s') x = map_of (headers_map s) x" by simp
next
  fix l x
  assume l: "l \<in> set (m # ms)" "x \<in> headers_of ns3 l" "\<forall>k \<in> set (m # ms). x \<in> headers_of ns3 k \<longrightarrow> k = l"
  show "map_of (headers_map s') x = Some (section_name l)"
  proof (cases "l \<in> set ms")
    case True
    moreover have "\<forall>k \<in> set ms. x \<in> headers_of ns3 k \<longrightarrow> k = l" using l(3) by simp
    ultimately show ?thesis using e l(2) unfolding entered_def by blast
  next
    case False
    with l have m: "l = m" "\<forall>k \<in> set ms. x \<notin> headers_of ns3 k" by auto
    with e have "map_of (headers_map s') x = map_of (headers_map s1) x" unfolding entered_def by blast
    with h l(2) m(1) show ?thesis by simp
  qed
qed

lemma enter_modules:
  "set ms \<subseteq> set (keys ns3) \<Longrightarrow> distinct (map section_name ms)
   \<Longrightarrow> \<exists>s'. fold_res (enter_module f ns3) (zip [n..<n + length ms] ms) s = Inr s' \<and> entered ns3 ms n s s'"
proof (induction ms arbitrary: n s)
  case Nil
  then show ?case by (simp add: entered_def)
next
  case (Cons m ms)
  then have "m \<in> set (keys ns3)" by simp
  from enter_module_Inr [OF this, of f n s] obtain s1 where s1: "enter_module f ns3 (n, m) s = Inr s1"
    and p: "section_precendences s1 = AList.update (section_name m) (int n) (section_precendences s)"
    and h: "\<forall>x. map_of (headers_map s1) x = (if x \<in> headers_of ns3 m then Some (section_name m) else map_of (headers_map s) x)"
    by blast
  have "set ms \<subseteq> set (keys ns3)" "distinct (map section_name ms)" using Cons.prems by simp_all
  from Cons.IH [OF this, of "Suc n" s1] obtain s'
    where s': "fold_res (enter_module f ns3) (zip [Suc n..<Suc n + length ms] ms) s1 = Inr s'"
      and e: "entered ns3 ms (Suc n) s1 s'" by blast
  have "section_name m \<notin> section_name ` set ms" using Cons.prems(2) by simp
  from entered_Cons [OF e p h this] have "entered ns3 (m # ms) n s s'" .
  moreover have "zip [n..<n + length (m # ms)] (m # ms) = (n, m) # zip [Suc n..<Suc n + length ms] ms"
    by (simp add: upt_conv_Cons del: upt_Suc)
  ultimately show ?case using s1 s' by (metis bind_res_simps(2) fold_res.simps(2))
qed

text \<open>The dependencies of every module are modules, and the names of two sections differ.\<close>

definition closed_modules :: "modules \<Rightarrow> bool" where
  "closed_modules ns3 \<longleftrightarrow>
     (\<forall>(dep, m) \<in> set (module_graph ns3). dep \<in> set (keys ns3)) \<and> inj_on section_name (nodes (module_graph ns3))"

lemma graph_module: "(dep, m) \<in> set (module_graph ns3) \<Longrightarrow> m \<in> set (keys ns3)"
  by (auto simp: module_graph_def)

lemma nodes_are_modules: "closed_modules ns3 \<Longrightarrow> nodes (module_graph ns3) \<subseteq> set (keys ns3)"
  by (auto simp: closed_modules_def nodes_def dest: graph_module)

definition no_sections :: "string \<Rightarrow> sections" where
  "no_sections f = \<lparr> section_files = [(''__main__'', f, None)], headers_map = [], section_precendences = [] \<rparr>"

lemma plan_sections_outcome:
  assumes "key_order ko" "closed_modules ns3"
  shows "(\<not> acyclic (set (module_graph ns3)) \<and> plan_sections ko f ns3 = Inl (PyException ''CycleError''))
    \<or> (\<exists>ms s. dependency_order (module_graph ns3) ms \<and> plan_sections ko f ns3 = Inr s
        \<and> entered ns3 ms 0 (no_sections f) s)"
  using topsort_outcome [OF assms(1), of "module_graph ns3"]
proof (elim disjE exE conjE)
  fix ms assume t: "topsort ko (module_graph ns3) = Inr ms" and d: "dependency_order (module_graph ns3) ms"
  have ms: "set ms \<subseteq> set (keys ns3)" "distinct (map section_name ms)"
    using d nodes_are_modules [OF assms(2)] assms(2)
    by (simp_all add: dependency_order_def closed_modules_def distinct_map)
  have "plan_sections ko f ns3 = fold_res (enter_module f ns3) (zip [0..<0 + length ms] ms) (no_sections f)"
    by (simp add: plan_sections_def t no_sections_def)
  with d enter_modules [OF ms, of f 0 "no_sections f"] show ?thesis by metis
next
  fix xs np ch assume "topsort ko (module_graph ns3) = Inl (CycleError xs np ch)" "\<not> acyclic (set (module_graph ns3))"
  then show ?thesis by (simp add: plan_sections_def)
qed

lemma module_graph_mem:
  "(dep, m) \<in> set (module_graph ns3) \<longleftrightarrow> m \<in> set (keys ns3) \<and> dep \<in> set (fst (the (map_of ns3 m)))"
  by (auto simp: module_graph_def)

definition isolated :: "modules \<Rightarrow> string \<Rightarrow> bool" where
  "isolated ns3 m \<longleftrightarrow> (\<forall>(k, deps, hs) \<in> set ns3. m \<notin> set deps \<and> (k = m \<longrightarrow> deps = []))"

lemma isolated_no_node:
  assumes "wf_dict ns3" "m \<in> set (keys ns3)"
  shows "isolated ns3 m \<longleftrightarrow> m \<notin> nodes (module_graph ns3)"
proof -
  have e: "map_of ns3 k = Some (deps, hs) \<longleftrightarrow> (k, deps, hs) \<in> set ns3" for k deps hs
    using assms(1) by (simp add: wf_dict_def)
  have "m \<in> nodes (module_graph ns3) \<longleftrightarrow> (\<exists>k. (m, k) \<in> set (module_graph ns3)) \<or> (\<exists>d. (d, m) \<in> set (module_graph ns3))"
    by (force simp: nodes_def)
  also have "\<dots> \<longleftrightarrow> (\<exists>k deps hs. (k, deps, hs) \<in> set ns3 \<and> (m \<in> set deps \<or> k = m \<and> deps \<noteq> []))"
  proof
    assume "(\<exists>k. (m, k) \<in> set (module_graph ns3)) \<or> (\<exists>d. (d, m) \<in> set (module_graph ns3))"
    then obtain k d where k: "(d, k) \<in> set (module_graph ns3)" "d = m \<or> k = m" by blast
    obtain deps hs where "map_of ns3 k = Some (deps, hs)"
      using graph_module [OF k(1)] by (metis map_of_eq_None_iff not_None_eq set_map surj_pair)
    moreover from this k have "d \<in> set deps" by (simp add: module_graph_mem)
    ultimately show "\<exists>k deps hs. (k, deps, hs) \<in> set ns3 \<and> (m \<in> set deps \<or> k = m \<and> deps \<noteq> [])"
      using k(2) e by (metis empty_iff empty_set)
  next
    assume "\<exists>k deps hs. (k, deps, hs) \<in> set ns3 \<and> (m \<in> set deps \<or> k = m \<and> deps \<noteq> [])"
    then obtain k deps hs where k: "map_of ns3 k = Some (deps, hs)" "m \<in> set deps \<or> k = m \<and> deps \<noteq> []"
      using e by blast
    moreover from this have "k \<in> set (keys ns3)" by (metis map_of_eq_None_iff option.distinct(1) set_map)
    ultimately have "d \<in> set deps \<Longrightarrow> (d, k) \<in> set (module_graph ns3)" for d by (simp add: module_graph_mem)
    with k(2) show "(\<exists>k. (m, k) \<in> set (module_graph ns3)) \<or> (\<exists>d. (d, m) \<in> set (module_graph ns3))"
      by (metis list.set_sel(1))
  qed
  finally show ?thesis by (auto simp: isolated_def)
qed

definition a_decl :: "string \<Rightarrow> decl" where
  "a_decl file = \<lparr> kind = Member_function, decl_name = ''GetSeed'', decl_string = ''::ns3::RandomVariable::GetSeed'',
     decl_text = ''void ns3::RandomVariable::GetSeed(uint32_t * seed) const [member function]'', parent_name = ''RandomVariable'',
     demangled_args = [], location = file, is_instantiation = False, parameter_locations = [] \<rparr>"

definition some_modules :: modules where
  "some_modules =
     [(''wi-fi'', [''core''], [''wifi.h'']), (''core'', [], [''object.h'']), (''tools'', [], [''gnuplot.h''])]"

lemma some_modules_closed: "closed_modules some_modules"
proof -
  have "module_graph some_modules = [(''core'', ''wi-fi'')]" by code_simp
  then show ?thesis by (simp add: closed_modules_def nodes_def some_modules_def section_name_def replace_char_def)
qed

section \<open>The hooks: lemmas\<close>

lemma annotate_keeps [simp]:
  "table (annotate k v h) = table h" "parameter_annotations (annotate k v h) = parameter_annotations h"
  by (simp_all add: annotate_def)

lemma update_all_keeps [simp]:
  "table (update_all as h) = table h" "parameter_annotations (update_all as h) = parameter_annotations h"
  by (induction as arbitrary: h) (auto simp: update_all_def)

lemma methods_keep [simp]:
  "table (annotate_methods d h) = table h" "parameter_annotations (annotate_methods d h) = parameter_annotations h"
  by (simp_all add: annotate_methods_def Let_def)

lemma defaults_keep [simp]:
  "table (fix_defaults d h) = table h" "parameter_annotations (fix_defaults d h) = parameter_annotations h"
  by (simp_all add: fix_defaults_def)

lemma map_of_update_all_other:
  "x \<notin> fst ` set as \<Longrightarrow> map_of (global_annotations (update_all as h)) x = map_of (global_annotations h) x"
  by (induction as arbitrary: h) (auto simp: update_all_def annotate_def)

lemma annotate_class_import:
  assumes "map_of (global_annotations h) ''import_from_module'' = Some a"
    and "\<forall>as. map_of (table h) (decl_string c) = Some as \<longrightarrow> ''import_from_module'' \<notin> set (keys as)"
  shows "map_of (global_annotations (annotate_class c h)) ''import_from_module'' = Some a"
proof -
  have "map_of (global_annotations (update_all as h)) ''import_from_module'' = Some a"
    if "map_of (table h) (decl_string c) = Some as" for as
    using that assms map_of_update_all_other [of "''import_from_module''" as h] by simp
  with assms(1) show ?thesis by (auto simp: annotate_class_def annotate_def split: option.split)
qed

lemma fold_update_lookup: "wf_dict ps \<Longrightarrow> (p, a) \<in> set ps \<Longrightarrow> map_of (fold (\<lambda>(k, v). AList.update k v) ps d) p = Some a"
proof (induction ps arbitrary: d)
  case (Cons e ps)
  have keep: "p \<notin> fst ` set ps \<Longrightarrow> map_of (fold (\<lambda>(k, v). AList.update k v) ps d) p = map_of d p" for d
    by (induction ps arbitrary: d) auto
  show ?case
  proof (cases "(p, a) = e")
    case True
    with Cons.prems keep show ?thesis by (auto simp: wf_dict_def)
  next
    case False
    with Cons show ?thesis by (simp add: wf_dict_def)
  qed
qed simp

text \<open>The hook on a function, in one equation.\<close>

lemma pre_scan_hook_function:
  assumes "from_table d" "kind d \<noteq> Free_function \<or> decl_name d \<noteq> ''PeekPointer''"
    and "get_ns3_relative_path (location d) = Some (Inr x)"
  shows "pre_scan_hook d h = Some (Inr (annotate_function d (fix_defaults d (annotate_methods d
           (annotate ''pygen_comment'' (AStr (x @ '': '' @ decl_text d)) h)))))"
  using assms by (auto simp: pre_scan_hook_def from_table_def)

lemma pre_scan_hook_path:
  "pre_scan_hook d h = Some (Inr h') \<Longrightarrow> \<exists>x. get_ns3_relative_path (location d) = Some (Inr x)"
  by (auto simp: pre_scan_hook_def bind_res_Inr_iff)

section \<open>Properties\<close>

text \<open>
  C25. A header outside of the directories \<open>ns3\<close>: for an absolute path without such a component the first scanner never returns,
  since the head of the root is the root; the modular scanner raises ValueError, by which its hook leaves the
  declaration alone.
\<close>

theorem foreign_header:
  assumes "startswith path ''/''" "''ns3'' \<notin> set (split_char (CHR ''/'') path)"
  shows "get_ns3_relative_path path = None \<and> get_ns3_relative_path_modular path = Inl ValueError"
proof -
  have o: "outside path" using assms by (simp add: outside_def)
  show ?thesis
  proof
    show "get_ns3_relative_path path = None"
      using relative_loop_outside [of path "[]"] o by (cases "relative_loop path []") (auto simp: get_ns3_relative_path_def)
    show "get_ns3_relative_path_modular path = Inl ValueError"
      using modular_loop_outside [OF o] by (simp add: get_ns3_relative_path_modular_def)
  qed
qed

theorem foreign_header_witness:
  "get_ns3_relative_path ''/usr/include/x.h'' = None \<and> get_ns3_relative_path_modular ''/usr/include/x.h'' = Inl ValueError"
  by (rule foreign_header) simp_all

text \<open>
  A header below \<open>ns3\<close>: both scanners return the path behind the last component \<open>ns3\<close>, whatever stands before it.
\<close>

theorem header_path_found:
  assumes "cs \<noteq> []" "list_all header_comp cs" "pre = [] \<or> last pre = CHR ''/''"
  shows "get_ns3_relative_path (pre @ ''ns3/'' @ str_join ''/'' cs) = Some (Inr (str_join ''/'' cs))
    \<and> get_ns3_relative_path_modular (pre @ ''ns3/'' @ str_join ''/'' cs) = Inr (str_join ''/'' cs)"
proof -
  have base: "path_basename (pre @ ''ns3'') = ''ns3'' \<and> path_head (pre @ ''ns3'') \<noteq> pre @ ''ns3''"
  proof (cases "pre = []")
    case True
    then show ?thesis by (simp add: path_basename_def path_head_def Let_def)
  next
    case False
    with assms(3) obtain q where "pre = q @ [CHR ''/'']" by (metis append_butlast_last_id)
    then have "path_basename (pre @ ''ns3'') = ''ns3''" using path_split_last(1) [of "''ns3''" q] by simp
    moreover have "path_head (pre @ ''ns3'') \<noteq> pre @ ''ns3''"
    proof
      assume e: "path_head (pre @ ''ns3'') = pre @ ''ns3''"
      from path_head_cases [of "pre @ ''ns3''"] show False unfolding e using calculation by auto
    qed
    ultimately show ?thesis by blast
  qed
  have "relative_loop (pre @ ''ns3'') cs = Some (Inr (path_join_list cs))"
    "modular_loop (pre @ ''ns3'') cs = Inr (path_join_list cs)"
    using base assms(1) by (subst relative_loop.simps modular_loop.simps; simp)+
  moreover have "last (pre @ ''ns3'') \<noteq> CHR ''/''" by simp
  ultimately show ?thesis
    using loops_prefix [of "pre @ ''ns3''" cs "[]"] assms(1,2)
    by (simp add: get_ns3_relative_path_def get_ns3_relative_path_modular_def join_proper)
qed

theorem header_path_found_witness:
  "get_ns3_relative_path (''build/debug/'' @ ''ns3/'' @ str_join ''/'' [''a.h'']) = Some (Inr (str_join ''/'' [''a.h'']))
   \<and> get_ns3_relative_path_modular (''build/debug/'' @ ''ns3/'' @ str_join ''/'' [''a.h'']) = Inr (str_join ''/'' [''a.h''])"
  by (rule header_path_found) (simp_all add: header_comp_def)



text \<open>
  The section of a declaration: a header that belongs to one module puts its declarations into the section of this
  module, but into the main section if the module has no dependencies and no module depends on it, since
  it is not in the graph.
\<close>

theorem header_sections:
  assumes "key_order ko" "closed_modules ns3" "wf_dict ns3" "plan_sections ko f ns3 = Inr s"
    and "m \<in> set (keys ns3)" "path_basename (location d) \<in> headers_of ns3 m"
    and "\<And>k. path_basename (location d) \<in> headers_of ns3 k \<Longrightarrow> k = m"
  shows "classify s d = (if isolated ns3 m then ''__main__'' else section_name m)"
proof -
  let ?h = "path_basename (location d)"
  from plan_sections_outcome [OF assms(1,2), of f] assms(4) obtain ms
    where d: "dependency_order (module_graph ns3) ms" and e: "entered ns3 ms 0 (no_sections f) s" by auto
  have iso: "isolated ns3 m \<longleftrightarrow> m \<notin> set ms"
    using isolated_no_node [OF assms(3,5)] d by (simp add: dependency_order_def)
  show ?thesis
  proof (cases "m \<in> set ms")
    case True
    with e assms(6,7) have "map_of (headers_map s) ?h = Some (section_name m)" unfolding entered_def by blast
    with True iso show ?thesis by (simp add: classify_def)
  next
    case False
    then have "\<forall>k \<in> set ms. ?h \<notin> headers_of ns3 k" using assms(7) by blast
    with e have "map_of (headers_map s) ?h = map_of (headers_map (no_sections f)) ?h" unfolding entered_def by blast
    with False iso show ?thesis by (simp add: classify_def no_sections_def)
  qed
qed

theorem header_sections_witness:
  "\<exists>s. plan_sections id ''ns3.py'' some_modules = Inr s
    \<and> classify s (a_decl ''build/ns3/wifi.h'') = ''ns3_module_wi_fi''
    \<and> classify s (a_decl ''build/ns3/gnuplot.h'') = ''__main__''"
proof -
  have "isl (plan_sections id ''ns3.py'' some_modules) \<longleftrightarrow> False" by code_simp
  then obtain s where s: "plan_sections id ''ns3.py'' some_modules = Inr s" by (cases "plan_sections id ''ns3.py'' some_modules") simp_all
  have i: "\<not> isolated some_modules ''wi-fi''" "isolated some_modules ''tools''" by (simp_all add: isolated_def some_modules_def)
  have w: "wf_dict some_modules" by (simp add: wf_dict_def some_modules_def)
  have l: "location (a_decl x) = x" for x by (simp add: a_decl_def)
  have n: "section_name ''wi-fi'' = ''ns3_module_wi_fi''" by code_simp
  have b: "path_basename ''build/ns3/wifi.h'' = ''wifi.h''" "path_basename ''build/ns3/gnuplot.h'' = ''gnuplot.h''" by code_simp+
  have o: "''wifi.h'' \<in> headers_of some_modules k \<Longrightarrow> k = ''wi-fi''" "''gnuplot.h'' \<in> headers_of some_modules k \<Longrightarrow> k = ''tools''" for k
    by (auto simp: headers_of_def some_modules_def split: if_splits)
  have "classify s (a_decl ''build/ns3/wifi.h'') = (if isolated some_modules ''wi-fi'' then ''__main__'' else section_name ''wi-fi'')"
  proof (rule header_sections [OF _ some_modules_closed w s])
    show "''wi-fi'' \<in> set (keys some_modules)" by (simp add: some_modules_def)
    show "path_basename (location (a_decl ''build/ns3/wifi.h'')) \<in> headers_of some_modules ''wi-fi''"
      unfolding l b by (simp add: headers_of_def some_modules_def)
    show "path_basename (location (a_decl ''build/ns3/wifi.h'')) \<in> headers_of some_modules k \<Longrightarrow> k = ''wi-fi''" for k
      unfolding l b by (rule o)
  qed simp
  moreover have "classify s (a_decl ''build/ns3/gnuplot.h'') = (if isolated some_modules ''tools'' then ''__main__'' else section_name ''tools'')"
  proof (rule header_sections [OF _ some_modules_closed w s])
    show "''tools'' \<in> set (keys some_modules)" by (simp add: some_modules_def)
    show "path_basename (location (a_decl ''build/ns3/gnuplot.h'')) \<in> headers_of some_modules ''tools''"
      unfolding l b by (simp add: headers_of_def some_modules_def)
    show "path_basename (location (a_decl ''build/ns3/gnuplot.h'')) \<in> headers_of some_modules k \<Longrightarrow> k = ''tools''" for k
      unfolding l b by (rule o)
  qed simp
  ultimately show ?thesis using s i n by simp
qed

text \<open>
  C24. The table is used up: the first call of the hook on a function or method with parameter annotations hands these over and
  deletes them from the table, so every later call on it, which finds the table this call has left, leaves the
  parameter annotations as they are.
\<close>

theorem params_consumed:
  assumes "from_table d" "kind d \<noteq> Free_function \<or> decl_name d \<noteq> ''PeekPointer''"
    and "map_of (table h) (decl_text d) = Some as" "wf_dict as" "map_of as ''params'' = Some (AParams ps)" "wf_dict ps"
    and "pre_scan_hook d h = Some (Inr h1)"
  shows "(\<forall>(p, a) \<in> set ps. map_of (parameter_annotations h1) p = Some a)
    \<and> (\<forall>h2. table h2 = table h1 \<longrightarrow> (\<exists>h3. pre_scan_hook d h2 = Some (Inr h3)
         \<and> parameter_annotations h3 = parameter_annotations h2 \<and> table h3 = table h1))"
proof -
  from pre_scan_hook_path [OF assms(7)] obtain x where x: "get_ns3_relative_path (location d) = Some (Inr x)" by blast
  note hook = pre_scan_hook_function [OF assms(1,2) x]
  have h1: "parameter_annotations h1 = fold (\<lambda>(k, v). AList.update k v) ps (parameter_annotations h)"
    "table h1 = AList.update (decl_text d) (AList.delete ''params'' as) (table h)"
    using assms(3,5,7) by (auto simp: hook annotate_function_def)
  have gone: "map_of (AList.delete ''params'' as) ''params'' = None"
    by (simp add: delete_conv')
  show ?thesis
  proof (intro conjI allI impI)
    show "\<forall>(p, a) \<in> set ps. map_of (parameter_annotations h1) p = Some a"
      using fold_update_lookup [OF assms(6)] by (auto simp: h1(1))
  next
    fix h2 :: hook assume t: "table h2 = table h1"
    then have "map_of (table h2) (decl_text d) = Some (AList.delete ''params'' as)" by (simp add: h1(2))
    with gone t show "\<exists>h3. pre_scan_hook d h2 = Some (Inr h3) \<and> parameter_annotations h3 = parameter_annotations h2
        \<and> table h3 = table h1"
      by (simp add: hook annotate_function_def)
  qed
qed

definition fresh_hook :: hook where
  "fresh_hook = \<lparr> global_annotations = [], parameter_annotations = [], default_values = [None], table = type_annotations \<rparr>"

theorem params_consumed_witness:
  "\<exists>h1. pre_scan_hook (a_decl (''/b/'' @ ''ns3/'' @ str_join ''/'' [''random-variable.h''])) fresh_hook = Some (Inr h1)
     \<and> map_of (parameter_annotations h1) ''seed'' = Some [(''direction'', ''out''), (''array_length'', ''6'')]
     \<and> (\<exists>h3. pre_scan_hook (a_decl (''/b/'' @ ''ns3/'' @ str_join ''/'' [''random-variable.h''])) (fresh_hook\<lparr> table := table h1 \<rparr>) = Some (Inr h3)
          \<and> parameter_annotations h3 = [])"
proof -
  let ?f = "''/b/'' @ ''ns3/'' @ str_join ''/'' [''random-variable.h'']"
  let ?d = "a_decl ?f"
  let ?as = "[(''params'', AParams [(''seed'', [(''direction'', ''out''), (''array_length'', ''6'')])])]"
  have loops: "relative_loop (''/b/'' @ ''ns3'') [''random-variable.h''] = Some (Inr ''random-variable.h'')"
    "relative_loop (''/b/ns3'' @ CHR ''/'' # ''random-variable.h'') [] = relative_loop ''/b/ns3'' (''random-variable.h'' # [])"
    by (subst relative_loop.simps, simp add: path_basename_def path_join_list_def)
      (rule loops_step, simp_all add: header_comp_def)
  then have p: "get_ns3_relative_path (location ?d) = Some (Inr ''random-variable.h'')"
    by (simp add: get_ns3_relative_path_def a_decl_def str_join_def)
  have k: "from_table ?d" "kind ?d \<noteq> Free_function \<or> decl_name ?d \<noteq> ''PeekPointer''"
    by (simp_all add: from_table_def a_decl_def)
  obtain h1 where h1: "pre_scan_hook ?d fresh_hook = Some (Inr h1)" using pre_scan_hook_function [OF k p] by blast
  have "decl_text ?d = ''void ns3::RandomVariable::GetSeed(uint32_t * seed) const [member function]''" by (simp add: a_decl_def)
  moreover have "map_of type_annotations ''void ns3::RandomVariable::GetSeed(uint32_t * seed) const [member function]'' = Some ?as"
    by code_simp
  ultimately have t: "map_of (table fresh_hook) (decl_text ?d) = Some ?as" by (simp add: fresh_hook_def)
  have q: "wf_dict ?as" "map_of ?as ''params'' = Some (AParams [(''seed'', [(''direction'', ''out''), (''array_length'', ''6'')])])"
    "wf_dict [(''seed'', [(''direction'', ''out''), (''array_length'', ''6'')])]"
    by (simp_all add: wf_dict_def)
  note both = params_consumed [OF k t q h1]
  have "map_of (parameter_annotations h1) ''seed'' = Some [(''direction'', ''out''), (''array_length'', ''6'')]"
    using conjunct1 [OF both] by simp
  moreover have "\<exists>h3. pre_scan_hook ?d (fresh_hook\<lparr> table := table h1 \<rparr>) = Some (Inr h3)
      \<and> parameter_annotations h3 = parameter_annotations (fresh_hook\<lparr> table := table h1 \<rparr>) \<and> table h3 = table h1"
    by (rule mp [OF spec [OF conjunct2 [OF both]]]) simp
  moreover have "parameter_annotations (fresh_hook\<lparr> table := table h1 \<rparr>) = []" by (simp add: fresh_hook_def)
  ultimately show ?thesis using h1 by metis
qed

text \<open>
  The module a name is imported from: the modular hook writes the module of a class with underscores but the one of an
  enumeration as it is, so with a dash the two differ, and the name given for the enumeration is not one of Python.
\<close>

theorem import_names:
  assumes "get_ns3_relative_path_modular (location d) = Inr x" "map_of hm x = Some m" "m \<noteq> this"
    and "kind d = Enumeration"
  shows "(\<exists>h'. PreScanHook hm this d h = Inr h'
      \<and> map_of (global_annotations h') ''import_from_module'' = Some (AStr (''ns.'' @ m)))
    \<and> (\<forall>(c :: decl) h. kind c = Class_decl \<longrightarrow> location c = location d \<longrightarrow> \<not> is_instantiation c
         \<longrightarrow> (\<forall>as. map_of (table h) (decl_string c) = Some as \<longrightarrow> ''import_from_module'' \<notin> set (keys as))
         \<longrightarrow> (\<exists>h'. PreScanHook hm this c h = Inr h' \<and>
                map_of (global_annotations h') ''import_from_module'' = Some (AStr (''ns.'' @ replace_char (CHR ''-'') ''_'' m))))"
proof (intro conjI allI impI)
  show "\<exists>h'. PreScanHook hm this d h = Inr h'
      \<and> map_of (global_annotations h') ''import_from_module'' = Some (AStr (''ns.'' @ m))"
    using assms by (simp add: PreScanHook_def header_module_def class_module_def from_table_def Let_def annotate_def)
next
  fix c :: decl and h :: hook
  assume c: "kind c = Class_decl" "location c = location d" "\<not> is_instantiation c"
    and t: "\<forall>as. map_of (table h) (decl_string c) = Some as \<longrightarrow> ''import_from_module'' \<notin> set (keys as)"
  let ?a = "AStr (''ns.'' @ replace_char (CHR ''-'') ''_'' m)"
  let ?h = "annotate ''import_from_module'' ?a (fix_defaults c (annotate_methods c (annotate ''pygen_comment''
                       (AStr (x @ '' (module '' @ py_repr m @ ''): '' @ decl_text c)) h)))"
  have "PreScanHook hm this c h = Inr (annotate_class c ?h)"
    using assms(1-3) c by (simp add: PreScanHook_def header_module_def class_module_def Let_def)
  moreover have "map_of (global_annotations (annotate_class c ?h)) ''import_from_module'' = Some ?a"
    by (rule annotate_class_import) (use t in \<open>simp_all add: annotate_def\<close>)
  ultimately show "\<exists>h'. PreScanHook hm this c h = Inr h' \<and> map_of (global_annotations h') ''import_from_module'' = Some ?a"
    by blast
qed

theorem import_names_witness:
  "\<exists>h'. PreScanHook [(''flow-monitor.h'', ''flow-monitor'')] ''core''
       ((a_decl (''/b/'' @ ''ns3/'' @ str_join ''/'' [''flow-monitor.h''])) \<lparr> kind := Enumeration \<rparr>) fresh_hook = Inr h'
     \<and> map_of (global_annotations h') ''import_from_module'' = Some (AStr ''ns.flow-monitor'')"
proof -
  let ?d = "(a_decl (''/b/'' @ ''ns3/'' @ str_join ''/'' [''flow-monitor.h''])) \<lparr> kind := Enumeration \<rparr>"
  have "location ?d = ''/b/'' @ ''ns3/'' @ str_join ''/'' [''flow-monitor.h'']" by (simp add: a_decl_def)
  moreover have "get_ns3_relative_path_modular (''/b/'' @ ''ns3/'' @ str_join ''/'' [''flow-monitor.h'']) = Inr ''flow-monitor.h''"
    by code_simp
  ultimately have p: "get_ns3_relative_path_modular (location ?d) = Inr ''flow-monitor.h''" by (simp only:)
  have m: "map_of [(''flow-monitor.h'', ''flow-monitor'')] ''flow-monitor.h'' = Some ''flow-monitor''" by simp
  have n: "''flow-monitor'' \<noteq> ''core''" "kind ?d = Enumeration" by simp_all
  show ?thesis using import_names [OF p m n, of fresh_hook] by (elim conjE) simp
qed

end
