(* ===== verification/ModGen.thy ===== *)
theory ModGen
  imports ModScan
begin

text \<open>
  The generators of the bindings, \<open>bindings/python/ns3modulegen.py\<close>, \<open>ns3modulegen-modular.py\<close> and \<open>ns3modulegen_core_customizations.py\<close>:
  smart pointers, callback classes, construction of objects, attributes, the files of the sections and the classes that are left
  out without a feature. The library PyBindGen is not part of the model: its type handlers, wrappers and modules are arguments.
\<close>

section \<open>Smart pointers\<close>

text \<open>The expression \<open>(ns3::|::ns3::|)Ptr<([^>]+)>\s*$\<close>, matched at the start; the result is its second group.\<close>

definition ptr_body :: "string \<Rightarrow> string option" where
  "ptr_body s =
     (let body = takeWhile (\<lambda>c. c \<noteq> CHR ''>'') s; rest = dropWhile (\<lambda>c. c \<noteq> CHR ''>'') s
      in if body \<noteq> [] \<and> rest \<noteq> [] \<and> list_all is_space (tl rest) then Some body else None)"

definition ptr_rx :: "string \<Rightarrow> string option" where
  "ptr_rx name =
     (case find (\<lambda>p. startswith name (p @ ''Ptr<'')) [''ns3::'', ''::ns3::'', []] of
        None \<Rightarrow> None
      | Some p \<Rightarrow> ptr_body (drop (length p + 4) name))"

definition get_untransformed_type_traits :: "string \<Rightarrow> string option \<times> bool" where
  "get_untransformed_type_traits name =
     (case ptr_rx name of
        None \<Rightarrow> (None, False)
      | Some g \<Rightarrow>
          let name1 = str_strip g;
              (name2, const1) = (if startswith name1 ''const '' then (drop 6 name1, True) else (name1, False));
              (name3, is_const) = (if suffix '' const'' name2 then (take (length name2 - 6) name2, True) else (name2, const1));
              new_name = name3 @ '' *''
          in (Some (if startswith new_name ''::'' then drop 2 new_name else new_name), is_const))"

definition get_untransformed_name :: "string \<Rightarrow> string option" where
  "get_untransformed_name name = fst (get_untransformed_type_traits name)"

datatype handler_class = ParameterClass | ReturnValueClass | OtherClass

record type_handler =
  h_class :: handler_class
  h_ctype :: string
  h_untransformed :: string


definition untransform :: "type_handler \<Rightarrow> string \<Rightarrow> string" where
  "untransform h expression = ''const_cast<'' @ h_untransformed h @ ''> (ns3::PeekPointer ('' @ expression @ ''))''"


section \<open>Callbacks\<close>

text \<open>
  What PyBindGen makes of a type: the handler of a return value or of a parameter with a name, if there is one, and the
  code of the call operator.
\<close>

record 'h binding_types =
  return_handler :: "string \<Rightarrow> 'h option"
  param_handler :: "string \<Rightarrow> string \<Rightarrow> 'h option"
  call_code :: "'h \<Rightarrow> 'h list \<Rightarrow> string list"

record callback_handler =
  cb_ctype :: string
  cb_impl :: string
  cb_args :: "string list"

definition callback_class_lines :: "string \<Rightarrow> string list \<Rightarrow> string list" where
  "callback_class_lines class_name params =
     [[], ''class '' @ class_name @ '' : public ns3::CallbackImpl<'' @ str_join '', '' params @ ''>'',
      ''{'', ''public:'', ''    PyObject *m_callback;'',
      ''    '' @ class_name @ ''(PyObject *callback)'', ''    {'', ''        Py_INCREF(callback);'', ''        m_callback = callback;'', ''    }'',
      ''    virtual ~'' @ class_name @ ''()'', ''    {'', ''        Py_DECREF(m_callback);'', ''        m_callback = NULL;'', ''    }'', [],
      ''    virtual bool IsEqual(ns3::Ptr<const ns3::CallbackImplBase> other_base) const'', ''    {'',
      ''        const '' @ class_name @ '' *other = dynamic_cast<const '' @ class_name @ ''*> (ns3::PeekPointer (other_base));'',
      ''        if (other != NULL)'', ''            return (other->m_callback == m_callback);'', ''        else'', ''            return false;'', ''    }'', [], []]"

text \<open>The parameters are numbered from one; a parameter without a handler gives a warning and the search goes on.\<close>

definition callback_arguments :: "'h binding_types \<Rightarrow> string list \<Rightarrow> 'h list option" where
  "callback_arguments bt args =
     (let hs = map (\<lambda>(i, a). param_handler bt a (''arg'' @ nat_str i)) (enumerate 1 args)
      in if list_all (\<lambda>h. h \<noteq> None) hs then Some (map the hs) else None)"

record callback_output =
  out_lines :: "string list"
  registered :: "callback_handler list"
  warnings :: nat

definition callback_class :: "'h binding_types \<Rightarrow> nat \<times> string list \<Rightarrow> callback_output \<Rightarrow> callback_output" where
  "callback_class bt = (\<lambda>(n, params) st.
     let class_name = ''PythonCallbackImpl'' @ nat_str n;
         args = filter (\<lambda>a. a \<noteq> ''ns3::empty'') (tl params);
         missing = length (filter (\<lambda>(i, a). param_handler bt a (''arg'' @ nat_str i) = None) (enumerate 1 args))
     in (case return_handler bt (hd params) of
           None \<Rightarrow> st\<lparr> warnings := warnings st + 1 \<rparr>
         | Some r \<Rightarrow>
             (case callback_arguments bt args of
                None \<Rightarrow> st\<lparr> warnings := warnings st + missing \<rparr>
              | Some hs \<Rightarrow>
                  st\<lparr> out_lines := out_lines st @ callback_class_lines class_name params @ call_code bt r hs @ [''};'', []],
                      registered := registered st @
                        [\<lparr> cb_ctype = ''ns3::Callback< '' @ str_join '', '' params @ '' >'', cb_impl = class_name, cb_args = params \<rparr>] \<rparr>)))"

text \<open>An entry of the list has at least the return type.\<close>

definition generate_callback_classes :: "'h binding_types \<Rightarrow> string list list \<Rightarrow> callback_output" where
  "generate_callback_classes bt callbacks =
     fold (callback_class bt) (enumerate 0 callbacks) \<lparr> out_lines = [], registered = [], warnings = 0 \<rparr>"

section \<open>Objects and attributes\<close>

record cpp_class =
  cpp_full_name :: string
  cannot_be_constructed :: "string option"
  incomplete_type :: bool

definition helper_class_code :: "string \<Rightarrow> string \<Rightarrow> string list \<times> string" where
  "helper_class_code name full_name =
     ([[], ''static ns3::TypeId GetTypeId (void)'', ''{'', ''  static ns3::TypeId tid = ns3::TypeId ('' @ [CHR 0x22] @ name @ [CHR 0x22] @ '')'',
       ''    .SetParent< '' @ full_name @ '' > ()'', ''    ;'', ''  return tid;'', ''}''],
      ''NS_OBJECT_ENSURE_REGISTERED ('' @ name @ '');'')"

text \<open>The message for a class that cannot be constructed has two conversions for one value.\<close>

definition instance_creation :: "cpp_class \<Rightarrow> string \<Rightarrow> string \<Rightarrow> string \<Rightarrow> string list res" where
  "instance_creation c lvalue parameters construct_type_name =
     (if lvalue = [] \<or> startswith lvalue ''None'' then Inl AssertionError
      else if cannot_be_constructed c \<noteq> None \<and> cannot_be_constructed c \<noteq> Some [] then Inl TypeError
      else if incomplete_type c then Inl (PyException ''CodeGenerationError'')
      else Inr [lvalue @ '' = new '' @ construct_type_name @ ''('' @ parameters @ '');'', lvalue @ ''->Ref ();''])"

definition post_instance_creation :: "string \<Rightarrow> string" where
  "post_instance_creation lvalue = ''ns3::CompleteConstruct('' @ lvalue @ '');''"

record method_param =
  is_class_ref :: bool
  param_class :: string
  default_value :: "string option"
  default_value_type :: "string option"

definition fix_attribute :: "method_param \<Rightarrow> method_param" where
  "fix_attribute p =
     (if is_class_ref p \<and> param_class p = ''AttributeValue'' \<and> default_value p \<noteq> None \<and> default_value_type p = None
      then p\<lparr> default_value_type := Some ''ns3::EmptyAttributeValue'' \<rparr> else p)"

text \<open>The classes of a module, the methods of a class, the parameters of a method.\<close>

definition Attribute_customizations :: "method_param list list list \<Rightarrow> method_param list list list" where
  "Attribute_customizations classes = map (map (map fix_attribute)) classes"

text \<open>The constants of \<open>add_std_ios_openmode\<close>.\<close>

definition openmode_lines :: "string list" where
  "openmode_lines =
     map (\<lambda>flag. ''PyModule_AddIntConstant(m, (char *) '' @ [CHR 0x22] @ ''STD_IOS_'' @ upper flag @ [CHR 0x22] @ '', std::ios::'' @ flag @ '');'')
       [''in'', ''out'', ''ate'', ''app'', ''trunc'', ''binary'']"

section \<open>The generators\<close>

text \<open>The files of the sections, by the name of the section.\<close>

definition section_sinks :: "string \<Rightarrow> string list \<Rightarrow> (string, string) dict" where
  "section_sinks main_file_name modules =
     fold (\<lambda>m. AList.update (section_name m) (path_join (path_head main_file_name) (section_name m @ ''.cc'')))
       modules [(''__main__'', main_file_name)]"

definition get_section_code_sink :: "(string, string) dict \<Rightarrow> string \<Rightarrow> string res" where
  "get_section_code_sink sinks name = (case map_of sinks name of None \<Rightarrow> Inl KeyError | Some f \<Rightarrow> Inr f)"

text \<open>A module of PyBindGen, as far as classes and enumerations are removed from it.\<close>

record root_module =
  rm_lookup :: "string \<Rightarrow> bool"
  rm_classes :: "string list"
  rm_enums :: "string list"

definition py_remove :: "'a \<Rightarrow> 'a list \<Rightarrow> 'a list res" where
  "py_remove x xs = (if x \<in> set xs then Inr (remove1 x xs) else Inl ValueError)"

definition remove_class :: "string \<Rightarrow> root_module \<Rightarrow> root_module res" where
  "remove_class n m =
     (if \<not> rm_lookup m (''ns3::'' @ n) then Inl KeyError
      else bind_res (py_remove (''ns3::'' @ n) (rm_classes m)) (\<lambda>cs. Inr (m\<lparr> rm_classes := cs \<rparr>)))"

definition remove_enum :: "string \<Rightarrow> root_module \<Rightarrow> root_module res" where
  "remove_enum n m =
     (if \<not> rm_lookup m (''ns3::'' @ n) then Inl KeyError
      else bind_res (py_remove (''ns3::'' @ n) (rm_enums m)) (\<lambda>es. Inr (m\<lparr> rm_enums := es \<rparr>)))"

text \<open>A class whose lookup fails is passed over.\<close>

definition remove_if_known :: "string \<Rightarrow> root_module \<Rightarrow> root_module res" where
  "remove_if_known n m = (case remove_class n m of Inl e \<Rightarrow> (if e = KeyError then Inr m else Inl e) | Inr m' \<Rightarrow> Inr m')"

datatype removal = IfKnown string | ClassOf string | EnumOf string

definition feature_table :: "(string \<times> removal list) list" where
  "feature_table =
     [(''GtkConfigStore'', [IfKnown ''GtkConfigStore'']),
      (''SqliteDataOutput'', [IfKnown ''SqliteDataOutput'']),
      (''Threading'', [ClassOf ''SystemThread'', ClassOf ''SystemMutex'', ClassOf ''SystemCondition'', ClassOf ''CriticalSection'',
         ClassOf ''SimpleRefCount< ns3::SystemThread, ns3::empty, ns3::DefaultDeleter<ns3::SystemThread> >'']),
      (''EmuNetDevice'', [ClassOf ''EmuNetDevice'', ClassOf ''EmuHelper'', EnumOf ''EmuNetDevice::EncapsulationMode'']),
      (''RealTime'', [ClassOf ''WallClockSynchronizer'', ClassOf ''RealtimeSimulatorImpl'', EnumOf ''RealtimeSimulatorImpl::SynchronizationMode'']),
      (''TapBridge'', [ClassOf ''TapBridge'', ClassOf ''TapBridgeHelper'', ClassOf ''TapBridgeFdReader'', EnumOf ''TapBridge::Mode''])]"

definition do_removal :: "removal \<Rightarrow> root_module \<Rightarrow> root_module res" where
  "do_removal r = (case r of IfKnown n \<Rightarrow> remove_if_known n | ClassOf n \<Rightarrow> remove_class n | EnumOf n \<Rightarrow> remove_enum n)"

definition remove_features :: "string \<Rightarrow> root_module \<Rightarrow> root_module res" where
  "remove_features enabled m =
     (let features = split_char (CHR '','') enabled
      in fold_res do_removal (concat (map (\<lambda>(f, rs). if f \<in> set features then [] else rs) feature_table)) m)"

text \<open>The phases of the modular generator, with the hooks that the customizations of the module have.\<close>

datatype phase = ModuleInit | AddInclude string | OpenModes | RegisterTypes | Hook string | CallbackClasses | RegisterMethods
  | ObjectCustomizations | AttributeCustomizations | RegisterFunctions | Generate

definition modular_phases :: "string \<Rightarrow> (string \<Rightarrow> bool) \<Rightarrow> phase list" where
  "modular_phases module_abs_src_path has =
     (let hook = (\<lambda>h. if has h then [Hook h] else [])
      in [ModuleInit, AddInclude ([CHR 0x22] @ ''ns3/'' @ path_basename module_abs_src_path @ ''-module.h'' @ [CHR 0x22]), OpenModes, RegisterTypes]
         @ hook ''post_register_types'' @ [CallbackClasses, RegisterMethods] @ hook ''post_register_methods''
         @ [ObjectCustomizations, AttributeCustomizations, RegisterFunctions] @ hook ''post_register_functions'' @ [Generate])"

section \<open>Lemmas\<close>




lemma is_space_simps [simp]: "is_space (CHR '' '')" "\<not> is_space (CHR ''c'')" "\<not> is_space (CHR ''t'')" "\<not> is_space (CHR '':'')"
  by (simp_all add: is_space_def)






text \<open>The sections that the scanner plans have a file in the generator, when it is called with the modules of the scanner.\<close>

lemma section_sinks_keys:
  "fst ` set (section_sinks f ms) = insert ''__main__'' (section_name ` set ms)"
proof -
  have "fst ` set (fold (\<lambda>m. AList.update (section_name m) (g m)) ms d) = fst ` set d \<union> section_name ` set ms" for g :: "string \<Rightarrow> string" and d
  proof (induction ms arbitrary: d)
    case (Cons m ms)
    have "fst ` set (AList.update (section_name m) (g m) d) = insert (section_name m) (fst ` set d)"
      by (simp add: dom_map_of_conv_image_fst [symmetric] update_conv')
    with Cons show ?case by auto
  qed simp
  then show ?thesis by (simp add: section_sinks_def)
qed

lemma planned_names:
  assumes "plan_sections ko f ns3 = Inr s" and "(n, x) \<in> set (section_files s)"
  shows "n \<in> insert ''__main__'' (section_name ` fst ` set ns3)"
proof -
  let ?P = "\<lambda>s :: sections. fst ` set (section_files s) \<subseteq> insert ''__main__'' (section_name ` fst ` set ns3)"
  obtain ms where "fold_res (enter_module f ns3) (zip [0..<length ms] ms)
      \<lparr> section_files = [(''__main__'', f, None)], headers_map = [], section_precendences = [] \<rparr> = Inr s"
    using assms(1) by (auto simp: plan_sections_def split: sum.splits topsort_error.splits)
  then have "?P s"
  proof (rule fold_res_invariant)
    show "?P s'" if "enter_module f ns3 pm s0 = Inr s'" "?P s0" for pm s0 s'
    proof -
      note h = that(1)
      obtain prec m deps headers where m: "pm = (prec, m)" "map_of ns3 m = Some (deps, headers)"
        
        by (cases pm; cases "map_of ns3 (snd pm)") (use h in \<open>auto simp: enter_module_def\<close>)
      then have "m \<in> fst ` set ns3" by (metis fst_conv imageI map_of_SomeD)
      then have "section_name m \<in> section_name ` fst ` set ns3" by (rule imageI)
      moreover have "\<exists>y. section_files s' = section_files s0 @ [(section_name m, y)]" using h m by (auto simp: enter_module_def)
      ultimately show ?thesis using that(2) by (elim exE) simp
    qed
  qed simp
  moreover have "n \<in> fst ` set (section_files s)" using assms(2) by (rule rev_image_eqI) simp
  ultimately show ?thesis by (rule subsetD)
qed

theorem sections_have_sinks:
  assumes "plan_sections ko f ns3 = Inr s" and "(n, x) \<in> set (section_files s)" and "fst ` set ns3 \<subseteq> set ms"
  shows "\<exists>file. get_section_code_sink (section_sinks main ms) n = Inr file"
proof -
  have "n \<in> fst ` set (section_sinks main ms)" using planned_names [OF assms(1,2)] assms(3) by (auto simp: section_sinks_keys)
  then have "map_of (section_sinks main ms) n \<noteq> None" by (simp add: map_of_eq_None_iff)
  then show ?thesis by (auto simp: get_section_code_sink_def)
qed

text \<open>Each registered callback has the class that is numbered by its place in the list, so that no two have the same one.\<close>

definition callback_ok :: "'h binding_types \<Rightarrow> string list \<Rightarrow> bool" where
  "callback_ok bt params \<longleftrightarrow> return_handler bt (hd params) \<noteq> None \<and> callback_arguments bt (filter (\<lambda>a. a \<noteq> ''ns3::empty'') (tl params)) \<noteq> None"

lemma callbacks_registered:
  "map (\<lambda>h. (cb_impl h, cb_args h)) (registered (generate_callback_classes bt callbacks)) =
     map (\<lambda>(n, params). (''PythonCallbackImpl'' @ nat_str n, params)) (filter (\<lambda>(n, params). callback_ok bt params) (enumerate 0 callbacks))"
proof -
  have "map (\<lambda>h. (cb_impl h, cb_args h)) (registered (fold (callback_class bt) cs st)) = map (\<lambda>h. (cb_impl h, cb_args h)) (registered st) @
     map (\<lambda>(n, params). (''PythonCallbackImpl'' @ nat_str n, params)) (filter (\<lambda>(n, params). callback_ok bt params) cs)" for cs st
  proof (induction cs arbitrary: st)
    case (Cons c cs)
    then show ?case by (cases c) (auto simp: callback_class_def callback_ok_def Let_def split: option.split)
  qed simp
  then show ?thesis by (simp add: generate_callback_classes_def)
qed

end
