(* ===== verification/WafMisc.thy ===== *)
theory WafMisc
  imports WafUtils PyStr
begin

text \<open>
  The waf tool \<open>waf-tools/misc.py\<close>: copying files, replacing \<open>@NAME@\<close> in files, and running a command whose arguments are files of
  the source or build tree. The nodes of waf are records of their paths; looking up and declaring nodes are
  arguments, as are the environment and the running of a process.
\<close>

section \<open>Attributes and copies\<close>

text \<open>\<open>copy_attrs\<close> on objects as dictionaries; a missing attribute is the empty tuple, and values are lists.\<close>

definition copy_attrs :: "(string, 'v list) dict \<Rightarrow> string list \<Rightarrow> bool \<Rightarrow> (string, 'v list) dict \<Rightarrow> (string, 'v list) dict" where
  "copy_attrs orig names only_if_set dest =
     fold (\<lambda>a d. let u = (case map_of orig a of None \<Rightarrow> [] | Some u \<Rightarrow> u)
                 in if u \<noteq> [] \<or> \<not> only_if_set then AList.update a u d else d) names dest"

record file_state =
  contents :: "(string, string) dict"
  modes :: "(string, nat) dict"

text \<open>\<open>copy_func\<close>; copying fails when the source is missing or the target cannot be written.\<close>

definition copy_func :: "(string \<Rightarrow> bool) \<Rightarrow> string \<Rightarrow> string \<Rightarrow> nat \<Rightarrow> file_state \<Rightarrow> int \<times> file_state" where
  "copy_func writable infile outfile chmod st =
     (case map_of (contents st) infile of
        None \<Rightarrow> (1, st)
      | Some c \<Rightarrow>
          if \<not> writable outfile then (1, st)
          else let st1 = st\<lparr> contents := AList.update outfile c (contents st),
                             modes := (case map_of (modes st) infile of None \<Rightarrow> modes st | Some k \<Rightarrow> AList.update outfile k (modes st)) \<rparr>
               in (0, if chmod \<noteq> 0 then st1\<lparr> modes := AList.update outfile chmod (modes st1) \<rparr> else st1))"

definition waf_error :: py_error where
  "waf_error = PyException ''WafError''"

record waf_node =
  node_name :: string
  abspath :: string
  srcpath :: string
  bldpath :: string

record tree =
  find_resource :: "string \<Rightarrow> waf_node option"
  find_or_declare :: "string \<Rightarrow> waf_node option"
  find_dir :: "string \<Rightarrow> waf_node option"
  change_ext :: "waf_node \<Rightarrow> waf_node"

text \<open>The pairs of nodes for which \<open>apply_copy\<close> and \<open>apply_subst\<close> create tasks.\<close>

definition find_input :: "tree \<Rightarrow> string \<Rightarrow> waf_node res" where
  "find_input t f = (case find_resource t f of None \<Rightarrow> Inl waf_error | Some n \<Rightarrow> Inr n)"

definition apply_copy :: "tree \<Rightarrow> string \<Rightarrow> string list \<Rightarrow> (waf_node \<times> waf_node option) list res" where
  "apply_copy t target lst =
     map_res (\<lambda>f. bind_res (find_input t f) (\<lambda>node.
       let target' = (if target = [] \<or> 1 < length lst then node_name node else target)
       in Inr (node, find_or_declare t target'))) lst"

definition apply_subst :: "tree \<Rightarrow> string \<Rightarrow> string list \<Rightarrow> (waf_node \<times> waf_node option) list res" where
  "apply_subst t target lst =
     map_res (\<lambda>f. bind_res (find_input t f) (\<lambda>node.
       Inr (node, if target \<noteq> [] then find_or_declare t target else Some (change_ext t node)))) lst"

section \<open>Replacing variables\<close>

datatype m4_token = Lit char | Var string

lemma rest_shorter: "length (dropWhile P xs) - n < Suc (length xs)"
  by (metis diff_le_self le_imp_less_Suc le_trans length_dropWhile_le)

text \<open>The matches of \<open>@(\w+)@\<close> from the left, and the characters in between.\<close>

function m4_scan :: "string \<Rightarrow> m4_token list" where
  "m4_scan [] = []"
| "m4_scan (c # cs) =
     (let w = takeWhile identifier_char cs; rest = dropWhile identifier_char cs in
      if c = CHR ''@'' \<and> w \<noteq> [] \<and> rest \<noteq> [] \<and> hd rest = CHR ''@'' then Var w # m4_scan (tl rest)
      else Lit c # m4_scan cs)"
  by pat_completeness auto

termination by (relation "measure length") (simp_all add: rest_shorter)

fun sub_token :: "m4_token \<Rightarrow> string" where
  "sub_token (Lit c) = [c]"
| "sub_token (Var w) = ''%('' @ w @ '')s''"

definition m4_sub :: "string \<Rightarrow> string" where
  "m4_sub code = concat (map sub_token (m4_scan code))"

definition m4_findall :: "string \<Rightarrow> string list" where
  "m4_findall code = concat (map (\<lambda>t. case t of Lit c \<Rightarrow> [] | Var w \<Rightarrow> [w]) (m4_scan code))"

definition percent_doubled :: "string \<Rightarrow> string" where
  "percent_doubled = replace_char (CHR ''%'') ''%%''"

text \<open>
  \<open>subst_func\<close>. The dictionary of the task is the one of the generator, shared by all its tasks; an empty one is filled from the
  environment with the variables of the file at hand. The result is the text that is written and the dictionary afterwards.
\<close>

definition env_value :: "(string \<Rightarrow> string) \<Rightarrow> string \<Rightarrow> string" where
  "env_value get_flat i = (if get_flat i \<noteq> [] then get_flat i else get_flat (upper i))"

definition subst_func :: "(string \<Rightarrow> string) \<Rightarrow> string \<Rightarrow> (string, string) dict \<Rightarrow> (string \<times> (string, string) dict) res" where
  "subst_func get_flat input d =
     (let code = percent_doubled input;
          s = m4_sub code;
          di = (if d \<noteq> [] then d else fold (\<lambda>i. AList.update i (env_value get_flat i)) (m4_findall code) [])
      in bind_res (py_format (map_of di) s) (\<lambda>out. Inr (out, di)))"

definition subst_tasks :: "(string \<Rightarrow> string) \<Rightarrow> string list \<Rightarrow> (string, string) dict \<Rightarrow> (string list \<times> (string, string) dict) res" where
  "subst_tasks get_flat inputs d =
     fold_res (\<lambda>i (outs, d). bind_res (subst_func get_flat i d) (\<lambda>(out, d'). Inr (outs @ [out], d'))) inputs ([], d)"

section \<open>Commands\<close>

text \<open>\<open>template % args\<close> for a tuple of strings and the conversion \<open>s\<close>.\<close>

fun py_format_args :: "string list \<Rightarrow> string \<Rightarrow> string res" where
  "py_format_args args [] = (if args = [] then Inr [] else Inl TypeError)"
| "py_format_args args (c # cs) =
     (if c \<noteq> CHR ''%'' then bind_res (py_format_args args cs) (\<lambda>r. Inr (c # r))
      else (case cs of
              [] \<Rightarrow> Inl ValueError
            | d # cs' \<Rightarrow>
                if d = CHR ''%'' then bind_res (py_format_args args cs') (\<lambda>r. Inr (CHR ''%'' # r))
                else if d = CHR ''s'' then
                  (case args of [] \<Rightarrow> Inl TypeError | a # as \<Rightarrow> bind_res (py_format_args as cs') (\<lambda>r. Inr (a @ r)))
                else Inl ValueError))"

datatype arg_class = input_file | output_file | input_dir | output_dir

record cmd_arg =
  arg_class :: arg_class
  arg_name :: string
  arg_template :: string
  arg_node :: "waf_node option"

definition find_arg :: "tree \<Rightarrow> cmd_arg \<Rightarrow> waf_node option" where
  "find_arg t a =
     (case arg_class a of
        input_file \<Rightarrow> find_resource t (arg_name a)
      | output_file \<Rightarrow> find_or_declare t (arg_name a)
      | input_dir \<Rightarrow> find_dir t (arg_name a)
      | output_dir \<Rightarrow> find_dir t (arg_name a))"

definition not_found_message :: "arg_class \<Rightarrow> string" where
  "not_found_message k =
     (case k of
        input_file \<Rightarrow> ''Input file %s not found in ''
      | output_file \<Rightarrow> ''Output file %s not found in ''
      | input_dir \<Rightarrow> ''Directory %s not found in ''
      | output_dir \<Rightarrow> ''Directory %s not found in '')"

text \<open>\<open>find_node\<close>, below the directory with the given name; formatting the message comes before raising the error.\<close>

definition find_node :: "tree \<Rightarrow> string \<Rightarrow> cmd_arg \<Rightarrow> cmd_arg res" where
  "find_node t base a =
     (case find_arg t a of
        Some n \<Rightarrow> Inr (a\<lparr> arg_node := Some n \<rparr>)
      | None \<Rightarrow> bind_res (py_format_args [arg_name a, base] (not_found_message (arg_class a))) (\<lambda>_. Inl waf_error))"

definition get_path :: "bool \<Rightarrow> cmd_arg \<Rightarrow> string res" where
  "get_path absolute a =
     (case arg_node a of
        None \<Rightarrow> Inl AttributeError
      | Some n \<Rightarrow> py_format_args
          [case arg_class a of
             input_file \<Rightarrow> if absolute then abspath n else srcpath n
           | output_file \<Rightarrow> if absolute then abspath n else bldpath n
           | _ \<Rightarrow> abspath n] (arg_template a))"

datatype argv_item = Plain string | Arg cmd_arg

datatype command_name = External string | Program waf_node

record command_output =
  command :: command_name
  command_args :: "argv_item list"
  co_stdin :: "waf_node option"
  co_stdout :: "waf_node option"
  co_stderr :: "waf_node option"
  co_cwd :: "string option"
  os_env :: "(string \<times> string) list option"
  dep_nodes :: "waf_node list"
  co_inputs :: "waf_node list"
  co_outputs :: "waf_node list"
  run_after :: "nat list"
  always_run :: bool

text \<open>What \<open>run\<close> hands to the operating system.\<close>

record popen =
  popen_argv :: "string list"
  popen_stdin :: "string option"
  popen_stdout :: "string option"
  popen_stderr :: "string option"
  popen_cwd :: "string option"
  popen_env :: "(string \<times> string) list"

definition node_path :: "string option \<Rightarrow> waf_node \<Rightarrow> string" where
  "node_path cwd n = (if cwd = None then bldpath n else abspath n)"

definition arg_text :: "string option \<Rightarrow> argv_item \<Rightarrow> string res" where
  "arg_text cwd i = (case i of Plain s \<Rightarrow> Inr s | Arg a \<Rightarrow> get_path (cwd \<noteq> None) a)"

definition run_command_output :: "(string \<times> string) list \<Rightarrow> (string \<Rightarrow> bool) \<Rightarrow> command_output \<Rightarrow> popen res" where
  "run_command_output osenv opens c =
     (let path = map_option (node_path (co_cwd c)) in
      bind_res (map_res (arg_text (co_cwd c)) (command_args c)) (\<lambda>args.
        if \<exists>f \<in> set (List.map_filter path [co_stdin c, co_stdout c, co_stderr c]). \<not> opens f then Inl IOError
        else Inr \<lparr> popen_argv = (case command c of External s \<Rightarrow> s | Program n \<Rightarrow> node_path (co_cwd c) n) # args,
               popen_stdin = path (co_stdin c), popen_stdout = path (co_stdout c), popen_stderr = path (co_stderr c),
               popen_cwd = co_cwd c, popen_env = (case os_env c of None \<Rightarrow> osenv | Some e \<Rightarrow> e) \<rparr>))"

text \<open>The attributes of the task generator, with their defaults (\<open>init_cmd_output\<close>).\<close>

record task_generator =
  g_stdin :: "string option"
  g_stdout :: "string option"
  g_stderr :: "string option"
  g_command :: "string option"
  command_is_external :: bool
  g_argv :: "argv_item list"
  dependencies :: "nat list"
  hidden_inputs :: "string list"
  hidden_outputs :: "string list"
  g_cwd :: "cmd_arg option"
  g_os_env :: "(string \<times> string) list option"
  no_inputs :: bool
  no_outputs :: bool

definition init_cmd_output :: task_generator where
  "init_cmd_output = \<lparr> g_stdin = None, g_stdout = None, g_stderr = None, g_command = None, command_is_external = False,
     g_argv = [], dependencies = [], hidden_inputs = [], hidden_outputs = [], g_cwd = None, g_os_env = None,
     no_inputs = False, no_outputs = False \<rparr>"

definition find_item :: "tree \<Rightarrow> string \<Rightarrow> argv_item \<Rightarrow> argv_item res" where
  "find_item t base i = (case i of Plain s \<Rightarrow> Inr (Plain s) | Arg a \<Rightarrow> bind_res (find_node t base a) (\<lambda>a'. Inr (Arg a')))"

definition nodes_of :: "arg_class \<Rightarrow> argv_item list \<Rightarrow> waf_node list" where
  "nodes_of k is = List.map_filter (\<lambda>i. case i of Plain s \<Rightarrow> None | Arg a \<Rightarrow> if arg_class a = k then arg_node a else None) is"

definition optional_node :: "(string \<Rightarrow> waf_node option) \<Rightarrow> string option \<Rightarrow> waf_node option res" where
  "optional_node look f =
     (case f of None \<Rightarrow> Inr None | Some s \<Rightarrow> (case look s of None \<Rightarrow> Inl waf_error | Some n \<Rightarrow> Inr (Some n)))"

definition needed_node :: "(string \<Rightarrow> waf_node option) \<Rightarrow> string \<Rightarrow> waf_node res" where
  "needed_node look s = (case look s of None \<Rightarrow> Inl waf_error | Some n \<Rightarrow> Inr n)"

definition opt_list :: "'a option \<Rightarrow> 'a list" where
  "opt_list x = (case x of None \<Rightarrow> [] | Some y \<Rightarrow> [y])"

text \<open>
  \<open>apply_cmd_output\<close>: \<open>me\<close> is the number of the generator, \<open>tasks_of\<close> gives the tasks of a generator once it has been posted. With a working
  directory the local variable \<open>cwd\<close> is read before it is set.
\<close>

definition apply_cmd_output ::
    "tree \<Rightarrow> string \<Rightarrow> string \<Rightarrow> nat \<Rightarrow> (nat \<Rightarrow> nat list) \<Rightarrow> task_generator \<Rightarrow> command_output res" where
  "apply_cmd_output t base variant_dir me tasks_of g =
     (case g_command g of
        None \<Rightarrow> Inl waf_error
      | Some name \<Rightarrow>
          bind_res (if command_is_external g then Inr (External name, [])
                    else (case find_resource t name of None \<Rightarrow> Inl AssertionError | Some n \<Rightarrow> Inr (Program n, [n])))
            (\<lambda>(cmd, deps).
          if g_cwd g \<noteq> None then Inl UnboundLocalError
          else
          bind_res (map_res (find_item t base) (g_argv g)) (\<lambda>argv.
          bind_res (optional_node (find_or_declare t) (g_stdout g)) (\<lambda>stdout.
          bind_res (optional_node (find_or_declare t) (g_stderr g)) (\<lambda>stderr.
          bind_res (optional_node (find_resource t) (g_stdin g)) (\<lambda>stdin.
          bind_res (map_res (needed_node (find_resource t)) (hidden_inputs g)) (\<lambda>hin.
          bind_res (map_res (needed_node (find_or_declare t)) (hidden_outputs g)) (\<lambda>hout.
            let inputs = nodes_of input_file argv @ opt_list stdin @ hin;
                outputs = nodes_of output_file argv @ opt_list stdout @ opt_list stderr @ hout
            in if inputs = [] \<and> \<not> no_inputs g then Inl waf_error
               else if outputs = [] \<and> \<not> no_outputs g then Inl waf_error
               else if me \<in> set (dependencies g) then Inl AssertionError
               else Inr \<lparr> command = cmd, command_args = argv, co_stdin = stdin, co_stdout = stdout, co_stderr = stderr,
                      co_cwd = Some variant_dir, os_env = g_os_env g, dep_nodes = deps, co_inputs = inputs,
                      co_outputs = outputs, run_after = concat (map tasks_of (dependencies g)),
                      always_run = (inputs = []) \<rparr>))))))))"

section \<open>Replacing variables: lemmas\<close>

lemma identifier_char_percent [simp]:
  "\<not> identifier_char (CHR ''%'')" "\<not> identifier_char (CHR ''@'')" "\<not> identifier_char (CHR '')'')"
  by (simp_all add: identifier_char_def)

lemma doubled_simps [simp]:
  "percent_doubled [] = []"
  "percent_doubled (c # cs) = (if c = CHR ''%'' then CHR ''%'' # CHR ''%'' # percent_doubled cs else c # percent_doubled cs)"
  by (simp_all add: percent_doubled_def replace_char_def)

lemma doubled_word: "takeWhile identifier_char (percent_doubled cs) = takeWhile identifier_char cs"
  by (induction cs) auto

lemma doubled_rest: "dropWhile identifier_char (percent_doubled cs) = percent_doubled (dropWhile identifier_char cs)"
  by (induction cs) auto

fun doubled_token :: "m4_token \<Rightarrow> m4_token list" where
  "doubled_token (Lit c) = (if c = CHR ''%'' then [Lit c, Lit c] else [Lit c])"
| "doubled_token (Var w) = [Var w]"

lemma scan_doubled: "m4_scan (percent_doubled cs) = concat (map doubled_token (m4_scan cs))"
proof (induction cs rule: m4_scan.induct)
  case (2 c cs)
  let ?w = "takeWhile identifier_char cs" and ?r = "dropWhile identifier_char cs"
  show ?case
  proof (cases "c = CHR ''@'' \<and> ?w \<noteq> [] \<and> ?r \<noteq> [] \<and> hd ?r = CHR ''@''")
    case True
    then obtain r where r: "?r = CHR ''@'' # r" by (cases ?r) auto
    then have "dropWhile identifier_char (percent_doubled cs) = CHR ''@'' # percent_doubled r" by (simp add: doubled_rest)
    with True have "m4_scan (percent_doubled (c # cs)) = Var ?w # m4_scan (percent_doubled r)"
      by (simp add: doubled_word Let_def)
    moreover have "m4_scan (c # cs) = Var ?w # m4_scan r" using True r by (simp add: Let_def)
    moreover have "m4_scan (percent_doubled r) = concat (map doubled_token (m4_scan r))"
      using 2(1) [OF refl refl True] r by simp
    ultimately show ?thesis by simp
  next
    case False
    have IH: "m4_scan (percent_doubled cs) = concat (map doubled_token (m4_scan cs))"
      using 2(2) [OF refl refl False] .
    have plain: "m4_scan (c # cs) = Lit c # m4_scan cs" using False by (auto simp: Let_def)
    show ?thesis
    proof (cases "c = CHR ''%''")
      case True
      then have "m4_scan (percent_doubled (c # cs)) = Lit c # Lit c # m4_scan (percent_doubled cs)" by (simp add: Let_def)
      with IH plain True show ?thesis by simp
    next
      case no: False
      have "\<not> (c = CHR ''@'' \<and> ?w \<noteq> [] \<and> percent_doubled ?r \<noteq> [] \<and> hd (percent_doubled ?r) = CHR ''@'')"
        using False by (cases ?r) (auto simp del: dropWhile_eq_Nil_conv)
      then have "m4_scan (percent_doubled (c # cs)) = Lit c # m4_scan (percent_doubled cs)"
        using no by (simp only: doubled_simps if_False m4_scan.simps Let_def doubled_word doubled_rest)
      with IH plain no show ?thesis by simp
    qed
  qed
qed simp

lemma scan_words: "Var w \<in> set (m4_scan cs) \<Longrightarrow> CHR '')'' \<notin> set w"
proof (induction cs rule: m4_scan.induct)
  case (2 c cs)
  have "CHR '')'' \<notin> set (takeWhile identifier_char cs)" by (metis identifier_char_percent(3) set_takeWhileD)
  with 2 show ?case by (auto simp: Let_def split: if_splits)
qed simp

text \<open>Replacing directly, without a template.\<close>

fun token_value :: "(string \<Rightarrow> string option) \<Rightarrow> m4_token \<Rightarrow> string res" where
  "token_value d (Lit c) = Inr [c]"
| "token_value d (Var w) = (case d w of None \<Rightarrow> Inl KeyError | Some v \<Rightarrow> Inr v)"

definition m4_replace :: "(string \<Rightarrow> string option) \<Rightarrow> string \<Rightarrow> string res" where
  "m4_replace d code = bind_res (map_res (token_value d) (m4_scan code)) (\<lambda>ps. Inr (concat ps))"

lemma format_tokens:
  assumes "\<And>w. Var w \<in> set ts \<Longrightarrow> CHR '')'' \<notin> set w"
  shows "py_format d (concat (map sub_token (concat (map doubled_token ts)))) =
    bind_res (map_res (token_value d) ts) (\<lambda>ps. Inr (concat ps))"
  using assms
proof (induction ts)
  case (Cons t ts)
  then have IH: "py_format d (concat (map sub_token (concat (map doubled_token ts)))) =
      bind_res (map_res (token_value d) ts) (\<lambda>ps. Inr (concat ps))" by simp
  show ?case
  proof (cases t)
    case (Lit c)
    with IH show ?thesis by (simp add: bind_res_assoc)
  next
    case (Var w)
    then have "CHR '')'' \<notin> set w" using Cons.prems by simp
    from py_format_var [OF this, of d "concat (map sub_token (concat (map doubled_token ts)))"]
    show ?thesis using IH Var by (simp add: bind_res_assoc del: py_format.simps split: option.split)
  qed
qed simp

lemma format_replaces: "py_format d (m4_sub (percent_doubled code)) = m4_replace d code"
  unfolding m4_sub_def scan_doubled m4_replace_def by (rule format_tokens) (rule scan_words)

lemma findall_doubled: "m4_findall (percent_doubled code) = m4_findall code"
proof -
  have "concat (map (\<lambda>t. case t of Lit c \<Rightarrow> [] | Var w \<Rightarrow> [w]) (concat (map doubled_token ts))) =
      concat (map (\<lambda>t. case t of Lit c \<Rightarrow> [] | Var w \<Rightarrow> [w]) ts)" for ts
    proof (induction ts)
    case (Cons t ts)
    then show ?case by (cases t) simp_all
  qed simp
  then show ?thesis by (simp add: m4_findall_def scan_doubled)
qed

lemma env_fill: "map_of (fold (\<lambda>i. AList.update i (f i)) ns d) = (\<lambda>i. if i \<in> set ns then Some (f i) else map_of d i)"
  by (induction ns arbitrary: d) (auto simp: update_conv' fun_eq_iff)

lemma findall_iff: "w \<in> set (m4_findall code) \<longleftrightarrow> Var w \<in> set (m4_scan code)"
  by (auto simp: m4_findall_def split: m4_token.splits)

lemma m4_replace_total:
  assumes "\<And>w. w \<in> set (m4_findall code) \<Longrightarrow> d w = Some (f w)"
  shows "m4_replace d code = Inr (concat (map (\<lambda>t. case t of Lit c \<Rightarrow> [c] | Var w \<Rightarrow> f w) (m4_scan code)))"
proof -
  have "token_value d t = Inr (case t of Lit c \<Rightarrow> [c] | Var w \<Rightarrow> f w)" if "t \<in> set (m4_scan code)" for t
    by (cases t) (use that assms in \<open>simp_all add: findall_iff\<close>)
  then have "map_res (token_value d) (m4_scan code) = Inr (map (\<lambda>t. case t of Lit c \<Rightarrow> [c] | Var w \<Rightarrow> f w) (m4_scan code))"
    by (rule map_res_all)
  then show ?thesis by (simp add: m4_replace_def)
qed

lemma m4_replace_missing:
  assumes "w \<in> set (m4_findall code)" and "d w = None"
  shows "m4_replace d code = Inl KeyError"
proof -
  have "Var w \<in> set (m4_scan code)" using assms(1) by (simp add: findall_iff)
  then have "map_res (token_value d) ts = Inl KeyError" if "Var w \<in> set ts" for ts
    using that assms(2)
  proof (induction ts)
    case (Cons t ts)
    then show ?case by (cases t) (auto split: option.split)
  qed simp
  with \<open>Var w \<in> set (m4_scan code)\<close> show ?thesis by (simp add: m4_replace_def)
qed

text \<open>The two ways in which \<open>subst_func\<close> can be called, on the text before its percent signs are doubled.\<close>

definition env_dict :: "(string \<Rightarrow> string) \<Rightarrow> string \<Rightarrow> (string, string) dict" where
  "env_dict get_flat input = fold (\<lambda>i. AList.update i (env_value get_flat i)) (m4_findall input) []"

lemma subst_func_dict:
  "d \<noteq> [] \<Longrightarrow> subst_func get_flat input d = bind_res (m4_replace (map_of d) input) (\<lambda>out. Inr (out, d))"
  by (simp add: subst_func_def format_replaces)

lemma subst_func_env:
  "subst_func get_flat input [] =
     Inr (concat (map (\<lambda>t. case t of Lit c \<Rightarrow> [c] | Var w \<Rightarrow> env_value get_flat w) (m4_scan input)), env_dict get_flat input)"
proof -
  have "map_of (env_dict get_flat input) w = Some (env_value get_flat w)" if "w \<in> set (m4_findall input)" for w
    using that by (simp add: env_dict_def env_fill)
  from m4_replace_total [where d = "map_of (env_dict get_flat input)", OF this] show ?thesis
    by (simp add: subst_func_def format_replaces findall_doubled env_dict_def)
qed

lemma env_dict_dom: "map_of (env_dict get_flat input) w = (if w \<in> set (m4_findall input) then Some (env_value get_flat w) else None)"
  by (simp add: env_dict_def env_fill)

text \<open>
  A substitution without a dictionary always succeeds and replaces every \<open>@NAME@\<close> of the text by its value in the environment, or by the value of the
  upper-case name, whatever percent signs the text has; with a dictionary it replaces by the values of the dictionary, and raises \<open>KeyError\<close> at a missing one.
\<close>

theorem subst_outcome:
  "subst_func get_flat input [] =
     Inr (concat (map (\<lambda>t. case t of Lit c \<Rightarrow> [c] | Var w \<Rightarrow> env_value get_flat w) (m4_scan input)), env_dict get_flat input) \<and>
   subst_func get_flat input ((k, v) # d) =
     (if set (m4_findall input) \<subseteq> insert k (fst ` set d)
      then Inr (concat (map (\<lambda>t. case t of Lit c \<Rightarrow> [c] | Var w \<Rightarrow> the (map_of ((k, v) # d) w)) (m4_scan input)), (k, v) # d)
      else Inl KeyError)"
proof (cases "set (m4_findall input) \<subseteq> insert k (fst ` set d)")
  case True
  then have "map_of ((k, v) # d) w = Some (the (map_of ((k, v) # d) w))" if "w \<in> set (m4_findall input)" for w
    using that by (cases "map_of ((k, v) # d) w") (auto simp: map_of_eq_None_iff split: if_splits)
  from m4_replace_total [where d = "map_of ((k, v) # d)", OF this] True show ?thesis by (simp add: subst_func_env subst_func_dict del: map_of.simps)
next
  case False
  then obtain w where w: "w \<in> set (m4_findall input)" "w \<notin> insert k (fst ` set d)" by blast
  then have "map_of ((k, v) # d) w = None" by (simp add: map_of_eq_None_iff)
  from m4_replace_missing [where d = "map_of ((k, v) # d)", OF w(1) this] False show ?thesis by (simp add: subst_func_env subst_func_dict del: map_of.simps)
qed

text \<open>All the tasks of a generator use one dictionary: the first text with a variable fills it for the others.\<close>

lemma subst_tasks_dict:
  assumes "d \<noteq> []"
  shows "(\<exists>r. fold_res (\<lambda>i (outs, d). bind_res (subst_func get_flat i d) (\<lambda>(out, d'). Inr (outs @ [out], d'))) inputs (outs, d) = Inr r)
    \<longleftrightarrow> (\<forall>b \<in> set inputs. set (m4_findall b) \<subseteq> dom (map_of d))"
proof (induction inputs arbitrary: outs)
  case (Cons b bs)
  show ?case
  proof (cases "set (m4_findall b) \<subseteq> dom (map_of d)")
    case True
    then have "map_of d w = Some (the (map_of d w))" if "w \<in> set (m4_findall b)" for w using that by auto
    from m4_replace_total [where d = "map_of d", OF this] Cons True assms show ?thesis by (simp add: subst_func_dict)
  next
    case False
    then obtain w where "w \<in> set (m4_findall b)" "map_of d w = None" by blast
    from m4_replace_missing [where d = "map_of d", OF this] False assms show ?thesis by (simp add: subst_func_dict)
  qed
qed simp

text \<open>
  C31. When a generator without a dictionary substitutes several files and the first has a variable, the run succeeds exactly when no later file has a
  variable that the first does not have; each of them alone would succeed.
\<close>

theorem shared_dictionary:
  assumes "m4_findall input \<noteq> []"
  shows "((\<exists>r. subst_tasks get_flat (input # rest) [] = Inr r) \<longleftrightarrow> (\<forall>b \<in> set rest. set (m4_findall b) \<subseteq> set (m4_findall input))) \<and>
    (\<exists>r. subst_tasks get_flat [b] [] = Inr r)"
proof -
  have dom: "dom (map_of (env_dict get_flat input)) = set (m4_findall input)" by (auto simp: env_dict_dom split: if_splits)
  with assms have "env_dict get_flat input \<noteq> []" by fastforce
  from subst_tasks_dict [OF this, of get_flat rest] dom
  show ?thesis by (simp add: subst_tasks_def subst_func_env)
qed

theorem shared_dictionary_witness:
  "\<not> (\<exists>r. subst_tasks (\<lambda>_. ''v'') [''prefix=@PREFIX@'', ''name=@NAME@''] [] = Inr r) \<and>
   (\<exists>r. subst_tasks (\<lambda>_. ''v'') [''name=@NAME@''] [] = Inr r)"
proof -
  have "m4_findall ''prefix=@PREFIX@'' = [''PREFIX'']" "m4_findall ''name=@NAME@'' = [''NAME'']" by code_simp+
  with shared_dictionary [of "''prefix=@PREFIX@''" "\<lambda>_. ''v''" "[''name=@NAME@'']" "''name=@NAME@''"] show ?thesis by simp
qed

section \<open>Commands: lemmas\<close>

lemma percent_identity: "py_format_args [a] ''%s'' = Inr a"
  by simp

lemma missing_argument:
  assumes "find_arg t a = None"
  shows "find_node t base a = Inl TypeError"
  using assms by (cases "arg_class a") (simp_all add: find_node_def not_found_message_def)

lemma found_argument:
  assumes "find_node t base a = Inr a'"
  shows "\<exists>n. find_arg t a = Some n \<and> a' = a\<lparr> arg_node := Some n \<rparr>"
proof (cases "find_arg t a")
  case None
  with assms show ?thesis by (simp add: missing_argument)
qed (use assms in \<open>simp add: find_node_def\<close>)

definition item_path :: "tree \<Rightarrow> argv_item \<Rightarrow> string" where
  "item_path t i = (case i of Plain s \<Rightarrow> s | Arg a \<Rightarrow> abspath (the (find_arg t a)))"

lemma found_item:
  assumes "find_item t base i = Inr i'" and "\<And>a. i = Arg a \<Longrightarrow> arg_template a = ''%s''"
  shows "arg_text (Some wd) i' = Inr (item_path t i)"
proof (cases i)
  case (Plain s)
  with assms(1) have "i' = Plain s" by (simp add: find_item_def)
  with Plain show ?thesis by (simp add: arg_text_def item_path_def)
next
  case (Arg a)
  with assms(1) obtain a' where a': "find_node t base a = Inr a'" "i' = Arg a'" by (auto simp: find_item_def bind_res_Inr_iff)
  with found_argument obtain n where "find_arg t a = Some n" "a' = a\<lparr> arg_node := Some n \<rparr>" by blast
  with Arg a'(2) assms(2) show ?thesis by (cases "arg_class a") (simp_all add: arg_text_def get_path_def item_path_def)
qed

lemma found_items:
  assumes "map_res (find_item t base) is = Inr js" and "\<And>a. Arg a \<in> set is \<Longrightarrow> arg_template a = ''%s''"
  shows "map_res (arg_text (Some wd)) js = Inr (map (item_path t) is)"
  using assms
proof (induction "is" arbitrary: js)
  case (Cons i "is")
  then obtain j ks where "find_item t base i = Inr j" "map_res (find_item t base) is = Inr ks" "js = j # ks"
    by (auto simp: bind_res_Inr_iff)
  with Cons found_item [of t base i j wd] show ?case by simp
qed simp

lemma applied:
  assumes "apply_cmd_output t base wd me tasks_of g = Inr c"
  obtains name where "g_command g = Some name"
    and "command c = (if command_is_external g then External name else Program (the (find_resource t name)))"
    and "g_cwd g = None" "co_cwd c = Some wd" "os_env c = g_os_env g"
    and "map_res (find_item t base) (g_argv g) = Inr (command_args c)"
    and "me \<notin> set (dependencies g)"
    and "co_inputs c \<noteq> [] \<or> no_inputs g" "co_outputs c \<noteq> [] \<or> no_outputs g" "always_run c \<longleftrightarrow> co_inputs c = []"
  using assms unfolding apply_cmd_output_def
  by (auto simp: bind_res_Inr_iff Let_def split: option.splits if_splits)

text \<open>
  A command that the generator accepts is started in the build directory of the variant, with its arguments given as absolute paths of the nodes that
  were found for them, in the order of \<open>argv\<close>, whenever the files of its standard streams can be opened.
\<close>

theorem command_arguments:
  assumes "apply_cmd_output t base wd me tasks_of g = Inr c"
    and "\<And>a. Arg a \<in> set (g_argv g) \<Longrightarrow> arg_template a = ''%s''" and "\<And>f. opens f"
  shows "\<exists>p. run_command_output osenv opens c = Inr p \<and> popen_cwd p = Some wd \<and>
    popen_argv p = (if command_is_external g then the (g_command g) else abspath (the (find_resource t (the (g_command g)))))
      # map (item_path t) (g_argv g)"
  using assms(1)
proof (rule applied)
  fix name
  assume c: "g_command g = Some name"
    "command c = (if command_is_external g then External name else Program (the (find_resource t name)))" "co_cwd c = Some wd"
    "map_res (find_item t base) (g_argv g) = Inr (command_args c)"
  from found_items [OF c(4) assms(2)] have "map_res (arg_text (Some wd)) (command_args c) = Inr (map (item_path t) (g_argv g))" .
  with c assms(3) show ?thesis by (simp add: run_command_output_def Let_def node_path_def)
qed

definition example_node :: "string \<Rightarrow> waf_node" where
  "example_node s = \<lparr> node_name = s, abspath = ''/ns3/'' @ s, srcpath = s, bldpath = ''build/'' @ s \<rparr>"

definition example_tree :: tree where
  "example_tree = \<lparr> find_resource = \<lambda>s. Some (example_node s), find_or_declare = \<lambda>s. Some (example_node s), find_dir = \<lambda>s. None,
     change_ext = \<lambda>n. n \<rparr>"

definition example_arg :: cmd_arg where
  "example_arg = \<lparr> arg_class = input_file, arg_name = ''a.h'', arg_template = ''%s'', arg_node = None \<rparr>"

definition example_generator :: task_generator where
  "example_generator = init_cmd_output\<lparr> g_command := Some ''gen.py'', g_argv := [Plain ''-x'', Arg example_arg], g_stdout := Some ''b.cc'' \<rparr>"

definition example_command :: command_output where
  "example_command = \<lparr> command = Program (example_node ''gen.py''), command_args = [Plain ''-x'', Arg (example_arg\<lparr> arg_node := Some (example_node ''a.h'') \<rparr>)],
     co_stdin = None, co_stdout = Some (example_node ''b.cc''), co_stderr = None, co_cwd = Some ''/build'', os_env = None,
     dep_nodes = [example_node ''gen.py''], co_inputs = [example_node ''a.h''], co_outputs = [example_node ''b.cc''],
     run_after = [], always_run = False \<rparr>"

theorem command_arguments_witness:
  "\<exists>p. run_command_output [] (\<lambda>_. True) example_command = Inr p \<and> popen_cwd p = Some ''/build'' \<and>
    popen_argv p = [''/ns3/gen.py'', ''-x'', ''/ns3/a.h'']"
proof -
  have "apply_cmd_output example_tree ''src'' ''/build'' 0 (\<lambda>_. []) example_generator = Inr example_command"
    by (simp add: apply_cmd_output_def example_generator_def init_cmd_output_def example_tree_def example_command_def example_arg_def
        find_item_def find_node_def find_arg_def optional_node_def nodes_of_def opt_list_def List.map_filter_simps)
  from command_arguments [OF this, of "\<lambda>_. True" "[]"] show ?thesis
    by (simp add: example_generator_def init_cmd_output_def example_arg_def item_path_def example_tree_def find_arg_def example_node_def)
qed

end
