(* ===== verification/WafCommand.thy ===== *)
theory WafCommand
  imports ShellCmd WafMisc
begin

text \<open>
  The waf tools \<open>command.py\<close>, which runs a command line with variables through the small shell, and \<open>cflags.py\<close>, which chooses compiler
  flags. Evaluating the expression of a variable is an argument of the model, as are the nodes of waf and the running of processes.
\<close>

section \<open>Variables in a command\<close>

text \<open>The matches of \<open>arg_rx\<close> and the characters in between: \<open>$$\<close>, or \<open>${var code}\<close> on one line.\<close>

datatype arg_token = Text char | Dollar | Subst string string

definition newline :: char where
  "newline = CHR 0x0A"

lemma rests_shorter: "length (dropWhile P (dropWhile Q (tl xs))) - n < Suc (length xs)"
proof -
  have "length (dropWhile P (dropWhile Q (tl xs))) \<le> length (tl xs)" using length_dropWhile_le le_trans by blast
  then show ?thesis by simp
qed

function arg_scan :: "string \<Rightarrow> arg_token list" where
  "arg_scan [] = []"
| "arg_scan (c # cs) =
     (if c = CHR ''$'' \<and> cs \<noteq> [] \<and> hd cs = CHR ''$'' then Dollar # arg_scan (tl cs)
      else
        (let var = takeWhile is_word (tl cs); r = dropWhile is_word (tl cs);
             code = takeWhile (\<lambda>x. x \<noteq> CHR ''}'' \<and> x \<noteq> newline) r; rest = dropWhile (\<lambda>x. x \<noteq> CHR ''}'' \<and> x \<noteq> newline) r
         in if c = CHR ''$'' \<and> cs \<noteq> [] \<and> hd cs = CHR ''{'' \<and> var \<noteq> [] \<and> rest \<noteq> [] \<and> hd rest = CHR ''}''
            then Subst var code # arg_scan (tl rest)
            else Text c # arg_scan cs))"
  by pat_completeness auto

termination by (relation "measure length") (auto simp: rests_shorter)

text \<open>What an expression can evaluate to; \<open>SRC\<close> and \<open>TGT\<close> are the lists of the inputs and outputs of the task.\<close>

datatype eval_result =
  NodeValue waf_node | InputsValue | OutputsValue | ListValue "eval_result list" | StrValue string | NoneValue | OtherValue

text \<open>A replacement must be a string; \<open>None\<close> stands for the empty one.\<close>

definition replacement :: "eval_result \<Rightarrow> string res" where
  "replacement v = (case v of StrValue s \<Rightarrow> Inr s | NoneValue \<Rightarrow> Inr [] | _ \<Rightarrow> Inl TypeError)"

record node_task =
  t_inputs :: "waf_node list"
  t_outputs :: "waf_node list"
  get_bld :: "waf_node \<Rightarrow> waf_node"

definition subst_value :: "node_task \<Rightarrow> string \<Rightarrow> eval_result \<Rightarrow> string res" where
  "subst_value t var v =
     (case v of
        NodeValue n \<Rightarrow>
          if var = ''TGT'' then Inr (waf_node.abspath (get_bld t n))
          else if var = ''SRC'' then Inr (srcpath n)
          else Inl ValueError
      | InputsValue \<Rightarrow> (case t_inputs t of [n] \<Rightarrow> Inr (srcpath n) | _ \<Rightarrow> Inl ValueError)
      | OutputsValue \<Rightarrow> (case t_outputs t of [n] \<Rightarrow> Inr (waf_node.abspath (get_bld t n)) | _ \<Rightarrow> Inl ValueError)
      | ListValue vs \<Rightarrow> (case vs of [x] \<Rightarrow> replacement x | _ \<Rightarrow> Inl AssertionError)
      | _ \<Rightarrow> replacement v)"

text \<open>\<open>eval\<close> takes the names and the text of an expression.\<close>

definition subst_token :: "(string \<Rightarrow> eval_result res) \<Rightarrow> node_task \<Rightarrow> arg_token \<Rightarrow> string res" where
  "subst_token ev t k =
     (case k of Text c \<Rightarrow> Inr [c] | Dollar \<Rightarrow> Inr ''$''
      | Subst var code \<Rightarrow> bind_res (ev (var @ code)) (subst_value t var))"

definition subst_arg :: "(string \<Rightarrow> eval_result res) \<Rightarrow> node_task \<Rightarrow> string \<Rightarrow> string res" where
  "subst_arg ev t arg = bind_res (map_res (subst_token ev t) (arg_scan arg)) (\<lambda>ps. Inr (concat ps))"







record command_generator =
  g_line :: command_line
  g_variables :: "(string \<Rightarrow> eval_result option) option"


text \<open>\<open>__str__\<close> of the task, with the paths of its files as they are displayed.\<close>

definition command_task_str :: "(waf_node \<Rightarrow> string) \<Rightarrow> node_task \<Rightarrow> command_generator \<Rightarrow> string res" where
  "command_task_str nice_path t g =
     bind_res (parse_pipeline (g_line g)) (\<lambda>p.
       Inr (''command ('' @ get_abbreviated_command p @ ''): '' @ str_join '' '' (map nice_path (t_inputs t))
         @ (if t_outputs t \<noteq> [] then '' -> '' else []) @ str_join '' '' (map nice_path (t_outputs t)) @ [newline]))"

section \<open>Lemmas\<close>

lemma arg_scan_text: "c \<noteq> CHR ''$'' \<Longrightarrow> arg_scan (c # cs) = Text c # arg_scan cs"
  by (simp add: Let_def)

lemma arg_scan_dollar: "arg_scan (CHR ''$'' # CHR ''$'' # cs) = Dollar # arg_scan cs"
  by simp

lemma subst_arg_simps:
  "subst_arg ev t [] = Inr []"
  "c \<noteq> CHR ''$'' \<Longrightarrow> subst_arg ev t (c # cs) = bind_res (subst_arg ev t cs) (\<lambda>s. Inr (c # s))"
  "subst_arg ev t (CHR ''$'' # CHR ''$'' # cs) = bind_res (subst_arg ev t cs) (\<lambda>s. Inr (CHR ''$'' # s))"
  by (simp_all add: subst_arg_def arg_scan_text arg_scan_dollar subst_token_def bind_res_assoc del: arg_scan.simps(2))







text \<open>
  Doubling the dollar signs quotes any text, and the sources and targets of a task are given by their paths when there is exactly one.
\<close>

theorem subst_arg_outcome:
  "subst_arg ev t (replace_char (CHR ''$'') ''$$'' s) = Inr s \<and>
   (ev ''SRC'' = Inr InputsValue \<longrightarrow>
      subst_arg ev t ''${SRC}'' = (if length (t_inputs t) = 1 then Inr (srcpath (hd (t_inputs t))) else Inl ValueError)) \<and>
   (ev ''TGT'' = Inr OutputsValue \<longrightarrow>
      subst_arg ev t ''${TGT}'' =
        (if length (t_outputs t) = 1 then Inr (waf_node.abspath (get_bld t (hd (t_outputs t)))) else Inl ValueError))"
proof -
  have "subst_arg ev t (replace_char (CHR ''$'') ''$$'' s) = Inr s"
    by (induction s) (auto simp: replace_char_def subst_arg_simps)
  moreover have "arg_scan ''${SRC}'' = [Subst ''SRC'' []]" "arg_scan ''${TGT}'' = [Subst ''TGT'' []]" by code_simp+
  ultimately show ?thesis
    by (auto simp: subst_arg_def subst_token_def subst_value_def length_Suc_conv split: list.split)
qed

section \<open>Compiler flags\<close>

text \<open>The traits of the compilers; a method without a matching branch returns \<open>None\<close>.\<close>

datatype compiler_traits = GccTraits | IccTraits | MsvcTraits

definition warnings_flags :: "compiler_traits \<Rightarrow> string list list" where
  "warnings_flags c =
     (case c of
        GccTraits \<Rightarrow> [[''-Wall''], [''-Werror''], [''-Wextra'']]
      | IccTraits \<Rightarrow> [[], [], [''-Wall'']]
      | MsvcTraits \<Rightarrow> [[''/W2''], [''/WX''], [''/Wall'']])"

definition get_warnings_flags :: "compiler_traits \<Rightarrow> int \<Rightarrow> string list" where
  "get_warnings_flags c level = concat (take (nat level) (warnings_flags c))"

definition get_optimization_flags :: "compiler_traits \<Rightarrow> int \<Rightarrow> string list option" where
  "get_optimization_flags c level =
     (if level = 0 then Some (case c of MsvcTraits \<Rightarrow> [''/Od''] | _ \<Rightarrow> [''-O0''])
      else if level = 1 then Some (case c of MsvcTraits \<Rightarrow> [] | _ \<Rightarrow> [''-O''])
      else if level = 2 then Some (case c of MsvcTraits \<Rightarrow> [''/O2''] | _ \<Rightarrow> [''-O2''])
      else if level = 3 then Some (case c of MsvcTraits \<Rightarrow> [''/Ox''] | _ \<Rightarrow> [''-O3''])
      else None)"

definition get_debug_flags :: "compiler_traits \<Rightarrow> int \<Rightarrow> (string list \<times> string list) option" where
  "get_debug_flags c level =
     (if level = 0 then Some (case c of MsvcTraits \<Rightarrow> ([], [''NDEBUG'']) | _ \<Rightarrow> ([''-g0''], [''NDEBUG'']))
      else if level = 1 then Some (case c of MsvcTraits \<Rightarrow> ([''/ZI'', ''/RTC1''], []) | _ \<Rightarrow> ([''-g''], []))
      else if 2 \<le> level then Some (case c of MsvcTraits \<Rightarrow> ([''/ZI'', ''/RTC1''], [''_DEBUG'']) | _ \<Rightarrow> ([''-ggdb'', ''-g3''], [''_DEBUG'']))
      else None)"

definition compiler_mapping :: "(string, compiler_traits) dict" where
  "compiler_mapping = [(''gcc'', GccTraits), (''g++'', GccTraits), (''msvc'', MsvcTraits), (''icc'', IccTraits), (''icpc'', IccTraits)]"

definition profiles :: "(string, int \<times> int \<times> int) dict" where
  "profiles = [(''default'', 2, 1, 1), (''debug'', 0, 2, 3), (''release'', 3, 1, 0)]"

text \<open>The variables of the environment that \<open>configure\<close> reads and extends.\<close>

record flags_env =
  COMPILER_CC :: string
  COMPILER_CXX :: string
  CCFLAGS :: "string list"
  CCDEFINES :: "string list"
  CXXFLAGS :: "string list"
  CXXDEFINES :: "string list"

definition add_cc :: "string list \<Rightarrow> string list \<Rightarrow> flags_env \<Rightarrow> flags_env" where
  "add_cc flags defs e =
     (if COMPILER_CC e \<noteq> [] \<and> CCFLAGS e = [] then e\<lparr> CCFLAGS := CCFLAGS e @ flags, CCDEFINES := CCDEFINES e @ defs \<rparr> else e)"

definition add_cxx :: "string list \<Rightarrow> string list \<Rightarrow> flags_env \<Rightarrow> flags_env" where
  "add_cxx flags defs e =
     (if COMPILER_CXX e \<noteq> [] \<and> CXXFLAGS e = [] then e\<lparr> CXXFLAGS := CXXFLAGS e @ flags, CXXDEFINES := CXXDEFINES e @ defs \<rparr> else e)"

text \<open>The names of the compilers are looked up with the C compiler first; \<open>None\<close> is no key.\<close>

definition find_compiler :: "flags_env \<Rightarrow> compiler_traits option" where
  "find_compiler e =
     (let look = (\<lambda>n. if n = [] then None else map_of compiler_mapping n)
      in case look (COMPILER_CC e) of Some c \<Rightarrow> Some c | None \<Rightarrow> look (COMPILER_CXX e))"

definition configure_flags :: "string \<Rightarrow> flags_env \<Rightarrow> flags_env res" where
  "configure_flags build_profile e =
     (if COMPILER_CC e = [] \<and> COMPILER_CXX e = [] then Inl waf_error
      else
        (case find_compiler e of
           None \<Rightarrow> Inr e
         | Some c \<Rightarrow>
             (case map_of profiles build_profile of
                None \<Rightarrow> Inl KeyError
              | Some (opt_level, warn_level, dbg_level) \<Rightarrow>
                  (case get_optimization_flags c opt_level of
                     None \<Rightarrow> Inl TypeError
                   | Some opts \<Rightarrow>
                       (case get_debug_flags c dbg_level of
                          None \<Rightarrow> Inl TypeError
                        | Some (debug, debug_defs) \<Rightarrow>
                            let flags = opts @ debug @ get_warnings_flags c warn_level
                            in Inr (add_cxx flags debug_defs (add_cc flags debug_defs e)))))))"

text \<open>
  With a profile of the table, \<open>configure\<close> raises an error only when no compiler is defined; flags that are set are kept, flags that are not set are not
  empty afterwards when a compiler of the table is used, and configuring again changes nothing.
\<close>

theorem configure_flags_once:
  assumes "build_profile \<in> fst ` set profiles"
  shows "(configure_flags build_profile e = Inl waf_error \<longleftrightarrow> COMPILER_CC e = [] \<and> COMPILER_CXX e = []) \<and>
    (\<forall>err. configure_flags build_profile e = Inl err \<longrightarrow> err = waf_error) \<and>
    (\<forall>e'. configure_flags build_profile e = Inr e' \<longrightarrow> configure_flags build_profile e' = Inr e' \<and>
       (CCFLAGS e \<noteq> [] \<longrightarrow> CCFLAGS e' = CCFLAGS e \<and> CCDEFINES e' = CCDEFINES e) \<and>
       (find_compiler e \<noteq> None \<and> COMPILER_CC e \<noteq> [] \<longrightarrow> CCFLAGS e' \<noteq> []) \<and>
       (find_compiler e \<noteq> None \<and> COMPILER_CXX e \<noteq> [] \<longrightarrow> CXXFLAGS e' \<noteq> []))"
proof -
  from assms consider "build_profile = ''default''" | "build_profile = ''debug''" | "build_profile = ''release''"
    by (auto simp: profiles_def)
  then obtain l where l: "map_of profiles build_profile = Some l" "l \<in> {(2, 1, 1), (0, 2, 3), (3, 1, 0)}"
    by cases (simp_all add: profiles_def)
  have flags: "\<exists>flags defs. flags \<noteq> [] \<and> (\<forall>e. find_compiler e = Some c \<and> (COMPILER_CC e \<noteq> [] \<or> COMPILER_CXX e \<noteq> []) \<longrightarrow>
      configure_flags build_profile e = Inr (add_cxx flags defs (add_cc flags defs e)))" for c
  proof -
    obtain ol wl dl where lv: "l = (ol, wl, dl)" by (cases l)
    obtain opts debug defs where o: "get_optimization_flags c ol = Some opts" "get_debug_flags c dl = Some (debug, defs)" "opts @ debug \<noteq> []"
      using l(2) lv by (cases c) (auto simp: get_optimization_flags_def get_debug_flags_def)
    show ?thesis
      by (rule exI [of _ "opts @ debug @ get_warnings_flags c wl"], rule exI [of _ defs])
        (use l(1) lv o in \<open>auto simp: configure_flags_def Let_def\<close>)
  qed
  have same: "find_compiler (add_cxx f d (add_cc f d e)) = find_compiler e" for f d
    by (simp add: find_compiler_def add_cxx_def add_cc_def split: option.split)
  show ?thesis
  proof (cases "find_compiler e")
    case None
    then show ?thesis by (simp add: configure_flags_def)
  next
    case (Some c)
    from flags [of c] obtain f d where fd: "f \<noteq> []"
      "\<And>e. find_compiler e = Some c \<Longrightarrow> COMPILER_CC e \<noteq> [] \<or> COMPILER_CXX e \<noteq> [] \<Longrightarrow>
        configure_flags build_profile e = Inr (add_cxx f d (add_cc f d e))" by blast
    show ?thesis
    proof (cases "COMPILER_CC e = [] \<and> COMPILER_CXX e = []")
      case False
      let ?e = "add_cxx f d (add_cc f d e)"
      have once: "add_cxx f d (add_cc f d ?e) = ?e" using fd(1) by (cases "COMPILER_CC e = []"; cases "COMPILER_CXX e = []"; cases "CCFLAGS e = []"; cases "CXXFLAGS e = []") (simp_all add: add_cxx_def add_cc_def)
      have some: "COMPILER_CC ?e \<noteq> [] \<or> COMPILER_CXX ?e \<noteq> []" using False by (auto simp: add_cxx_def add_cc_def)
      have "configure_flags build_profile e = Inr ?e" using fd(2) [OF Some] False by simp
      moreover have "configure_flags build_profile ?e = Inr ?e" using fd(2) [OF _ some] same Some once by simp
      moreover have "CCFLAGS e \<noteq> [] \<longrightarrow> CCFLAGS ?e = CCFLAGS e \<and> CCDEFINES ?e = CCDEFINES e"
        "COMPILER_CC e \<noteq> [] \<longrightarrow> CCFLAGS ?e \<noteq> []" "COMPILER_CXX e \<noteq> [] \<longrightarrow> CXXFLAGS ?e \<noteq> []"
        using fd(1) False by (auto simp: add_cxx_def add_cc_def)
      ultimately show ?thesis using False by simp
    qed (simp add: configure_flags_def)
  qed
qed

theorem configure_flags_once_witness:
  "configure_flags ''debug'' \<lparr> COMPILER_CC = ''gcc'', COMPILER_CXX = ''g++'', CCFLAGS = [''-O1''], CCDEFINES = [], CXXFLAGS = [],
     CXXDEFINES = [] \<rparr> =
   Inr \<lparr> COMPILER_CC = ''gcc'', COMPILER_CXX = ''g++'', CCFLAGS = [''-O1''], CCDEFINES = [],
     CXXFLAGS = [''-O0'', ''-ggdb'', ''-g3'', ''-Wall'', ''-Werror''], CXXDEFINES = [''_DEBUG''] \<rparr> \<and>
   configure_flags ''debug'' \<lparr> COMPILER_CC = ''gcc'', COMPILER_CXX = ''g++'', CCFLAGS = [''-O1''], CCDEFINES = [],
     CXXFLAGS = [''-O0'', ''-ggdb'', ''-g3'', ''-Wall'', ''-Werror''], CXXDEFINES = [''_DEBUG''] \<rparr> =
   Inr \<lparr> COMPILER_CC = ''gcc'', COMPILER_CXX = ''g++'', CCFLAGS = [''-O1''], CCDEFINES = [],
     CXXFLAGS = [''-O0'', ''-ggdb'', ''-g3'', ''-Wall'', ''-Werror''], CXXDEFINES = [''_DEBUG''] \<rparr>"
proof -
  let ?e = "\<lparr> COMPILER_CC = ''gcc'', COMPILER_CXX = ''g++'', CCFLAGS = [''-O1''], CCDEFINES = [], CXXFLAGS = [], CXXDEFINES = [] \<rparr>"
  have "''debug'' \<in> fst ` set profiles" by (simp add: profiles_def)
  from configure_flags_once [OF this, of ?e]
  have again: "configure_flags ''debug'' ?e = Inr e' \<Longrightarrow> configure_flags ''debug'' e' = Inr e'" for e' by blast
  have "configure_flags ''debug'' ?e = Inr (?e\<lparr> CXXFLAGS := [''-O0'', ''-ggdb'', ''-g3'', ''-Wall'', ''-Werror''], CXXDEFINES := [''_DEBUG''] \<rparr>)"
    by (simp add: configure_flags_def find_compiler_def compiler_mapping_def profiles_def get_optimization_flags_def get_debug_flags_def
        get_warnings_flags_def warnings_flags_def add_cc_def add_cxx_def Let_def)
  from this again [OF this] show ?thesis by simp
qed






end
