(* ===== verification/CreateModule.thy ===== *)
theory CreateModule
  imports PyOs PyStr
begin

text \<open>
  The module generator \<open>src/create-module.py\<close>: the templates, their expansion, and the files and directories that \<open>main\<close> creates.
  The file system is a tree of directories and files named by the components of their normalised absolute paths; a step that fails
  leaves what the steps before it have created.
\<close>

section \<open>Templates\<close>

definition unlines :: "string list \<Rightarrow> string" where
  "unlines ls = concat (map (\<lambda>l. l @ [CHR 0x0A]) ls)"

definition WSCRIPT_TEMPLATE :: string where
  \<open>WSCRIPT_TEMPLATE = unlines
    [''# -*- Mode: python; py-indent-offset: 4; indent-tabs-mode: nil; coding: utf-8; -*-'',
     [],
     ''# def options(opt):'',
     ''#     pass'',
     [],
     ''# def configure(conf):'',
     ''#     conf.check_nonfatal(header_name='stdint.h', define_name='HAVE_STDINT_H')'',
     [],
     ''def build(bld):'',
     ''    module = bld.create_ns3_module(%(MODULE)r, ['core'])'',
     ''    module.source = ['',
     ''        'model/%(MODULE)s.cc','',
     ''        'helper/%(MODULE)s-helper.cc','',
     ''        ]'',
     [],
     ''    module_test = bld.create_ns3_module_test_library('%(MODULE)s')'',
     ''    module_test.source = ['',
     ''        'test/%(MODULE)s-test-suite.cc','',
     ''        ]'',
     [],
     ''    headers = bld.new_task_gen(features=['ns3header'])'',
     ''    headers.module = %(MODULE)r'',
     ''    headers.source = ['',
     ''        'model/%(MODULE)s.h','',
     ''        'helper/%(MODULE)s-helper.h','',
     ''        ]'',
     [],
     ''    if bld.env.ENABLE_EXAMPLES:'',
     ''        bld.add_subdirs('examples')'',
     [],
     ''    # bld.ns3_python_bindings()'',
     []]\<close>

definition MODEL_CC_TEMPLATE :: string where
  \<open>MODEL_CC_TEMPLATE = unlines
    [''/* -*- Mode:C++; c-file-style:"gnu"; indent-tabs-mode:nil; -*- */'',
     [],
     ''#include "%(MODULE)s.h"'',
     [],
     ''namespace ns3 {'',
     [],
     ''/* ... */'',
     [],
     [],
     ''}'',
     []]\<close>

definition MODEL_H_TEMPLATE :: string where
  \<open>MODEL_H_TEMPLATE = unlines
    [''/* -*- Mode:C++; c-file-style:"gnu"; indent-tabs-mode:nil; -*- */'',
     ''#ifndef %(INCLUDE_GUARD)s'',
     ''#define %(INCLUDE_GUARD)s'',
     [],
     ''namespace ns3 {'',
     [],
     ''/* ... */'',
     [],
     ''}'',
     [],
     ''#endif /* %(INCLUDE_GUARD)s */'',
     []]\<close>

definition HELPER_CC_TEMPLATE :: string where
  \<open>HELPER_CC_TEMPLATE = unlines
    [''/* -*- Mode:C++; c-file-style:"gnu"; indent-tabs-mode:nil; -*- */'',
     [],
     ''#include "%(MODULE)s-helper.h"'',
     [],
     ''namespace ns3 {'',
     [],
     ''/* ... */'',
     [],
     [],
     ''}'',
     []]\<close>

definition HELPER_H_TEMPLATE :: string where
  \<open>HELPER_H_TEMPLATE = unlines
    [''/* -*- Mode:C++; c-file-style:"gnu"; indent-tabs-mode:nil; -*- */'',
     ''#ifndef %(INCLUDE_GUARD)s'',
     ''#define %(INCLUDE_GUARD)s'',
     [],
     ''#include "ns3/%(MODULE)s.h"'',
     [],
     ''namespace ns3 {'',
     [],
     ''/* ... */'',
     [],
     ''}'',
     [],
     ''#endif /* %(INCLUDE_GUARD)s */'',
     []]\<close>

definition EXAMPLES_WSCRIPT_TEMPLATE :: string where
  \<open>EXAMPLES_WSCRIPT_TEMPLATE = unlines
    [''# -*- Mode: python; py-indent-offset: 4; indent-tabs-mode: nil; coding: utf-8; -*-'',
     [],
     ''def build(bld):'',
     ''    obj = bld.create_ns3_program('%(MODULE)s-example', [%(MODULE)r])'',
     ''    obj.source = '%(MODULE)s-example.cc'' @ [CHR 0x27],
     []]\<close>

definition EXAMPLE_CC_TEMPLATE :: string where
  \<open>EXAMPLE_CC_TEMPLATE = unlines
    [''/* -*- Mode:C++; c-file-style:"gnu"; indent-tabs-mode:nil; -*- */'',
     [],
     ''#include "ns3/core-module.h"'',
     ''#include "ns3/%(MODULE)s-helper.h"'',
     [],
     ''using namespace ns3;'',
     [],
     [],
     ''int '',
     ''main (int argc, char *argv[])'',
     ''{'',
     ''  bool verbose = true;'',
     [],
     ''  CommandLine cmd;'',
     ''  cmd.AddValue ("verbose", "Tell application to log if true", verbose);'',
     [],
     ''  cmd.Parse (argc,argv);'',
     [],
     ''  /* ... */'',
     [],
     ''  Simulator::Run ();'',
     ''  Simulator::Destroy ();'',
     ''  return 0;'',
     ''}'',
     [],
     []]\<close>

definition TEST_CC_TEMPLATE :: string where
  \<open>TEST_CC_TEMPLATE = unlines
    [''/* -*- Mode:C++; c-file-style:"gnu"; indent-tabs-mode:nil; -*- */'',
     [],
     ''// Include a header file from your module to test.'',
     ''#include "ns3/%(MODULE)s.h"'',
     [],
     ''// An essential include is test.h'',
     ''#include "ns3/test.h"'',
     [],
     ''// Do not put your test classes in namespace ns3.  You may find it useful'',
     ''// to use the using directive to access the ns3 namespace directly'',
     ''using namespace ns3;'',
     [],
     ''// This is an example TestCase.'',
     ''class %(CAPITALIZED)sTestCase1 : public TestCase'',
     ''{'',
     ''public:'',
     ''  %(CAPITALIZED)sTestCase1 ();'',
     ''  virtual ~%(CAPITALIZED)sTestCase1 ();'',
     [],
     ''private:'',
     ''  virtual void DoRun (void);'',
     ''};'',
     [],
     ''// Add some help text to this case to describe what it is intended to test'',
     ''%(CAPITALIZED)sTestCase1::%(CAPITALIZED)sTestCase1 ()'',
     ''  : TestCase ("%(CAPITALIZED)s test case (does nothing)")'',
     ''{'',
     ''}'',
     [],
     ''// This destructor does nothing but we include it as a reminder that'',
     ''// the test case should clean up after itself'',
     ''%(CAPITALIZED)sTestCase1::~%(CAPITALIZED)sTestCase1 ()'',
     ''{'',
     ''}'',
     [],
     ''//'',
     ''// This method is the pure virtual method from class TestCase that every'',
     ''// TestCase must implement'',
     ''//'',
     ''void'',
     ''%(CAPITALIZED)sTestCase1::DoRun (void)'',
     ''{'',
     ''  // A wide variety of test macros are available in src/core/test.h'',
     ''  NS_TEST_ASSERT_MSG_EQ (true, true, "true doesn't equal true for some reason");'',
     ''  // Use this one for floating point comparisons'',
     ''  NS_TEST_ASSERT_MSG_EQ_TOL (0.01, 0.01, 0.001, "Numbers are not equal within tolerance");'',
     ''}'',
     [],
     ''// The TestSuite class names the TestSuite, identifies what type of TestSuite,'',
     ''// and enables the TestCases to be run.  Typically, only the constructor for'',
     ''// this class must be defined'',
     ''//'',
     ''class %(CAPITALIZED)sTestSuite : public TestSuite'',
     ''{'',
     ''public:'',
     ''  %(CAPITALIZED)sTestSuite ();'',
     ''};'',
     [],
     ''%(CAPITALIZED)sTestSuite::%(CAPITALIZED)sTestSuite ()'',
     ''  : TestSuite ("%(MODULE)s", UNIT)'',
     ''{'',
     ''  AddTestCase (new %(CAPITALIZED)sTestCase1);'',
     ''}'',
     [],
     ''// Do not forget to allocate an instance of this TestSuite'',
     ''static %(CAPITALIZED)sTestSuite %(MODULE)sTestSuite;'',
     []]\<close>

section \<open>Files and directories\<close>

record dir_tree =
  tree_dirs :: "string list list"
  tree_files :: "(string list, string) dict"

definition locate :: "string \<Rightarrow> string \<Rightarrow> string list" where
  "locate cwd p = norm_comps True (comps (path_join cwd p))"

definition path_exists :: "string \<Rightarrow> dir_tree \<Rightarrow> string \<Rightarrow> bool" where
  "path_exists cwd t p \<longleftrightarrow> p \<noteq> [] \<and> (locate cwd p \<in> set (tree_dirs t) \<or> locate cwd p \<in> fst ` set (tree_files t))"

definition make_dir :: "string \<Rightarrow> string \<Rightarrow> dir_tree \<Rightarrow> dir_tree \<times> unit res" where
  "make_dir cwd p t =
     (let k = locate cwd p in
      if p = [] \<or> path_exists cwd t p \<or> butlast k \<notin> set (tree_dirs t) then (t, Inl OSError)
      else (t\<lparr> tree_dirs := k # tree_dirs t \<rparr>, Inr ()))"

text \<open>Opening a file for writing creates it; the text is expanded and written afterwards.\<close>

definition write_template :: "string \<Rightarrow> string \<Rightarrow> string \<Rightarrow> (string \<times> string) list \<Rightarrow> dir_tree \<Rightarrow> dir_tree \<times> unit res" where
  "write_template cwd p tmpl params t =
     (let k = locate cwd p in
      if p = [] \<or> k \<in> set (tree_dirs t) \<or> butlast k \<notin> set (tree_dirs t) then (t, Inl IOError)
      else (case py_format (map_of params) tmpl of
              Inl e \<Rightarrow> (t\<lparr> tree_files := AList.update k [] (tree_files t) \<rparr>, Inl e)
            | Inr s \<Rightarrow> (t\<lparr> tree_files := AList.update k s (tree_files t) \<rparr>, Inr ())))"

datatype create_step = MakeDir string | WriteTemplate string string "(string \<times> string) list"

definition run_create_step :: "string \<Rightarrow> create_step \<Rightarrow> dir_tree \<Rightarrow> dir_tree \<times> unit res" where
  "run_create_step cwd s t =
     (case s of MakeDir p \<Rightarrow> make_dir cwd p t | WriteTemplate p tmpl params \<Rightarrow> write_template cwd p tmpl params t)"

fun create_steps :: "string \<Rightarrow> create_step list \<Rightarrow> dir_tree \<Rightarrow> dir_tree \<times> unit res" where
  "create_steps cwd [] t = (t, Inr ())"
| "create_steps cwd (s # ss) t =
     (case run_create_step cwd s t of (t', Inl e) \<Rightarrow> (t', Inl e) | (t', Inr _) \<Rightarrow> create_steps cwd ss t')"

definition module_steps :: "string \<Rightarrow> string \<Rightarrow> create_step list" where
  "module_steps moduledir modname =
     (let file_in = (\<lambda>sub name. path_join (path_join moduledir sub) name);
          name = (''MODULE'', modname)
      in [MakeDir moduledir,
          WriteTemplate (path_join moduledir ''wscript'') WSCRIPT_TEMPLATE [name],
          MakeDir (path_join moduledir ''model''),
          WriteTemplate (file_in ''model'' (modname @ ''.cc'')) MODEL_CC_TEMPLATE [name],
          WriteTemplate (file_in ''model'' (modname @ ''.h'')) MODEL_H_TEMPLATE
            [name, (''INCLUDE_GUARD'', ''__'' @ upper modname @ ''_H__'')],
          MakeDir (path_join moduledir ''test''),
          WriteTemplate (file_in ''test'' (modname @ ''-test-suite.cc'')) TEST_CC_TEMPLATE
            [name, (''CAPITALIZED'', capitalize modname)],
          MakeDir (path_join moduledir ''helper''),
          WriteTemplate (file_in ''helper'' (modname @ ''-helper.cc'')) HELPER_CC_TEMPLATE [name],
          WriteTemplate (file_in ''helper'' (modname @ ''-helper.h'')) HELPER_H_TEMPLATE
            [name, (''INCLUDE_GUARD'', ''__'' @ upper modname @ ''_HELPER_H__'')],
          MakeDir (path_join moduledir ''examples''),
          WriteTemplate (path_join (path_join moduledir ''examples'') ''wscript'') EXAMPLES_WSCRIPT_TEMPLATE [name],
          WriteTemplate (file_in ''examples'' (modname @ ''-example.cc'')) EXAMPLE_CC_TEMPLATE [name]])"

text \<open>\<open>main\<close>: \<open>args\<close> are the positional arguments that the option parser leaves; the result also has what is written to the standard error.\<close>

definition create_module_main :: "string \<Rightarrow> string \<Rightarrow> string list \<Rightarrow> dir_tree \<Rightarrow> dir_tree \<times> string \<times> int res" where
  "create_module_main cwd script_dir args t =
     (case args of
        [modname] \<Rightarrow>
          if CHR ''/'' \<in> set modname then (t, [], Inl AssertionError)
          else let moduledir = path_join script_dir modname in
            if path_exists cwd t moduledir then (t, ''Module '' @ py_repr modname @ '' already exists'' @ [CHR 0x0A], Inr 2)
            else (case create_steps cwd (module_steps moduledir modname) t of
                    (t', Inl e) \<Rightarrow> (t', [], Inl e)
                  | (t', Inr _) \<Rightarrow> (t', [], Inr 0))
      | _ \<Rightarrow> (t, [], Inr 1))"

section \<open>Expansion\<close>

text \<open>The names a template refers to, if all its conversions are well formed.\<close>

function template_refs :: "string \<Rightarrow> string list option" where
  "template_refs [] = Some []"
| "template_refs (c # cs) =
     (if c \<noteq> CHR ''%'' then template_refs cs
      else (case cs of
        x # xs \<Rightarrow>
          if x = CHR ''%'' then template_refs xs
          else if x = CHR ''('' then
            (case dropWhile (\<lambda>y. y \<noteq> CHR '')'') xs of
               _ # conv # rest \<Rightarrow>
                 if conv = CHR ''s'' \<or> conv = CHR ''r''
                 then map_option ((#) (takeWhile (\<lambda>y. y \<noteq> CHR '')'') xs)) (template_refs rest) else None
             | _ \<Rightarrow> None)
          else None
      | [] \<Rightarrow> None))"
  by pat_completeness auto
termination by (relation "measure length") (auto dest: dropWhile_shorter)

inductive template :: "string list \<Rightarrow> string \<Rightarrow> bool" where
  end_of_text: "template [] []"
| plain: "template ns cs \<Longrightarrow> c \<noteq> CHR ''%'' \<Longrightarrow> template ns (c # cs)"
| percent: "template ns cs \<Longrightarrow> template ns (CHR ''%'' # CHR ''%'' # cs)"
| ref: "template ns rest \<Longrightarrow> CHR '')'' \<notin> set n \<Longrightarrow> conv \<in> {CHR ''s'', CHR ''r''} \<Longrightarrow>
    template (n # ns) (''%('' @ n @ CHR '')'' # conv # rest)"

lemma closing_split:
  assumes "dropWhile (\<lambda>y. y \<noteq> CHR '')'') xs = y # ys"
  shows "xs = takeWhile (\<lambda>y. y \<noteq> CHR '')'') xs @ CHR '')'' # ys \<and> CHR '')'' \<notin> set (takeWhile (\<lambda>y. y \<noteq> CHR '')'') xs)"
proof -
  have "y = CHR '')''" using assms hd_dropWhile [of "\<lambda>y. y \<noteq> CHR '')''" xs] by auto
  then show ?thesis using assms takeWhile_dropWhile_id [of "\<lambda>y. y \<noteq> CHR '')''" xs] by (auto dest: set_takeWhileD)
qed

lemma template_refs_sound: "template_refs s = Some ns \<Longrightarrow> template ns s"
proof (induction s arbitrary: ns rule: length_induct)
  case (1 s)
  then have IH: "\<And>cs ns. length cs < length s \<Longrightarrow> template_refs cs = Some ns \<Longrightarrow> template ns cs" by blast
  show ?case
  proof (cases s)
    case Nil
    with 1 show ?thesis by (simp add: end_of_text)
  next
    case (Cons c cs)
    show ?thesis
    proof (cases "c = CHR ''%''")
      case False
      with 1 Cons show ?thesis by (auto intro: plain)
    next
      case True
      with 1(2) Cons obtain x xs where cs: "cs = x # xs" by (cases cs) auto
      consider "x = CHR ''%''" | "x = CHR ''(''" using 1(2) Cons True cs by (auto split: if_splits)
      then show ?thesis
      proof cases
        case 1
        with IH \<open>template_refs s = Some ns\<close> Cons True cs show ?thesis by (auto intro: percent)
      next
        case 2
        let ?n = "takeWhile (\<lambda>y. y \<noteq> CHR '')'') xs"
        obtain y conv rest ns' where r: "dropWhile (\<lambda>y. y \<noteq> CHR '')'') xs = y # conv # rest"
            "conv \<in> {CHR ''s'', CHR ''r''}" "template_refs rest = Some ns'" "ns = ?n # ns'"
          using \<open>template_refs s = Some ns\<close> Cons True cs 2 by (auto split: list.splits if_splits)
        from closing_split [OF r(1)] have xs: "xs = ?n @ CHR '')'' # conv # rest" "CHR '')'' \<notin> set ?n" by simp_all
        then have "length rest < length xs" by (metis add_Suc_right length_Cons length_append less_add_Suc2 less_Suc_eq)
        then have "template ns' rest" using IH r(3) Cons cs by simp
        from ref [OF this xs(2) r(2)] xs(1) r(4) Cons True cs 2 show ?thesis by simp
      qed
    qed
  qed
qed

lemma py_format_ref:
  assumes "CHR '')'' \<notin> set n" and "conv \<in> {CHR ''s'', CHR ''r''}"
  shows "py_format d (''%('' @ n @ CHR '')'' # conv # rest) =
    (case d n of None \<Rightarrow> Inl KeyError
     | Some v \<Rightarrow> bind_res (py_format d rest) (\<lambda>t. Inr ((if conv = CHR ''s'' then v else py_repr v) @ t)))"
proof -
  have "takeWhile (\<lambda>y. y \<noteq> CHR '')'') (n @ CHR '')'' # conv # rest) = n"
    "dropWhile (\<lambda>y. y \<noteq> CHR '')'') (n @ CHR '')'' # conv # rest) = CHR '')'' # conv # rest"
    using assms(1) by (auto simp: takeWhile_tail dropWhile_append)
  with assms(2) show ?thesis by (auto split: option.split)
qed

lemma template_expands:
  assumes "template ns s" and "\<And>n. n \<in> set ns \<Longrightarrow> d n \<noteq> None"
  shows "\<exists>r. \<forall>u. py_format d (s @ u) = bind_res (py_format d u) (\<lambda>t. Inr (r @ t))"
  using assms
proof induction
  case (plain ns cs c)
  then obtain r where "\<forall>u. py_format d (cs @ u) = bind_res (py_format d u) (\<lambda>t. Inr (r @ t))" by blast
  with plain.hyps show ?case by (intro exI [of _ "c # r"]) (simp add: bind_res_assoc)
next
  case (percent ns cs)
  then obtain r where "\<forall>u. py_format d (cs @ u) = bind_res (py_format d u) (\<lambda>t. Inr (r @ t))" by blast
  then show ?case by (intro exI [of _ "CHR ''%'' # r"]) (simp add: bind_res_assoc)
next
  case (ref ns rest n conv)
  then obtain r where r: "\<forall>u. py_format d (rest @ u) = bind_res (py_format d u) (\<lambda>t. Inr (r @ t))" by (meson list.set_intros(2))
  from ref.prems obtain v where "d n = Some v" by fastforce
  with py_format_ref [OF ref.hyps(2,3), of d] r show ?case
    by (intro exI [of _ "(if conv = CHR ''s'' then v else py_repr v) @ r"]) (simp add: bind_res_assoc del: py_format.simps)
qed (intro exI [of _ "[]"], simp)

text \<open>A text of lines whose conversions are well formed is expanded line by line.\<close>

lemma py_format_append:
  assumes "template ns s" and "\<And>n. n \<in> set ns \<Longrightarrow> d n \<noteq> None"
  shows "\<exists>r. py_format d s = Inr r \<and> py_format d (s @ u) = bind_res (py_format d u) (\<lambda>t. Inr (r @ t))"
proof -
  from template_expands [of ns s d] assms obtain r where r: "\<And>u. py_format d (s @ u) = bind_res (py_format d u) (\<lambda>t. Inr (r @ t))" by blast
  from r [of "[]"] r [of u] show ?thesis by simp
qed

lemma py_format_lines:
  assumes "\<And>l. l \<in> set ls \<Longrightarrow> \<exists>ns. template_refs l = Some ns \<and> (\<forall>n \<in> set ns. d n \<noteq> None)"
  shows "\<exists>rs. map_res (py_format d) ls = Inr rs \<and> py_format d (unlines ls) = Inr (unlines rs)"
  using assms
proof (induction ls)
  case (Cons l ls)
  then obtain rs where rs: "map_res (py_format d) ls = Inr rs" "py_format d (unlines ls) = Inr (unlines rs)" by auto
  from Cons.prems [of l] obtain ns where ns: "template_refs l = Some ns" "\<forall>n \<in> set ns. d n \<noteq> None" by (auto simp del: not_None_eq)
  have "unlines (l # ls) = l @ CHR 0x0A # unlines ls" by (simp add: unlines_def)
  with py_format_append [OF template_refs_sound [OF ns(1)], of d "CHR 0x0A # unlines ls"] ns(2) rs
  show ?case by (auto simp: unlines_def)
qed (simp add: unlines_def)


lemma map_res_mem: "map_res f xs = Inr ys \<Longrightarrow> x \<in> set xs \<Longrightarrow> \<exists>y \<in> set ys. f x = Inr y"
  by (induction xs arbitrary: ys) (auto simp: bind_res_Inr_iff)

lemma py_format_name:
  assumes "CHR ''%'' \<notin> set a" and "CHR ''%'' \<notin> set b"
  shows "py_format (map_of [(''MODULE'', m)]) (a @ ''%(MODULE)s'' @ b) = Inr (a @ m @ b)"
  using assms py_format_lit [of b "map_of [(''MODULE'', m)]" "[]"] py_format_var [of "''MODULE''" "map_of [(''MODULE'', m)]" b]
  by (simp add: py_format_lit del: py_format.simps(2))

definition refs_within :: "string list \<Rightarrow> string \<Rightarrow> bool" where
  "refs_within names s \<longleftrightarrow> (case template_refs s of None \<Rightarrow> False | Some ns \<Rightarrow> set ns \<subseteq> set names)"

lemma template_refs_char: "c \<noteq> CHR ''%'' \<Longrightarrow> template_refs (c # cs) = template_refs cs"
  by simp

lemma template_refs_var:
  "template_refs (CHR ''%'' # CHR ''('' # xs) =
     (case dropWhile (\<lambda>y. y \<noteq> CHR '')'') xs of
        _ # conv # rest \<Rightarrow>
          if conv = CHR ''s'' \<or> conv = CHR ''r''
          then map_option ((#) (takeWhile (\<lambda>y. y \<noteq> CHR '')'') xs)) (template_refs rest) else None
      | _ \<Rightarrow> None)"
  by simp

lemmas refs_simps = refs_within_def template_refs.simps(1) template_refs_char template_refs_var

definition template_lines :: "string list \<Rightarrow> string \<Rightarrow> string list \<Rightarrow> bool" where
  "template_lines names tmpl ls \<longleftrightarrow> tmpl = unlines ls \<and> (\<forall>l \<in> set ls. refs_within names l)"

lemma templates_refer:
  "\<exists>ls. template_lines [''MODULE''] WSCRIPT_TEMPLATE ls"
  "\<exists>ls. template_lines [''MODULE''] MODEL_CC_TEMPLATE ls"
  "\<exists>ls. template_lines [''MODULE'', ''INCLUDE_GUARD''] MODEL_H_TEMPLATE ls"
  "\<exists>ls. template_lines [''MODULE''] HELPER_CC_TEMPLATE ls"
  "\<exists>ls. template_lines [''MODULE'', ''INCLUDE_GUARD''] HELPER_H_TEMPLATE ls"
  "\<exists>ls. template_lines [''MODULE''] EXAMPLES_WSCRIPT_TEMPLATE ls"
  "\<exists>ls. template_lines [''MODULE''] EXAMPLE_CC_TEMPLATE ls"
  "\<exists>ls. template_lines [''MODULE'', ''CAPITALIZED''] TEST_CC_TEMPLATE ls"
  unfolding WSCRIPT_TEMPLATE_def MODEL_CC_TEMPLATE_def MODEL_H_TEMPLATE_def HELPER_CC_TEMPLATE_def HELPER_H_TEMPLATE_def
    EXAMPLES_WSCRIPT_TEMPLATE_def EXAMPLE_CC_TEMPLATE_def TEST_CC_TEMPLATE_def template_lines_def
  by (intro exI conjI, rule refl, simp add: refs_simps del: template_refs.simps(2))+

lemma lines_expand:
  assumes "template_lines names tmpl ls" and "\<And>n. n \<in> set names \<Longrightarrow> d n \<noteq> None"
  shows "\<exists>rs. map_res (py_format d) ls = Inr rs \<and> py_format d tmpl = Inr (unlines rs)"
proof -
  have "\<exists>ns. template_refs l = Some ns \<and> (\<forall>n \<in> set ns. d n \<noteq> None)" if "l \<in> set ls" for l
    using assms that by (fastforce simp: template_lines_def refs_within_def split: option.splits)
  from py_format_lines [OF this] assms(1) show ?thesis by (simp add: template_lines_def)
qed

lemma template_total:
  assumes "\<exists>ls. template_lines names tmpl ls" and "\<And>n. n \<in> set names \<Longrightarrow> d n \<noteq> None"
  shows "\<exists>r. py_format d tmpl = Inr r"
  using assms lines_expand by blast

section \<open>The tree\<close>

definition tree_ok :: "dir_tree \<Rightarrow> bool" where
  "tree_ok t \<longleftrightarrow> [] \<in> set (tree_dirs t) \<and>
     (\<forall>k \<in> set (tree_dirs t) \<union> fst ` set (tree_files t). k \<noteq> [] \<longrightarrow> butlast k \<in> set (tree_dirs t)) \<and>
     set (tree_dirs t) \<inter> fst ` set (tree_files t) = {}"

definition in_tree :: "string list \<Rightarrow> dir_tree \<Rightarrow> bool" where
  "in_tree k t \<longleftrightarrow> k \<in> set (tree_dirs t) \<or> k \<in> fst ` set (tree_files t)"

lemma tree_ok_below: "tree_ok t \<Longrightarrow> k \<notin> set (tree_dirs t) \<Longrightarrow> \<not> in_tree (k @ [x]) t"
  unfolding tree_ok_def in_tree_def by (metis UnI1 UnI2 butlast_snoc snoc_eq_iff_butlast)

lemma comps_proper: "proper c \<Longrightarrow> comps c = [c]"
  by (simp add: comps_def proper_def split_char_plain)

lemma locate_join:
  assumes "proper c"
  shows "locate cwd (path_join p c) = locate cwd p @ [c]" and "path_join p c \<noteq> []"
proof -
  have c: "c \<noteq> []" "\<not> startswith c ''/''" using assms by (auto simp: proper_def prefix_def)
  show "path_join p c \<noteq> []" using c by (auto simp: path_join_def)
  have "comps (path_join cwd (path_join p c)) = comps (path_join cwd p) @ [c]"
  proof (cases "startswith p ''/''")
    case True
    then have "startswith (path_join p c) ''/''" using c by (auto simp: path_join_def prefix_def)
    with True show ?thesis using c assms by (simp add: path_join_def [of cwd] comps_join comps_proper)
  next
    case False
    then have "\<not> startswith (path_join p c) ''/''" using c path_join_relative by blast
    with False c assms show ?thesis by (simp add: comps_join comps_proper)
  qed
  then show "locate cwd (path_join p c) = locate cwd p @ [c]"
    using assms by (simp add: locate_def norm_comps_def norm_step_def proper_def)
qed

lemma make_dir_fresh:
  assumes "proper c" and "locate cwd p \<in> set (tree_dirs t)" and "\<not> in_tree (locate cwd p @ [c]) t"
  shows "make_dir cwd (path_join p c) t = (t\<lparr> tree_dirs := (locate cwd p @ [c]) # tree_dirs t \<rparr>, Inr ())"
  using assms by (auto simp: make_dir_def path_exists_def in_tree_def locate_join Let_def)

definition expansion :: "(string \<times> string) list \<Rightarrow> string \<Rightarrow> string" where
  "expansion params tmpl = (case py_format (map_of params) tmpl of Inl _ \<Rightarrow> [] | Inr s \<Rightarrow> s)"

definition expands :: "(string \<times> string) list \<Rightarrow> string \<Rightarrow> bool" where
  "expands params tmpl \<longleftrightarrow> py_format (map_of params) tmpl = Inr (expansion params tmpl)"

lemma write_template_fresh:
  assumes "proper c" and "locate cwd p \<in> set (tree_dirs t)" and "locate cwd p @ [c] \<notin> set (tree_dirs t)" and "expands params tmpl"
  shows "write_template cwd (path_join p c) tmpl params t =
    (t\<lparr> tree_files := AList.update (locate cwd p @ [c]) (expansion params tmpl) (tree_files t) \<rparr>, Inr ())"
  using assms by (auto simp: write_template_def locate_join Let_def expands_def)

lemma templates_expand:
  "expands [(''MODULE'', m)] WSCRIPT_TEMPLATE"
  "expands [(''MODULE'', m)] MODEL_CC_TEMPLATE"
  "expands [(''MODULE'', m), (''INCLUDE_GUARD'', g)] MODEL_H_TEMPLATE"
  "expands [(''MODULE'', m)] HELPER_CC_TEMPLATE"
  "expands [(''MODULE'', m), (''INCLUDE_GUARD'', g)] HELPER_H_TEMPLATE"
  "expands [(''MODULE'', m)] EXAMPLES_WSCRIPT_TEMPLATE"
  "expands [(''MODULE'', m)] EXAMPLE_CC_TEMPLATE"
  "expands [(''MODULE'', m), (''CAPITALIZED'', g)] TEST_CC_TEMPLATE"
proof -
  have "expands ps tmpl" if "\<exists>ls. template_lines names tmpl ls" "\<And>n. n \<in> set names \<Longrightarrow> map_of ps n \<noteq> None" for ps tmpl names
    using template_total [where d = "map_of ps", OF that] by (auto simp: expands_def expansion_def)
  note * = this
  show "expands [(''MODULE'', m)] WSCRIPT_TEMPLATE" by (rule * [OF templates_refer(1)]) simp
  show "expands [(''MODULE'', m)] MODEL_CC_TEMPLATE" by (rule * [OF templates_refer(2)]) simp
  show "expands [(''MODULE'', m), (''INCLUDE_GUARD'', g)] MODEL_H_TEMPLATE" by (rule * [OF templates_refer(3)]) auto
  show "expands [(''MODULE'', m)] HELPER_CC_TEMPLATE" by (rule * [OF templates_refer(4)]) simp
  show "expands [(''MODULE'', m), (''INCLUDE_GUARD'', g)] HELPER_H_TEMPLATE" by (rule * [OF templates_refer(5)]) auto
  show "expands [(''MODULE'', m)] EXAMPLES_WSCRIPT_TEMPLATE" by (rule * [OF templates_refer(6)]) simp
  show "expands [(''MODULE'', m)] EXAMPLE_CC_TEMPLATE" by (rule * [OF templates_refer(7)]) simp
  show "expands [(''MODULE'', m), (''CAPITALIZED'', g)] TEST_CC_TEMPLATE" by (rule * [OF templates_refer(8)]) auto
qed

lemma proper_append:
  "proper m \<Longrightarrow> CHR ''/'' \<notin> set s \<Longrightarrow> 2 \<le> length s \<Longrightarrow> proper (m @ s)"
  by (cases m; cases "tl m") (auto simp: proper_def)


text \<open>What the run adds below the directory of the new module.\<close>

definition module_dirs :: "string list list" where
  "module_dirs = [[''examples''], [''helper''], [''test''], [''model''], []]"

definition module_files :: "string \<Rightarrow> (string list \<times> string) list" where
  "module_files m =
     [([''wscript''], expansion [(''MODULE'', m)] WSCRIPT_TEMPLATE),
      ([''model'', m @ ''.cc''], expansion [(''MODULE'', m)] MODEL_CC_TEMPLATE),
      ([''model'', m @ ''.h''], expansion [(''MODULE'', m), (''INCLUDE_GUARD'', ''__'' @ upper m @ ''_H__'')] MODEL_H_TEMPLATE),
      ([''test'', m @ ''-test-suite.cc''], expansion [(''MODULE'', m), (''CAPITALIZED'', capitalize m)] TEST_CC_TEMPLATE),
      ([''helper'', m @ ''-helper.cc''], expansion [(''MODULE'', m)] HELPER_CC_TEMPLATE),
      ([''helper'', m @ ''-helper.h''], expansion [(''MODULE'', m), (''INCLUDE_GUARD'', ''__'' @ upper m @ ''_HELPER_H__'')] HELPER_H_TEMPLATE),
      ([''examples'', ''wscript''], expansion [(''MODULE'', m)] EXAMPLES_WSCRIPT_TEMPLATE),
      ([''examples'', m @ ''-example.cc''], expansion [(''MODULE'', m)] EXAMPLE_CC_TEMPLATE)]"

lemma proper_names:
  "proper ''wscript''" "proper ''model''" "proper ''test''" "proper ''helper''" "proper ''examples''"
  by (simp_all add: proper_def)

lemma steps_create:
  assumes "proper m" and "tree_ok t" and "locate cwd d \<in> set (tree_dirs t)" and "\<not> in_tree (locate cwd d @ [m]) t"
  shows "create_steps cwd (module_steps (path_join d m) m) t =
    (t\<lparr> tree_dirs := map ((@) (locate cwd d @ [m])) module_dirs @ tree_dirs t,
       tree_files := fold (\<lambda>(k, s). AList.update ((locate cwd d @ [m]) @ k) s) (module_files m) (tree_files t) \<rparr>, Inr ())"
proof -
  let ?b = "locate cwd d"
  have M: "?b @ [m] \<notin> set (tree_dirs t)" using assms(4) by (simp add: in_tree_def)
  have f1: "?b @ [m, x] \<notin> set (tree_dirs t)" "?b @ [m, x] \<notin> fst ` set (tree_files t)" for x
    using tree_ok_below [OF assms(2) M, of x] by (simp_all add: in_tree_def)
  have f2: "?b @ [m, x, y] \<notin> set (tree_dirs t)" for x y
    using tree_ok_below [OF assms(2), of "?b @ [m, x]" y] f1(1) [of x] by (simp add: in_tree_def)
  have keys: "fst ` set (AList.update k v al) = insert k (fst ` set al)" for k v and al :: "(string list, string) dict"
    by (simp add: dom_map_of_conv_image_fst [symmetric] update_conv')
  have names: "proper (m @ ''.cc'')" "proper (m @ ''.h'')" "proper (m @ ''-test-suite.cc'')" "proper (m @ ''-helper.cc'')"
    "proper (m @ ''-helper.h'')" "proper (m @ ''-example.cc'')"
    using assms(1) by (simp_all add: proper_append)
  show ?thesis
    using assms(1,3,4) f1 f2
    by (simp add: module_steps_def Let_def run_create_step_def make_dir_fresh write_template_fresh locate_join proper_names names
        templates_expand in_tree_def keys module_dirs_def module_files_def)
qed


definition source_line :: "string \<Rightarrow> string" where
  "source_line f = ''        '' @ [CHR 0x27] @ f @ [CHR 0x27] @ '',''"

definition module_sources :: "string \<Rightarrow> (string \<times> string) list" where
  "module_sources m = [(''model'', m @ ''.cc''), (''helper'', m @ ''-helper.cc''), (''test'', m @ ''-test-suite.cc''),
     (''model'', m @ ''.h''), (''helper'', m @ ''-helper.h'')]"

lemma wscript_lines:
  "\<exists>ls. expansion [(''MODULE'', m)] WSCRIPT_TEMPLATE = unlines ls \<and>
     (\<forall>(sub, name) \<in> set (module_sources m). source_line (sub @ ''/'' @ name) \<in> set ls)"
proof -
  let ?p = "py_format (map_of [(''MODULE'', m)])"
  have "\<exists>ls. template_lines [''MODULE''] WSCRIPT_TEMPLATE ls \<and>
      (\<forall>f \<in> {''model/%(MODULE)s.cc'', ''helper/%(MODULE)s-helper.cc'', ''test/%(MODULE)s-test-suite.cc'', ''model/%(MODULE)s.h'',
         ''helper/%(MODULE)s-helper.h''}. source_line f \<in> set ls)"
    unfolding WSCRIPT_TEMPLATE_def template_lines_def source_line_def
    by (intro exI conjI, rule refl, simp_all add: refs_simps del: template_refs.simps(2))
  then obtain ls where ls: "template_lines [''MODULE''] WSCRIPT_TEMPLATE ls"
    "\<forall>f \<in> {''model/%(MODULE)s.cc'', ''helper/%(MODULE)s-helper.cc'', ''test/%(MODULE)s-test-suite.cc'', ''model/%(MODULE)s.h'',
       ''helper/%(MODULE)s-helper.h''}. source_line f \<in> set ls" by blast
  from lines_expand [OF ls(1), of "map_of [(''MODULE'', m)]"]
  obtain rs where rs: "map_res ?p ls = Inr rs" "?p WSCRIPT_TEMPLATE = Inr (unlines rs)" by auto
  have line: "source_line (sub @ a @ m @ b) \<in> set rs" if "source_line (sub @ a @ ''%(MODULE)s'' @ b) \<in> set ls"
      "CHR ''%'' \<notin> set sub" "CHR ''%'' \<notin> set a" "CHR ''%'' \<notin> set b" for sub a b
  proof -
    have "?p (source_line (sub @ a @ ''%(MODULE)s'' @ b)) = Inr (source_line (sub @ a @ m @ b))"
      using py_format_name [of "''        '' @ [CHR 0x27] @ sub @ a" "b @ [CHR 0x27] @ '',''" m] that(2-4)
      by (simp add: source_line_def del: py_format.simps)
    with map_res_mem [OF rs(1) that(1)] show ?thesis by auto
  qed
  from ls(2) have "source_line (''model'' @ ''/'' @ ''%(MODULE)s'' @ ''.cc'') \<in> set ls"
    "source_line (''helper'' @ ''/'' @ ''%(MODULE)s'' @ ''-helper.cc'') \<in> set ls"
    "source_line (''test'' @ ''/'' @ ''%(MODULE)s'' @ ''-test-suite.cc'') \<in> set ls"
    "source_line (''model'' @ ''/'' @ ''%(MODULE)s'' @ ''.h'') \<in> set ls"
    "source_line (''helper'' @ ''/'' @ ''%(MODULE)s'' @ ''-helper.h'') \<in> set ls" by simp_all
  note this [THEN line]
  then have "\<forall>(sub, name) \<in> set (module_sources m). source_line (sub @ ''/'' @ name) \<in> set rs" by (simp add: module_sources_def)
  with rs(2) show ?thesis by (auto simp: expansion_def)
qed


lemma updates_map:
  "map_of (fold (\<lambda>(k, s). AList.update (f k) s) xs al) = map_of al ++ map_of (rev (map (\<lambda>(k, s). (f k, s)) xs))"
  by (induction xs arbitrary: al) (auto simp: update_conv' fun_eq_iff map_add_def split: option.split)

lemma updates_keys:
  "fst ` set (fold (\<lambda>(k, s). AList.update (f k) s) xs al) = fst ` set al \<union> (\<lambda>(k, s). f k) ` set xs"
proof (induction xs arbitrary: al)
  case (Cons x xs)
  have "fst ` set (AList.update k v al) = insert k (fst ` set al)" for k v
    by (simp add: dom_map_of_conv_image_fst [symmetric] update_conv')
  with Cons show ?case by (cases x) auto
qed simp

lemma map_of_rev_distinct: "distinct (map fst xs) \<Longrightarrow> map_of (rev xs) = map_of xs"
proof (induction xs)
  case (Cons x xs)
  then have "map_of xs (fst x) = None" by (simp add: map_of_eq_None_iff)
  with Cons show ?case by (auto simp: map_add_def fun_eq_iff split: option.split)
qed simp

lemma module_files_distinct: "distinct (map fst (module_files m))"
proof -
  have "m @ ''-example.cc'' \<noteq> ''wscript''"
  proof
    assume "m @ ''-example.cc'' = ''wscript''"
    then have "last (m @ ''-example.cc'') = last ''wscript''" by (rule arg_cong)
    then show False by simp
  qed
  then show ?thesis by (simp add: module_files_def)
qed

lemma module_tree_ok:
  assumes "tree_ok t" and "b \<in> set (tree_dirs t)" and "\<not> in_tree (b @ [m]) t"
  shows "tree_ok (t\<lparr> tree_dirs := map ((@) (b @ [m])) module_dirs @ tree_dirs t,
      tree_files := fold (\<lambda>(k, s). AList.update ((b @ [m]) @ k) s) (module_files m) (tree_files t) \<rparr>)"
proof -
  have M: "b @ [m] \<notin> set (tree_dirs t)" using assms(3) by (simp add: in_tree_def)
  have f1: "b @ [m, x] \<notin> set (tree_dirs t)" "b @ [m, x] \<notin> fst ` set (tree_files t)" for x
    using tree_ok_below [OF assms(1) M, of x] by (simp_all add: in_tree_def)
  have f2: "b @ [m, x, y] \<notin> set (tree_dirs t)" for x y
    using tree_ok_below [OF assms(1), of "b @ [m, x]" y] f1(1) [of x] by (simp add: in_tree_def)
  have old: "[] \<in> set (tree_dirs t)" "set (tree_dirs t) \<inter> fst ` set (tree_files t) = {}"
    "\<And>k. k \<in> set (tree_dirs t) \<or> k \<in> fst ` set (tree_files t) \<Longrightarrow> k \<noteq> [] \<Longrightarrow> butlast k \<in> set (tree_dirs t)"
    using assms(1) by (auto simp: tree_ok_def)
  show ?thesis unfolding tree_ok_def
    using assms(2,3) f1 f2 old
    by (simp add: updates_keys module_dirs_def module_files_def butlast_append in_tree_def)
qed

text \<open>
  C36. In an existing directory without an entry of the name, the generator returns 0 and adds exactly five directories and eight files with the expanded
  templates, everything else being unchanged; the sources and headers that the new \<open>wscript\<close> lists are among them.
\<close>

theorem module_created:
  assumes "proper m" and "tree_ok t" and "locate cwd d \<in> set (tree_dirs t)" and "\<not> in_tree (locate cwd d @ [m]) t"
  shows "\<exists>t'. create_module_main cwd d [m] t = (t', [], Inr 0) \<and> tree_ok t' \<and>
    tree_dirs t' = map ((@) (locate cwd d @ [m])) module_dirs @ tree_dirs t \<and>
    map_of (tree_files t') = map_of (tree_files t) ++ map_of (map (\<lambda>(k, s). ((locate cwd d @ [m]) @ k, s)) (module_files m)) \<and>
    (\<exists>ls. map_of (tree_files t') (locate cwd d @ [m, ''wscript'']) = Some (unlines ls) \<and>
      (\<forall>(sub, name) \<in> set (module_sources m). source_line (sub @ ''/'' @ name) \<in> set ls \<and>
         locate cwd d @ [m, sub, name] \<in> fst ` set (tree_files t')))"
proof -
  let ?M = "locate cwd d @ [m]"
  let ?t = "t\<lparr> tree_dirs := map ((@) ?M) module_dirs @ tree_dirs t,
      tree_files := fold (\<lambda>(k, s). AList.update (?M @ k) s) (module_files m) (tree_files t) \<rparr>"
  have "create_module_main cwd d [m] t = (?t, [], Inr 0)"
    using assms steps_create [OF assms]
    by (simp add: create_module_main_def Let_def path_exists_def locate_join in_tree_def) (simp add: proper_def)
  moreover have "distinct (map fst (map (\<lambda>(k, s). (?M @ k, s)) (module_files m)))"
    using module_files_distinct [of m] by (simp add: distinct_map inj_on_def split_def)
  then have files: "map_of (tree_files ?t) = map_of (tree_files t) ++ map_of (map (\<lambda>(k, s). (?M @ k, s)) (module_files m))"
    by (simp add: updates_map map_of_rev_distinct)
  moreover obtain ls where "expansion [(''MODULE'', m)] WSCRIPT_TEMPLATE = unlines ls"
      "\<forall>(sub, name) \<in> set (module_sources m). source_line (sub @ ''/'' @ name) \<in> set ls"
    using wscript_lines by blast
  moreover have "?M @ [sub, name] \<in> fst ` set (tree_files ?t)" if "(sub, name) \<in> set (module_sources m)" for sub name
    using that by (auto simp: module_sources_def module_files_def updates_keys)
  moreover have "map_of (tree_files ?t) (?M @ [''wscript'']) = Some (expansion [(''MODULE'', m)] WSCRIPT_TEMPLATE)"
    unfolding files by (simp add: module_files_def)
  ultimately show ?thesis using module_tree_ok [OF assms(2-4)] by (intro exI [of _ ?t]) auto
qed

definition example_sources :: dir_tree where
  "example_sources = \<lparr> tree_dirs = [[], [''src''], [''src'', ''core'']], tree_files = [([''src'', ''wscript''], [])] \<rparr>"

theorem module_created_witness:
  "\<exists>t'. create_module_main ''/src'' [] [''lte''] example_sources = (t', [], Inr 0) \<and>
    tree_dirs t' = map ((@) [''src'', ''lte'']) module_dirs @ tree_dirs example_sources"
proof -
  have "locate ''/src'' [] = [''src'']" by code_simp
  moreover have "proper ''lte''" "tree_ok example_sources"
    by (simp_all add: proper_def tree_ok_def example_sources_def)
  ultimately show ?thesis
    using module_created [of "''lte''" example_sources "''/src''" "[]"]
    by (auto simp: in_tree_def example_sources_def)
qed

text \<open>
  The include guards, and the names of the test classes, are identifiers of C++ only if the name of the module is made of letters, digits
  and underscores; a name such as \<open>point-to-point\<close> is accepted all the same.
\<close>

lemma upper_identifier: "list_all identifier_char (upper m) \<longleftrightarrow> list_all identifier_char m"
proof -
  have "identifier_char (upper_char c) \<longleftrightarrow> identifier_char c" for c
    by (auto simp: identifier_char_def upper_char_def Let_def)
  then show ?thesis by (simp add: upper_def list_all_iff)
qed

lemma guard_identifier:
  "list_all identifier_char (''__'' @ upper m @ ''_HELPER_H__'') \<longleftrightarrow> list_all identifier_char m"
  by (simp add: upper_identifier) (simp add: identifier_char_def)


end
