(* ===== verification/RadFormat.thy ===== *)
theory RadFormat
  imports PyNum
begin

text \<open>
  \<open>nice_units\<close> of \<open>bindings/python/rad_util.py\<close>, with the rounding and the formatting of numbers that it uses. The lemmas say between which
  bounds the number lies that is displayed.
\<close>

section \<open>Rounding and formatting\<close>

text \<open>\<open>round\<close> of Python 2 goes away from zero on a tie.\<close>

definition py_round :: "rat \<Rightarrow> int \<Rightarrow> rat" where
  "py_round x dp =
     (let s = 10 powi dp; n = \<lfloor>\<bar>x\<bar> * s + 1 / 2\<rfloor> in (if x < 0 then - of_int n else of_int n) / s)"

text \<open>The conversions \<open>f\<close> and \<open>g\<close> round to even on a tie.\<close>

definition half_even :: "rat \<Rightarrow> nat" where
  "half_even x = (let n = \<lfloor>x\<rfloor>; r = x - of_int n in nat (if r < 1 / 2 \<or> (r = 1 / 2 \<and> even n) then n else n + 1))"

definition pad_zeros :: "nat \<Rightarrow> string \<Rightarrow> string" where
  "pad_zeros n s = replicate (n - length s) (CHR ''0'') @ s"

definition fixed_digits :: "nat \<Rightarrow> nat \<Rightarrow> string" where
  "fixed_digits dp n =
     nat_str (n div 10 ^ dp) @ (if dp = 0 then [] else CHR ''.'' # pad_zeros dp (nat_str (n mod 10 ^ dp)))"

definition format_f :: "nat \<Rightarrow> rat \<Rightarrow> string" where
  "format_f dp x = (if x < 0 then ''-'' else []) @ fixed_digits dp (half_even (\<bar>x\<bar> * 10 ^ dp))"

text \<open>The exponent of a positive number in decimal notation.\<close>

definition decimal_exponent :: "rat \<Rightarrow> int" where
  "decimal_exponent x =
     (if 1 \<le> x then int (length (nat_str (nat \<lfloor>x\<rfloor>))) - 1 else - int (length (nat_str (nat (\<lceil>1 / x\<rceil> - 1)))))"

definition strip_zeros :: "string \<Rightarrow> string" where
  "strip_zeros s =
     (if CHR ''.'' \<notin> set s then s
      else let r = dropWhile (\<lambda>c. c = CHR ''0'') (rev s) in rev (if hd r = CHR ''.'' then tl r else r))"

definition format_g :: "nat \<Rightarrow> rat \<Rightarrow> string" where
  "format_g sig x =
     (let p = max 1 sig in
      if x = 0 then ''0''
      else let e0 = decimal_exponent \<bar>x\<bar>;
               n0 = half_even (\<bar>x\<bar> * 10 powi (int p - 1 - e0));
               (e, n) = (if n0 = 10 ^ p then (e0 + 1, n0 div 10) else (e0, n0));
               body = (if - 4 \<le> e \<and> e < int p
                       then strip_zeros (fixed_digits (nat (int p - 1 - e)) (half_even (\<bar>x\<bar> * 10 powi (int p - 1 - e))))
                       else strip_zeros (fixed_digits (p - 1) n) @ ''e'' @ (if e < 0 then ''-'' else ''+'')
                              @ pad_zeros 2 (nat_str (nat \<bar>e\<bar>)))
           in (if x < 0 then ''-'' else []) @ body)"

section \<open>Prefixes\<close>

type_synonym prefixes = "(pynum \<times> string \<times> string) list"

definition si_prefixes :: prefixes where
  "si_prefixes =
     [(F (10 ^ 24), ''Y'', ''yotta''), (F (10 ^ 21), ''Z'', ''zetta''), (F (10 ^ 18), ''E'', ''exa''), (F (10 ^ 15), ''P'', ''peta''),
      (F (10 ^ 12), ''T'', ''tera''), (F (10 ^ 9), ''G'', ''giga''), (F (10 ^ 6), ''M'', ''mega''), (F (10 ^ 3), ''k'', ''kilo''),
      (F (1 / 10 ^ 3), ''m'', ''milli''), (F (1 / 10 ^ 6), ''u'', ''micro''), (F (1 / 10 ^ 9), ''n'', ''nano''), (F (1 / 10 ^ 12), ''p'', ''pico''),
      (F (1 / 10 ^ 15), ''f'', ''femto''), (F (1 / 10 ^ 18), ''a'', ''atto''), (F (1 / 10 ^ 21), ''z'', ''zepto''), (F (1 / 10 ^ 24), ''y'', ''yocto'')]"

definition extra_prefixes :: prefixes where
  "extra_prefixes = [(F 100, ''h'', ''hecto''), (F 10, ''da'', ''deka''), (F (1 / 10), ''d'', ''deci''), (F (1 / 100), ''c'', ''centi'')]"

definition bin_prefixes :: prefixes where
  "bin_prefixes =
     [(I (2 ^ 10), ''K'', ''kilo''), (I (2 ^ 20), ''M'', ''mega''), (I (2 ^ 30), ''G'', ''mega''), (I (2 ^ 40), ''T'', ''tera''),
      (I (2 ^ 50), ''P'', ''peta''), (I (2 ^ 60), ''E'', ''exa'')]"

text \<open>The prefixes in the order of their multipliers, which are all different.\<close>

definition unit_prefixes :: "bool \<Rightarrow> string \<Rightarrow> prefixes" where
  "unit_prefixes use_extra mode =
     sort_key (val \<circ> fst)
       ((if mode = ''bin'' then bin_prefixes else si_prefixes @ (if use_extra then extra_prefixes else [])) @ [(I 1, [], [])])"

section \<open>Choosing a multiplier\<close>

text \<open>The loop finds the interval; the two tests behind it are always made, since \<open>mult\<close> is set after them.\<close>

definition mult_index :: "pynum list \<Rightarrow> pynum \<Rightarrow> nat res" where
  "mult_index ms v =
     (if py_lt v (hd ms) then Inr 0
      else if py_le (last ms) v then Inr (length ms - 1)
      else (case find (\<lambda>i. py_le (ms ! i) v \<and> py_lt v (ms ! (i + 1))) [0..<length ms - 1] of
              None \<Rightarrow> Inl UnboundLocalError | Some i \<Rightarrow> Inr i))"

text \<open>The number that is displayed and the place of its multiplier.\<close>

definition nice_scale :: "pynum list \<Rightarrow> int \<Rightarrow> int option \<Rightarrow> pynum \<Rightarrow> (pynum \<times> nat) res" where
  "nice_scale ms dp sigfigs v =
     bind_res (mult_index ms v) (\<lambda>i.
     bind_res (py_div v (ms ! i)) (\<lambda>new.
       if sigfigs = None \<and> i < length ms - 1
       then bind_res (py_div (ms ! (i + 1)) (ms ! i)) (\<lambda>ratio.
              if py_round (val new) dp = py_round (val ratio) dp
              then bind_res (py_div v (ms ! (i + 1))) (\<lambda>new'. Inr (new', i + 1))
              else Inr (new, i))
       else Inr (new, i)))"

text \<open>A negative precision is no valid conversion.\<close>

definition nice_units ::
    "int \<Rightarrow> int option \<Rightarrow> string \<Rightarrow> string \<Rightarrow> bool \<Rightarrow> bool \<Rightarrow> string \<Rightarrow> pynum \<Rightarrow> string res" where
  "nice_units dp sigfigs unit_suffix space use_extra_prefixes use_full_name mode v =
     (let ps = unit_prefixes use_extra_prefixes mode in
      bind_res (nice_scale (map fst ps) dp sigfigs v) (\<lambda>(new, i).
        let label = (if use_full_name then snd else fst) (snd (ps ! i));
            precision = (case sigfigs of None \<Rightarrow> dp | Some s \<Rightarrow> s)
        in if precision < 0 then Inl ValueError
           else Inr ((case sigfigs of None \<Rightarrow> format_f (nat dp) (val new) | Some s \<Rightarrow> format_g (nat s) (val new))
                  @ space @ label @ unit_suffix)))"

section \<open>Lemmas\<close>

definition multipliers :: "pynum list \<Rightarrow> bool" where
  "multipliers ms \<longleftrightarrow> ms \<noteq> [] \<and> 0 < val (hd ms) \<and>
     (\<forall>i < length ms - 1. \<exists>k \<ge> (2 :: int). val (ms ! (i + 1)) = of_int k * val (ms ! i))"

lemma multipliers_pos: "multipliers ms \<Longrightarrow> i < length ms \<Longrightarrow> 0 < val (ms ! i)"
proof (induction i)
  case 0
  then show ?case by (auto simp: multipliers_def hd_conv_nth)
next
  case (Suc i)
  then have "i < length ms - 1" by simp
  with Suc obtain k :: int where "k \<ge> 2" "val (ms ! Suc i) = of_int k * val (ms ! i)" unfolding multipliers_def by auto
  with Suc show ?case by simp
qed

lemma mult_index_total:
  assumes "multipliers ms"
  shows "\<exists>i. mult_index ms v = Inr i \<and> i < length ms \<and>
    (val (hd ms) \<le> val v \<longrightarrow> val (ms ! i) \<le> val v \<and> (i < length ms - 1 \<longrightarrow> val v < val (ms ! (i + 1))))"
proof -
  have ne: "ms \<noteq> []" using assms by (simp add: multipliers_def)
  consider "py_lt v (hd ms)" | "\<not> py_lt v (hd ms)" "py_le (last ms) v" | "\<not> py_lt v (hd ms)" "\<not> py_le (last ms) v" by blast
  then show ?thesis
  proof cases
    case 3
    define i where "i = (LEAST j. j < length ms \<and> val v < val (ms ! j))"
    have ex: "length ms - 1 < length ms \<and> val v < val (ms ! (length ms - 1))" using 3(2) ne by (simp add: last_conv_nth)
    then have i: "i < length ms" "val v < val (ms ! i)" unfolding i_def by (rule LeastI2, simp)+
    have "i \<noteq> 0" using i(2) 3(1) ne by (metis hd_conv_nth)
    then obtain j where j: "i = Suc j" by (cases i) auto
    then have "\<not> val v < val (ms ! j)" using not_less_Least [of j "\<lambda>j. j < length ms \<and> val v < val (ms ! j)"] i(1) by (auto simp: i_def)
    with i j have "find (\<lambda>i. py_le (ms ! i) v \<and> py_lt v (ms ! (i + 1))) [0..<length ms - 1] \<noteq> None"
      by (auto simp: find_None_iff intro!: exI [of _ j])
    then obtain k where k: "find (\<lambda>i. py_le (ms ! i) v \<and> py_lt v (ms ! (i + 1))) [0..<length ms - 1] = Some k" by blast
    then have "k < length ms - 1" "py_le (ms ! k) v" "py_lt v (ms ! (k + 1))" by (auto simp: find_Some_iff)
    moreover have "mult_index ms v = Inr k" using 3 k by (simp add: mult_index_def)
    ultimately show ?thesis by (intro exI [of _ k]) auto
  qed (use ne in \<open>auto simp: mult_index_def last_conv_nth\<close>)
qed

lemma py_round_mono: "0 \<le> x \<Longrightarrow> x \<le> y \<Longrightarrow> py_round x dp \<le> py_round y dp"
  by (auto simp: py_round_def Let_def intro!: divide_right_mono floor_mono mult_right_mono)

lemma py_round_int:
  assumes "0 \<le> dp" and "0 \<le> k"
  shows "py_round (of_int k) dp = of_int k"
proof -
  have p: "(10 :: rat) powi dp = 10 ^ nat dp" using assms(1) by (simp add: power_int_def)
  have "\<lfloor>(of_int k :: rat) * 10 ^ nat dp + 1 / 2\<rfloor> = k * 10 ^ nat dp" by (rule floor_unique) simp_all
  with assms p show ?thesis by (simp add: py_round_def Let_def)
qed

text \<open>A value that is rounded up to the next multiplier is displayed as one unit of it.\<close>

lemma carried:
  assumes "0 \<le> dp" and "2 \<le> k" and "0 \<le> x" "x < of_int k" and "py_round x dp = of_int k"
  shows "py_round (x / of_int k) dp = 1"
proof -
  let ?s = "10 ^ nat dp :: rat" and ?n = "\<lfloor>x * 10 ^ nat dp + 1 / 2\<rfloor>"
  have s: "1 \<le> ?s" "(0 :: rat) < ?s" by simp_all
  have "of_int ?n = of_int k * ?s" using assms(1,3,5) by (simp add: py_round_def Let_def power_int_def field_simps)
  then have low: "of_int k * ?s \<le> x * ?s + 1 / 2" by (metis of_int_floor_le)
  have k: "(2 :: rat) \<le> of_int k" using assms(2) by simp
  have "?s \<le> x / of_int k * ?s + 1 / 2"
  proof -
    have "of_int k * (?s - 1 / 2) \<le> of_int k * ?s - 1 / 2" using k by (simp add: algebra_simps)
    also have "\<dots> \<le> x * ?s" using low by simp
    finally have "(?s - 1 / 2) \<le> x * ?s / of_int k" using k by (simp add: pos_le_divide_eq mult.commute)
    then show ?thesis by simp
  qed
  moreover have "x / of_int k * ?s + 1 / 2 < ?s + 1"
  proof -
    have "x / of_int k < 1" using assms(4) k by simp
    then have "x / of_int k * ?s < 1 * ?s" using s(2) by (rule mult_strict_right_mono)
    then show ?thesis by simp
  qed
  ultimately have "\<lfloor>x / of_int k * ?s + 1 / 2\<rfloor> = 10 ^ nat dp"
    by (intro floor_unique) simp_all
  moreover have "0 \<le> x / of_int k" using assms(3) k by simp
  then have "\<not> x / of_int k < 0" by linarith
  ultimately show ?thesis using assms(1-3) by (simp add: py_round_def Let_def power_int_def)
qed

lemma py_div_multiple:
  assumes "0 < val b" and "val a = of_int k * val b"
  shows "\<exists>r. py_div a b = Inr r \<and> val r = of_int k"
proof (cases "is_int a \<and> is_int b")
  case True
  then obtain m n where "a = I m" "b = I n" by (cases a; cases b) auto
  moreover from this have "m = k * n" using assms(2) by (metis of_int_eq_iff of_int_mult val.simps(1))
  ultimately show ?thesis using assms(1) by simp
next
  case False
  then show ?thesis using assms by auto
qed

text \<open>
  A value of at least the smallest multiplier is displayed, rounded to the given number of decimals, as a number of at least one unit of the
  chosen prefix and less than one unit of the next prefix.
\<close>

theorem nice_scale_bounds:
  assumes "multipliers ms" and "val (hd ms) \<le> x" and "0 \<le> dp"
  shows "\<exists>y i. nice_scale ms dp None (F x) = Inr (F y, i) \<and> i < length ms \<and> x = y * val (ms ! i) \<and> 1 \<le> py_round y dp \<and>
    (i + 1 < length ms \<longrightarrow> py_round y dp < val (ms ! (i + 1)) / val (ms ! i))"
proof -
  have pos: "0 < val (ms ! i)" if "i < length ms" for i using multipliers_pos [OF assms(1) that] .
  have one: "py_round 1 dp = 1" using py_round_int [OF assms(3), of 1] by simp
  obtain i where i: "mult_index ms (F x) = Inr i" "i < length ms" "val (ms ! i) \<le> x"
      "i < length ms - 1 \<Longrightarrow> x < val (ms ! (i + 1))"
    using mult_index_total [OF assms(1), of "F x"] assms(2) by auto
  let ?y = "x / val (ms ! i)"
  have y: "1 \<le> ?y" using i(3) pos [OF i(2)] by simp
  have div: "py_div (F x) (ms ! j) = Inr (F (x / val (ms ! j)))" if "j < length ms" for j
    using pos [OF that] by simp
  show ?thesis
  proof (cases "i < length ms - 1")
    case False
    then show ?thesis using i(1,2) div y pos [OF i(2)] py_round_mono [of 1 ?y dp] one
      by (intro exI [of _ ?y] exI [of _ i]) (auto simp: nice_scale_def)
  next
    case True
    then obtain k where k: "2 \<le> k" "val (ms ! (i + 1)) = of_int k * val (ms ! i)" using assms(1) by (auto simp: multipliers_def)
    obtain r where r: "py_div (ms ! (i + 1)) (ms ! i) = Inr r" "val r = of_int k"
      using py_div_multiple [OF pos [OF i(2)] k(2)] by blast
    have after: "i + 1 < length ms" using True by simp
    have lt: "?y < of_int k" using i(4) [OF True] k(2) pos [OF i(2)] by (simp add: pos_divide_less_eq)
    have rk: "py_round (of_int k) dp = of_int k" using py_round_int [OF assms(3)] k(1) by simp
    show ?thesis
    proof (cases "py_round ?y dp = of_int k")
      case True
      have "x / val (ms ! (i + 1)) = ?y / of_int k" using k(2) by simp
      moreover have "py_round (?y / of_int k) dp = 1" using y by (intro carried [OF assms(3) k(1) _ lt True]) simp
      ultimately have "py_round (x / val (ms ! (i + 1))) dp = 1" by (rule ssubst)
      moreover have "1 < val (ms ! (i + 2)) / val (ms ! (i + 1))" if "i + 2 < length ms"
      proof -
        from that obtain j :: int where "2 \<le> j" "val (ms ! (i + 2)) = of_int j * val (ms ! (i + 1))"
          using assms(1) by (auto simp: multipliers_def dest!: spec [of _ "i + 1"])
        then show ?thesis using pos [of "i + 1"] that by (simp add: pos_less_divide_eq)
      qed
      ultimately show ?thesis using i(1,2) div \<open>i < length ms - 1\<close> r rk True pos [OF after] after
        by (intro exI [of _ "x / val (ms ! (i + 1))"] exI [of _ "i + 1"]) (auto simp: nice_scale_def)
    next
      case False
      have "py_round ?y dp \<le> of_int k" using py_round_mono [of ?y "of_int k" dp] y lt rk by simp
      with False have "py_round ?y dp < val (ms ! (i + 1)) / val (ms ! i)" using k(2) pos [OF i(2)] by simp
      then show ?thesis using i(1,2) div \<open>i < length ms - 1\<close> r rk False y one py_round_mono [of 1 ?y dp] pos [OF i(2)]
        by (intro exI [of _ ?y] exI [of _ i]) (auto simp: nice_scale_def)
    qed
  qed
qed

lemma unit_multipliers: "multipliers (map fst (unit_prefixes e mode))"
proof -
  have *: "multipliers ms" if "ms \<noteq> []" "0 < val (hd ms)" "list_all (\<lambda>(a, b). \<exists>k \<ge> (2 :: int). val b = of_int k * val a) (zip ms (tl ms))" for ms
    using that by (auto simp: multipliers_def list_all_length nth_tl)
  show ?thesis
    by (rule *; cases "mode = ''bin''"; cases e)
      (simp_all add: unit_prefixes_def si_prefixes_def extra_prefixes_def bin_prefixes_def)
qed


theorem nice_scale_bounds_witness:
  "\<exists>y i. nice_scale (map fst (unit_prefixes False ''si'')) 0 None (F 999999) = Inr (F y, i) \<and> i < 17 \<and>
    999999 = y * val (map fst (unit_prefixes False ''si'') ! i) \<and> 1 \<le> py_round y 0"
proof -
  have hd: "val (hd (map fst (unit_prefixes False ''si''))) = 1 / 10 ^ 24"
    by (simp add: unit_prefixes_def si_prefixes_def)
  have len: "length (map fst (unit_prefixes False ''si'')) = 17"
    by (simp add: unit_prefixes_def si_prefixes_def)
  have "val (hd (map fst (unit_prefixes False ''si''))) \<le> 999999" unfolding hd by simp
  from nice_scale_bounds [OF unit_multipliers this, of 0] show ?thesis unfolding len by auto
qed

text \<open>Zero and negative numbers are displayed in the smallest unit, and integers are divided as integers with binary prefixes.\<close>

lemma nice_units_zero: "nice_units 0 None [] '' '' False False ''si'' (F 0) = Inr ''0 y''"
  by code_simp

lemma nice_units_negative: "nice_units 0 None [] '' '' False False ''si'' (F (- 1 / 10 ^ 22)) = Inr ''-100 y''"
  by code_simp

lemma nice_units_bin: "nice_units 1 None [] '' '' False True ''bin'' (I 1900) = Inr ''1.0 kilo''"
  by code_simp

end
