(* ===== verification/VizWindows.thy ===== *)
theory VizWindows
  imports PyOs PyStr Complex_Main
begin

text \<open>
  The visualizer, loading of plugins (\<open>base.py\<close>), tooltips, information windows and snapshots (\<open>core.py\<close>). Modules, the stacks of
  the simulator and the items of the canvas are arguments.
\<close>

section \<open>Plugins\<close>

text \<open>The function \<open>os.path.splitext\<close>; dots at the start of the last component do not begin an extension.\<close>

definition path_splitext :: "string \<Rightarrow> string \<times> string" where
  "path_splitext p =
     (let e = takeWhile (\<lambda>c. c \<noteq> CHR ''.'') (rev (path_basename p)); root = take (length p - length e - 1) p
      in if CHR ''.'' \<in> set (path_basename p) \<and> list_ex (\<lambda>c. c \<noteq> CHR ''.'') (path_basename root)
              \<and> length root \<ge> length p - length (path_basename p) then (root, CHR ''.'' # rev e)
         else (p, []))"

text \<open>What importing a module gives: the module with its \<open>register\<close> attribute, if it has one, and whether that can be called.\<close>

datatype 'p plugin_import = Imported "('p \<times> bool) option" | ImportFailed string | ImportRaises py_error

record 'p plugin_state =
  plugins :: "'p list"
  plugin_modules :: "(string, 'p) dict"
  plugins_loaded :: bool
  sys_path :: "string list"
  plugin_messages :: "string list"

definition register_plugin :: "'p \<times> bool \<Rightarrow> string \<Rightarrow> 'p plugin_state \<Rightarrow> 'p plugin_state res" where
  "register_plugin = (\<lambda>(f, callable) name st.
     if \<not> callable then Inl AssertionError
     else Inr (st\<lparr> plugins := plugins st @ [f], plugin_modules := AList.update name f (plugin_modules st) \<rparr>))"

definition message :: "string \<Rightarrow> 'p plugin_state \<Rightarrow> 'p plugin_state" where
  "message m st = st\<lparr> plugin_messages := plugin_messages st @ [m] \<rparr>"

definition load_plugin :: "(string \<Rightarrow> 'p plugin_import) \<Rightarrow> string \<Rightarrow> 'p plugin_state \<Rightarrow> 'p plugin_state res" where
  "load_plugin import filename st =
     (let (name, ext) = path_splitext filename in
      if ext \<noteq> ''.py'' then Inr st
      else (case import name of
              ImportRaises e \<Rightarrow> Inl e
            | ImportFailed ex \<Rightarrow> Inr (message (''Could not load plugin '' @ py_repr filename @ '': '' @ ex) st)
            | Imported None \<Rightarrow> Inr (message (''Plugin '' @ py_repr name @ '' has no 'register' function'') st)
            | Imported (Some f) \<Rightarrow> register_plugin f name st))"

text \<open>\<open>load_plugins\<close>, with the contents of the directory in the order in which they are listed.\<close>

definition load_plugins :: "(string \<Rightarrow> 'p plugin_import) \<Rightarrow> string \<Rightarrow> string list \<Rightarrow> 'p plugin_state \<Rightarrow> 'p plugin_state res" where
  "load_plugins import plugins_dir listing st =
     (if plugins_loaded st then Inr st
      else bind_res (fold_res (load_plugin import) listing (st\<lparr> plugins_loaded := True, sys_path := plugins_dir # sys_path st \<rparr>))
             (\<lambda>st'. Inr (st'\<lparr> sys_path := sys_path st \<rparr>)))"

section \<open>Tooltips\<close>

text \<open>An IP stack: the interface of a device or -1, the number of addresses of an interface, an address with its mask or prefix.\<close>

record ip_stack =
  interface_for :: "nat \<Rightarrow> int"
  n_addresses :: "int \<Rightarrow> nat res"
  address_of :: "int \<Rightarrow> nat \<Rightarrow> (string \<times> string) res"

record device_info =
  d_name :: string
  d_type :: string
  d_mac :: string

definition address_list :: "ip_stack \<Rightarrow> int \<Rightarrow> int \<Rightarrow> string res" where
  "address_list s counted idx =
     bind_res (n_addresses s counted) (\<lambda>n.
     bind_res (map_res (\<lambda>j. bind_res (address_of s idx j) (\<lambda>(a, m). Inr (a @ ''/'' @ m))) [0..<n]) (\<lambda>as. Inr (str_join ''; '' as)))"

text \<open>The lines of one device; the last argument and result is the local variable \<open>ipv4_idx\<close>, which the addresses of IPv6 use too.\<close>

definition device_lines ::
    "ip_stack option \<Rightarrow> ip_stack option \<Rightarrow> nat \<times> device_info \<Rightarrow> string list \<times> int option \<Rightarrow> (string list \<times> int option) res" where
  "device_lines ipv4 ipv6 = (\<lambda>(devI, dev) (ls, ipv4_idx).
     let head = [[], ''  <u>NetDevice '' @ nat_str devI @ '':</u>''] @ (if d_name dev \<noteq> [] then [''    <b>Name:</b> '' @ d_name dev] else [])
           @ [''    <b>Type:</b> '' @ d_type dev]
     in bind_res
          (case ipv4 of
             None \<Rightarrow> Inr ([], ipv4_idx)
           | Some s \<Rightarrow>
               let idx = interface_for s devI in
               if idx = - 1 then Inr ([], Some idx)
               else bind_res (address_list s idx idx) (\<lambda>l. Inr ([''    <b>IPv4 Addresses:</b> '' @ l], Some idx)))
          (\<lambda>(l4, idx4).
        bind_res
          (case ipv6 of
             None \<Rightarrow> Inr []
           | Some s \<Rightarrow>
               let idx = interface_for s devI in
               if idx = - 1 then Inr []
               else (case idx4 of
                       None \<Rightarrow> Inl UnboundLocalError
                     | Some k \<Rightarrow> bind_res (address_list s k idx) (\<lambda>l. Inr [''    <b>IPv6 Addresses:</b> '' @ l])))
          (\<lambda>l6. Inr (ls @ head @ l4 @ l6 @ [''    <b>MAC Address:</b> '' @ d_mac dev], idx4))))"

datatype lock_event = Acquire | Release

text \<open>
  \<open>Node.tooltip_query\<close>: the handlers of the signal append \<open>extra\<close> lines. The lock of the simulation is taken first and
  released in any case.
\<close>

definition tooltip_query ::
    "nat \<Rightarrow> string list \<Rightarrow> string option \<Rightarrow> device_info list \<Rightarrow> ip_stack option \<Rightarrow> ip_stack option \<Rightarrow> lock_event list \<times> string res" where
  "tooltip_query node_index extra mobility devices ipv4 ipv6 =
     ([Acquire, Release],
      let ls = [''<b><u>Node '' @ nat_str node_index @ ''</u></b>'', []] @ extra
                 @ (case mobility of None \<Rightarrow> [] | Some m \<Rightarrow> [''  <b>Mobility Model</b>: '' @ m])
      in bind_res (fold_res (device_lines ipv4 ipv6) (enumerate 0 devices) (ls, None)) (\<lambda>(ls', _). Inr (str_join [CHR 0x0A] ls')))"

text \<open>\<open>_canvas_tooltip_cb\<close>: the objects of the item under the pointer and of its parents, from the item upwards.\<close>

definition tooltip_object :: "'o option list \<Rightarrow> 'o option" where
  "tooltip_object objs = (case find (\<lambda>x. x \<noteq> None) objs of None \<Rightarrow> None | Some x \<Rightarrow> x)"

section \<open>Information windows\<close>

definition add_information_window :: "('w \<Rightarrow> 'w) \<Rightarrow> 'w \<Rightarrow> 'w list \<Rightarrow> 'w list \<times> lock_event list" where
  "add_information_window update w ws = (ws @ [update w], [Acquire, Release])"

definition remove_information_window :: "'w \<Rightarrow> 'w list \<Rightarrow> 'w list res" where
  "remove_information_window w ws = (if w \<in> set ws then Inr (remove1 w ws) else Inl ValueError)"

section \<open>Snapshots\<close>

datatype surface = PSSurface | PDFSurface | SVGSurface

record snapshot =
  surface :: surface
  dest_width :: rat
  dest_height :: rat
  translation :: "rat \<times> rat"
  snap_bounds :: "(rat \<times> rat) \<times> (rat \<times> rat)"
  snap_scale :: rat

datatype snapshot_result = Cancelled | UnknownExtension string | Drawn snapshot

definition surface_of :: "string \<Rightarrow> surface option" where
  "surface_of ext =
     (if ext = ''.eps'' then Some PSSurface else if ext = ''.pdf'' then Some PDFSurface else if ext = ''.svg'' then Some SVGSurface else None)"

text \<open>
  \<open>_take_screenshot\<close>: the file name from the dialog, value and page size of the two scroll bars, the conversion of canvas pixels and the zoom.
\<close>

definition take_screenshot :: "string option \<Rightarrow> rat \<times> rat \<Rightarrow> rat \<times> rat \<Rightarrow> (rat \<times> rat \<Rightarrow> rat \<times> rat) \<Rightarrow> rat \<Rightarrow> snapshot_result" where
  "take_screenshot file_name hadj vadj from_pix z =
     (case file_name of
        None \<Rightarrow> Cancelled
      | Some f \<Rightarrow>
          let (bx1, by1) = from_pix (fst hadj, fst vadj); (bx2, by2) = from_pix (fst hadj + snd hadj, fst vadj + snd vadj);
              ext = map lower_char (snd (path_splitext f))
          in (case surface_of ext of
                None \<Rightarrow> UnknownExtension ext
              | Some s \<Rightarrow> Drawn \<lparr> surface = s, dest_width = bx2 - bx1, dest_height = by2 - by1, translation = (- bx1, - by1),
                  snap_bounds = ((bx1, by1), (bx2, by2)), snap_scale = z \<rparr>))"

section \<open>Lemmas\<close>

lemma splitext_plain:
  assumes "CHR ''/'' \<notin> set p" and "CHR ''.'' \<notin> set e" and "CHR ''/'' \<notin> set e" and "list_ex (\<lambda>c. c \<noteq> CHR ''.'') p"
  shows "path_splitext (p @ CHR ''.'' # e) = (p, CHR ''.'' # e)"
proof -
  have base: "path_basename q = q" if "CHR ''/'' \<notin> set q" for q
  proof -
    have "takeWhile (\<lambda>c. c \<noteq> CHR ''/'') (rev q) = rev q" using that by (intro takeWhile_eq_all_conv [THEN iffD2]) auto
    then show ?thesis unfolding path_basename_def by (simp only: rev_rev_ident)
  qed
  have "takeWhile (\<lambda>c. c \<noteq> CHR ''.'') (rev e @ CHR ''.'' # rev p) = rev e"
    by (subst takeWhile_append2) (use assms(2) in auto)
  then show ?thesis using assms base [of p] base [of "p @ CHR ''.'' # e"] by (simp add: path_splitext_def Let_def)
qed

text \<open>The register functions of the modules that can be used, in the order of the listing.\<close>

definition usable :: "(string \<Rightarrow> 'p plugin_import) \<Rightarrow> string \<Rightarrow> 'p option" where
  "usable import filename =
     (if snd (path_splitext filename) \<noteq> ''.py'' then None
      else (case import (fst (path_splitext filename)) of Imported (Some (f, _)) \<Rightarrow> Some f | _ \<Rightarrow> None))"

definition loads :: "(string \<Rightarrow> 'p plugin_import) \<Rightarrow> string \<Rightarrow> bool" where
  "loads import filename \<longleftrightarrow>
     (snd (path_splitext filename) = ''.py'' \<longrightarrow>
        (case import (fst (path_splitext filename)) of ImportRaises _ \<Rightarrow> False | Imported (Some (_, c)) \<Rightarrow> c | _ \<Rightarrow> True))"

lemma load_plugin_loads:
  "if loads import f
   then \<exists>st'. load_plugin import f st = Inr st' \<and> plugins st' = plugins st @ (case usable import f of None \<Rightarrow> [] | Some p \<Rightarrow> [p])
          \<and> plugins_loaded st' = plugins_loaded st
   else \<exists>e. load_plugin import f st = Inl e"
  by (cases "path_splitext f"; cases "import (fst (path_splitext f))")
    (auto simp: loads_def load_plugin_def usable_def register_plugin_def message_def split: option.splits)

lemma load_all:
  "if list_all (loads import) fs
   then \<exists>st'. fold_res (load_plugin import) fs st = Inr st' \<and> plugins st' = plugins st @ List.map_filter (usable import) fs
          \<and> plugins_loaded st' = plugins_loaded st
   else \<exists>e. fold_res (load_plugin import) fs st = Inl e"
proof (induction fs arbitrary: st)
  case (Cons f fs)
  show ?case
  proof (cases "loads import f")
    case True
    then obtain st1 where "load_plugin import f st = Inr st1"
      "plugins st1 = plugins st @ (case usable import f of None \<Rightarrow> [] | Some p \<Rightarrow> [p])" "plugins_loaded st1 = plugins_loaded st"
      using load_plugin_loads [of import f st] by auto
    with Cons [of st1] True show ?thesis by (auto simp: List.map_filter_simps split: option.splits if_splits)
  next
    case False
    with load_plugin_loads [of import f st] show ?thesis by auto
  qed
qed (simp add: List.map_filter_simps)

text \<open>
  Loading the plugins registers the functions of all usable modules in the order of the listing and puts the search path back, unless an import raises
  something else than \<open>ImportError\<close> or a module's \<open>register\<close> cannot be called; loading again does nothing.
\<close>

theorem load_plugins_outcome:
  "(list_all (loads import) fs \<and> \<not> plugins_loaded st \<longrightarrow>
     (\<exists>st'. load_plugins import dir fs st = Inr st' \<and> plugins st' = plugins st @ List.map_filter (usable import) fs
        \<and> sys_path st' = sys_path st \<and> (\<forall>import' dir' fs'. load_plugins import' dir' fs' st' = Inr st'))) \<and>
   (\<not> list_all (loads import) fs \<and> \<not> plugins_loaded st \<longrightarrow> (\<exists>e. load_plugins import dir fs st = Inl e))"
  using load_all [of import fs "st\<lparr> plugins_loaded := True, sys_path := dir # sys_path st \<rparr>"]
  by (auto simp: load_plugins_def split: if_splits)

text \<open>A node without IPv4 has no tooltip as soon as one of its devices has an IPv6 interface.\<close>

lemma device_lines_unbound:
  assumes "device_lines None (Some s) d (ls, None) = Inr (ls', k)"
  shows "k = None \<and> interface_for s (fst d) = - 1"
  using assms by (cases d) (auto simp: device_lines_def Let_def split: if_splits)

lemma devices_unbound:
  assumes "fold_res (device_lines None (Some s)) ds (ls, None) = Inr r" and "d \<in> set ds"
  shows "interface_for s (fst d) = - 1"
  using assms
proof (induction ds arbitrary: ls)
  case (Cons d' ds)
  then obtain ls' k where "device_lines None (Some s) d' (ls, None) = Inr (ls', k)"
    "fold_res (device_lines None (Some s)) ds (ls', k) = Inr r" by (auto simp: bind_res_Inr_iff)
  with device_lines_unbound [OF this(1)] Cons show ?case by auto
qed simp

text \<open>
  The tooltip of a node that has IPv6 but not IPv4 fails as soon as one of its devices has an IPv6 interface; the lock is
  released all the same.
\<close>

theorem tooltip_without_ipv4:
  assumes "i < length devices" and "interface_for s i \<noteq> - 1"
  shows "\<exists>e. tooltip_query n extra mob devices None (Some s) = ([Acquire, Release], Inl e)"
proof -
  have "(i, devices ! i) \<in> set (enumerate 0 devices)" using assms(1) by (auto simp: in_set_enumerate_eq)
  then have "\<exists>e. fold_res (device_lines None (Some s)) (enumerate 0 devices) (ls, None) = Inl e" for ls
    using devices_unbound [of s "enumerate 0 devices" ls] assms(2)
    by (cases "fold_res (device_lines None (Some s)) (enumerate 0 devices) (ls, None)") auto
  moreover have "\<exists>e. bind_res m f = Inl e" if "\<exists>e. m = Inl e" for m and f :: "string list \<times> int option \<Rightarrow> string res"
    using that by auto
  ultimately show ?thesis unfolding tooltip_query_def Let_def by (simp only: prod.inject simp_thms)
qed

theorem tooltip_without_ipv4_witness:
  "\<exists>e. tooltip_query 0 [] None [\<lparr> d_name = [], d_type = ''ns3::LoopbackNetDevice'', d_mac = ''00'' \<rparr>] None
     (Some \<lparr> interface_for = int, n_addresses = \<lambda>_. Inr 1, address_of = \<lambda>_ _. Inr (''::1'', ''128'') \<rparr>) = ([Acquire, Release], Inl e)"
  by (rule tooltip_without_ipv4 [of 0]) simp_all

text \<open>A snapshot shows the visible part of the canvas, whatever the zoom.\<close>

lemma snapshot_covers:
  assumes "take_screenshot f hadj vadj (\<lambda>(x, y). (x / z, y / z)) z = Drawn s" and "0 < z"
  shows "dest_width s * z = snd hadj \<and> dest_height s * z = snd vadj \<and> translation s = (- fst hadj / z, - fst vadj / z)"
  using assms by (auto simp: take_screenshot_def Let_def diff_divide_distrib [symmetric] split: option.splits)

end
