(* ===== verification/BuildAll.thy ===== *)
theory BuildAll
  imports PyOs
begin

text \<open>
  The script that builds the parts of the distribution, \<open>build.py\<close> and \<open>util.py\<close>: the network simulation cradle, if the platform has it, and ns-3 with
  waf. A failed command does not end the script where it is caught, so an operation gives the state also when it raises. Running a
  process and changing the directory are arguments.
\<close>

section \<open>Commands\<close>

text \<open>The configuration is the list of the elements below the root with their \<open>dir\<close> attribute.\<close>

record 'w build_state =
  b_cwd :: string
  b_world :: 'w
  b_out :: "string list"
  b_config :: "(string \<times> string) list"

record 'w build_system =
  bs_run :: "string list \<Rightarrow> string \<Rightarrow> 'w \<Rightarrow> int res \<times> 'w"
  bs_chdir :: "string \<Rightarrow> string \<Rightarrow> string res"
  executable :: string
  platform :: string
  machine :: string
  script_dir :: string

type_synonym ('w, 'a) outcome = "'w build_state \<times> 'a res"

definition then_run :: "('w, 'a) outcome \<Rightarrow> ('w build_state \<Rightarrow> 'a \<Rightarrow> ('w, 'b) outcome) \<Rightarrow> ('w, 'b) outcome" where
  "then_run o1 f = (case o1 of (st, Inl e) \<Rightarrow> (st, Inl e) | (st, Inr x) \<Rightarrow> f st x)"

definition say :: "string \<Rightarrow> 'w build_state \<Rightarrow> 'w build_state" where
  "say l st = st\<lparr> b_out := b_out st @ [l] \<rparr>"

definition CommandError :: py_error where
  "CommandError = PyException ''CommandError''"

definition run_build_command :: "'w build_system \<Rightarrow> string list \<Rightarrow> 'w build_state \<Rightarrow> ('w, unit) outcome" where
  "run_build_command sys argv st =
     (case bs_run sys argv (b_cwd st) (b_world st) of
        (r, w) \<Rightarrow>
          let st' = (say ('' =>  '' @ str_join '' '' argv) st)\<lparr> b_world := w \<rparr>
          in (st', case r of Inl e \<Rightarrow> Inl e | Inr retval \<Rightarrow> if retval \<noteq> 0 then Inl CommandError else Inr ()))"

definition chdir :: "'w build_system \<Rightarrow> string \<Rightarrow> 'w build_state \<Rightarrow> ('w, unit) outcome" where
  "chdir sys d st = (case bs_chdir sys d (b_cwd st) of Inl e \<Rightarrow> (st, Inl e) | Inr c \<Rightarrow> (st\<lparr> b_cwd := c \<rparr>, Inr ()))"

text \<open>\<open>try: body finally: os.chdir(cwd)\<close>; an error of the last step replaces the one of the body.\<close>

definition back_in :: "'w build_system \<Rightarrow> string \<Rightarrow> ('w, 'a) outcome \<Rightarrow> ('w, 'a) outcome" where
  "back_in sys d r = (case r of (st, x) \<Rightarrow> (case chdir sys d st of (st', Inl e) \<Rightarrow> (st', Inl e) | (st', Inr _) \<Rightarrow> (st', x)))"

section \<open>The parts\<close>

definition tag_dirs :: "string \<Rightarrow> (string \<times> string) list \<Rightarrow> string list" where
  "tag_dirs t cfg = map snd (filter (\<lambda>e. fst e = t) cfg)"

definition build_nsc :: "'w build_system \<Rightarrow> 'w build_state \<Rightarrow> ('w, unit) outcome" where
  "build_nsc sys = run_build_command sys [executable sys, ''scons.py'']"

definition nsc_archs :: "string list" where
  "nsc_archs = [''x86_64'', ''i686'', ''i586'', ''i486'', ''i386'']"

text \<open>The options of \<open>waf configure\<close> and the notes; \<open>x, = list\<close> needs a list of one element.\<close>

definition nsc_options :: "'w build_system \<Rightarrow> (string \<times> string) list \<Rightarrow> string list \<times> string list" where
  "nsc_options sys cfg =
     (case tag_dirs ''nsc'' cfg of
        [d] \<Rightarrow> if platform sys = ''linux2'' \<and> machine sys \<in> set nsc_archs then ([''--with-nsc'', path_join ''..'' d], [])
               else ([], [''Note: configuring ns-3 without NSC (architecture not supported)''])
      | _ \<Rightarrow> ([], [''Note: configuring ns-3 without NSC'']))"

definition configure_command ::
    "'w build_system \<Rightarrow> (string \<times> string) list \<Rightarrow> bool \<Rightarrow> bool \<Rightarrow> string list \<Rightarrow> string list \<times> string list" where
  "configure_command sys cfg build_examples build_tests args =
     (let traces = (case tag_dirs ''ns-3-traces'' cfg of [d] \<Rightarrow> [''--with-regression-traces'', path_join ''..'' d] | _ \<Rightarrow> []);
          (bindgen, note) = (case tag_dirs ''pybindgen'' cfg of
                               [d] \<Rightarrow> ([''--with-pybindgen'', path_join ''..'' d], [])
                             | _ \<Rightarrow> ([], [''Note: configuring ns-3 without pybindgen'']));
          (nsc, nsc_note) = nsc_options sys cfg
      in ([executable sys, ''waf'', ''configure''] @ args @ (if build_examples then [''--enable-examples''] else [])
            @ (if build_tests then [''--enable-tests''] else []) @ traces @ bindgen @ nsc, note @ nsc_note))"

definition build_ns3 ::
    "'w build_system \<Rightarrow> bool \<Rightarrow> bool \<Rightarrow> string list \<Rightarrow> string list \<Rightarrow> 'w build_state \<Rightarrow> ('w, unit) outcome" where
  "build_ns3 sys build_examples build_tests args build_options st =
     (let (cmd, notes) = configure_command sys (b_config st) build_examples build_tests args
      in then_run (run_build_command sys cmd (fold say notes st)) (\<lambda>st' _.
           run_build_command sys ([executable sys, ''waf'', ''build''] @ build_options) st'))"

record build_options =
  disable_nsc :: bool
  enable_examples :: bool
  enable_tests :: bool
  waf_options :: string

text \<open>Building the cradle; a failed command removes its element from the configuration.\<close>

definition nsc_step :: "'w build_system \<Rightarrow> build_options \<Rightarrow> 'w build_state \<Rightarrow> ('w, unit) outcome" where
  "nsc_step sys opts st =
     (if disable_nsc opts then ((say ''# Skip NSC (by user request)'' st)\<lparr> b_config := filter (\<lambda>e. fst e \<noteq> ''nsc'') (b_config st) \<rparr>, Inr ())
      else if platform sys \<in> {''darwin'', ''win32''} then (say ''# Skip NSC (platform not supported)'' st, Inr ())
      else (case tag_dirs ''nsc'' (b_config st) of
              [] \<Rightarrow> (st, Inr ())
            | [d] \<Rightarrow>
                then_run (chdir sys d (say ''# Build NSC'' st)) (\<lambda>st1 _.
                then_run
                  (back_in sys (b_cwd st)
                    (case build_nsc sys (say (''Entering directory `'' @ d @ [CHR 0x27]) st1) of
                       (st2, Inl e) \<Rightarrow>
                         if e = CommandError
                         then ((say ''# Build NSC: failure (ignoring NSC)'' st2)\<lparr> b_config := filter (\<lambda>e. fst e \<noteq> ''nsc'') (b_config st2) \<rparr>, Inr ())
                         else (st2, Inl e)
                     | (st2, Inr _) \<Rightarrow> (st2, Inr ())))
                  (\<lambda>st3 _. (say (''Leaving directory `'' @ d @ [CHR 0x27]) st3, Inr ())))
            | _ \<Rightarrow> (st, Inl ValueError)))"

definition ns3_step :: "'w build_system \<Rightarrow> build_options \<Rightarrow> string list \<Rightarrow> string list \<Rightarrow> 'w build_state \<Rightarrow> ('w, int) outcome" where
  "ns3_step sys opts args build_opts st =
     (case tag_dirs ''ns-3'' (b_config st) of
        [d'] \<Rightarrow>
          let d = path_join (script_dir sys) d' in
          then_run (chdir sys d (say (''Entering directory `'' @ d @ [CHR 0x27]) st)) (\<lambda>st1 _.
          then_run (back_in sys (b_cwd st) (build_ns3 sys (enable_examples opts) (enable_tests opts) args build_opts st1)) (\<lambda>st2 _.
            (say (''Leaving directory `'' @ d @ [CHR 0x27]) st2, Inr 0)))
      | _ \<Rightarrow> (st, Inl ValueError))"

text \<open>\<open>main\<close>, after the options are parsed; without the file \<open>.config\<close> the script exits with 2.\<close>

definition build_main ::
    "'w build_system \<Rightarrow> (string \<times> string) list option \<Rightarrow> build_options \<Rightarrow> string list \<Rightarrow> string \<Rightarrow> 'w \<Rightarrow> ('w, int) outcome" where
  "build_main sys dot_config opts args cwd w =
     (case dot_config of
        None \<Rightarrow> (\<lparr> b_cwd = cwd, b_world = w, b_out = [], b_config = [] \<rparr>, Inl (SystemExit 2))
      | Some cfg \<Rightarrow>
          then_run (nsc_step sys opts \<lparr> b_cwd = cwd, b_world = w, b_out = [], b_config = cfg \<rparr>) (\<lambda>st _.
            let notes = (if enable_examples opts then [''# Building examples (by user request)''] else [])
                  @ (if enable_tests opts then [''# Building tests (by user request)''] else [])
            in (case shlex_split (waf_options opts) of
                  Inl e \<Rightarrow> (fold say notes st, Inl e)
                | Inr build_opts \<Rightarrow> ns3_step sys opts args build_opts (say ''# Build NS-3'' (fold say notes st)))))"

section \<open>Lemmas\<close>

text \<open>The start directory can be returned to.\<close>

definition can_return :: "'w build_system \<Rightarrow> string \<Rightarrow> bool" where
  "can_return sys d \<longleftrightarrow> (\<forall>c. bs_chdir sys d c = Inr d)"

lemma say_fields [simp]: "b_cwd (say l st) = b_cwd st" "b_config (say l st) = b_config st" "b_world (say l st) = b_world st"
  by (simp_all add: say_def)

lemma fold_say_fields [simp]:
  "b_cwd (fold say ls st) = b_cwd st" "b_config (fold say ls st) = b_config st" "b_world (fold say ls st) = b_world st"
  by (induction ls arbitrary: st) simp_all

lemma back_in_cwd: "can_return sys d \<Longrightarrow> b_cwd (fst (back_in sys d r)) = d \<and> snd (back_in sys d r) = snd r \<and> b_config (fst (back_in sys d r)) = b_config (fst r)"
  by (cases r) (simp add: back_in_def chdir_def can_return_def)

lemma then_run_cwd:
  "b_cwd (fst r) = d \<Longrightarrow> (\<And>st x. r = (st, Inr x) \<Longrightarrow> b_cwd st = d \<Longrightarrow> b_cwd (fst (f st x)) = d) \<Longrightarrow> b_cwd (fst (then_run r f)) = d"
  by (cases r; cases "snd r") (auto simp: then_run_def)

lemma nsc_step_cwd: "can_return sys (b_cwd st) \<Longrightarrow> b_cwd (fst (nsc_step sys opts st)) = b_cwd st"
proof -
  assume r: "can_return sys (b_cwd st)"
  have "b_cwd (fst (then_run (back_in sys (b_cwd st) x) (\<lambda>st3 _. (say l st3, Inr ())))) = b_cwd st" for x :: "('a, unit) outcome" and l
    using back_in_cwd [OF r, of x] by (intro then_run_cwd) simp_all
  then show ?thesis
    by (auto simp: nsc_step_def then_run_def chdir_def split: list.split sum.split)
qed

lemma ns3_step_cwd: "can_return sys (b_cwd st) \<Longrightarrow> b_cwd (fst (ns3_step sys opts args bo st)) = b_cwd st"
proof -
  assume r: "can_return sys (b_cwd st)"
  have "b_cwd (fst (then_run (back_in sys (b_cwd st) x) (\<lambda>st3 _. (say l st3, Inr (0 :: int))))) = b_cwd st" for x :: "('a, unit) outcome" and l
    using back_in_cwd [OF r, of x] by (intro then_run_cwd) simp_all
  then show ?thesis
    by (auto simp: ns3_step_def then_run_def chdir_def Let_def split: list.split sum.split)
qed

text \<open>
  Whatever the commands do, the script is in its start directory again when it ends, and a cradle whose build fails is left out of the
  configuration of ns-3, which goes on.
\<close>

theorem build_returns:
  assumes "can_return sys cwd"
  shows "b_cwd (fst (build_main sys cfg opts args cwd w)) = cwd"
proof (cases cfg)
  case (Some c)
  let ?st = "\<lparr> b_cwd = cwd, b_world = w, b_out = [], b_config = c \<rparr>"
  have "b_cwd (fst (nsc_step sys opts ?st)) = cwd" using nsc_step_cwd [of sys ?st] assms by simp
  with Some ns3_step_cwd [of sys] assms show ?thesis unfolding build_main_def
    by (auto intro!: then_run_cwd simp: Let_def split: sum.split)
qed (simp add: build_main_def)

lemma failed_cradle:
  assumes "tag_dirs ''nsc'' (b_config st) = [d]" and "\<not> disable_nsc opts" and "platform sys \<notin> {''darwin'', ''win32''}"
    and "bs_chdir sys d (b_cwd st) = Inr c" and "can_return sys (b_cwd st)"
    and "bs_run sys [executable sys, ''scons.py''] c (b_world st) = (Inr r, w)" "r \<noteq> 0"
  shows "\<exists>st'. nsc_step sys opts st = (st', Inr ()) \<and> tag_dirs ''nsc'' (b_config st') = [] \<and> fst (nsc_options sys (b_config st')) = []"
  using assms
  by (auto simp: nsc_step_def chdir_def then_run_def build_nsc_def run_build_command_def back_in_def can_return_def tag_dirs_def Let_def
      nsc_options_def CommandError_def filter_empty_conv)

theorem build_returns_witness:
  "b_cwd (fst (build_main \<lparr> bs_run = \<lambda>_ _ w. (Inr 1, w), bs_chdir = \<lambda>d _. Inr d, executable = ''python'', platform = ''linux2'', machine = ''i686'',
     script_dir = [] \<rparr> (Some [(''nsc'', ''nsc''), (''ns-3'', ''ns-3.13'')]) \<lparr> disable_nsc = False, enable_examples = True, enable_tests = False,
     waf_options = [] \<rparr> [] ''/ns'' ())) = ''/ns''"
  by (rule build_returns) (simp add: can_return_def)

end
