(* ===== verification/WafBoost.thy ===== *)
theory WafBoost
  imports WafMisc
begin

text \<open>
  The waf tool \<open>waf-tools/boost.py\<close>: where the headers and libraries of Boost are, and which file is taken for a library. Directories and their
  files, the compiler check and the version of the headers are arguments. Names and tags are taken literally in the patterns.
\<close>

section \<open>Tables\<close>

definition BOOST_LIBS :: "string list" where
  "BOOST_LIBS = [''/usr/lib'', ''/usr/local/lib'', ''/opt/local/lib'', ''/sw/lib'', ''/lib'']"

definition BOOST_INCLUDES :: "string list" where
  "BOOST_INCLUDES = [''/usr/include'', ''/usr/local/include'', ''/opt/local/include'', ''/sw/include'']"

datatype toolset = Toolset string | DetectIntel | DetectClang | DetectMingw

definition BOOST_TOOLSETS :: "(string, toolset) dict" where
  "BOOST_TOOLSETS =
     [(''borland'', Toolset ''bcb''), (''clang'', DetectClang), (''como'', Toolset ''como''), (''cw'', Toolset ''cw''),
      (''darwin'', Toolset ''xgcc''), (''edg'', Toolset ''edg''), (''g++'', DetectMingw), (''gcc'', DetectMingw), (''icpc'', DetectIntel),
      (''intel'', DetectIntel), (''kcc'', Toolset ''kcc''), (''kylix'', Toolset ''bck''), (''mipspro'', Toolset ''mp''), (''mingw'', Toolset ''mgw''),
      (''msvc'', Toolset ''vc''), (''qcc'', Toolset ''qcc''), (''sun'', Toolset ''sw''), (''sunc++'', Toolset ''sw''), (''tru64cxx'', Toolset ''tru''),
      (''vacpp'', Toolset ''xlc'')]"

record boost_env =
  platform_name :: string
  cxx_name :: string
  cxx :: "string list"

definition detect :: "boost_env \<Rightarrow> toolset \<Rightarrow> string res" where
  "detect env t =
     (case t of
        Toolset s \<Rightarrow> Inr s
      | DetectIntel \<Rightarrow> Inr (if platform_name env = ''win32'' then ''iw'' else ''il'')
      | DetectClang \<Rightarrow> Inr (if platform_name env = ''darwin'' then ''clang-darwin'' else ''clang'')
      | DetectMingw \<Rightarrow> (case cxx env of [] \<Rightarrow> Inl IndexError | c # _ \<Rightarrow> Inr (if sublist ''MinGW'' c then ''mgw'' else ''gcc'')))"

text \<open>An unknown compiler is its own toolset; without a name there is nothing to call.\<close>

definition boost_get_toolset :: "boost_env \<Rightarrow> string \<Rightarrow> string res" where
  "boost_get_toolset env cc0 =
     (let cc = (if cc0 \<noteq> [] then cc0 else if platform_name env \<in> fst ` set BOOST_TOOLSETS then platform_name env else cxx_name env)
      in case map_of BOOST_TOOLSETS cc of
           Some t \<Rightarrow> detect env t
         | None \<Rightarrow> if cc0 \<noteq> [] then Inr cc0 else Inl TypeError)"

section \<open>Headers and directories\<close>

text \<open>\<open>version_file\<close> tells whether a directory has the version header.\<close>

definition boost_get_includes :: "(string \<Rightarrow> bool) \<Rightarrow> string \<Rightarrow> string res" where
  "boost_get_includes version_file includes =
     (if includes \<noteq> [] \<and> version_file includes then Inr includes
      else (case find version_file BOOST_INCLUDES of Some d \<Rightarrow> Inr d | None \<Rightarrow> Inl waf_error))"

text \<open>The files of a directory that match \<open>*boost_*\<close>, if there is such a directory; the second value is the last directory that was tried.\<close>

fun search_lib_dirs :: "(string \<Rightarrow> string list option) \<Rightarrow> string list \<Rightarrow> (string \<times> string list) option \<Rightarrow> (string \<times> string list) option" where
  "search_lib_dirs glob [] cur = cur"
| "search_lib_dirs glob (d # ds) cur =
     (case glob d of
        None \<Rightarrow> search_lib_dirs glob ds None
      | Some fs \<Rightarrow>
          if fs \<noteq> [] then Some (d, fs)
          else (case glob (d @ ''64'') of
                  None \<Rightarrow> search_lib_dirs glob ds None
                | Some fs' \<Rightarrow> if fs' \<noteq> [] then Some (d @ ''64'', fs') else search_lib_dirs glob ds (Some (d @ ''64'', []))))"

definition boost_get_libs_path :: "(string \<Rightarrow> string list option) \<Rightarrow> string \<Rightarrow> (string \<times> string list) res" where
  "boost_get_libs_path glob libs =
     (let searched = (case search_lib_dirs glob BOOST_LIBS None of None \<Rightarrow> Inl waf_error | Some r \<Rightarrow> Inr r)
      in if libs = [] then searched
         else (case glob libs of None \<Rightarrow> Inl AttributeError | Some fs \<Rightarrow> if fs \<noteq> [] then Inr (libs, fs) else searched))"

section \<open>Patterns\<close>

text \<open>Literal text, a repeated text, and a repeated text that is followed by up to three digits.\<close>

datatype seg = Lit string | Many string | ManyDigits string

function many_rests :: "string \<Rightarrow> string \<Rightarrow> string list" where
  "many_rests l s =
     (if l \<noteq> [] \<and> prefix l s then drop (length l) s # many_rests l (drop (length l) s) else [])"
  by pat_completeness auto
termination by (relation "measure (\<lambda>(l, s). length s)") (auto simp: prefix_def)

definition digit_rests :: "string \<Rightarrow> string list" where
  "digit_rests s = map (\<lambda>k. drop k s) (filter (\<lambda>k. k \<le> length s \<and> list_all is_digit (take k s)) [3, 2, 1, 0])"

lemma digit_rests_shorter: "r \<in> set (digit_rests s) \<Longrightarrow> length r \<le> length s"
  by (auto simp: digit_rests_def)

lemma prefix_drop_shorter: "l \<noteq> [] \<Longrightarrow> prefix l s \<Longrightarrow> r \<in> set (digit_rests (drop (length l) s)) \<Longrightarrow> length r < length s"
  using digit_rests_shorter [of r "drop (length l) s"] by (cases l; cases s) auto

function digits_rests :: "string \<Rightarrow> string \<Rightarrow> string list" where
  "digits_rests l s =
     (if l \<noteq> [] \<and> prefix l s then concat (map (\<lambda>r. r # digits_rests l r) (digit_rests (drop (length l) s))) else [])"
  by pat_completeness auto
termination by (relation "measure (\<lambda>(l, s). length s)") (auto dest: prefix_drop_shorter)

definition seg_rests :: "seg \<Rightarrow> string \<Rightarrow> string list" where
  "seg_rests g s =
     (case g of Lit l \<Rightarrow> if prefix l s then [drop (length l) s] else [] | Many l \<Rightarrow> many_rests l s | ManyDigits l \<Rightarrow> digits_rests l s)"

fun seg_match :: "seg list \<Rightarrow> string \<Rightarrow> bool" where
  "seg_match [] s \<longleftrightarrow> True"
| "seg_match (g # gs) s \<longleftrightarrow> list_ex (seg_match gs) (seg_rests g s)"

definition seg_search :: "seg list \<Rightarrow> string \<Rightarrow> bool" where
  "seg_search gs s \<longleftrightarrow> list_ex (seg_match gs) (suffixes s)"

section \<open>Libraries\<close>

datatype option_value = BoolV bool | StrV string

record boost_params =
  p_lib :: "string list"
  p_includes :: string
  p_libs :: string
  p_static :: option_value
  p_mt :: bool
  p_abi :: string
  p_toolset :: string
  p_python :: string

definition format_lib_name :: "string \<Rightarrow> string" where
  "format_lib_name name =
     takeWhile (\<lambda>c. c \<noteq> CHR ''.'') (if startswith name ''lib'' then drop 3 name else name)"

definition lib_patterns :: "boost_params \<Rightarrow> string \<Rightarrow> string \<Rightarrow> string \<Rightarrow> seg list list" where
  "lib_patterns p ts version lib =
     (let t = (if p_mt p then [''mt''] else []) @ (if p_abi p \<noteq> [] then [p_abi p] else []);
          tags = (if t \<noteq> [] then [Many (CHR ''-'' # str_join ''-'' t)] else []);
          tool = [ManyDigits (CHR ''-'' # ts)];
          ver = [Many (CHR ''-'' # version)];
          py = (if lib = ''python'' then [Many (''-py'' @ p_python p)] else []);
          start = [Lit (''boost_'' @ lib)]
      in [start @ tool @ tags @ py @ ver, start @ tags @ py @ ver, start @ tags @ ver, start @ tool @ tags @ py, start @ tags @ py, start @ tags])"

definition find_lib :: "string list \<Rightarrow> seg list list \<Rightarrow> string option" where
  "find_lib files ps =
     (case List.map_filter (\<lambda>p. find (seg_search p) files) ps of [] \<Rightarrow> None | f # _ \<Rightarrow> Some f)"

definition boost_get_libs :: "(string \<Rightarrow> string list option) \<Rightarrow> boost_env \<Rightarrow> string \<Rightarrow> boost_params \<Rightarrow> (string \<times> string list) res" where
  "boost_get_libs glob env version p =
     bind_res (boost_get_libs_path glob (p_libs p)) (\<lambda>(path, files).
     bind_res (boost_get_toolset env (p_toolset p)) (\<lambda>ts.
     bind_res (map_res (\<lambda>lib. case find_lib files (lib_patterns p ts version lib) of
                          None \<Rightarrow> Inl waf_error | Some f \<Rightarrow> Inr (format_lib_name f)) (p_lib p)) (\<lambda>libs.
       Inr (path, libs))))"

definition option_text :: "option_value \<Rightarrow> string" where
  "option_text v = (case v of BoolV b \<Rightarrow> if b then ''True'' else [] | StrV s \<Rightarrow> s)"

text \<open>
  \<open>check_boost\<close>, with the parameters of the command line and of the call merged; the value of \<open>static\<close> is put in front of
  the names of the variables (\<open>params\<close> always has it, so the default \<open>'ST'\<close> is never used).
\<close>

definition check_boost ::
    "(string \<Rightarrow> bool) \<Rightarrow> (string \<Rightarrow> string res) \<Rightarrow> (string \<Rightarrow> string list option) \<Rightarrow> boost_env \<Rightarrow> boost_params \<Rightarrow> string
     \<Rightarrow> (string, string list) dict \<Rightarrow> (string, string list) dict res" where
  "check_boost version_file get_version glob env p var d =
     (if cxx env = [] then Inl waf_error
      else bind_res (boost_get_includes version_file (p_includes p)) (\<lambda>inc.
           bind_res (get_version inc) (\<lambda>version.
             let d1 = AList.update ''BOOST_VERSION'' [version] (AList.update (''INCLUDES_'' @ var) [inc] d)
             in if p_lib p = [] then Inr d1
                else bind_res (boost_get_libs glob env version p) (\<lambda>(path, libs).
                       let s = option_text (p_static p)
                       in Inr (AList.update (s @ ''LIB_'' @ var) libs (AList.update (s @ ''LIBPATH_'' @ var) [path] d1))))))"

section \<open>Lemmas\<close>

lemma find_lib_simps [simp]:
  "find_lib files [] = None"
  "find_lib files (p # ps) = (case find (seg_search p) files of None \<Rightarrow> find_lib files ps | Some f \<Rightarrow> Some f)"
  by (simp_all add: find_lib_def List.map_filter_simps split: option.split)

lemma find_lib_Some:
  assumes "find_lib files ps = Some f"
  shows "\<exists>i < length ps. find (seg_search (ps ! i)) files = Some f \<and> (\<forall>j < i. \<forall>g \<in> set files. \<not> seg_search (ps ! j) g)"
  using assms
proof (induction ps)
  case (Cons p ps)
  show ?case
  proof (cases "find (seg_search p) files")
    case None
    with Cons obtain i where "i < length ps" "find (seg_search (ps ! i)) files = Some f" "\<forall>j < i. \<forall>g \<in> set files. \<not> seg_search (ps ! j) g"
      by auto
    with None show ?thesis by (intro exI [of _ "Suc i"]) (auto simp: find_None_iff nth_Cons split: nat.split)
  next
    case (Some g)
    with Cons.prems show ?thesis by (intro exI [of _ 0]) auto
  qed
qed simp

lemma find_lib_None: "find_lib files ps = None \<longleftrightarrow> (\<forall>p \<in> set ps. \<forall>g \<in> set files. \<not> seg_search p g)"
  by (induction ps) (auto split: option.split simp: find_None_iff, auto simp: find_Some_iff)

text \<open>
  The libraries are given in the order in which they are asked for; each is a file that matches the most strict pattern that any file matches, and
  the check fails exactly when no file matches any pattern of some library.
\<close>

lemma boost_libs_outcome:
  assumes "boost_get_libs_path glob (p_libs p) = Inr (path, files)" and "boost_get_toolset env (p_toolset p) = Inr ts"
  shows "(case boost_get_libs glob env version p of
       Inl e \<Rightarrow> e = waf_error \<and> (\<exists>lib \<in> set (p_lib p). \<forall>pat \<in> set (lib_patterns p ts version lib). \<forall>f \<in> set files. \<not> seg_search pat f)
     | Inr (path', libs) \<Rightarrow> path' = path \<and> list_all2 (\<lambda>lib name. \<exists>f i. f \<in> set files \<and> name = format_lib_name f \<and>
           i < length (lib_patterns p ts version lib) \<and> seg_search (lib_patterns p ts version lib ! i) f \<and>
           (\<forall>j < i. \<forall>g \<in> set files. \<not> seg_search (lib_patterns p ts version lib ! j) g)) (p_lib p) libs)"
proof -
  let ?one = "\<lambda>lib. case find_lib files (lib_patterns p ts version lib) of None \<Rightarrow> Inl waf_error | Some f \<Rightarrow> Inr (format_lib_name f)"
  let ?ok = "\<lambda>lib name. \<exists>f i. f \<in> set files \<and> name = format_lib_name f \<and> i < length (lib_patterns p ts version lib) \<and>
      seg_search (lib_patterns p ts version lib ! i) f \<and> (\<forall>j < i. \<forall>g \<in> set files. \<not> seg_search (lib_patterns p ts version lib ! j) g)"
  have one: "?ok lib name" if "?one lib = Inr name" for lib name
  proof -
    note one_lib = that
    obtain f where f: "find_lib files (lib_patterns p ts version lib) = Some f" "name = format_lib_name f"
      using one_lib by (auto split: option.splits)
    obtain i where "i < length (lib_patterns p ts version lib)" "find (seg_search (lib_patterns p ts version lib ! i)) files = Some f"
        "\<forall>j < i. \<forall>g \<in> set files. \<not> seg_search (lib_patterns p ts version lib ! j) g"
      using find_lib_Some [OF f(1)] by blast
    moreover from this(2) have "f \<in> set files" "seg_search (lib_patterns p ts version lib ! i) f" by (auto simp: find_Some_iff)
    ultimately show ?thesis using f(2) by blast
  qed
  have "case map_res ?one libs of
      Inl e \<Rightarrow> e = waf_error \<and> (\<exists>lib \<in> set libs. find_lib files (lib_patterns p ts version lib) = None)
    | Inr names \<Rightarrow> list_all2 ?ok libs names" for libs
  proof (induction libs)
    case (Cons lib libs)
    then show ?case using one [of lib] by (cases "?one lib"; cases "map_res ?one libs") (auto split: option.splits)
  qed simp
  from this [of "p_lib p"] assms show ?thesis
    by (auto simp: boost_get_libs_def find_lib_None split: sum.splits)
qed

text \<open>With the command-line option for static libraries the variables have names that nothing reads.\<close>

lemma static_prefix:
  assumes "check_boost vf gv glob env p var d = Inr d'" and "p_static p = BoolV True" and "p_lib p \<noteq> []"
  shows "\<exists>libs. map_of d' (''TrueLIB_'' @ var) = Some libs"
  using assms by (auto simp: check_boost_def option_text_def bind_res_Inr_iff Let_def update_conv' split: if_splits)

lemma missing_libs_dir: "libs \<noteq> [] \<Longrightarrow> glob libs = None \<Longrightarrow> boost_get_libs_path glob libs = Inl AttributeError"
  by (simp add: boost_get_libs_path_def Let_def)

end
