(* ===== verification/WafSetup.thy ===== *)
theory WafSetup
  imports WafBoost
begin

text \<open>
  The waf tools \<open>waf-tools/pkgconfig.py\<close> and \<open>waf-tools/relocation.py\<close>, and the use of Boost in the configuration of the module openflow.
  The process of pkg-config, the parser of its flags and the lookup of nodes are arguments. The nodes of the build tree are
  records in a store, as they are shared and changed in place; the log and messages are left out.
\<close>

section \<open>pkg-config\<close>

record 'f pkg_conf =
  found_flags :: "(string \<times> 'f) list"
  uselib :: "(string, bool) dict"
  err_text :: string

definition configuration_error :: py_error where
  "configuration_error = PyException ''ConfigurationError''"

text \<open>
  \<open>run\<close> gives exit status, output and error output of a command, \<open>parse_flags\<close> the variables that the text sets. The
  state is kept when the check ends in an exception.
\<close>

definition pkg_check_modules ::
    "(string list \<Rightarrow> int \<times> string \<times> string) \<Rightarrow> (string \<Rightarrow> 'f) \<Rightarrow> string \<Rightarrow> string \<Rightarrow> string \<Rightarrow> bool \<Rightarrow> 'f pkg_conf \<Rightarrow> 'f pkg_conf \<times> bool res" where
  "pkg_check_modules run parse_flags pkg_config uselib_name expression mandatory c =
     (if pkg_config = [] then (c, if mandatory then Inl configuration_error else Inr False)
      else let (retval, out, err) = run [pkg_config, ''--cflags'', ''--libs'', expression];
               c1 = (if retval \<noteq> 0 then c\<lparr>err_text := err_text c @ err\<rparr> else c)
           in if retval = 0 then
                (c1\<lparr>found_flags := found_flags c1 @ [(uselib_name, parse_flags out)], uselib := AList.update uselib_name True (uselib c1)\<rparr>, Inr True)
              else (c1\<lparr>uselib := AList.update uselib_name False (uselib c1)\<rparr>, if mandatory then Inl configuration_error else Inr False))"

definition str_rstrip :: "string \<Rightarrow> string" where
  "str_rstrip s = rev (dropWhile is_space (rev s))"

definition pkg_check_module_variable :: "(string list \<Rightarrow> int \<times> string) \<Rightarrow> string \<Rightarrow> string \<Rightarrow> string \<Rightarrow> string res" where
  "pkg_check_module_variable run pkg_config module variable =
     (if pkg_config = [] then Inl configuration_error
      else let (retval, out) = run [pkg_config, ''--variable'', variable, module]
           in if retval = 0 then Inr (str_rstrip out) else Inl configuration_error)"

text \<open>
  The check succeeds exactly when pkg-config does, and records its verdict for the library; only a check that is mandatory
  ends in an exception, and other libraries are left alone.
\<close>

lemma pkg_check_modules_outcome:
  assumes "run [pkg_config, ''--cflags'', ''--libs'', expression] = (retval, out, err)"
    and "pkg_check_modules run parse_flags pkg_config name expression mandatory c = (c', r)"
  shows "(r = Inr True \<longleftrightarrow> pkg_config \<noteq> [] \<and> retval = 0) \<and>
    (r \<noteq> Inr True \<longrightarrow> r = (if mandatory then Inl configuration_error else Inr False)) \<and>
    map_of (uselib c') = (if pkg_config = [] then map_of (uselib c) else (map_of (uselib c))(name \<mapsto> r = Inr True)) \<and>
    found_flags c' = found_flags c @ (if r = Inr True then [(name, parse_flags out)] else [])"
  using assms by (auto simp: pkg_check_modules_def Let_def split: if_splits)

section \<open>Relocation of the project\<close>

record tree_node =
  children_of :: "(string, nat) dict"
  parent_of :: nat

type_synonym nodes = "nat \<Rightarrow> tree_node"

text \<open>One pass of the loop over the children: the node becomes a child of \<open>src\<close>.\<close>

definition move_child :: "nat \<Rightarrow> nodes \<Rightarrow> string \<times> nat \<Rightarrow> nodes" where
  "move_child src st kv =
     (let st1 = st(src := (st src)\<lparr>children_of := AList.update (fst kv) (snd kv) (children_of (st src))\<rparr>)
      in st1(snd kv := (st1 (snd kv))\<lparr>parent_of := src\<rparr>))"

definition relocate_children :: "nat \<Rightarrow> nat \<Rightarrow> nodes \<Rightarrow> nodes" where
  "relocate_children d src st =
     (let st1 = st(src := (st src)\<lparr>children_of := []\<rparr>);
          st2 = foldl (move_child src) st1 (children_of (st1 d))
      in st2(d := (st2 d)\<lparr>children_of := []\<rparr>))"

record build_dirs =
  top_dir :: string
  out_dir :: string
  saved_srcdir :: "string option"

text \<open>
  \<open>saved_srcdir\<close> is what loading the file \<open>.old_srcdir\<close> gives, none when that fails. \<open>find_path\<close> and \<open>make_path\<close> are \<open>find_node\<close> and \<open>make_node\<close> of
  the root, which can add nodes to the store.
\<close>

definition relocation_init_dirs ::
    "(nodes \<Rightarrow> string \<Rightarrow> nat option \<times> nodes) \<Rightarrow> (nodes \<Rightarrow> string \<Rightarrow> nat \<times> nodes) \<Rightarrow> build_dirs \<Rightarrow> nodes \<Rightarrow> nodes res" where
  "relocation_init_dirs find_path make_path b st =
     (if \<not> (startswith (top_dir b) ''/'' \<and> startswith (out_dir b) ''/'') then Inl waf_error
      else case saved_srcdir b of
             None \<Rightarrow> Inr st
           | Some srcdir \<Rightarrow>
               if srcdir = [] then Inr st
               else (case find_path st srcdir of
                       (None, st1) \<Rightarrow> Inr st1
                     | (Some d, st1) \<Rightarrow>
                         if srcdir \<noteq> top_dir b \<and> children_of (st1 d) \<noteq> [] then
                           (case make_path st1 (top_dir b) of (src, st2) \<Rightarrow> Inr (relocate_children d src st2))
                         else Inr st1))"

text \<open>\<open>store\<close> saves the path of the source node.\<close>

definition relocation_store :: "string \<Rightarrow> build_dirs \<Rightarrow> build_dirs" where
  "relocation_store srcnode_path b = b\<lparr>saved_srcdir := Some srcnode_path\<rparr>"

text \<open>\<open>Task.uid\<close>: the cached value, or the digest of the class name and the paths of inputs and outputs from the source node.\<close>

definition task_uid :: "(string \<Rightarrow> 'u) \<Rightarrow> string \<Rightarrow> string list \<Rightarrow> string list \<Rightarrow> 'u option \<Rightarrow> 'u \<times> 'u option" where
  "task_uid md5 cls inputs outputs cached =
     (case cached of Some u \<Rightarrow> (u, cached) | None \<Rightarrow> let u = md5 (foldl (@) cls (inputs @ outputs)) in (u, Some u))"

text \<open>The include paths, relative to the source node for the nodes below it.\<close>

definition apply_incpaths :: "('n \<Rightarrow> bool) \<Rightarrow> ('n \<Rightarrow> string) \<Rightarrow> ('n \<Rightarrow> string) \<Rightarrow> 'n list \<Rightarrow> string list" where
  "apply_incpaths is_child path_from full_path lst = map (\<lambda>x. if is_child x \<and> path_from x \<noteq> [] then path_from x else full_path x) lst"

subsection \<open>Lemmas\<close>

lemma children_of_move_child [simp]:
  "children_of (move_child src st kv n) = (if n = src then AList.update (fst kv) (snd kv) (children_of (st src)) else children_of (st n))"
  by (simp add: move_child_def Let_def)

lemma parent_of_move_child [simp]: "parent_of (move_child src st kv n) = (if n = snd kv then src else parent_of (st n))"
  by (simp add: move_child_def Let_def)

lemma children_of_moved:
  "children_of (foldl (move_child src) st kvs n) =
     (if n = src then foldl (\<lambda>d kv. AList.update (fst kv) (snd kv) d) (children_of (st src)) kvs else children_of (st n))"
  by (induction kvs arbitrary: st) auto

lemma parent_of_moved: "parent_of (foldl (move_child src) st kvs n) = (if n \<in> snd ` set kvs then src else parent_of (st n))"
  by (induction kvs arbitrary: st) auto

lemma update_new_key: "k \<notin> fst ` set d \<Longrightarrow> AList.update k v d = d @ [(k, v)]"
  by (induction d) auto

lemma foldl_update_distinct:
  "distinct (keys (d @ kvs)) \<Longrightarrow> foldl (\<lambda>d kv. AList.update (fst kv) (snd kv) d) d kvs = d @ kvs"
  by (induction kvs arbitrary: d) (auto simp: update_new_key)

definition parents_ok :: "nodes \<Rightarrow> bool" where
  "parents_ok st \<longleftrightarrow> (\<forall>n. wf_dict (children_of (st n)) \<and> (\<forall>kv \<in> set (children_of (st n)). parent_of (st (snd kv)) = n))"

lemma relocated_children:
  assumes "wf_dict (children_of (st d))"
  shows "children_of (relocate_children d src st n) =
    (if n = d then [] else if n = src then children_of (st d) else children_of (st n))"
  using assms by (auto simp: relocate_children_def Let_def children_of_moved foldl_update_distinct wf_dict_def)

lemma relocated_parents:
  "parent_of (relocate_children d src st n) =
    (if d \<noteq> src \<and> n \<in> snd ` set (children_of (st d)) then src else parent_of (st n))"
  by (auto simp: relocate_children_def Let_def parent_of_moved)

text \<open>After a relocation every node is still the parent of its children, and the children of the old directory are those of the new one.\<close>

lemma relocation_keeps_parents:
  assumes "parents_ok st"
  shows "parents_ok (relocate_children d src st)"
proof -
  have wf: "wf_dict (children_of (st n))" for n using assms by (simp add: parents_ok_def)
  have par: "parent_of (st c) = n" if "(k, c) \<in> set (children_of (st n))" for n k c
    using assms that unfolding parents_ok_def by (metis snd_conv)
  have one: "m = n" if "(k, c) \<in> set (children_of (st n))" "(k', c) \<in> set (children_of (st m))" for n m k k' c
    using par [OF that(1)] par [OF that(2)] by simp
  show ?thesis
    unfolding parents_ok_def relocated_children [OF wf] relocated_parents using wf par
    by (auto split: if_splits intro: one)
qed

text \<open>When the project moves into a directory below the old one, the new directory becomes its own child and parent.\<close>

lemma relocated_below:
  assumes "wf_dict (children_of (st d))" and "(k, src) \<in> set (children_of (st d))" and "d \<noteq> src"
  shows "parent_of (relocate_children d src st src) = src \<and> map_of (children_of (relocate_children d src st src)) k = Some src"
  using assms by (auto simp: relocated_children relocated_parents wf_dict_def image_iff intro!: bexI [of _ "(k, src)"])

text \<open>A project that was stored and not moved is left as it is.\<close>

lemma stored_not_moved:
  assumes "startswith (top_dir b) ''/''" and "startswith (out_dir b) ''/''" and "\<forall>s. snd (find_path st s) = st"
  shows "relocation_init_dirs find_path make_path (relocation_store (top_dir b) b) st = Inr st"
  using assms by (cases "find_path st (top_dir b)")
    (auto simp: relocation_init_dirs_def relocation_store_def split: option.splits, (metis snd_conv)+)

text \<open>The digest does not separate the paths.\<close>

lemma uid_of_joined_paths: "concat (i @ out) = concat (i' @ out') \<Longrightarrow> task_uid md5 cls i out None = task_uid md5 cls i' out' None"
proof -
  have "foldl (@) c xs = c @ concat xs" for c :: string and xs by (induction xs arbitrary: c) auto
  then show "concat (i @ out) = concat (i' @ out') \<Longrightarrow> ?thesis" by (simp add: task_uid_def)
qed

section \<open>Boost for the module openflow\<close>

text \<open>
  \<open>configure\<close> of \<open>src/openflow/wscript\<close> up to the decision whether the module is built. \<open>check\<close> is \<open>check_boost\<close> with the
  libraries signals and filesystem; the second call differs by a parameter \<open>libpath\<close> only, which \<open>check_boost\<close> does not read.
  After a failed check the list of libraries is empty.
\<close>

definition openflow_boost ::
    "((string, string list) dict \<Rightarrow> (string, string list) dict res) \<Rightarrow> (string, string list) dict \<Rightarrow> bool res" where
  "openflow_boost check d =
     (let has_libs = (\<lambda>d. case map_of d ''LIB_BOOST'' of Some l \<Rightarrow> l \<noteq> [] | None \<Rightarrow> False);
          checked = bind_res (check d) (\<lambda>d1. if has_libs d1 then Inr d1 else check d1)
      in case checked of
           Inr d2 \<Rightarrow> Inr (has_libs d2)
         | Inl e \<Rightarrow> if e = waf_error then Inr False else Inl e)"

lemma check_boost_other_keys:
  assumes "check_boost vf gv glob env p var d = Inr d'"
    and "k \<notin> {''INCLUDES_'' @ var, ''BOOST_VERSION'', option_text (p_static p) @ ''LIB_'' @ var, option_text (p_static p) @ ''LIBPATH_'' @ var}"
  shows "map_of d' k = map_of d k"
  using assms by (auto simp: check_boost_def bind_res_Inr_iff Let_def split: if_splits)

text \<open>With the option for static libraries the module is not built, also when Boost has been found.\<close>

lemma openflow_static:
  assumes "p_static p = BoolV True" and "map_of d ''LIB_BOOST'' = None"
    and "openflow_boost (check_boost vf gv glob env p ''BOOST'') d = Inr built"
  shows "\<not> built"
proof -
  have same: "map_of d2 ''LIB_BOOST'' = map_of d1 ''LIB_BOOST''"
    if "check_boost vf gv glob env p ''BOOST'' d1 = Inr d2" for d1 d2
    using check_boost_other_keys [OF that, of "''LIB_BOOST''"] assms(1) by (simp add: option_text_def)
  show ?thesis using assms(2,3)
    by (auto simp: openflow_boost_def Let_def bind_res_def split: sum.splits option.splits if_splits dest: same)
qed

end
