(* ===== verification/VizConsole.thy ===== *)
theory VizConsole
  imports PyBase
begin

text \<open>
  The console of the visualizer, \<open>src/visualizer/visualizer/ipython_view.py\<close>: completion, history, the keys and what is written to the text
  buffer. The interpreter is a parameter, a record of its operations on its state; the calls of the text buffer are the
  result of the operations, positions in it are numbers.
\<close>

section \<open>Completion\<close>

definition is_complete_sep :: "char \<Rightarrow> bool" where
  "is_complete_sep c \<longleftrightarrow> is_space c \<or> c \<in> set ''{}[]()''"

fun sep_split :: "string \<Rightarrow> string list" where
  "sep_split [] = [[]]"
| "sep_split (c # cs) =
     (if is_complete_sep c then [] # sep_split cs
      else (case sep_split cs of [] \<Rightarrow> [[c]] | w # ws \<Rightarrow> (c # w) # ws))"

definition commonPrefix :: "string \<Rightarrow> string \<Rightarrow> string" where
  "commonPrefix str1 str2 =
     (case find (\<lambda>i. \<not> startswith str2 (take (i + 1) str1)) [0..<length str1] of
        Some i \<Rightarrow> take i str1
      | None \<Rightarrow> str1)"

definition complete_line :: "(string \<Rightarrow> string list) \<Rightarrow> string \<Rightarrow> string \<times> string list" where
  "complete_line ip_complete line =
     (let w = last (sep_split line);
          possibilities = ip_complete w
      in (if possibilities \<noteq> []
          then py_slice_to line (- int (length w)) @ foldl commonPrefix (hd possibilities) (tl possibilities)
          else line, possibilities))"

section \<open>Writing to the text buffer\<close>

datatype buffer_call =
    Insert string | InsertTagged string string | NoTouchWritten | LineStartToEnd | DeleteLine | NoTouchLine | CursorToEnd | ScrollToMark

text \<open>A match of the colour pattern at the start of a text: its group and what follows.\<close>

definition color_match :: "string \<Rightarrow> (string \<times> string) option" where
  "color_match s =
     (let s1 = (if startswith s [CHR 0x01] then tl s else s)
      in if \<not> startswith s1 [CHR 0x1B, CHR ''[''] then None
         else let body = drop 2 s1;
                  tag = takeWhile (\<lambda>c. c \<noteq> CHR ''m'' \<and> c \<noteq> CHR 0x0A) body;
                  after = drop (length tag) body
              in case after of
                   c # rest \<Rightarrow> if c = CHR ''m'' then Some (tag, if startswith rest [CHR 0x02] then tl rest else rest) else None
                 | [] \<Rightarrow> None)"

lemma color_match_shorter: "color_match s = Some (tag, rest) \<Longrightarrow> length rest < length s"
proof -
  assume a: "color_match s = Some (tag, rest)"
  define s1 where "s1 = (if startswith s [CHR 0x01] then tl s else s)"
  define body where "body = drop 2 s1"
  define r where "r = drop (length (takeWhile (\<lambda>c. c \<noteq> CHR ''m'' \<and> c \<noteq> CHR 0x0A) body)) body"
  have s1: "startswith s1 [CHR 0x1B, CHR ''['']" using a by (auto simp: color_match_def s1_def Let_def split: if_splits)
  then have "length body < length s1" by (cases s1) (auto simp: body_def)
  moreover have "length s1 \<le> length s" by (simp add: s1_def)
  moreover have "length r \<le> length body" by (simp add: r_def)
  moreover have "length rest < length r"
    using a s1 by (auto simp: color_match_def Let_def s1_def [symmetric] body_def [symmetric] r_def [symmetric] split: list.splits if_splits)
  ultimately show ?thesis by linarith
qed

text \<open>The pieces between the matches: the text before the first, then each group with the text after it.\<close>

function color_split :: "string \<Rightarrow> string \<times> (string \<times> string) list" where
  "color_split s =
     (case color_match s of
        Some (tag, rest) \<Rightarrow> ([], (tag, fst (color_split rest)) # snd (color_split rest))
      | None \<Rightarrow> (case s of [] \<Rightarrow> ([], []) | c # cs \<Rightarrow> (c # fst (color_split cs), snd (color_split cs))))"
  by pat_completeness auto
termination by (relation "measure length") (auto dest: color_match_shorter)

fun index_of :: "'a \<Rightarrow> 'a list \<Rightarrow> nat option" where
  "index_of x [] = None"
| "index_of x (y # ys) = (if y = x then Some 0 else map_option Suc (index_of x ys))"

definition remove_at :: "nat \<Rightarrow> 'a list \<Rightarrow> 'a list" where
  "remove_at i xs = take i xs @ drop (i + 1) xs"

text \<open>The loop of \<open>write\<close> over the tags, with the list of groups and texts that is left.\<close>

fun write_tags :: "string list \<Rightarrow> string list \<Rightarrow> buffer_call list res" where
  "write_tags segments [] = Inr []"
| "write_tags segments (tag # tags) =
     (case index_of tag segments of
        None \<Rightarrow> Inl ValueError
      | Some i \<Rightarrow> bind_res (py_index segments (int (i + 1))) (\<lambda>segment.
                  bind_res (write_tags (remove_at i segments) tags) (\<lambda>calls.
                    Inr (InsertTagged segment tag # calls))))"

definition console_write :: "string \<Rightarrow> bool \<Rightarrow> buffer_call list res" where
  "console_write txt editable =
     (let (segment, parts) = color_split txt
      in bind_res (write_tags (concat (map (\<lambda>(g, t). [g, t]) parts)) (map fst parts)) (\<lambda>calls.
           Inr (Insert segment # calls @ (if editable then [] else [NoTouchWritten]) @ [ScrollToMark])))"

definition showPrompt :: "string \<Rightarrow> buffer_call list res" where
  "showPrompt p = bind_res (console_write p False) (\<lambda>calls. Inr (calls @ [LineStartToEnd]))"

definition changeLine :: "string \<Rightarrow> buffer_call list res" where
  "changeLine txt = bind_res (console_write txt True) (\<lambda>calls. Inr (DeleteLine # calls))"

definition showReturned :: "string \<Rightarrow> string \<Rightarrow> buffer_call list res" where
  "showReturned p txt =
     bind_res (console_write (CHR 0x0A # txt) False) (\<lambda>first.
     bind_res (if txt \<noteq> [] then console_write [CHR 0x0A] False else Inr []) (\<lambda>newline.
     bind_res (showPrompt p) (\<lambda>shown.
       Inr (NoTouchLine # first @ newline @ shown @ [LineStartToEnd, CursorToEnd]))))"

text \<open>\<open>_onKeypress\<close>: the positions of the cursor and of the other end of the selection, against the start of the line.\<close>

definition onKeypress :: "bool \<Rightarrow> nat \<Rightarrow> nat \<times> nat \<Rightarrow> nat \<times> nat" where
  "onKeypress has_text start marks =
     (case marks of (ins, sel) \<Rightarrow>
        if \<not> has_text then marks
        else if start \<le> ins \<and> start \<le> sel then marks
        else if start > ins \<and> start > sel then (start, start)
        else if ins < sel then (start, sel)
        else if ins > sel then (ins, start)
        else marks)"

section \<open>The shell\<close>

datatype raw_result = Line string | Interrupted | Raised

record 'i ip_ops =
  ip_raw_input :: "'i \<Rightarrow> bool \<Rightarrow> raw_result \<Rightarrow> raw_result \<times> 'i"
  ip_autoindent :: "'i \<Rightarrow> bool"
  ip_startup_hook :: "'i \<Rightarrow> bool \<Rightarrow> 'i"
  ip_write :: "'i \<Rightarrow> string \<Rightarrow> 'i"
  ip_resetbuffer :: "'i \<Rightarrow> 'i"
  ip_uncount_prompt :: "'i \<Rightarrow> 'i"
  ip_no_indent :: "'i \<Rightarrow> 'i"
  ip_showtraceback :: "'i \<Rightarrow> 'i"
  ip_push :: "'i \<Rightarrow> string \<Rightarrow> bool \<times> 'i"
  ip_edit_error :: "'i \<Rightarrow> bool"
  ip_edit_syntax_error :: "'i \<Rightarrow> 'i"
  ip_prompt1 :: "'i \<Rightarrow> string"
  ip_prompt2 :: "'i \<Rightarrow> string"
  ip_inputs :: "'i \<Rightarrow> string list"
  ip_completions :: "'i \<Rightarrow> string \<Rightarrow> string list"
  ip_output :: "'i \<Rightarrow> string"
  ip_truncate :: "'i \<Rightarrow> 'i"

text \<open>The flag \<open>interrupt\<close> has no value until the end of the constructor.\<close>

record 'i console =
  interp :: 'i
  iter_more :: bool
  history_level :: int
  interrupt :: "bool option"
  prompt :: string

definition console_raw_input :: "string \<Rightarrow> 'i console \<Rightarrow> raw_result \<times> 'i console" where
  "console_raw_input line c =
     (case interrupt c of
        None \<Rightarrow> (Raised, c)
      | Some b \<Rightarrow> if b then (Interrupted, c\<lparr>interrupt := Some False\<rparr>) else (Line line, c))"

definition execute_read :: "'i ip_ops \<Rightarrow> raw_result \<Rightarrow> bool \<Rightarrow> 'i \<Rightarrow> bool \<times> 'i" where
  "execute_read ops r again i =
     (case r of
        Line line \<Rightarrow>
          (let i1 = (if ip_autoindent ops i then ip_startup_hook ops i False else i);
               (again1, i2) = ip_push ops i1 line
           in (again1, if ip_edit_error ops i2 then ip_edit_syntax_error ops i2 else i2))
      | Interrupted \<Rightarrow>
          (let i1 = ip_uncount_prompt ops (ip_resetbuffer ops (ip_write ops i (CHR 0x0A # ''KeyboardInterrupt'' @ [CHR 0x0A])))
           in (False, if ip_autoindent ops i1 then ip_no_indent ops i1 else i1))
      | Raised \<Rightarrow> (again, ip_showtraceback ops i))"

definition execute :: "'i ip_ops \<Rightarrow> string \<Rightarrow> 'i console \<Rightarrow> 'i console" where
  "execute ops line c =
     (let (own, c1) = console_raw_input line (c\<lparr>history_level := 0\<rparr>);
          (r, i1) = ip_raw_input ops (interp c1) (iter_more c1) own;
          (again, i2) = execute_read ops r (iter_more c1) i1
      in if again
         then c1\<lparr>iter_more := True, prompt := str_strip (ip_prompt2 ops i2),
                 interp := (if ip_autoindent ops i2 then ip_startup_hook ops i2 True else i2)\<rparr>
         else c1\<lparr>iter_more := False, prompt := str_strip (ip_prompt1 ops i2), interp := i2\<rparr>)"

definition strip_newlines :: "string \<Rightarrow> string" where
  "strip_newlines s = rev (dropWhile (\<lambda>c. c = CHR 0x0A) (rev (dropWhile (\<lambda>c. c = CHR 0x0A) s)))"

definition getHistory :: "'i ip_ops \<Rightarrow> 'i console \<Rightarrow> string \<times> 'i console" where
  "getHistory ops c =
     (case py_index (ip_inputs ops (interp c)) (history_level c) of
        Inr s \<Rightarrow> (strip_newlines s, c)
      | Inl _ \<Rightarrow> ([], c\<lparr>history_level := 0\<rparr>))"

definition historyBack :: "'i ip_ops \<Rightarrow> 'i console \<Rightarrow> string \<times> 'i console" where
  "historyBack ops c = getHistory ops (c\<lparr>history_level := history_level c - 1\<rparr>)"

definition historyForward :: "'i ip_ops \<Rightarrow> 'i console \<Rightarrow> string \<times> 'i console" where
  "historyForward ops c = getHistory ops (c\<lparr>history_level := history_level c + 1\<rparr>)"

definition processLine :: "'i ip_ops \<Rightarrow> string \<Rightarrow> 'i console \<Rightarrow> (buffer_call list \<times> 'i console) res" where
  "processLine ops line c =
     (let c1 = execute ops line c
      in bind_res (showReturned (prompt c1) (strip_newlines (ip_output ops (interp c1)))) (\<lambda>calls.
           Inr (calls, c1\<lparr>interp := ip_truncate ops (interp c1)\<rparr>)))"

text \<open>The constructor: the shell is run once before the flag is set, and its output is thrown away.\<close>

definition console_init :: "'i ip_ops \<Rightarrow> string \<Rightarrow> 'i \<Rightarrow> (buffer_call list \<times> 'i console) res" where
  "console_init ops line i =
     (let c = execute ops line \<lparr>interp = i, iter_more = False, history_level = 0, interrupt = None, prompt = []\<rparr>;
          c1 = c\<lparr>interp := ip_truncate ops (interp c)\<rparr>
      in bind_res (showPrompt (prompt c1)) (\<lambda>calls. Inr (calls, c1\<lparr>interrupt := Some False\<rparr>)))"

datatype key = Key_c | Return_key | Up_key | Down_key | Tab_key | Other_key

text \<open>\<open>keyPress\<close>: the calls of the buffer and whether the key has been handled. The possibilities are shown when there are several.\<close>

definition key_tab :: "'i ip_ops \<Rightarrow> string \<Rightarrow> 'i console \<Rightarrow> (buffer_call list \<times> bool) res" where
  "key_tab ops line c =
     (if str_strip line = [] then Inr ([], False)
      else let (completed, possibilities) = complete_line (ip_completions ops (interp c)) line
           in bind_res (if length possibilities > 1
                        then bind_res (map_res (\<lambda>s. console_write s False) ([CHR 0x0A] # map (\<lambda>s. s @ [CHR 0x0A]) possibilities)) (\<lambda>shown.
                             bind_res (showPrompt (prompt c)) (\<lambda>p. Inr (concat shown @ p)))
                        else Inr []) (\<lambda>calls.
              bind_res (if completed \<noteq> [] then Inr completed
                        else if length possibilities > 1 then Inr line
                        else Inl UnboundLocalError) (\<lambda>txt.
              bind_res (changeLine txt) (\<lambda>changed. Inr (calls @ changed, True)))))"

definition keyPress :: "'i ip_ops \<Rightarrow> string \<Rightarrow> bool \<Rightarrow> key \<Rightarrow> 'i console \<Rightarrow> (buffer_call list \<times> bool \<times> 'i console) res" where
  "keyPress ops line control k c =
     (if control \<and> k = Key_c
      then bind_res (processLine ops line (c\<lparr>interrupt := Some True\<rparr>)) (\<lambda>(calls, c1). Inr (calls, True, c1))
      else (case k of
              Return_key \<Rightarrow> bind_res (processLine ops line c) (\<lambda>(calls, c1). Inr (calls, True, c1))
            | Up_key \<Rightarrow> (case historyBack ops c of (txt, c1) \<Rightarrow> bind_res (changeLine txt) (\<lambda>calls. Inr (calls, True, c1)))
            | Down_key \<Rightarrow> (case historyForward ops c of (txt, c1) \<Rightarrow> bind_res (changeLine txt) (\<lambda>calls. Inr (calls, True, c1)))
            | Tab_key \<Rightarrow> bind_res (key_tab ops line c) (\<lambda>(calls, handled). Inr (calls, handled, c))
            | _ \<Rightarrow> Inr ([], False, c)))"

section \<open>Lemmas\<close>

lemma sep_split_not_Nil [simp]: "sep_split s \<noteq> []"
  by (cases s) (auto split: list.split)

lemma sep_split_single: "sep_split s = [w] \<Longrightarrow> w = s"
  by (induction s arbitrary: w) (auto split: if_splits list.splits)

text \<open>The last word of a line has no separators and is its end.\<close>

lemma last_word: "\<exists>p. s = p @ last (sep_split s)"
proof (induction s)
  case (Cons c cs)
  then obtain p where p: "cs = p @ last (sep_split cs)" by blast
  obtain w ws where ws: "sep_split cs = w # ws" by (meson neq_Nil_conv sep_split_not_Nil)
  show ?case
  proof (cases "is_complete_sep c")
    case True
    then show ?thesis using p by (auto intro: exI [of _ "c # p"])
  next
    case False
    show ?thesis
    proof (cases ws)
      case Nil
      with ws sep_split_single [of cs w] False show ?thesis by simp
    next
      case (Cons v vs)
      with p ws False show ?thesis by (auto intro: exI [of _ "c # p"])
    qed
  qed
qed simp

lemma commonPrefix_simps [simp]:
  "commonPrefix [] ys = []"
  "commonPrefix (x # xs) [] = []"
  "commonPrefix (x # xs) (y # ys) = (if x = y then x # commonPrefix xs ys else [])"
proof -
  have shift: "find P [0..<Suc n] = (if P 0 then Some 0 else map_option Suc (find (\<lambda>i. P (Suc i)) [0..<n]))" for P :: "nat \<Rightarrow> bool" and n
  proof -
    have "[0..<Suc n] = 0 # map Suc [0..<n]" by (simp only: upt_conv_Cons map_Suc_upt zero_less_Suc)
    moreover have "find P (map f xs) = map_option f (find (P \<circ> f) xs)" for f :: "nat \<Rightarrow> nat" and xs by (induction xs) auto
    ultimately show ?thesis by (simp add: comp_def del: upt_Suc)
  qed
  show "commonPrefix [] ys = []" by (simp add: commonPrefix_def)
  show "commonPrefix (x # xs) [] = []" by (simp add: commonPrefix_def shift del: upt_Suc)
  show "commonPrefix (x # xs) (y # ys) = (if x = y then x # commonPrefix xs ys else [])"
    by (auto simp: commonPrefix_def shift simp del: upt_Suc split: option.split)
qed

lemma commonPrefix_longest: "prefix p (commonPrefix xs ys) \<longleftrightarrow> prefix p xs \<and> prefix p ys"
proof (induction xs arbitrary: p ys)
  case (Cons x xs)
  then show ?case by (cases ys; cases p) auto
qed auto

lemma commonPrefix_all: "prefix p (foldl commonPrefix x xs) \<longleftrightarrow> (\<forall>y \<in> set (x # xs). prefix p y)"
  by (induction xs arbitrary: x) (auto simp: commonPrefix_longest)

lemma commonPrefix_is_longest: "foldl commonPrefix x xs = Longest_common_prefix (set (x # xs))"
proof (rule prefix_order.antisym)
  show "prefix (foldl commonPrefix x xs) (Longest_common_prefix (set (x # xs)))"
    using commonPrefix_all [of "foldl commonPrefix x xs" x xs] by (intro Longest_common_prefix_max_prefix) auto
  show "prefix (Longest_common_prefix (set (x # xs))) (foldl commonPrefix x xs)"
    unfolding commonPrefix_all by (auto intro: Longest_common_prefix_prefix)
qed

lemma complete_line_eq:
  assumes "w = last (sep_split line)"
  shows "complete_line f line =
    (if f w = [] then line
     else (if w = [] then [] else take (length line - length w) line) @ Longest_common_prefix (set (f w)), f w)"
proof -
  obtain p where p: "line = p @ w" using last_word [of line] assms by auto
  have cut: "py_slice_to line (- int (length w)) = (if w = [] then [] else take (length line - length w) line)"
    using p by (simp add: py_slice_to_def slice_bound_def nat_diff_distrib')
  show ?thesis
  proof (cases "f w")
    case (Cons x xs)
    then show ?thesis using assms cut by (simp add: complete_line_def Let_def commonPrefix_is_longest)
  qed (use assms in \<open>simp add: complete_line_def Let_def\<close>)
qed

subsection \<open>Writing\<close>

lemma index_of_new: "x \<notin> set xs \<Longrightarrow> index_of x (xs @ x # ys) = Some (length xs)"
  by (induction xs) auto

lemma index_of_found: "x \<in> set xs \<Longrightarrow> \<exists>i < length xs. index_of x (xs @ ys) = Some i"
proof (induction xs)
  case (Cons z zs)
  then show ?case by (cases "z = x") auto
qed simp

abbreviation pieces :: "(string \<times> string) list \<Rightarrow> string list" where
  "pieces parts \<equiv> concat (map (\<lambda>(g, t). [g, t]) parts)"

lemma remove_at_prefix: "i < length pre \<Longrightarrow> remove_at i (pre @ ys) = remove_at i pre @ ys"
  by (simp add: remove_at_def)

text \<open>The loop never misses a tag, whatever the texts are, so writing never raises.\<close>

lemma write_tags_total: "\<exists>calls. write_tags (pre @ pieces parts) (map fst parts) = Inr calls"
proof (induction parts arbitrary: pre)
  case (Cons part parts)
  obtain g t where part: "part = (g, t)" by force
  show ?case
  proof (cases "g \<in> set pre")
    case False
    obtain calls where "write_tags ((pre @ [t]) @ pieces parts) (map fst parts) = Inr calls" using Cons by blast
    with False part show ?thesis by (simp add: index_of_new py_index_nonneg nth_append remove_at_def del: of_nat_Suc of_nat_add)
  next
    case True
    then obtain i where i: "i < length pre" "index_of g (pre @ g # t # pieces parts) = Some i" using index_of_found by metis
    obtain calls where "write_tags ((remove_at i pre @ [g, t]) @ pieces parts) (map fst parts) = Inr calls" using Cons by blast
    with i part show ?thesis by (simp add: py_index_nonneg remove_at_prefix del: of_nat_Suc of_nat_add)
  qed
qed simp

lemma console_write_total: "\<exists>calls. console_write txt e = Inr calls"
  using write_tags_total [of "[]" "snd (color_split txt)"] by (auto simp: console_write_def split: prod.split)

text \<open>When no text is equal to a tag, the texts are written in order, each with its own tag.\<close>

lemma write_tags_in_order:
  assumes "\<forall>(g, t) \<in> set parts. t \<notin> fst ` set parts" and "set pre \<inter> fst ` set parts = {}"
  shows "write_tags (pre @ pieces parts) (map fst parts) = Inr (map (\<lambda>(g, t). InsertTagged t g) parts)"
  using assms
proof (induction parts arbitrary: pre)
  case (Cons part parts)
  obtain g t where part: "part = (g, t)" by force
  have "write_tags ((pre @ [t]) @ pieces parts) (map fst parts) = Inr (map (\<lambda>(g, t). InsertTagged t g) parts)"
    using Cons.prems part by (intro Cons.IH) auto
  moreover have "g \<notin> set pre" using Cons.prems part by auto
  ultimately show ?case using part by (simp add: index_of_new py_index_nonneg nth_append remove_at_def del: of_nat_Suc of_nat_add)
qed simp

lemma changeLine_total: "\<exists>calls. changeLine txt = Inr (DeleteLine # calls)"
  using console_write_total [of "txt" True] by (auto simp: changeLine_def)

lemma showPrompt_total: "\<exists>calls. showPrompt txt = Inr (calls @ [LineStartToEnd])"
  using console_write_total [of "txt" False] by (auto simp: showPrompt_def)

lemma showReturned_total: "\<exists>calls. showReturned p txt = Inr calls"
proof -
  obtain a b c where "console_write (CHR 0x0A # txt) False = Inr a" "console_write [CHR 0x0A] False = Inr b" "showPrompt p = Inr c"
    using console_write_total showPrompt_total by metis
  then show ?thesis by (simp add: showReturned_def)
qed

lemma write_all_total: "\<exists>calls. map_res (\<lambda>s. console_write s False) ss = Inr calls"
proof (induction ss)
  case (Cons s ss)
  then show ?case using console_write_total [of s False] by auto
qed simp

text \<open>A text that is written after a tag and is the next tag itself hides the text of that tag.\<close>

lemma text_like_tag:
  "write_tags (pieces [(''0'', ''32''), (''32'', ''green'')]) [''0'', ''32''] = Inr [InsertTagged ''32'' ''0'', InsertTagged ''32'' ''32'']"
  by (simp add: py_index_def remove_at_def)

text \<open>A typed text goes behind the prompt.\<close>

lemma onKeypress_after_prompt: "onKeypress True start marks = (i, j) \<Longrightarrow> start \<le> i \<and> start \<le> j"
  by (auto simp: onKeypress_def split: prod.splits if_splits)

subsection \<open>Keys\<close>

text \<open>
  C40. With a completer that extends the last word, the Tab key on a line with text replaces the line by its longest common completion, after the
  possibilities when there are several, and a line that ends in a word is only extended. After a separator the line is
  replaced by the common prefix of all names, and the key fails when the only name is empty.
\<close>

theorem tab_completion:
  assumes "w = last (sep_split line)" and "poss = ip_completions ops (interp c) w" and "\<forall>p \<in> set poss. prefix w p"
    and "str_strip line \<noteq> []"
    and "new = (if poss = [] then line
                else if w \<noteq> [] then take (length line - length w) line @ Longest_common_prefix (set poss)
                else if Longest_common_prefix (set poss) \<noteq> [] then Longest_common_prefix (set poss) else line)"
  shows "(if w = [] \<and> poss = [[]] then key_tab ops line c = Inl UnboundLocalError
          else \<exists>shown changed. key_tab ops line c = Inr (shown @ changed, True) \<and> changeLine new = Inr changed \<and>
                 (shown = [] \<longleftrightarrow> length poss \<le> 1)) \<and>
         (w \<noteq> [] \<or> poss = [] \<longrightarrow> prefix line new)"
proof -
  have complete: "complete_line (ip_completions ops (interp c)) line =
      (if poss = [] then line else (if w = [] then [] else take (length line - length w) line) @ Longest_common_prefix (set poss), poss)"
    unfolding assms(2) by (rule complete_line_eq [OF assms(1)])
  have line: "line \<noteq> []" using assms(4) by (auto simp: str_strip_def)
  obtain p where p: "line = p @ w" using last_word [of line] assms(1) by auto
  have "prefix w (Longest_common_prefix (set poss))" if "poss \<noteq> []"
    using that assms(3) by (intro Longest_common_prefix_max_prefix) auto
  then have ext: "w \<noteq> [] \<or> poss = [] \<longrightarrow> prefix line new" using p assms(5) by auto
  have long: "w \<noteq> [] \<longrightarrow> poss \<noteq> [] \<longrightarrow> Longest_common_prefix (set poss) \<noteq> []"
    using assms(3) Longest_common_prefix_max_prefix [of "set poss" w] by auto
  obtain shown where shown: "map_res (\<lambda>s. console_write s False) ([CHR 0x0A] # map (\<lambda>s. s @ [CHR 0x0A]) poss) = Inr shown"
    using write_all_total by blast
  obtain pr where pr: "showPrompt (prompt c) = Inr (pr @ [LineStartToEnd])" using showPrompt_total by blast
  obtain changed where changed: "changeLine new = Inr changed" using changeLine_total by blast
  have one: "1 < length poss" if "Longest_common_prefix (set poss) = []" "poss \<noteq> []" "poss \<noteq> [[]]"
    using that commonPrefix_is_longest [of "hd poss" "[]"] by (cases poss) auto
  have shows_tab: "key_tab ops line c = Inr ((if 1 < length poss then concat shown @ pr @ [LineStartToEnd] else []) @ changed, True)"
    if "\<not> (w = [] \<and> poss = [[]])"
    using that assms(4,5) line long one shown pr changed unfolding key_tab_def complete
    by (auto simp: Let_def simp del: append_is_Nil_conv map_res.simps split: if_splits)
  have none: "key_tab ops line c = Inl UnboundLocalError" if "w = []" "poss = [[]]"
    using that assms(4) unfolding key_tab_def complete by (simp add: Longest_common_prefix_Nil)
  show ?thesis using shows_tab none changed ext by auto
qed

definition demo_ip :: "string list ip_ops" where
  "demo_ip =
     \<lparr>ip_raw_input = (\<lambda>i more r. (r, i)), ip_autoindent = (\<lambda>i. False), ip_startup_hook = (\<lambda>i pre. i), ip_write = (\<lambda>i s. i),
      ip_resetbuffer = id, ip_uncount_prompt = id, ip_no_indent = id, ip_showtraceback = id, ip_push = (\<lambda>i line. (False, i @ [line])),
      ip_edit_error = (\<lambda>i. False), ip_edit_syntax_error = id, ip_prompt1 = (\<lambda>i. ''>>> ''), ip_prompt2 = (\<lambda>i. ''... ''), ip_inputs = id,
      ip_completions = (\<lambda>i w. filter (prefix w) [''print'', ''private'', ''viz'']), ip_output = (\<lambda>i. []), ip_truncate = id\<rparr>"

definition demo_console :: "string list console" where
  "demo_console = \<lparr>interp = [[CHR 0x0A]], iter_more = False, history_level = 0, interrupt = Some False, prompt = ''>>>''\<rparr>"

theorem tab_completion_witness:
  "\<exists>shown changed. key_tab demo_ip ''f(pr'' demo_console = Inr (shown @ changed, True) \<and> changeLine ''f(pri'' = Inr changed \<and> shown \<noteq> []"
proof -
  have w: "last (sep_split ''f(pr'') = ''pr''" by (simp add: is_complete_sep_def is_space_def)
  have poss: "ip_completions demo_ip (interp demo_console) ''pr'' = [''print'', ''private'']" by (simp add: demo_ip_def)
  have lcp: "Longest_common_prefix (set [''print'', ''private'']) = ''pri''"
    unfolding commonPrefix_is_longest [symmetric] by simp
  have strip: "str_strip ''f(pr'' \<noteq> []" by (simp add: str_strip_def is_space_def)
  show ?thesis
    using tab_completion [of "''pr''" "''f(pr''" "[''print'', ''private'']" demo_ip demo_console "''f(pri''"] lcp strip w poss by fastforce
qed

text \<open>Behind an opening parenthesis the line is lost.\<close>

lemma completion_loses_line:
  assumes "is_complete_sep c" and "f [] = p # ps"
  shows "complete_line f (line @ [c]) = (Longest_common_prefix (set (p # ps)), p # ps)"
proof -
  have last: "last (sep_split (line @ [c])) = []"
  proof (induction line)
    case (Cons x xs)
    then show ?case by (cases "sep_split (xs @ [c])") (auto split: if_splits, metis last_ConsL last_ConsR sep_split_single self_append_conv2 snoc_eq_iff_butlast)
  qed (use assms(1) in simp)
  show ?thesis using complete_line_eq [of "[]" "line @ [c]" f] last assms(2) by simp
qed

subsection \<open>History\<close>

lemma py_index_negative: "k < length xs \<Longrightarrow> py_index xs (- int (Suc k)) = Inr (xs ! (length xs - Suc k))"
proof -
  assume "k < length xs"
  then have "nat (- int (Suc k) + int (length xs)) = length xs - Suc k" and "0 \<le> - int (Suc k) + int (length xs)" by linarith+
  then show ?thesis using \<open>k < length xs\<close> by (simp add: py_index_def Let_def del: of_nat_Suc)
qed

lemma py_index_too_negative: "length xs \<le> k \<Longrightarrow> py_index xs (- int (Suc k)) = Inl IndexError"
  by (simp add: py_index_def)

lemma historyBack_eq:
  assumes "history_level c = - int k"
  shows "historyBack ops c =
    (if k < length (ip_inputs ops (interp c))
     then (strip_newlines (ip_inputs ops (interp c) ! (length (ip_inputs ops (interp c)) - Suc k)), c\<lparr>history_level := - int (Suc k)\<rparr>)
     else ([], c\<lparr>history_level := 0\<rparr>))"
proof -
  have "history_level c - 1 = - int (Suc k)" using assms by simp
  then show ?thesis by (simp add: historyBack_def getHistory_def py_index_negative py_index_too_negative del: of_nat_Suc)
qed

text \<open>Going back shows the entries from the last to the first, then an empty line, and starts again.\<close>

lemma history_back_cycle:
  assumes "history_level c = 0" and "k \<le> length (ip_inputs ops (interp c))"
  shows "((\<lambda>c. snd (historyBack ops c)) ^^ k) c = c\<lparr>history_level := - int k\<rparr>"
  using assms(2)
proof (induction k)
  case 0
  then show ?case using assms(1) by simp
next
  case (Suc k)
  then show ?case by (simp add: historyBack_eq [where k = k])
qed

text \<open>One step forward undoes one step back; without one it shows the second entry, the first input of the session.\<close>

lemma history_forward_eq:
  assumes "history_level c = - int (Suc (Suc k))" and "Suc k \<le> length (ip_inputs ops (interp c))"
  shows "historyForward ops c =
    (strip_newlines (ip_inputs ops (interp c) ! (length (ip_inputs ops (interp c)) - Suc k)), c\<lparr>history_level := - int (Suc k)\<rparr>)"
proof -
  have "history_level c + 1 = - int (Suc k)" using assms(1) by simp
  then show ?thesis using assms(2) by (simp add: historyForward_def getHistory_def py_index_negative del: of_nat_Suc)
qed

lemma history_forward_first:
  "history_level c = 0 \<Longrightarrow> 1 < length (ip_inputs ops (interp c)) \<Longrightarrow> fst (historyForward ops c) = strip_newlines (ip_inputs ops (interp c) ! 1)"
  by (simp add: historyForward_def getHistory_def py_index_def)

subsection \<open>Interrupts\<close>

lemma execute_interrupt: "interrupt (execute ops line c) = map_option (\<lambda>b. False) (interrupt c)"
  by (auto simp: execute_def console_raw_input_def Let_def split: prod.splits option.splits)

lemma execute_resets_level: "history_level (execute ops line c) = 0"
  by (auto simp: execute_def console_raw_input_def Let_def split: prod.splits option.splits)

lemma history_interrupt [simp]: "interrupt (snd (historyBack ops c)) = interrupt c" "interrupt (snd (historyForward ops c)) = interrupt c"
  by (auto simp: historyBack_def historyForward_def getHistory_def split: sum.splits)

lemma processLine_total: "\<exists>calls. processLine ops line c = Inr (calls, (execute ops line c)\<lparr>interp := ip_truncate ops (interp (execute ops line c))\<rparr>)"
proof -
  obtain calls where "showReturned (prompt (execute ops line c)) (strip_newlines (ip_output ops (interp (execute ops line c)))) = Inr calls"
    using showReturned_total by blast
  then show ?thesis by (simp add: processLine_def Let_def)
qed

lemma key_tab_error: "key_tab ops line c = Inl e \<Longrightarrow> e = UnboundLocalError"
proof -
  assume a: "key_tab ops line c = Inl e"
  obtain completed poss where d: "complete_line (ip_completions ops (interp c)) line = (completed, poss)" by force
  obtain shown where shown: "map_res (\<lambda>s. console_write s False) ([CHR 0x0A] # map (\<lambda>s. s @ [CHR 0x0A]) poss) = Inr shown"
    using write_all_total by blast
  obtain pr where pr: "showPrompt (prompt c) = Inr (pr @ [LineStartToEnd])" using showPrompt_total by blast
  have "\<exists>changed. changeLine new = Inr changed" for new using changeLine_total by blast
  with a show ?thesis unfolding key_tab_def d
    by (auto simp: shown pr bind_res_Inl_iff Let_def simp del: map_res.simps split: if_splits) (metis Inl_Inr_False)+
qed

text \<open>No key leaves the flag set, and none but Tab raises.\<close>

lemma keyPress_interrupt:
  assumes "interrupt c = Some False"
  shows "(case keyPress ops line control k c of Inr (calls, h, c') \<Rightarrow> interrupt c' = Some False | Inl e \<Rightarrow> k = Tab_key \<and> e = UnboundLocalError)"
proof -
  have process: "\<exists>calls c'. processLine ops line d = Inr (calls, c') \<and> interrupt c' = Some False" if "interrupt d \<noteq> None" for d
    using processLine_total [of ops line d] that by (auto simp: execute_interrupt)
  have change: "\<exists>calls. changeLine new = Inr calls" for new using changeLine_total by blast
  show ?thesis
  proof (cases "control \<and> k = Key_c")
    case True
    then show ?thesis using process [of "c\<lparr>interrupt := Some True\<rparr>"] by (auto simp: keyPress_def)
  next
    case False
    note other = this
    show ?thesis
    proof (cases k)
      case Return_key
      then show ?thesis using process [of c] assms by (auto simp: keyPress_def)
    next
      case Up_key
      then show ?thesis using change [of "fst (historyBack ops c)"] history_interrupt(1) [of ops c] assms other
        by (cases "historyBack ops c") (auto simp del: history_interrupt simp: keyPress_def)
    next
      case Down_key
      then show ?thesis using change [of "fst (historyForward ops c)"] history_interrupt(2) [of ops c] assms other
        by (cases "historyForward ops c") (auto simp del: history_interrupt simp: keyPress_def)
    next
      case Tab_key
      then show ?thesis using key_tab_error [of ops line c] assms
        by (cases "key_tab ops line c") (auto simp: keyPress_def)
    qed (use assms other in \<open>auto simp: keyPress_def\<close>)
  qed
qed

text \<open>An interrupt does not push the line; the shell is ready for a new one.\<close>

lemma interrupt_discards_line:
  assumes "\<forall>i m. fst (ip_raw_input ops i m Interrupted) = Interrupted" and "keyPress ops line True Key_c c = Inr (calls, h, c')"
  shows "iter_more c' = False \<and> history_level c' = 0 \<and> keyPress ops line' True Key_c c = Inr (calls, h, c')"
proof -
  obtain i where i: "ip_raw_input ops (interp c) (iter_more c) Interrupted = (Interrupted, i)"
    using assms(1) by (metis prod.collapse)
  have same: "execute ops l (c\<lparr>interrupt := Some True\<rparr>) = execute ops line (c\<lparr>interrupt := Some True\<rparr>)" for l
    by (simp add: execute_def console_raw_input_def)
  have "iter_more (execute ops line (c\<lparr>interrupt := Some True\<rparr>)) = False"
    by (simp add: execute_def console_raw_input_def execute_read_def Let_def i)
  moreover obtain calls1 where p: "processLine ops line (c\<lparr>interrupt := Some True\<rparr>) = Inr (calls1,
      (execute ops line (c\<lparr>interrupt := Some True\<rparr>))\<lparr>interp := ip_truncate ops (interp (execute ops line (c\<lparr>interrupt := Some True\<rparr>)))\<rparr>)"
    using processLine_total by blast
  moreover have "processLine ops line' (c\<lparr>interrupt := Some True\<rparr>) = processLine ops line (c\<lparr>interrupt := Some True\<rparr>)"
    unfolding processLine_def same [of line'] ..
  ultimately show ?thesis using assms(2) by (auto simp: keyPress_def execute_resets_level)
qed

text \<open>The first run of the shell reads the flag before it has a value.\<close>

lemma init_reads_flag: "fst (console_raw_input line \<lparr>interp = i, iter_more = False, history_level = 0, interrupt = None, prompt = []\<rparr>) = Raised"
  by (simp add: console_raw_input_def)

end
