(* ===== verification/VizWidgets.thy ===== *)
theory VizWidgets
  imports VizPlugins
begin

text \<open>
  Two small parts of the visualizer: the container with an indented child below a title, \<open>visualizer/higcontainer.py\<close>, and the table of
  routes of OLSR, \<open>visualizer/plugins/olsr.py\<close>. Sizes that widgets ask for and the routes are arguments.
\<close>

section \<open>Layout of the container\<close>

type_synonym requisition = "int \<times> int"

record allocation =
  a_x :: int
  a_y :: int
  a_width :: int
  a_height :: int

definition do_size_request :: "requisition \<Rightarrow> requisition \<Rightarrow> requisition option \<Rightarrow> requisition" where
  "do_size_request title_req indent_req child =
     (let child_req = (case child of None \<Rightarrow> (0, 0) | Some r \<Rightarrow> r)
      in (max (fst title_req) (fst indent_req + fst child_req),
          snd title_req + 6 + max (snd child_req) (snd indent_req)))"

definition title_allocation :: "requisition \<Rightarrow> allocation \<Rightarrow> allocation" where
  "title_allocation title_req a =
     \<lparr>a_x = a_x a, a_y = a_y a, a_width = min (fst title_req) (a_width a), a_height = min (snd title_req) (a_height a)\<rparr>"

definition do_size_allocate :: "requisition \<Rightarrow> requisition \<Rightarrow> bool \<Rightarrow> allocation \<Rightarrow> allocation \<times> allocation option" where
  "do_size_allocate title_req indent_req has_child a =
     (let t = title_allocation title_req a
      in (t, if \<not> has_child then None
             else Some \<lparr>a_x = a_x a + fst indent_req, a_y = a_y a + a_height t + 6,
                        a_width = a_width a - fst indent_req, a_height = a_height a - 6 - a_height t\<rparr>))"

definition do_forall :: "bool \<Rightarrow> 'w option \<Rightarrow> 'w \<Rightarrow> 'w \<Rightarrow> 'w list" where
  "do_forall internal child title indent =
     (if internal then [title, indent] else []) @ (case child of None \<Rightarrow> [] | Some w \<Rightarrow> [w])"

text \<open>The property \<open>title\<close>: the text that is kept, and the markup that is shown with its escaping.\<close>

definition hig_set_property :: "(string \<Rightarrow> string) \<Rightarrow> string \<Rightarrow> string \<Rightarrow> (string \<times> string) res" where
  "hig_set_property escape name v =
     (if name = ''title'' then Inr (v, ''<span weight=\"bold\">'' @ escape v @ ''</span>'') else Inl AttributeError)"

definition hig_get_property :: "string option \<Rightarrow> string \<Rightarrow> string option res" where
  "hig_get_property kept name = (if name = ''title'' then Inr kept else Inl AttributeError)"

text \<open>
  With at least the size it asks for, the container gives title and child at least theirs, inside of its own area and with
  the child below the title; the request is the smallest such size when the label of the indentation is not higher than the child.
\<close>

lemma enough_space:
  assumes "0 \<le> fst t" "0 \<le> snd t" "0 \<le> fst i"
    and "fst (do_size_request t i (Some r)) \<le> a_width a" "snd (do_size_request t i (Some r)) \<le> a_height a"
    and "do_size_allocate t i True a = (ta, Some ca)" and "0 \<le> snd r"
  shows "a_width ta = fst t \<and> a_height ta = snd t \<and> fst r \<le> a_width ca \<and> snd r \<le> a_height ca \<and>
    a_x a \<le> a_x ca \<and> a_x ca + a_width ca = a_x a + a_width a \<and> a_y ca + a_height ca = a_y a + a_height a \<and>
    a_y ta + a_height ta < a_y ca"
  using assms by (auto simp: do_size_request_def do_size_allocate_def title_allocation_def Let_def)

lemma request_is_needed:
  assumes "do_size_allocate t i True a = (ta, Some ca)" and "snd i \<le> snd r"
    and "a_width ta = fst t" "a_height ta = snd t" "fst r \<le> a_width ca" "snd r \<le> a_height ca"
  shows "fst (do_size_request t i (Some r)) \<le> a_width a \<and> snd (do_size_request t i (Some r)) \<le> a_height a"
  using assms by (auto simp: do_size_request_def do_size_allocate_def title_allocation_def Let_def)

text \<open>In an area that is not higher than the title the child gets a negative height.\<close>

lemma negative_height:
  assumes "a_height a \<le> snd t" and "do_size_allocate t i True a = (ta, Some ca)"
  shows "a_height ca = - 6"
  using assms by (auto simp: do_size_allocate_def title_allocation_def Let_def)

section \<open>Routes of OLSR\<close>

record olsr_route =
  o_dest :: string
  o_next :: string
  o_interface :: int
  o_distance :: int

text \<open>\<open>update\<close>: the rows of the table, unchanged for a node without OLSR; the stack of the node is needed for a route only.\<close>

definition olsr_rows ::
    "('d \<Rightarrow> string) \<Rightarrow> (int \<Rightarrow> string) \<Rightarrow> (int \<Rightarrow> 'd option) option \<Rightarrow> olsr_route list option \<Rightarrow> (string \<times> string \<times> string \<times> int) list
     \<Rightarrow> (string \<times> string \<times> string \<times> int) list res" where
  "olsr_rows find_name str ipv4 olsr old =
     (case olsr of
        None \<Rightarrow> Inr old
      | Some routes \<Rightarrow>
          map_res (\<lambda>route. case ipv4 of
               None \<Rightarrow> Inl AttributeError
             | Some net_device \<Rightarrow>
                 Inr (o_dest route, o_next route,
                      case net_device (o_interface route) of None \<Rightarrow> ''lo'' | Some d \<Rightarrow> interface_name find_name str d (o_interface route),
                      o_distance route)) routes)"

definition olsr_menu :: "'r option \<Rightarrow> string list \<times> string option" where
  "olsr_menu olsr = (case olsr of None \<Rightarrow> ([], Some ''No OLSR'') | Some _ \<Rightarrow> ([''Show OLSR Routing Table''], None))"

text \<open>With an IPv4 stack the table has a row for each route, in order, and forgets its old rows.\<close>

lemma olsr_rows_outcome:
  assumes "olsr_rows find_name str (Some net_device) (Some routes) old = r"
  shows "\<exists>rows. r = Inr rows \<and> map (\<lambda>(d, n, i, h). (d, n, h)) rows = map (\<lambda>t. (o_dest t, o_next t, o_distance t)) routes \<and>
    (\<forall>row \<in> set rows. fst (snd (snd row)) \<noteq> [])"
proof -
  have "\<exists>rows. olsr_rows find_name str (Some net_device) (Some routes) old = Inr rows \<and>
      map (\<lambda>(d, n, i, h). (d, n, h)) rows = map (\<lambda>t. (o_dest t, o_next t, o_distance t)) routes \<and>
      (\<forall>row \<in> set rows. fst (snd (snd row)) \<noteq> [])"
  proof (induction routes)
    case (Cons t routes)
    then obtain rows where "olsr_rows find_name str (Some net_device) (Some routes) old = Inr rows"
      "map (\<lambda>(d, n, i, h). (d, n, h)) rows = map (\<lambda>t. (o_dest t, o_next t, o_distance t)) routes"
      "\<forall>row \<in> set rows. fst (snd (snd row)) \<noteq> []" by blast
    then show ?case by (auto simp: olsr_rows_def interface_name_def split: option.split)
  qed (simp add: olsr_rows_def)
  with assms show ?thesis by simp
qed

end
