(* ===== verification/DocPages.thy ===== *)
theory DocPages
  imports PyOs
begin

text \<open>
  The script \<open>doc/tutorial/pickle-to-xml.py\<close>, which follows the pages of the tutorial from the first to the last and writes an XML file with their
  links and a file for the text of each page. The pickled pages are an argument, a function of the file name. The recursion ends only
  where the links do, so it is a partial function; the recursion limit of Python is not modelled.
\<close>

record page =
  page_name :: string
  page_body :: string
  page_prev :: "(string \<times> string) option"
  page_next :: "(string \<times> string) option"

text \<open>What has been written: the XML text and the files.\<close>

record written =
  w_out :: string
  w_files :: "(string, string) dict"

definition link_path :: "string \<Rightarrow> string \<Rightarrow> string" where
  "link_path path link = normpath (path_join path link)"

definition link_element :: "string \<Rightarrow> string \<Rightarrow> (string \<times> string) option \<Rightarrow> string" where
  "link_element el path l =
     (case l of
        None \<Rightarrow> []
      | Some (link, title) \<Rightarrow> ''    <'' @ el @ '' url=\"'' @ link_path path link @ ''\">'' @ title @ ''</'' @ el @ ''>'' @ [CHR 0x0A])"

definition page_element :: "string \<Rightarrow> page \<Rightarrow> string" where
  "page_element path p =
     ''  <page url=\"'' @ path @ ''\">'' @ [CHR 0x0A] @ ''    <fragment>'' @ page_name p @ ''.frag</fragment>'' @ [CHR 0x0A] @
     link_element ''prev'' path (page_prev p) @ link_element ''next'' path (page_next p) @ ''  </page>'' @ [CHR 0x0A]"

definition write_page :: "string \<Rightarrow> page \<Rightarrow> written \<Rightarrow> written" where
  "write_page path p w =
     w\<lparr>w_out := w_out w @ page_element path p, w_files := AList.update (page_name p @ ''.frag'') (page_body p) (w_files w)\<rparr>"

definition next_step :: "string \<Rightarrow> page \<Rightarrow> (string \<times> string) option" where
  "next_step path p =
     (case page_next p of
        None \<Rightarrow> None
      | Some (link, title) \<Rightarrow> Some (path_basename (link_path path link) @ ''.fpickle'', link_path path link))"

partial_function (option) dump_pickles ::
    "(string \<Rightarrow> page option) \<Rightarrow> string \<Rightarrow> string \<Rightarrow> string \<Rightarrow> written \<Rightarrow> (written \<times> unit res) option" where
  "dump_pickles pages dirname filename path w =
     (case pages (path_join dirname filename) of
        None \<Rightarrow> Some (w, Inl IOError)
      | Some p \<Rightarrow>
          (case next_step path p of
             None \<Rightarrow> Some (write_page path p w, Inr ())
           | Some (filename', path') \<Rightarrow> dump_pickles pages dirname filename' path' (write_page path p w)))"

definition pickle_main :: "(string \<Rightarrow> page option) \<Rightarrow> string \<Rightarrow> (written \<times> unit res) option" where
  "pickle_main pages arg =
     map_option (\<lambda>(w, r). (case r of Inr _ \<Rightarrow> w\<lparr>w_out := w_out w @ ''</pages>''\<rparr> | Inl e \<Rightarrow> w, r))
       (dump_pickles pages (path_head arg) (path_basename arg) ''/'' \<lparr>w_out = ''<pages>'' @ [CHR 0x0A], w_files = []\<rparr>)"

text \<open>A walk over the pages: the paths and pages that the links lead to, up to a page without a next one.\<close>

fun page_walk :: "(string \<Rightarrow> page option) \<Rightarrow> string \<Rightarrow> string \<times> string \<Rightarrow> (string \<times> page) list \<Rightarrow> bool" where
  "page_walk pages dirname (filename, path) [] \<longleftrightarrow> False"
| "page_walk pages dirname (filename, path) ((path1, p) # ps) \<longleftrightarrow>
     path1 = path \<and> pages (path_join dirname filename) = Some p \<and>
     (case next_step path p of None \<Rightarrow> ps = [] | Some n \<Rightarrow> page_walk pages dirname n ps)"

text \<open>The pages of a walk are written in order, each once.\<close>

lemma dump_walk:
  "page_walk pages dirname (filename, path) ps \<Longrightarrow>
   dump_pickles pages dirname filename path w = Some (foldl (\<lambda>w (path, p). write_page path p w) w ps, Inr ())"
proof (induction ps arbitrary: filename path w)
  case (Cons x ps)
  obtain path1 p where x: "x = (path1, p)" by force
  with Cons.prems have p: "path1 = path" "pages (path_join dirname filename) = Some p" by auto
  show ?case
  proof (cases "next_step path p")
    case None
    with Cons.prems x p show ?thesis by (simp add: dump_pickles.simps)
  next
    case (Some n)
    obtain f' path' where n: "n = (f', path')" by force
    have "page_walk pages dirname (f', path') ps" using Cons.prems x p Some n by simp
    from Cons.IH [OF this] show ?thesis using x p Some n by (simp add: dump_pickles.simps [of pages dirname filename])
  qed
qed simp

lemma walk_output: "w_out (foldl (\<lambda>w (path, p). write_page path p w) w ps) = w_out w @ concat (map (\<lambda>(path, p). page_element path p) ps)"
  by (induction ps arbitrary: w) (auto simp: write_page_def)

text \<open>Conversely, the script ends well only along such a walk, so links in a circle keep it going.\<close>

lemma dump_returns:
  assumes "dump_pickles pages dirname filename path w = Some (w', Inr ())"
  shows "\<exists>ps. page_walk pages dirname (filename, path) ps"
proof -
  let ?P = "\<lambda>pages dirname filename path w (r :: written \<times> unit res).
      snd r = Inr () \<longrightarrow> (\<exists>ps. page_walk pages dirname (filename, path) ps)"
  have "?P pages dirname filename path w (w', Inr ())"
  proof (rule dump_pickles.raw_induct [of ?P, OF _ assms], rule impI)
    fix rec pages dirname filename path w r
    assume IH: "\<And>pages dirname filename path w r. rec pages dirname filename path w = Some r \<Longrightarrow> ?P pages dirname filename path w r"
      and step: "(case pages (path_join dirname filename) of None \<Rightarrow> Some (w, Inl IOError)
        | Some p \<Rightarrow> (case next_step path p of None \<Rightarrow> Some (write_page path p w, Inr ())
            | Some (filename', path') \<Rightarrow> rec pages dirname filename' path' (write_page path p w))) = Some r"
      and ok: "snd r = Inr ()"
    then obtain p where p: "pages (path_join dirname filename) = Some p" by (cases "pages (path_join dirname filename)") auto
    show "\<exists>ps. page_walk pages dirname (filename, path) ps"
    proof (cases "next_step path p")
      case None
      with p show ?thesis by (auto intro!: exI [of _ "[(path, p)]"])
    next
      case (Some n)
      obtain f' path' where n: "n = (f', path')" by force
      obtain ps where "page_walk pages dirname (f', path') ps" using IH step ok p Some n by fastforce
      with p Some n show ?thesis by (auto intro!: exI [of _ "(path, p) # ps"])
    qed
  qed
  then show ?thesis by simp
qed

lemma pickle_output:
  assumes "page_walk pages (path_head arg) (path_basename arg, ''/'') ps"
  shows "\<exists>w. pickle_main pages arg = Some (w, Inr ()) \<and>
    w_out w = ''<pages>'' @ [CHR 0x0A] @ concat (map (\<lambda>(path, p). page_element path p) ps) @ ''</pages>''"
  using assms by (simp add: pickle_main_def dump_walk walk_output)

end
