(* ===== verification/Spec2Isabelle.thy ===== *)
theory Spec2Isabelle
  imports TopSort FindCycles RadBits CheckStyle GridRender TestReport ShellCmd WafUtils FlowMon VizView VizSim VizIcons VizHud VizPlugins ModGen WafMisc WafCommand CreateModule RadFormat VizWindows BuildAll WafSetup VizConsole VizWidgets DocPages
begin

text \<open>
  \<^bold>\<open>Verification of the Python programs of the ns-3.13 distribution.\<close>

  The repository holds the network simulator ns-3.13 and the Python programs around it: the test driver, the style checker,
  two viewers, the scanners of the bindings, the build helpers and a few scripts. This library models these programs and proves
  what makes them correct, or shows exactly where they are not. The programs are written for Python 2; integer division and the
  order of dictionary keys follow that version.

  \<^bold>\<open>The parts and their theories.\<close>

  \<^item> \<open>PyBase\<close>, \<open>PyNum\<close>, \<open>PyOs\<close>, \<open>PyStr\<close>, \<open>PyXml\<close>: shared by all. \<open>PyBase\<close> has the exceptions as a datatype and fallible code
    as the sum type with the exception on the left, lists and association lists that stand for dictionaries, indexing and slicing of
    sequences, and the locale \<open>step_invariant\<close> of invariants under a list of events. \<open>PyNum\<close> has Python's numbers, a datatype
    of integers and floats with the rules that combine them; floating-point numbers are exact rationals throughout, so statements about them
    leave out rounding errors. \<open>PyOs\<close> has the functions of \<open>os.path\<close>, \<open>PyStr\<close> string methods, \<open>repr\<close> and the formatting
    operator with a dictionary, \<open>PyXml\<close> element trees.
  \<^item> \<open>RadUtil\<close>, \<open>RadBits\<close>, \<open>RadFormat\<close>: \<open>bindings/python/rad_util.py\<close>, numbers and sequences (\<open>gcf\<close>, \<open>permutations\<close>,
    \<open>quantile\<close>, \<open>round_grid\<close>, \<open>polygon_area\<close>, \<open>uniquify\<close>) and bit vectors (\<open>int2bin\<close>, \<open>bin2int\<close>,
    \<open>binary_range\<close>, \<open>gray_encode\<close>, \<open>random_vec\<close>), and the display of numbers with unit prefixes (\<open>nice_units\<close>). Most are pure functions and become functions of the same name;
    random draws are given as the sequence of values drawn.
  \<^item> \<open>TopSort\<close>, \<open>FindCycles\<close>: \<open>bindings/python/topsort.py\<close>. \<open>topsort\<close> is modelled with its two
    dictionaries (number of parents, children) and its answer that is walked while it grows;
    \<open>topsort_levels\<close> as the generator that removes a level at a time; \<open>find_cycles\<close> as the
    explicit stack search. The order in which the keys of a dictionary come is a parameter, so the theorems hold for every order.
    The contract of a sorter by dependencies is the locale \<open>dependency_sorter\<close>, interpreted for both sorters.
  \<^item> \<open>ModScan\<close>: \<open>bindings/python/ns3modulescan.py\<close> and the modular scanner. The table of annotations that the hook
    consumes, the two loops that find the path of a header below \<open>ns3\<close>, the graph of the modules and the sections of the generated
    file in the order of \<open>topsort\<close>, with \<open>pygccxml\<close>'s declarations and the hooks' calls as data.
  \<^item> \<open>ModGen\<close>: \<open>ns3modulegen.py\<close>, \<open>ns3modulegen-modular.py\<close> and their customizations, which turn the scanned declarations into the C++ code of
    the bindings: smart pointers, callback classes, constructors, section files, disabled features. PyBindGen is a parameter.
  \<^item> \<open>CheckStyle\<close>: \<open>utils/check-style.py\<close>. The classes \<open>Patch\<close>, \<open>PatchChunk\<close> and \<open>PatchChunkLine\<close>
    are records; \<open>parse\<close> and \<open>write\<close> of a patch set, the filter that puts back trailing blanks, the
    configuration of the indenter at each level, \<open>indent\<close>, \<open>indent_files\<close>, the commit hook and
    the command line. The state of the program is a record of the files; \<open>uncrustify\<close>, \<open>patch\<close>, the line matching of \<open>difflib\<close>
    and the names of temporary files are the fields of a record of tools, arguments of every definition that calls them.
  \<^item> \<open>GridData\<close>, \<open>GridRender\<close>: \<open>utils/grid.py\<close>, the viewer of timelines. The first has ranges,
    events, timelines, colours, the containers that find or create an entry by its name (locale \<open>named_registry\<close>), the two
    bisections (locale \<open>bisection\<close>, interpreted on ranges and on events) and \<open>read_data\<close>. The second has the layout and the
    drawing of legend, timelines and scales with the drawing calls as a list, and the mouse and zoom handlers of
    the drawing area, which make the step relation \<open>area_step\<close>. Text sizes are a parameter.
  \<^item> \<open>TestJobs\<close>, \<open>TestPool\<close>, \<open>TestReport\<close>: \<open>test.py\<close>, the driver of the regression tests. The first has
    the environment, the job record, the choice of suites and examples and the commands of the
    jobs. The second is the pool of worker threads: two FIFO queues (locale \<open>fifo_queue\<close>, interpreted
    on lists), the state of each worker between two of its calls, the collecting main thread and the interrupt, as the relation
    \<open>pool_step\<close> over all interleavings. The third has the collection of the results, the entries of the XML file, the summary
    and exit status, and the translation to text and HTML. Running a command is a parameter.
  \<^item> \<open>ShellCmd\<close>, \<open>WafUtils\<close>, \<open>WafMisc\<close>, \<open>WafCommand\<close>, \<open>WafBoost\<close>, \<open>WafSetup\<close>, \<open>CreateModule\<close>, \<open>BuildAll\<close>: the build. \<open>waf-tools/shellcmd.py\<close> is
    a parser of command lines and a runner of pipelines over a record of system calls; \<open>wutils.py\<close> and \<open>utils.py\<close> have relative
    paths, the run of programs, the configuration file and the scheduling loop of waf; \<open>waf-tools/misc.py\<close> substitutes variables
    in files and runs commands on nodes of the build tree; \<open>waf-tools/command.py\<close> runs command lines with variables
    through the small shell, \<open>cflags.py\<close> chooses flags; \<open>boost.py\<close> and \<open>pkgconfig.py\<close> find libraries, \<open>relocation.py\<close>
    follows a project that has moved, on nodes in a store; \<open>src/create-module.py\<close> writes the files of a new module, \<open>build.py\<close> builds the parts of the distribution. Methods of waf, its
    nodes and processes are parameters.
  \<^item> \<open>FlowMon\<close>: \<open>flow-monitor/examples/flowmon-parse-results.py\<close>, from the elements of the XML file in document order to the printed report.
  \<^item> \<open>VizSvg\<close>, \<open>VizCore\<close>, \<open>VizView\<close>, \<open>VizSim\<close>, \<open>VizIcons\<close>, \<open>VizHud\<close>, \<open>VizWindows\<close>, \<open>VizPlugins\<close>, \<open>VizWidgets\<close>, \<open>VizConsole\<close>:
    \<open>src/visualizer/visualizer\<close>.
    \<open>VizCore\<close> has nodes, channels and links as records in a view, selection, dragging and the scan of the topology; \<open>VizView\<close> the display of
    transmissions and drops; \<open>VizSim\<close> the thread of the simulator and the thread of the view with the lock, the two conditions and the
    messages between them, as two step functions over all interleavings; \<open>VizSvg\<close> and \<open>VizIcons\<close> the icons and their place at the nodes;
    \<open>VizHud\<close> the axes; \<open>VizWindows\<close> the loading of plugins, tooltips and snapshots; \<open>VizPlugins\<close> the links to access points, the interface statistics, the last packets and the routing tables;
    \<open>VizWidgets\<close> the layout of a container and the routes of OLSR; \<open>VizConsole\<close> the console, with the interpreter as a record of operations.
  \<^item> \<open>DocPages\<close>: \<open>doc/tutorial/pickle-to-xml.py\<close>, the walk over the pages of the tutorial.

  \<^bold>\<open>How the parts interact.\<close> The programs are separate processes; within a program the theories call each other as the modules do. \<open>test.py\<close> goes from jobs
  to pool to report: \<open>run_exit_status\<close> below composes the pool with the report. The two theories of \<open>grid.py\<close> share the timelines.
  \<open>topsort.py\<close> takes its test for rotated cycles from \<open>rad_util.py\<close> and orders the sections of \<open>ns3modulescan.py\<close>, for each of which \<open>ns3modulegen.py\<close> has a file. A task of \<open>command.py\<close>
  substitutes the variables of what \<open>shellcmd.py\<close> has parsed and runs it there. The update of the view in \<open>VizView\<close> is shown to be a
  sequence of the events under which the links of \<open>VizCore\<close> and the icons of \<open>VizIcons\<close> stay consistent; \<open>VizSim\<close> runs these updates as handlers.
  The interfaces are locales: \<open>fifo_queue\<close>, \<open>dependency_sorter\<close>, \<open>named_registry\<close>, \<open>bisection\<close> and \<open>step_invariant\<close>, the last one interpreted
  on the painting of icons, the icons of a view, the links to access points and the options of the packet capture.

  \<^bold>\<open>What is shown.\<close>

  \<^item> \<open>test.py\<close>: every run of the pool delivers each job exactly once, cannot deadlock
    and has a bounded number of steps; the exit status is zero exactly when all jobs pass or are
    skipped; counters, XML and HTML entries are given on every branch, also where they are malformed.
  \<^item> \<open>topsort.py\<close>, \<open>ns3modulescan.py\<close>: the sorters are correct and complete with respect to acyclicity, \<open>find_cycles\<close>
    yields every simple cycle once up to rotation, and the sections of the modules come after those of their dependencies;
    all spellings of a smart pointer are read as the same type.
  \<^item> \<open>check-style.py\<close>: reading what was written gives the patch set back, the verdict
    of the checking mode is equality of source and indented copy, and what the blank filter restores.
  \<^item> \<open>grid.py\<close>: \<open>read_data\<close> keeps exactly the records of the input, what the queries return in each
    case, the selected range stays within the data under every sequence of events, scales and legend fit.
  \<^item> \<open>rad_util.py\<close>: correctness of the arithmetic, sequence and bit functions against
    definitions of the library (\<open>gcd\<close>, multisets, \<open>rotate\<close>, powers of two); a number is displayed as at least one and less than the next unit.
  \<^item> The build: the parser of the small shell is type safe and inverse to printing, running a pipeline is the evaluation of a script, also after the
    substitution of variables; \<open>relpath\<close> resolves, the scheduling loop of waf ends; substitution without a dictionary fails
    exactly for variables that the first file does not have; the generator of modules creates exactly its files, among them all that its \<open>wscript\<close> names.
  \<^item> Flow monitor: which files can be reported and that every statistics element ends in one flow.
  \<^item> Visualizer: the two threads do not deadlock, exclude each other, end after at most six steps of the simulation thread once the window is closed, and
    keep the time of the simulator within one second of the display; selection, links, icons and links to access points agree with the nodes in every
    reachable state; completion in the console gives the longest common prefix and where it loses the line; an update of the axes ends and shows four to nine marks on each of them, at most eighteen labels; the statistics of an interface
    are those of a window of ten samples.

  \<^bold>\<open>Conventions and bounds.\<close> An exception ends an operation without a state: what a handler
  changed before it raised is not recorded, since in the modelled programs nothing catches it and goes on (\<open>CreateModule\<close> keeps the tree).
  Python's integers are \<open>int\<close> or, where the program only has nonnegative ones, \<open>nat\<close>. No definition is cut off by
  fuel: a loop is a total function with a measure, or, where its end depends on the arguments (\<open>gcf\<close>, \<open>float_range\<close>, \<open>binary_range\<close>, the marks of an
  axis, the path of a header, the walk up the types of packets, the scheduling loop), a partial function whose missing value means that it does not return. The number of steps of the pool is bounded
  by five for each job and worker and one for the interrupt.

  \<^bold>\<open>What is not modelled.\<close> Windows, pointer shapes, and menus of the two viewers, which are
  calls of the toolkit, and the interpreter in the console; the command-line parsers (their result is a record or a list); \<open>read_waf_config\<close> of \<open>test.py\<close>, which executes a generated
  file; in \<open>rad_util.py\<close> \<open>timestamp\<close>, \<open>pt2str\<close> and \<open>getmodule\<close>. Generated bindings, PyBindGen and simulation
  scripts are left out: they are registration calls, third-party code and configurations of the simulator.
\<close>

text \<open>
  C1. The exit status of a whole run of \<open>test.py\<close>. Whatever the interleaving of the worker threads, when
  the run was not interrupted the status is zero exactly when every dispatched job, run on its
  own, passes or is skipped.
\<close>

theorem run_exit_status:
  assumes "list_all (\<lambda>j. \<not> is_break j) js"
    and "(pool_step ex cfg opt)\<^sup>*\<^sup>* (start_pool js n) p" and "joined p" and "\<not> thread_exit p"
    and "finish_tests fmt tmp cfg (length js) (collected p) = Inr (st, t)"
  shows "st = 0 \<longleftrightarrow> (\<forall>j \<in> set js. job_status (job_result ex cfg opt j) \<in> {PASS, SKIP})"
proof -
  have m: "mset (collected p) = mset (map (job_result ex cfg opt) js)"
    using joined_delivered [OF assms(1-3)] assms(4) by simp
  then have len: "length (collected p) = length js" by (metis length_map mset_eq_length)
  have set: "set (collected p) = job_result ex cfg opt ` set js" by (metis list.set_map m mset_eq_setD)
  have nb: "\<not> is_break (job_result ex cfg opt j)" if "j \<in> set js" for j
    using assms(1) that by (auto simp: list_all_iff job_result_def launch_job_def set_elapsed_time_def
        set_returncode_def case_prod_beta)
  show ?thesis using accounting [OF assms(5)] len nb unfolding set by auto
qed

theorem run_exit_status_witness:
  "\<exists>st t. finish_tests (\<lambda>x. ''0.000'') (\<lambda>f. None) demo_cfg 1 [demo_done] = Inr (st, t)
     \<and> (st = 0 \<longleftrightarrow> job_status (job_result demo_exec demo_cfg default_options demo_job) \<in> {PASS, SKIP})"
proof -
  obtain st t where r: "finish_tests (\<lambda>x. ''0.000'') (\<lambda>f. None) demo_cfg (length [demo_job])
      (collected (demo_state [] [] Exited [] [demo_done])) = Inr (st, t)"
    by (simp add: finish_tests_def collect_all_def collect_job_def launch_job_def demo_job_def
        Job_init_def set_returncode_def set_elapsed_time_def case_prod_beta Let_def demo_state_def)
  have "list_all (\<lambda>j. \<not> is_break j) [demo_job]" "\<not> thread_exit (demo_state [] [] Exited [] [demo_done])"
    by (simp_all add: demo_job_def Job_init_def demo_state_def)
  from run_exit_status [OF this(1) demo_reaches demo_joined this(2) r] r show ?thesis
    by (simp add: demo_state_def)
qed

end
